(* ===== verification/Prelude.thy ===== *)
theory Prelude
  imports Main
begin

text \<open>
  Shared vocabulary of the development: the transaction monad in which the database
  handlers are written, the four row operations of a database table (a table is the list
  of its rows in insertion order), the relational rules by which a property of single
  steps is lifted to whole transactions, and the laws of keyed tables.
\<close>

named_theorems tx_simps \<open>unfolding rules of the transaction monad\<close>
named_theorems table_simps \<open>row operations seen through membership, keys and lookup\<close>

section \<open>Transactions: state, error and result\<close>

text \<open>
  A transaction reads and writes a state and either fails with an error, in which case the
  database keeps its state, or returns a value and the new state.
\<close>

type_synonym ('s, 'e, 'a) tx = "'s \<Rightarrow> 'e + 'a \<times> 's"

definition tx_return :: "'a \<Rightarrow> ('s, 'e, 'a) tx" where
  "tx_return a = (\<lambda>s. Inr (a, s))"

definition tx_throw :: "'e \<Rightarrow> ('s, 'e, 'a) tx" where
  "tx_throw e = (\<lambda>s. Inl e)"

definition tx_bind :: "('s, 'e, 'a) tx \<Rightarrow> ('a \<Rightarrow> ('s, 'e, 'b) tx) \<Rightarrow> ('s, 'e, 'b) tx" where
  "tx_bind m f = (\<lambda>s. case m s of Inl e \<Rightarrow> Inl e | Inr r \<Rightarrow> f (fst r) (snd r))"

definition tx_gets :: "('s \<Rightarrow> 'a) \<Rightarrow> ('s, 'e, 'a) tx" where
  "tx_gets g = (\<lambda>s. Inr (g s, s))"

definition tx_catch :: "('s, 'e, 'a) tx \<Rightarrow> ('e \<Rightarrow> ('s, 'e, 'a) tx) \<Rightarrow> ('s, 'e, 'a) tx" where
  "tx_catch m h = (\<lambda>s. case m s of Inl e \<Rightarrow> h e s | Inr r \<Rightarrow> Inr r)"

text \<open>Committing a transaction: a thrown error rolls every write back.\<close>

definition commit :: "('s, 'e, 'a) tx \<Rightarrow> 's \<Rightarrow> ('e + 'a) \<times> 's" where
  "commit m s = (case m s of Inl e \<Rightarrow> (Inl e, s) | Inr r \<Rightarrow> (Inr (fst r), snd r))"

lemma tx_return_run [simp, tx_simps]: "tx_return a s = Inr (a, s)"
  by (simp add: tx_return_def)

lemma tx_throw_run [simp, tx_simps]: "tx_throw e s = Inl e"
  by (simp add: tx_throw_def)

lemma tx_gets_run [simp, tx_simps]: "tx_gets g s = Inr (g s, s)"
  by (simp add: tx_gets_def)

lemma tx_bind_run [tx_simps]:
  "tx_bind m f s = (case m s of Inl e \<Rightarrow> Inl e | Inr r \<Rightarrow> f (fst r) (snd r))"
  by (simp add: tx_bind_def)

lemma tx_bind_Inr:
  "tx_bind m f s = Inr (b, s'') \<longleftrightarrow> (\<exists>a s'. m s = Inr (a, s') \<and> f a s' = Inr (b, s''))"
  by (auto simp: tx_bind_def split: sum.splits)

lemma tx_bind_InrE [elim]:
  assumes "tx_bind m f s = Inr (b, s'')"
  obtains a s' where "m s = Inr (a, s')" and "f a s' = Inr (b, s'')"
  using assms by (auto simp: tx_bind_Inr)

lemma tx_catch_Inr:
  "tx_catch m h s = Inr r \<longleftrightarrow> m s = Inr r \<or> (\<exists>e. m s = Inl e \<and> h e s = Inr r)"
  by (auto simp: tx_catch_def split: sum.splits)

lemma commit_error: "m s = Inl e \<Longrightarrow> commit m s = (Inl e, s)"
  by (simp add: commit_def)

lemma commit_value: "m s = Inr (a, s') \<Longrightarrow> commit m s = (Inr a, s')"
  by (simp add: commit_def)

subsection \<open>Programs of several steps\<close>

text \<open>
  Code outside a transaction runs one statement at a time: a failure keeps what the earlier
  statements wrote, and between two statements other clients may change the state, which is
  the step \<open>prog_env\<close>. A whole transaction is one statement, \<open>prog_tx\<close>.
\<close>

type_synonym ('s, 'e, 'a) prog = "'s \<Rightarrow> ('e + 'a) \<times> 's"

definition prog_return :: "'a \<Rightarrow> ('s, 'e, 'a) prog" where
  "prog_return a = (\<lambda>s. (Inr a, s))"

definition prog_throw :: "'e \<Rightarrow> ('s, 'e, 'a) prog" where
  "prog_throw e = (\<lambda>s. (Inl e, s))"

definition prog_bind :: "('s, 'e, 'a) prog \<Rightarrow> ('a \<Rightarrow> ('s, 'e, 'b) prog) \<Rightarrow> ('s, 'e, 'b) prog" where
  "prog_bind m f = (\<lambda>s. case m s of (Inl e, s') \<Rightarrow> (Inl e, s') | (Inr a, s') \<Rightarrow> f a s')"

definition prog_gets :: "('s \<Rightarrow> 'a) \<Rightarrow> ('s, 'e, 'a) prog" where
  "prog_gets g = (\<lambda>s. (Inr (g s), s))"

definition prog_tx :: "('s, 'e, 'a) tx \<Rightarrow> ('s, 'e, 'a) prog" where
  "prog_tx m = commit m"

definition prog_env :: "('s \<Rightarrow> 's) \<Rightarrow> ('s, 'e, unit) prog" where
  "prog_env env = (\<lambda>s. (Inr (), env s))"

definition prog_catch :: "('s, 'e, 'a) prog \<Rightarrow> ('e \<Rightarrow> ('s, 'e, 'a) prog) \<Rightarrow> ('s, 'e, 'a) prog" where
  "prog_catch m h = (\<lambda>s. case m s of (Inl e, s') \<Rightarrow> h e s' | (Inr a, s') \<Rightarrow> (Inr a, s'))"

lemma prog_return_run [simp, tx_simps]: "prog_return a s = (Inr a, s)"
  by (simp add: prog_return_def)

lemma prog_throw_run [simp, tx_simps]: "prog_throw e s = (Inl e, s)"
  by (simp add: prog_throw_def)

lemma prog_gets_run [simp, tx_simps]: "prog_gets g s = (Inr (g s), s)"
  by (simp add: prog_gets_def)

lemma prog_env_run [simp, tx_simps]: "prog_env env s = (Inr (), env s)"
  by (simp add: prog_env_def)

lemma prog_tx_run [tx_simps]:
  "prog_tx m s = (case m s of Inl e \<Rightarrow> (Inl e, s) | Inr r \<Rightarrow> (Inr (fst r), snd r))"
  by (simp add: prog_tx_def commit_def)

lemma prog_bind_run [tx_simps]:
  "prog_bind m f s = (case m s of (Inl e, s') \<Rightarrow> (Inl e, s') | (Inr a, s') \<Rightarrow> f a s')"
  by (simp add: prog_bind_def)

lemma prog_bind_Inr:
  "prog_bind m f s = (Inr b, s'') \<longleftrightarrow> (\<exists>a s'. m s = (Inr a, s') \<and> f a s' = (Inr b, s''))"
  by (auto simp: prog_bind_def split: prod.splits sum.splits)

lemma prog_tx_Inr: "prog_tx m s = (Inr a, s') \<longleftrightarrow> m s = Inr (a, s')"
  by (auto simp: prog_tx_run split: sum.splits)

text \<open>A relation between the states before and after every run.\<close>

definition prog_rel :: "('s \<Rightarrow> 's \<Rightarrow> bool) \<Rightarrow> ('s, 'e, 'a) prog \<Rightarrow> bool" where
  "prog_rel R m \<longleftrightarrow> (\<forall>s. R s (snd (m s)))"

lemma prog_relD: "prog_rel R m \<Longrightarrow> m s = (v, s') \<Longrightarrow> R s s'"
  by (metis prog_rel_def snd_conv)

text \<open>A relation between the states before and after every successful run.\<close>

definition tx_rel :: "('s \<Rightarrow> 's \<Rightarrow> bool) \<Rightarrow> ('s, 'e, 'a) tx \<Rightarrow> bool" where
  "tx_rel R m \<longleftrightarrow> (\<forall>s a s'. m s = Inr (a, s') \<longrightarrow> R s s')"

lemma tx_relI: "(\<And>s a s'. m s = Inr (a, s') \<Longrightarrow> R s s') \<Longrightarrow> tx_rel R m"
  by (simp add: tx_rel_def)

lemma tx_relD: "tx_rel R m \<Longrightarrow> m s = Inr (a, s') \<Longrightarrow> R s s'"
  by (simp add: tx_rel_def)

text \<open>
  Any preorder on states is a contract that composes: if every row operation of a handler
  respects it then so does the handler. The instances are the invariants of the database
  and the histories of a run (its status may only move along certain edges, and so on).
\<close>

locale state_preorder =
  fixes R :: "'s \<Rightarrow> 's \<Rightarrow> bool"
  assumes refl_state: "R s s"
    and trans_state: "R s t \<Longrightarrow> R t u \<Longrightarrow> R s u"
begin

lemma rel_return: "tx_rel R (tx_return a)"
  by (simp add: tx_rel_def refl_state)

lemma rel_throw: "tx_rel R (tx_throw e)"
  by (simp add: tx_rel_def)

lemma rel_gets: "tx_rel R (tx_gets g)"
  by (simp add: tx_rel_def refl_state)

lemma rel_bind:
  assumes "tx_rel R m" and "\<And>a. tx_rel R (f a)"
  shows "tx_rel R (tx_bind m f)"
proof (rule tx_relI)
  fix s b s'' assume "tx_bind m f s = Inr (b, s'')"
  then obtain a s' where "m s = Inr (a, s')" and "f a s' = Inr (b, s'')" by auto
  with assms show "R s s''" by (blast dest: tx_relD intro: trans_state)
qed

lemma rel_if: "tx_rel R m \<Longrightarrow> tx_rel R n \<Longrightarrow> tx_rel R (if b then m else n)"
  by simp

lemma rel_option:
  "tx_rel R m \<Longrightarrow> (\<And>x. tx_rel R (f x)) \<Longrightarrow> tx_rel R (case v of None \<Rightarrow> m | Some x \<Rightarrow> f x)"
  by (cases v) simp_all

lemma rel_list:
  "tx_rel R m \<Longrightarrow> (\<And>x xs. tx_rel R (f x xs)) \<Longrightarrow>
   tx_rel R (case v of [] \<Rightarrow> m | x # xs \<Rightarrow> f x xs)"
  by (cases v) simp_all

lemma rel_catch:
  assumes "tx_rel R m" and "\<And>e. tx_rel R (h e)"
  shows "tx_rel R (tx_catch m h)"
  using assms by (auto simp: tx_rel_def tx_catch_Inr)

lemma rel_let: "(\<And>x. tx_rel R (f x)) \<Longrightarrow> tx_rel R (Let v f)"
  by (simp add: Let_def)

lemma prel_return: "prog_rel R (prog_return a)"
  by (simp add: prog_rel_def refl_state)

lemma prel_throw: "prog_rel R (prog_throw e)"
  by (simp add: prog_rel_def refl_state)

lemma prel_gets: "prog_rel R (prog_gets g)"
  by (simp add: prog_rel_def refl_state)

lemma prel_tx: "tx_rel R m \<Longrightarrow> prog_rel R (prog_tx m)"
  by (auto simp: prog_rel_def prog_tx_run tx_rel_def refl_state split: sum.split)

lemma prel_bind:
  assumes "prog_rel R m" and "\<And>a. prog_rel R (f a)"
  shows "prog_rel R (prog_bind m f)"
  unfolding prog_rel_def prog_bind_run
proof
  fix s
  show "R s (snd (case m s of (Inl e, s') \<Rightarrow> (Inl e, s') | (Inr a, s') \<Rightarrow> f a s'))"
  proof (cases "m s")
    case (Pair v s')
    then have "R s s'" using assms(1) by (rule_tac prog_relD)
    with Pair assms(2) show ?thesis
      by (cases v) (auto simp: prog_rel_def intro: trans_state)
  qed
qed

lemma prel_catch:
  assumes "prog_rel R m" and "\<And>e. prog_rel R (h e)"
  shows "prog_rel R (prog_catch m h)"
  unfolding prog_rel_def prog_catch_def
proof
  fix s
  show "R s (snd (case m s of (Inl e, s') \<Rightarrow> h e s' | (Inr a, s') \<Rightarrow> (Inr a, s')))"
  proof (cases "m s")
    case (Pair v s')
    then have "R s s'" using assms(1) by (rule_tac prog_relD)
    with Pair assms(2) show ?thesis
      by (cases v) (auto simp: prog_rel_def intro: trans_state)
  qed
qed

lemma prel_if: "prog_rel R m \<Longrightarrow> prog_rel R n \<Longrightarrow> prog_rel R (if b then m else n)"
  by simp

lemma prel_option:
  "prog_rel R m \<Longrightarrow> (\<And>x. prog_rel R (f x)) \<Longrightarrow>
   prog_rel R (case v of None \<Rightarrow> m | Some x \<Rightarrow> f x)"
  by (cases v) simp_all

lemma prel_prod: "(\<And>a b. prog_rel R (g a b)) \<Longrightarrow> prog_rel R (case v of (a, b) \<Rightarrow> g a b)"
  by (cases v) simp

lemma prel_let: "(\<And>x. prog_rel R (f x)) \<Longrightarrow> prog_rel R (Let v f)"
  by (simp add: Let_def)

lemmas prel_rules = prel_return prel_throw prel_gets prel_tx prel_bind prel_catch prel_if
  prel_option prel_prod prel_let

lemmas rel_rules = rel_return rel_throw rel_gets rel_bind rel_if rel_option rel_list
  rel_catch rel_let

lemma rel_commit: "tx_rel R m \<Longrightarrow> R s (snd (commit m s))"
  by (cases "m s") (auto simp: commit_def refl_state dest: tx_relD)

end

text \<open>The preservation of a predicate is such a preorder.\<close>

definition keeps :: "('s \<Rightarrow> bool) \<Rightarrow> 's \<Rightarrow> 's \<Rightarrow> bool" where
  "keeps P s s' \<longleftrightarrow> (P s \<longrightarrow> P s')"

lemma keeps_state_preorder: "state_preorder (keeps P)"
  by unfold_locales (auto simp: keeps_def)

section \<open>Tables\<close>

text \<open>
  The calls of the database client: \<open>updateMany\<close> and \<open>deleteMany\<close> return how many rows
  matched, \<open>findFirst\<close> and \<open>findUnique\<close> the first matching row if there is one,
  \<open>findMany\<close> all of them; \<open>create\<close> appends a row.
\<close>

definition updateMany :: "('r \<Rightarrow> bool) \<Rightarrow> ('r \<Rightarrow> 'r) \<Rightarrow> 'r list \<Rightarrow> 'r list" where
  "updateMany p f rs = map (\<lambda>r. if p r then f r else r) rs"

definition countMany :: "('r \<Rightarrow> bool) \<Rightarrow> 'r list \<Rightarrow> nat" where
  "countMany p rs = length (filter p rs)"

definition deleteMany :: "('r \<Rightarrow> bool) \<Rightarrow> 'r list \<Rightarrow> 'r list" where
  "deleteMany p rs = filter (\<lambda>r. \<not> p r) rs"

lemma countMany_0 [simp]: "countMany p rs = 0 \<longleftrightarrow> (\<forall>r \<in> set rs. \<not> p r)"
  by (simp add: countMany_def filter_empty_conv)

lemma countMany_pos: "countMany p rs = Suc n \<Longrightarrow> \<exists>r \<in> set rs. p r"
  by (metis countMany_0 nat.distinct(1))

lemma set_updateMany [table_simps]:
  "set (updateMany p f rs) = (\<lambda>r. if p r then f r else r) ` set rs"
  by (simp add: updateMany_def)

lemma set_deleteMany [table_simps]: "set (deleteMany p rs) = {r \<in> set rs. \<not> p r}"
  by (auto simp: deleteMany_def)

lemma length_updateMany [simp, table_simps]: "length (updateMany p f rs) = length rs"
  by (simp add: updateMany_def)

lemma map_updateMany:
  "(\<And>r. k (f r) = k r) \<Longrightarrow> map k (updateMany p f rs) = map k rs"
  by (simp add: updateMany_def comp_def if_distrib cong: if_cong)

text \<open>What an update leaves unchanged, some row has after it if some row had it before.\<close>

lemma bex_updateMany:
  assumes "\<And>r. P (f r) = P r"
  shows "(\<exists>r \<in> set (updateMany p f rs). P r) \<longleftrightarrow> (\<exists>r \<in> set rs. P r)"
  by (induction rs) (auto simp: updateMany_def assms)

lemma updateMany_none: "(\<And>r. r \<in> set rs \<Longrightarrow> \<not> p r) \<Longrightarrow> updateMany p f rs = rs"
  by (simp add: updateMany_def map_idI)

lemma updateMany_count0: "countMany p rs = 0 \<Longrightarrow> updateMany p f rs = rs"
  by (simp add: updateMany_none)

lemma find_SomeD: "find p rs = Some r \<Longrightarrow> r \<in> set rs \<and> p r"
  by (auto simp: find_Some_iff)

lemma find_None_ball: "find p rs = None \<longleftrightarrow> (\<forall>r \<in> set rs. \<not> p r)"
  by (auto simp: find_None_iff)

lemma find_append: "find p (xs @ ys) = (case find p xs of None \<Rightarrow> find p ys | Some x \<Rightarrow> Some x)"
  by (induction xs) auto

text \<open>An update that matched exactly one row replaces that row.\<close>

definition replaced_one :: "('r \<Rightarrow> bool) \<Rightarrow> ('r \<Rightarrow> 'r) \<Rightarrow> 'r list \<Rightarrow> 'r list \<Rightarrow> bool" where
  "replaced_one p f rs rs' \<longleftrightarrow> (\<exists>us r vs. rs = us @ r # vs \<and> p r \<and>
     (\<forall>x \<in> set us \<union> set vs. \<not> p x) \<and> rs' = us @ f r # vs)"

lemma count_one_split:
  "countMany p rs = 1 \<Longrightarrow> \<exists>us r vs. rs = us @ r # vs \<and> p r \<and> (\<forall>x \<in> set us \<union> set vs. \<not> p x)"
proof (induction rs)
  case (Cons r rs)
  show ?case
  proof (cases "p r")
    case True
    with Cons.prems have "\<forall>x \<in> set rs. \<not> p x" by (simp add: countMany_def filter_empty_conv)
    with True show ?thesis by (intro exI [of _ "[]"] exI [of _ r] exI [of _ rs]) simp
  next
    case False
    with Cons obtain us q vs where "rs = us @ q # vs" "p q" "\<forall>x \<in> set us \<union> set vs. \<not> p x"
      by (auto simp: countMany_def)
    with False show ?thesis by (intro exI [of _ "r # us"] exI [of _ q] exI [of _ vs]) auto
  qed
qed (simp add: countMany_def)

lemma updateMany_one:
  assumes "countMany p rs = 1"
  shows "replaced_one p f rs (updateMany p f rs)"
proof -
  obtain us r vs where rs: "rs = us @ r # vs" and r: "p r" and n: "\<forall>x \<in> set us \<union> set vs. \<not> p x"
    using count_one_split [OF assms] by blast
  have "updateMany p f us = us" "updateMany p f vs = vs"
    using n by (auto intro!: updateMany_none)
  then have "updateMany p f rs = us @ f r # vs" using r by (simp add: rs updateMany_def)
  then show ?thesis unfolding replaced_one_def using rs r n by blast
qed

subsection \<open>Keyed tables\<close>

text \<open>
  Every table has a primary key. What the operations rely on is stated once: rows with
  equal keys are equal, an update by key touches at most one row, and updates that leave
  the key alone keep the table keyed.
\<close>

locale keyed_table =
  fixes key :: "'r \<Rightarrow> 'k"
begin

lemma row_unique:
  "distinct (map key rs) \<Longrightarrow> r \<in> set rs \<Longrightarrow> r' \<in> set rs \<Longrightarrow> key r = key r' \<Longrightarrow> r = r'"
  by (simp add: distinct_map inj_on_def)

lemma count_by_key:
  assumes "distinct (map key rs)"
  shows "countMany (\<lambda>r. key r = k \<and> p r) rs \<le> 1"
  using assms
proof (induction rs)
  case (Cons r rs)
  show ?case
  proof (cases "key r = k")
    case True
    with Cons.prems have "\<forall>r' \<in> set rs. key r' \<noteq> k" by (auto simp: image_iff)
    then have "filter (\<lambda>r. key r = k \<and> p r) rs = []" by (simp add: filter_empty_conv)
    then show ?thesis by (simp add: countMany_def)
  next
    case False
    with Cons show ?thesis by (simp add: countMany_def)
  qed
qed (simp add: countMany_def)

lemma find_by_key:
  assumes "distinct (map key rs)" and "r \<in> set rs"
  shows "find (\<lambda>x. key x = key r) rs = Some r"
proof -
  obtain r' where "find (\<lambda>x. key x = key r) rs = Some r'"
    using assms(2) by (cases "find (\<lambda>x. key x = key r) rs") (auto simp: find_None_ball)
  moreover from this have "r' \<in> set rs" and "key r' = key r"
    by (auto dest: find_SomeD)
  ultimately show ?thesis using assms row_unique by fastforce
qed

lemma find_unique:
  assumes "distinct (map key rs)" and "find (\<lambda>r. key r = k) rs = Some q"
  shows "x \<in> set rs \<and> key x = k \<longleftrightarrow> x = q"
proof -
  have q: "q \<in> set rs" "key q = k" using find_SomeD [OF assms(2)] by auto
  have "inj_on key (set rs)" using assms(1) by (simp add: distinct_map)
  then show ?thesis using q by (metis inj_onD)
qed

lemma count_found:
  assumes "distinct (map key rs)" and "find (\<lambda>r. key r = k) rs = Some q" and "\<And>x. p x \<Longrightarrow> key x = k"
  shows "countMany p rs = (if p q then 1 else 0)"
proof -
  have q: "q \<in> set rs" using find_SomeD [OF assms(2)] by auto
  have only: "\<forall>x \<in> set rs. p x \<longrightarrow> x = q"
    using assms(3) find_unique [OF assms(1,2)] by blast
  have sub: "set (filter p rs) = (if p q then {q} else {})"
  proof (cases "p q")
    case True
    with only q have "{x \<in> set rs. p x} = {q}" by blast
    with True show ?thesis by simp
  next
    case False
    with only have "{x \<in> set rs. p x} = {}" by blast
    with False show ?thesis by simp
  qed
  have "distinct (filter p rs)" using assms(1) by (simp add: distinct_map)
  then have "length (filter p rs) = card (set (filter p rs))" by (simp only: distinct_card)
  then show ?thesis unfolding countMany_def sub by simp
qed

lemma find_update:
  assumes "\<And>r. key (f r) = key r"
  shows "find (\<lambda>r. key r = k) (updateMany p f rs) =
    map_option (\<lambda>r. if p r then f r else r) (find (\<lambda>r. key r = k) rs)"
  by (induction rs) (auto simp: updateMany_def assms)

lemma distinct_update:
  "(\<And>r. key (f r) = key r) \<Longrightarrow> distinct (map key (updateMany p f rs)) = distinct (map key rs)"
  by (simp add: map_updateMany)

lemma distinct_delete: "distinct (map key rs) \<Longrightarrow> distinct (map key (deleteMany p rs))"
  by (simp add: deleteMany_def distinct_map_filter)

lemma distinct_create:
  "distinct (map key rs) \<Longrightarrow> key r \<notin> key ` set rs \<Longrightarrow> distinct (map key (rs @ [r]))"
  by simp

end

lemma sorted_last: "sorted (map key xs) \<Longrightarrow> x \<in> set xs \<Longrightarrow> key x \<le> (key (last xs) :: 'k :: linorder)"
  by (induction xs) auto

end
