(* ===== verification/JsString.thy ===== *)
theory JsString
  imports Prelude
begin

text \<open>
  The string and number operations of JavaScript that the code calls. A \<open>string\<close> is the
  list of its UTF-16 code units, here all below 256: on such strings the definitions agree
  with the language. \<open>Number(s)\<close> is exact decimal arithmetic: a finite value \<open>m * 10^e\<close>
  is kept unrounded, which agrees with the double whenever that value is exactly
  representable (all counters and fences of the program are 32 bit integers).
\<close>

section \<open>White space, case, splitting\<close>

definition js_space :: "char \<Rightarrow> bool" where
  "js_space c \<longleftrightarrow> (let n = of_char c :: nat in (9 \<le> n \<and> n \<le> 13) \<or> n = 32 \<or> n = 160)"

definition js_trimStart :: "string \<Rightarrow> string" where
  "js_trimStart s = dropWhile js_space s"

definition js_trimEnd :: "string \<Rightarrow> string" where
  "js_trimEnd s = rev (dropWhile js_space (rev s))"

definition js_trim :: "string \<Rightarrow> string" where
  "js_trim s = js_trimEnd (js_trimStart s)"

definition js_lower_char :: "char \<Rightarrow> char" where
  "js_lower_char c = (let n = of_char c :: nat in
     if (65 \<le> n \<and> n \<le> 90) \<or> (192 \<le> n \<and> n \<le> 222 \<and> n \<noteq> 215) then char_of (n + 32) else c)"

definition js_lower :: "string \<Rightarrow> string" where
  "js_lower s = map js_lower_char s"

text \<open>\<open>s.split(c)\<close> for a separator of one code unit.\<close>

fun js_split :: "'c \<Rightarrow> 'c list \<Rightarrow> 'c list list" where
  "js_split d [] = [[]]"
| "js_split d (c # cs) =
     (if c = d then [] # js_split d cs
      else (case js_split d cs of [] \<Rightarrow> [[c]] | x # xs \<Rightarrow> (c # x) # xs))"

fun js_join :: "'c list \<Rightarrow> 'c list list \<Rightarrow> 'c list" where
  "js_join sep [] = []"
| "js_join sep [x] = x"
| "js_join sep (x # y # zs) = x @ sep @ js_join sep (y # zs)"

lemma js_split_not_Nil [simp]: "js_split d s \<noteq> []"
  by (induction s) (auto split: list.splits)

lemma js_join_split: "js_join [d] (js_split d s) = s"
proof (induction s)
  case (Cons c cs)
  obtain x xs where eq: "js_split d cs = x # xs"
    by (cases "js_split d cs") auto
  show ?case using Cons by (cases xs) (auto simp: eq)
qed simp

lemma js_split_no_sep: "x \<in> set (js_split d s) \<Longrightarrow> d \<notin> set x"
proof (induction s arbitrary: x)
  case (Cons c cs)
  obtain y ys where eq: "js_split d cs = y # ys"
    by (cases "js_split d cs") auto
  show ?case using Cons by (auto simp: eq split: if_splits)
qed simp

lemma js_split_id: "d \<notin> set s \<Longrightarrow> js_split d s = [s]"
  by (induction s) auto

lemma js_split_append_sep:
  "d \<notin> set s \<Longrightarrow> js_split d (s @ d # t) = s # js_split d t"
  by (induction s) auto

lemma js_join_append:
  "xs \<noteq> [] \<Longrightarrow> ys \<noteq> [] \<Longrightarrow> js_join sep (xs @ ys) = js_join sep xs @ sep @ js_join sep ys"
proof (induction sep xs rule: js_join.induct)
  case (2 sep x)
  then show ?case by (cases ys) auto
qed auto

lemma js_split_append: "js_split d (u @ d # v) = js_split d u @ js_split d v"
proof (induction u)
  case (Cons c u)
  then show ?case by (cases "js_split d u") auto
qed simp

text \<open>The parts of a split are the maximal pieces without the separator.\<close>

lemma js_split_word:
  "w \<in> set (js_split d s) \<longleftrightarrow> d \<notin> set w \<and>
     (\<exists>a b. s = a @ w @ b \<and> (a = [] \<or> last a = d) \<and> (b = [] \<or> hd b = d))" (is "?l \<longleftrightarrow> ?r")
proof
  assume l: ?l
  then obtain xs ys where eq: "js_split d s = xs @ w # ys" by (meson split_list)
  define a where "a = (if xs = [] then [] else js_join [d] xs @ [d])"
  define b where "b = (if ys = [] then [] else d # js_join [d] ys)"
  have "js_join [d] (w # ys) = w @ b"
    unfolding b_def by (cases ys) auto
  then have "js_join [d] (xs @ w # ys) = a @ w @ b"
    unfolding a_def by (cases "xs = []") (auto simp: js_join_append)
  then have "s = a @ w @ b" using js_join_split [of d s] eq by simp
  moreover have "a = [] \<or> last a = d" "b = [] \<or> hd b = d" by (auto simp: a_def b_def)
  ultimately show ?r using js_split_no_sep [OF l] by blast
next
  assume ?r
  then obtain a b where w: "d \<notin> set w" and s: "s = a @ w @ b"
    and a: "a = [] \<or> last a = d" and b: "b = [] \<or> hd b = d" by blast
  have wb: "w \<in> set (js_split d (w @ b))"
    using b w by (cases b) (auto simp: js_split_id js_split_append)
  show ?l
  proof (cases "a = []")
    case False
    with a have "a = butlast a @ [d]" by (metis append_butlast_last_id)
    then have "s = butlast a @ d # (w @ b)" using s by (metis append.assoc append_Cons append_Nil)
    then show ?thesis using wb by (simp add: js_split_append)
  qed (use wb s in simp)
qed

lemma dropWhile_id: "(s = [] \<or> \<not> p (hd s)) \<Longrightarrow> dropWhile p s = s"
  by (cases s) auto

lemma js_trim_id:
  "s = [] \<or> (\<not> js_space (hd s) \<and> \<not> js_space (last s)) \<Longrightarrow> js_trim s = s"
  by (cases "s = []") (auto simp: js_trim_def js_trimEnd_def js_trimStart_def dropWhile_id hd_rev)

lemma js_trim_no_space: "\<forall>c \<in> set s. \<not> js_space c \<Longrightarrow> js_trim s = s"
  by (rule js_trim_id) auto

lemma js_trim_idem: "js_trim (js_trim s) = js_trim s"
proof -
  have "js_trim s = [] \<or> (\<not> js_space (hd (js_trim s)) \<and> \<not> js_space (last (js_trim s)))"
  proof (cases "js_trim s = []")
    case False
    let ?r = "dropWhile js_space (rev (dropWhile js_space s))"
    have r: "js_trim s = rev ?r" by (simp add: js_trim_def js_trimStart_def js_trimEnd_def)
    with False have "?r \<noteq> []" by simp
    then have "\<not> js_space (hd ?r)" by (rule hd_dropWhile)
    moreover have "last ?r = last (rev (dropWhile js_space s))" using \<open>?r \<noteq> []\<close> by (metis last_appendR takeWhile_dropWhile_id)
    moreover have "dropWhile js_space s \<noteq> []" using \<open>?r \<noteq> []\<close> by (metis dropWhile.simps(1) rev.simps(1))
    ultimately show ?thesis using \<open>?r \<noteq> []\<close> hd_dropWhile [of js_space s]
      by (simp add: r hd_rev last_rev)
  qed simp
  then show ?thesis by (rule js_trim_id)
qed

lemma dropWhile_idem: "dropWhile p (dropWhile p s) = dropWhile p s"
  by (metis dropWhile_id hd_dropWhile)

section \<open>Decimal numerals\<close>

definition digit_char :: "nat \<Rightarrow> char" where
  "digit_char d = char_of (48 + d)"

fun nat_string :: "nat \<Rightarrow> string" where
  "nat_string n = (if n < 10 then [digit_char n] else nat_string (n div 10) @ [digit_char (n mod 10)])"

declare nat_string.simps [simp del]

definition is_digit :: "char \<Rightarrow> bool" where
  "is_digit c \<longleftrightarrow> (let n = of_char c :: nat in 48 \<le> n \<and> n \<le> 57)"

definition digit_val :: "char \<Rightarrow> nat" where
  "digit_val c = of_char c - 48"

definition digits_val :: "string \<Rightarrow> nat" where
  "digits_val s = foldl (\<lambda>n c. 10 * n + digit_val c) 0 s"

lemma digit_char_digit: "d < 10 \<Longrightarrow> is_digit (digit_char d)"
  by (simp add: digit_char_def is_digit_def)

lemma digit_val_char: "d < 10 \<Longrightarrow> digit_val (digit_char d) = d"
  by (simp add: digit_char_def digit_val_def)

lemma is_digit_not_space: "is_digit c \<Longrightarrow> \<not> js_space c"
  by (auto simp: is_digit_def js_space_def Let_def)

lemma nat_string_not_Nil [simp]: "nat_string n \<noteq> []"
  by (subst nat_string.simps) simp

lemma nat_string_digits: "\<forall>c \<in> set (nat_string n). is_digit c"
proof (induction n rule: nat_string.induct)
  case (1 n)
  then show ?case by (subst nat_string.simps) (auto simp: digit_char_digit)
qed

lemma digits_val_snoc: "digits_val (s @ [c]) = 10 * digits_val s + digit_val c"
  by (simp add: digits_val_def)

lemma digits_val_nat_string [simp]: "digits_val (nat_string n) = n"
proof (induction n rule: nat_string.induct)
  case (1 n)
  show ?case
  proof (cases "n < 10")
    case True
    then show ?thesis
      by (subst nat_string.simps) (simp add: digits_val_def digit_val_char)
  next
    case False
    with 1 show ?thesis
      by (subst nat_string.simps) (simp add: digits_val_snoc digit_val_char)
  qed
qed

lemma nat_string_inj: "nat_string m = nat_string n \<longleftrightarrow> m = n"
  by (metis digits_val_nat_string)

section \<open>Number conversion\<close>

text \<open>\<open>Number(s)\<close>: \<open>Fin m e\<close> is the value \<open>m * 10^e\<close>.\<close>

datatype js_num = NaN | Infinite bool | Fin int int

definition span_digits :: "string \<Rightarrow> string \<times> string" where
  "span_digits s = (takeWhile is_digit s, dropWhile is_digit s)"

definition js_exponent :: "string \<Rightarrow> int option" where
  "js_exponent s = (case s of
     [] \<Rightarrow> Some 0
   | c # r \<Rightarrow> if c = CHR ''e'' \<or> c = CHR ''E''
       then (let neg = (r \<noteq> [] \<and> hd r = CHR ''-'');
                 ds = (if r \<noteq> [] \<and> (hd r = CHR ''-'' \<or> hd r = CHR ''+'') then tl r else r)
             in if ds \<noteq> [] \<and> list_all is_digit ds
                then Some ((if neg then - 1 else 1) * int (digits_val ds)) else None)
       else None)"

definition js_unsigned :: "string \<Rightarrow> js_num" where
  "js_unsigned s =
     (if s = ''Infinity'' then Infinite True
      else let (a, r) = span_digits s;
               (b, t) = (if r \<noteq> [] \<and> hd r = CHR ''.'' then span_digits (tl r) else ([], r))
           in if a = [] \<and> b = [] then NaN
              else (case js_exponent t of None \<Rightarrow> NaN
                    | Some e \<Rightarrow> Fin (int (digits_val (a @ b))) (e - int (length b))))"

definition js_negate :: "js_num \<Rightarrow> js_num" where
  "js_negate v = (case v of NaN \<Rightarrow> NaN | Infinite p \<Rightarrow> Infinite (\<not> p) | Fin m e \<Rightarrow> Fin (- m) e)"

definition radix_digit :: "nat \<Rightarrow> char \<Rightarrow> nat option" where
  "radix_digit b c = (let n = of_char c :: nat;
      v = (if 48 \<le> n \<and> n \<le> 57 then Some (n - 48)
           else if 97 \<le> n \<and> n \<le> 102 then Some (n - 87)
           else if 65 \<le> n \<and> n \<le> 70 then Some (n - 55) else None)
      in case v of None \<Rightarrow> None | Some d \<Rightarrow> if d < b then Some d else None)"

fun radix_val :: "nat \<Rightarrow> nat \<Rightarrow> string \<Rightarrow> nat option" where
  "radix_val b acc [] = Some acc"
| "radix_val b acc (c # cs) =
     (case radix_digit b c of None \<Rightarrow> None | Some d \<Rightarrow> radix_val b (b * acc + d) cs)"

definition js_radix :: "nat \<Rightarrow> string \<Rightarrow> js_num" where
  "js_radix b s = (if s = [] then NaN
     else case radix_val b 0 s of None \<Rightarrow> NaN | Some n \<Rightarrow> Fin (int n) 0)"

definition js_Number :: "string \<Rightarrow> js_num" where
  "js_Number s0 = (let s = js_trim s0; p = js_lower (take 2 s) in
     if s = [] then Fin 0 0
     else if p = ''0x'' then js_radix 16 (drop 2 s)
     else if p = ''0o'' then js_radix 8 (drop 2 s)
     else if p = ''0b'' then js_radix 2 (drop 2 s)
     else if hd s = CHR ''-'' then js_negate (js_unsigned (tl s))
     else if hd s = CHR ''+'' then js_unsigned (tl s)
     else js_unsigned s)"

text \<open>\<open>Number.isInteger\<close>, and the integer a value denotes when it is one.\<close>

definition js_int :: "js_num \<Rightarrow> int option" where
  "js_int v = (case v of NaN \<Rightarrow> None | Infinite _ \<Rightarrow> None
     | Fin m e \<Rightarrow> if 0 \<le> e then Some (m * 10 ^ nat e)
                  else if 10 ^ nat (- e) dvd m then Some (m div 10 ^ nat (- e)) else None)"

text \<open>The largest integer below a finite value; \<open>None\<close> when \<open>Number.isFinite\<close> is false.\<close>

definition js_floor :: "js_num \<Rightarrow> int option" where
  "js_floor v = (case v of NaN \<Rightarrow> None | Infinite _ \<Rightarrow> None
     | Fin m e \<Rightarrow> if 0 \<le> e then Some (m * 10 ^ nat e) else Some (m div 10 ^ nat (- e)))"

lemma takeWhile_all: "\<forall>c \<in> set s. p c \<Longrightarrow> takeWhile p s = s"
  by (simp add: takeWhile_eq_all_conv)

lemma js_unsigned_digits:
  assumes "s \<noteq> []" and d: "\<forall>c \<in> set s. is_digit c"
  shows "js_unsigned s = Fin (int (digits_val s)) 0"
proof -
  have "s \<noteq> ''Infinity''" using d by (auto simp: is_digit_def)
  moreover have "span_digits s = (s, [])"
    using d by (simp add: span_digits_def takeWhile_all)
  ultimately show ?thesis using assms(1) by (simp add: js_unsigned_def js_exponent_def)
qed

lemma js_Number_digits:
  assumes "s \<noteq> []" and d: "\<forall>c \<in> set s. is_digit c"
  shows "js_Number s = Fin (int (digits_val s)) 0"
proof -
  have t: "js_trim s = s" using d by (intro js_trim_no_space) (auto dest: is_digit_not_space)
  have td: "\<forall>c \<in> set (take 2 s). is_digit c" using d by (auto dest: in_set_takeD)
  have lower: "js_lower (take 2 s) = take 2 s"
    using d by (auto simp: js_lower_def js_lower_char_def is_digit_def Let_def
        intro!: map_idI dest!: in_set_takeD)
  have p: "take 2 s \<noteq> ''0x''" "take 2 s \<noteq> ''0o''" "take 2 s \<noteq> ''0b''"
    using td by (auto simp: is_digit_def)
  have h: "is_digit (hd s)" using assms by simp
  then have "hd s \<noteq> CHR ''-''" "hd s \<noteq> CHR ''+''" by (auto simp: is_digit_def)
  with t lower p assms show ?thesis by (simp add: js_Number_def js_unsigned_digits)
qed

lemma js_Number_nat_string: "js_Number (nat_string n) = Fin (int n) 0"
  by (simp add: js_Number_digits nat_string_digits)

lemma js_int_nat_string [simp]: "js_int (js_Number (nat_string n)) = Some (int n)"
  by (simp add: js_Number_nat_string js_int_def)

end
