(* ===== verification/RunState.thy ===== *)
theory RunState
  imports JsString
begin

text \<open>
  The status machine of a run (packages/core/src/run-state.ts) and the screen leases whose
  identifiers carry a run's fence (packages/core/src/screen-lease.ts).
\<close>

section \<open>Run status\<close>

datatype run_status = Queued | Leased | Running | WaitingInput | WaitingTakeover
  | Completed | Failed | Cancelled

definition ACTIVE_RUN_STATUSES :: "run_status list" where
  "ACTIVE_RUN_STATUSES = [Queued, Leased, Running, WaitingInput, WaitingTakeover]"

definition TERMINAL :: "run_status list" where
  "TERMINAL = [Completed, Failed, Cancelled]"

fun allowed :: "run_status \<Rightarrow> run_status list" where
  "allowed Queued = [Leased, Cancelled]"
| "allowed Leased = [Running, Queued, Cancelled]"
| "allowed Running = [WaitingInput, WaitingTakeover, Completed, Failed, Cancelled, Leased]"
| "allowed WaitingInput = [Queued, Leased, Cancelled]"
| "allowed WaitingTakeover = [Queued, Leased, Cancelled]"
| "allowed Completed = []"
| "allowed Failed = [Queued]"
| "allowed Cancelled = []"

definition canTransition :: "run_status \<Rightarrow> run_status \<Rightarrow> bool" where
  "canTransition from to \<longleftrightarrow> to \<in> set (allowed from)"

datatype transition_error = IllegalTransition run_status run_status

definition assertTransition :: "run_status \<Rightarrow> run_status \<Rightarrow> transition_error + unit" where
  "assertTransition from to =
     (if \<not> canTransition from to then Inl (IllegalTransition from to) else Inr ())"

definition isActive :: "run_status \<Rightarrow> bool" where
  "isActive s \<longleftrightarrow> s \<in> set ACTIVE_RUN_STATUSES"

definition isTerminal :: "run_status \<Rightarrow> bool" where
  "isTerminal s \<longleftrightarrow> s \<in> set TERMINAL"

definition nextFence :: "nat \<Rightarrow> nat" where
  "nextFence current = current + 1"

lemmas status_defs = canTransition_def isActive_def isTerminal_def ACTIVE_RUN_STATUSES_def
  TERMINAL_def

lemma active_iff_not_terminal: "isActive s \<longleftrightarrow> \<not> isTerminal s"
  by (cases s) (simp_all add: status_defs)

lemma isActive_simps [simp]:
  "isActive Queued" "isActive Leased" "isActive Running" "isActive WaitingInput"
  "isActive WaitingTakeover" "\<not> isActive Completed" "\<not> isActive Failed" "\<not> isActive Cancelled"
  by (simp_all add: status_defs)

lemma cancel_any_active: "isActive s \<longleftrightarrow> canTransition s Cancelled"
  by (cases s) (simp_all add: status_defs)

text \<open>
  Every path of the machine from a queued run to a completed one goes through running,
  and running is entered from leased only.
\<close>

definition not_yet_running :: "run_status \<Rightarrow> bool" where
  "not_yet_running s \<longleftrightarrow> s \<in> {Queued, Leased, Cancelled}"

text \<open>A path of the machine: each status follows from the one before it.\<close>

fun status_path :: "run_status list \<Rightarrow> bool" where
  "status_path [] = True"
| "status_path [s] = True"
| "status_path (s # t # ss) = (canTransition s t \<and> status_path (t # ss))"

lemma path_without_running:
  "status_path (s # ss) \<Longrightarrow> not_yet_running s \<Longrightarrow> Running \<notin> set (s # ss) \<Longrightarrow>
   not_yet_running (last (s # ss))"
proof (induction ss arbitrary: s)
  case (Cons t ss)
  then have "canTransition s t" and "t \<noteq> Running" and "status_path (t # ss)" by auto
  with Cons.prems have "not_yet_running t"
    by (cases s) (auto simp: not_yet_running_def canTransition_def)
  with Cons show ?case by auto
qed simp

lemma enter_running_from_leased: "canTransition s Running \<Longrightarrow> s = Leased"
  by (cases s) (simp_all add: canTransition_def)

lemma leased_before_running:
  "status_path (s # ss) \<Longrightarrow> s \<noteq> Running \<Longrightarrow> Running \<in> set (s # ss) \<Longrightarrow>
   \<exists>us vs. s # ss = us @ [Leased, Running] @ vs"
proof (induction ss arbitrary: s)
  case (Cons t ss)
  show ?case
  proof (cases "t = Running")
    case True
    with Cons.prems enter_running_from_leased have "s = Leased" by auto
    with True show ?thesis by (intro exI [of _ "[]"] exI [of _ ss]) simp
  next
    case False
    with Cons obtain us vs where "t # ss = us @ [Leased, Running] @ vs" by fastforce
    then show ?thesis by (intro exI [of _ "s # us"] exI [of _ vs]) simp
  qed
qed simp

section \<open>Screen leases\<close>

definition screenLeaseId :: "string \<Rightarrow> nat \<Rightarrow> string" where
  "screenLeaseId runId fence = runId @ '':'' @ nat_string fence"

definition js_lastIndexOf :: "'c \<Rightarrow> 'c list \<Rightarrow> int" where
  "js_lastIndexOf c s = (if c \<in> set s
     then int (length s) - 1 - int (length (takeWhile (\<lambda>x. x \<noteq> c) (rev s))) else - 1)"

text \<open>An owner and a fence; a lease id that does not parse is its own owner, with fence 0.\<close>

definition parseScreenLeaseId :: "string \<Rightarrow> string \<times> int" where
  "parseScreenLeaseId leaseId =
     (let separator = js_lastIndexOf CHR '':'' leaseId in
      if separator \<le> 0 then (leaseId, 0)
      else (case js_int (js_Number (drop (nat separator + 1) leaseId)) of
              None \<Rightarrow> (leaseId, 0)
            | Some fence \<Rightarrow>
                if fence < 0 then (leaseId, 0) else (take (nat separator) leaseId, fence)))"

text \<open>\<open>undefined\<close> and the empty string are both false.\<close>

definition truthy :: "string option \<Rightarrow> bool" where
  "truthy s \<longleftrightarrow> (case s of None \<Rightarrow> False | Some t \<Rightarrow> t \<noteq> [])"

definition canTakeScreenLease :: "string option \<Rightarrow> string option \<Rightarrow> bool" where
  "canTakeScreenLease existing incoming =
     (if \<not> truthy incoming then False
      else if \<not> truthy existing \<or> existing = incoming then True
      else snd (parseScreenLeaseId (the incoming)) > snd (parseScreenLeaseId (the existing)))"

definition canReleaseScreenLease :: "string option \<Rightarrow> string option \<Rightarrow> bool" where
  "canReleaseScreenLease existing incoming =
     (if \<not> truthy incoming \<or> \<not> truthy existing \<or> existing = incoming then True
      else (let current = parseScreenLeaseId (the existing);
                next = parseScreenLeaseId (the incoming)
            in fst next = fst current \<and> snd next \<ge> snd current))"

lemma truthy_simps [simp]: "\<not> truthy None" "truthy (Some s) \<longleftrightarrow> s \<noteq> []"
  by (simp_all add: truthy_def)

lemma js_lastIndexOf_snoc:
  assumes "c \<notin> set t"
  shows "js_lastIndexOf c (s @ c # t) = int (length s)"
proof -
  have "takeWhile (\<lambda>x. x \<noteq> c) (rev t @ c # rev s) = rev t"
    using assms by (simp add: takeWhile_append)
  then show ?thesis by (simp add: js_lastIndexOf_def)
qed

lemma colon_not_digit: "CHR '':'' \<notin> set (nat_string n)"
  using nat_string_digits [of n] by (auto simp: is_digit_def)

lemma parse_screen_lease:
  assumes "run \<noteq> []"
  shows "parseScreenLeaseId (screenLeaseId run fence) = (run, int fence)"
  using assms js_lastIndexOf_snoc [OF colon_not_digit, of run fence]
  by (simp add: parseScreenLeaseId_def screenLeaseId_def)

lemma screenLeaseId_not_Nil [simp]: "screenLeaseId run fence \<noteq> []"
  by (simp add: screenLeaseId_def)

lemma screenLeaseId_inj:
  assumes "run \<noteq> []" and "run' \<noteq> []"
  shows "screenLeaseId run f = screenLeaseId run' f' \<longleftrightarrow> run = run' \<and> f = f'"
proof
  assume "screenLeaseId run f = screenLeaseId run' f'"
  then have "parseScreenLeaseId (screenLeaseId run f) = parseScreenLeaseId (screenLeaseId run' f')"
    by simp
  with assms show "run = run' \<and> f = f'" by (simp add: parse_screen_lease)
qed simp

lemma take_screen_lease_of_runs:
  assumes "run \<noteq> []" and "run' \<noteq> []"
  shows "canTakeScreenLease (Some (screenLeaseId run f)) (Some (screenLeaseId run' f')) \<longleftrightarrow>
    f < f' \<or> screenLeaseId run f = screenLeaseId run' f'"
  using assms by (auto simp: canTakeScreenLease_def parse_screen_lease)

section \<open>Properties\<close>

text \<open>
  A run that starts out queued can reach \<open>completed\<close> only through \<open>leased\<close> followed
  directly by \<open>running\<close>: the transition table has no shortcut around the worker's claim.
\<close>

theorem completed_only_through_running:
  assumes "status_path (Queued # ss)" and "last (Queued # ss) = Completed"
  shows "\<exists>us vs. Queued # ss = us @ [Leased, Running] @ vs"
proof -
  have "Running \<in> set (Queued # ss)"
    using assms path_without_running [of Queued ss] by (force simp: not_yet_running_def)
  then show ?thesis using leased_before_running assms(1) by blast
qed

theorem completed_only_through_running_witness:
  "\<exists>us vs. [Queued, Leased, Queued, Leased, Running, WaitingInput, Leased, Running, Completed]
     = us @ [Leased, Running] @ vs"
  by (rule completed_only_through_running
      [of "[Leased, Queued, Leased, Running, WaitingInput, Leased, Running, Completed]"])
    (simp_all add: canTransition_def)

text \<open>
  Leases of runs on a screen are totally ordered by their fence: of two different leases
  at most one may take the screen from the other, so two runs never take it back and forth;
  and a lease that may release another one, of the same run, is never older than it.
\<close>

theorem screen_takeover_is_one_way:
  assumes "run \<noteq> []" and "run' \<noteq> []"
  shows "(canTakeScreenLease (Some (screenLeaseId run f)) (Some (screenLeaseId run' f'))
      \<and> canTakeScreenLease (Some (screenLeaseId run' f')) (Some (screenLeaseId run f))
        \<longleftrightarrow> run = run' \<and> f = f') \<and>
     (canReleaseScreenLease (Some (screenLeaseId run f)) (Some (screenLeaseId run' f'))
        \<longleftrightarrow> run = run' \<and> f \<le> f')"
  using assms by (auto simp: take_screen_lease_of_runs screenLeaseId_inj
      canReleaseScreenLease_def parse_screen_lease)

theorem screen_takeover_is_one_way_witness:
  "\<not> (canTakeScreenLease (Some (screenLeaseId ''a:1'' 3)) (Some (screenLeaseId ''b'' 4))
      \<and> canTakeScreenLease (Some (screenLeaseId ''b'' 4)) (Some (screenLeaseId ''a:1'' 3)))
   \<and> canReleaseScreenLease (Some (screenLeaseId ''a:1'' 3)) (Some (screenLeaseId ''a:1'' 4))"
  using screen_takeover_is_one_way [of "''a:1''" "''b''" 3 4]
    screen_takeover_is_one_way [of "''a:1''" "''a:1''" 3 4] by simp

text \<open>
  The identifier of a screen lease parses back to the run and the fence it was made of,
  for every run id, also one that contains the separator, and every fence.
\<close>

theorem screen_lease_roundtrip:
  assumes "run \<noteq> []"
  shows "parseScreenLeaseId (screenLeaseId run fence) = (run, int fence)"
  using assms by (rule parse_screen_lease)

theorem screen_lease_roundtrip_witness:
  "parseScreenLeaseId (screenLeaseId ''run:7'' 42) = (''run:7'', 42)"
  using screen_lease_roundtrip [of "''run:7''" 42] by simp

end
