(* ===== verification/Contracts.thy ===== *)
theory Contracts
  imports RunState
begin

text \<open>
  The data that crosses component borders: JSON values, the blocks of a chat message and
  the product events of a thread (packages/contracts/src/events.ts and ids.ts).
\<close>

section \<open>JSON\<close>

datatype json = JNull | JBool bool | JNum int | JStr string | JArr "json list"
  | JObj "(string \<times> json) list"

definition int_string :: "int \<Rightarrow> string" where
  "int_string i = (if i < 0 then CHR ''-'' # nat_string (nat (- i)) else nat_string (nat i))"

text \<open>\<open>String(v)\<close> of a JSON value: an array joins its items, null and missing ones as empty.\<close>

fun json_String :: "json \<Rightarrow> string" where
  "json_String JNull = ''null''"
| "json_String (JBool b) = (if b then ''true'' else ''false'')"
| "json_String (JNum i) = int_string i"
| "json_String (JStr s) = s"
| "json_String (JArr xs) =
     js_join '','' (map (\<lambda>x. case x of JNull \<Rightarrow> [] | _ \<Rightarrow> json_String x) xs)"
| "json_String (JObj _) = ''[object Object]''"

definition js_String :: "json option \<Rightarrow> string" where
  "js_String v = (case v of None \<Rightarrow> ''undefined'' | Some j \<Rightarrow> json_String j)"

section \<open>Message blocks\<close>

datatype ask_input = InputText | InputSecret
datatype ask_status = AskPending | AskAnswered
datatype connect_status = ConnectPending | Connected
datatype subagent_status = SubRunning | SubCompleted | SubFailed
datatype child_status = ChildCreated | ChildArchived | ChildDeleted
datatype draft_status = Draft | DraftSaved

record ask_block =
  ask_text :: string
  ask_approvalEffectId :: "string option"
  ask_detail :: "string option"
  ask_input :: "ask_input option"
  ask_status :: "ask_status option"
  ask_answer :: "string option"
  ask_actions :: "(string \<times> string) list option"

record subagent_block =
  sub_agentId :: string
  sub_name :: string
  sub_task :: string
  sub_status :: subagent_status
  sub_progress :: "string option"
  sub_result :: "string option"

record skill_playbook =
  pb_whenToUse :: string
  pb_inputs :: "string list"
  pb_steps :: "string list"
  pb_howToCheck :: string
  pb_whatToReturn :: string
  pb_approvalBoundaries :: string
  pb_failureHandling :: string

datatype message_block =
    TextBlock string
  | CardBlock "(string \<times> string) list"
  | AskBlock ask_block
  | ChoiceBlock string "string option" "(string \<times> string \<times> string) list" "string option"
  | AppConnectBlock string string string "string option" connect_status
  | ConnectBlock string string string connect_status
  | ComputerBlock string string
  | MetaBlock string
  | ProgressBlock string "string list option"
  | StepsBlock "(string \<times> nat) list"
  | SubagentBlock subagent_block
  | ChildBotBlock string string "string option" child_status
  | SkillDraftBlock string string string skill_playbook draft_status
  | ChartBlock string json "json list"
  | McpApprovalBlock string string string "string option" bool
  | ImageBlock string string string
  | FileBlock string string string nat
  | HandoffBlock string string string
  | BotMessageSentBlock string string string
  | BotMessageReceivedBlock string string string "nat option"

text \<open>
  The payload of an event is a JSON object. Its \<open>blocks\<close> member is kept as the list of
  blocks it encodes; \<open>None\<close> for a missing member is \<open>undefined\<close>.
\<close>

datatype pval = PJson json | PBlocks "message_block list"
type_synonym payload = "(string \<times> pval) list"

section \<open>Events, messages, runs\<close>

datatype role = RoleUser | RoleBot | RoleSystem

datatype event_type =
    ThreadMessageCreated | ThreadCleared | ThreadMessageUpdated | ThreadProgress
  | ThreadArtifact | ThreadAsk | ThreadChoice | ThreadMeta | ThreadComputer | ThreadSubagent
  | RunStarted | RunCheckpointed | RunWaitingInput | RunCompleted | RunFailed | RunCancelled
  | ComputerStatus | ComputerTakeoverRequested | ComputerTakeoverGranted
  | ComputerTakeoverReleased | MemoryRevised | RoutineCreated | RoutineUpdated | RoutineFired
  | SkillTeachingStarted | SkillTeachingStopped | SkillDraftCreated | SkillSaved
  | EffectRecorded | AgentToolCalled | EffectReconciled | UsageRecorded | BotSpawned
  | BotArchived | BotDeleted | GroupCreated | GroupUpdated | GroupHandoff

datatype run_trigger = TrigUser | TrigRoutine | TrigResume | TrigFollowUp | TrigSpawn
  | TrigSkill | TrigBotMessage | TrigSupport | TrigLinkBuilderReview
  | TrigSocialStreamsReview | TrigOutreachAction | TrigOutreachReview

definition role_string :: "role \<Rightarrow> string" where
  "role_string r = (case r of RoleUser \<Rightarrow> ''user'' | RoleBot \<Rightarrow> ''bot'' | RoleSystem \<Rightarrow> ''system'')"

text \<open>The payload \<open>{ messageId, role, blocks }\<close> of message events.\<close>

definition message_payload :: "string \<Rightarrow> role \<Rightarrow> message_block list \<Rightarrow> payload" where
  "message_payload mid r bs =
     [(''messageId'', PJson (JStr mid)), (''role'', PJson (JStr (role_string r))),
      (''blocks'', PBlocks bs)]"

end
