(* ===== verification/ActionApproval.thy ===== *)
theory ActionApproval
  imports Contracts
begin

text \<open>
  When a tool call needs the user's approval (packages/core/src/action-approval.ts) and which
  question of a thread is the one to answer (packages/core/src/answerable-ask.ts). The
  regular expressions are written out as matchers on strings; each is shown equal to a test
  on the words between underscores.
\<close>

section \<open>Matching\<close>

definition occurs_at :: "string \<Rightarrow> string \<Rightarrow> nat \<Rightarrow> bool" where
  "occurs_at w s i \<longleftrightarrow> take (length w) (drop i s) = w"

definition positions :: "string \<Rightarrow> nat list" where
  "positions s = [0..<Suc (length s)]"

definition occurs :: "string \<Rightarrow> string \<Rightarrow> bool" where
  "occurs w s \<longleftrightarrow> list_ex (occurs_at w s) (positions s)"

text \<open>\<open>(^|_)(w1|w2|...)(_|$)\<close>\<close>

definition word_pattern :: "string list \<Rightarrow> string \<Rightarrow> bool" where
  "word_pattern ws s \<longleftrightarrow> list_ex (\<lambda>i. (i = 0 \<or> s ! (i - 1) = CHR ''_'') \<and>
     list_ex (\<lambda>w. occurs_at w s i \<and>
       (i + length w = length s \<or> (i + length w < length s \<and> s ! (i + length w) = CHR ''_''))) ws)
     (positions s)"

text \<open>\<open>_(w1|w2|...)_\<close>\<close>

definition inner_word_pattern :: "string list \<Rightarrow> string \<Rightarrow> bool" where
  "inner_word_pattern ws s \<longleftrightarrow> list_ex (\<lambda>w. occurs (''_'' @ w @ ''_'') s) ws"

text \<open>\<open>a.*b\<close>: the dot does not match a line terminator.\<close>

definition line_end :: "char \<Rightarrow> bool" where
  "line_end c \<longleftrightarrow> c = CHR 0x0A \<or> c = CHR 0x0D"

definition gap_pattern :: "string \<Rightarrow> string \<Rightarrow> string \<Rightarrow> bool" where
  "gap_pattern a b s \<longleftrightarrow> list_ex (\<lambda>i. occurs_at a s i \<and>
     list_ex (\<lambda>j. i + length a \<le> j \<and> occurs_at b s j \<and>
       list_all (\<lambda>c. \<not> line_end c) (take (j - (i + length a)) (drop (i + length a) s)))
       (positions s)) (positions s)"

section \<open>Rules\<close>

definition APPROVAL_EXEMPT_TOOLS :: "string list" where
  "APPROVAL_EXEMPT_TOOLS = [''computer_observe'', ''computer_act'', ''list_files'', ''read_file'',
     ''write_file'', ''shell'', ''open_path'', ''launch_app'', ''remember'', ''request_takeover'',
     ''request_secret'', ''run_subagent'', ''spawn_bot'', ''schedule_create'', ''schedule_list'',
     ''schedule_cancel'']"

definition APPROVAL_REQUIRED_BUILTIN_TOOLS :: "string list" where
  "APPROVAL_REQUIRED_BUILTIN_TOOLS = [''destination.write'', ''delete_bot'', ''archive_bot'']"

definition READ_ONLY_WORDS :: "string list" where
  "READ_ONLY_WORDS = [''get'', ''list'', ''search'', ''find'', ''read'']"

definition MUTATING_WORDS :: "string list" where
  "MUTATING_WORDS = [''accept'', ''add'', ''approve'', ''archive'', ''assign'', ''buy'', ''cancel'',
     ''charge'', ''checkout'', ''close'', ''commit'', ''copy'', ''create'', ''delete'', ''deploy'',
     ''disable'', ''enable'', ''execute'', ''forward'', ''grant'', ''invite'', ''link'', ''mark'',
     ''merge'', ''modify'', ''move'', ''patch'', ''pay'', ''post'', ''publish'', ''purchase'',
     ''put'', ''register'', ''reject'', ''remove'', ''rename'', ''replace'', ''reply'', ''reset'',
     ''revoke'', ''run'', ''schedule'', ''send'', ''set'', ''share'', ''start'', ''stop'',
     ''submit'', ''subscribe'', ''trigger'', ''unassign'', ''unlink'', ''unsubscribe'', ''update'',
     ''upload'', ''upsert'', ''write'']"

definition COMPOUND_WORDS :: "string list" where
  "COMPOUND_WORDS = [''and'', ''or'', ''then'']"

definition EMAIL_CONNECTOR_SLUGS :: "string list" where
  "EMAIL_CONNECTOR_SLUGS = [''gmail'', ''outlook'', ''microsoft_outlook'']"

definition PURCHASE_CONNECTOR_SLUGS :: "string list" where
  "PURCHASE_CONNECTOR_SLUGS = [''stripe'', ''shopify'', ''paypal'', ''square'']"

datatype approval_match = RuleTool | RuleConnector | RuleCategory | RuleUnknown string
datatype approval_rule_effect = RuleRequire | RuleAllow

record action_rule =
  rule_effect_of :: approval_rule_effect
  rule_matchKind :: approval_match
  rule_matchValue :: string

definition js_prefix :: "string \<Rightarrow> string \<Rightarrow> bool" where
  "js_prefix p s \<longleftrightarrow> occurs_at p s 0"

text \<open>The longest declared connector wins; JavaScript's sort is stable.\<close>

definition connectorKindFromToolName :: "string \<Rightarrow> string list \<Rightarrow> string" where
  "connectorKindFromToolName toolName connectorKinds =
     (let normalizedTool = js_lower toolName;
          matched = sort_key (\<lambda>kind. - int (length kind))
            (filter (\<lambda>kind. normalizedTool = kind \<or> js_prefix (kind @ ''_'') normalizedTool)
              (map js_lower connectorKinds))
      in case matched of
           kind # _ \<Rightarrow> if kind \<noteq> [] then kind else js_lower (hd (js_split CHR ''_'' toolName))
         | [] \<Rightarrow> js_lower (hd (js_split CHR ''_'' toolName)))"

definition connectorToolRequiresApproval :: "string \<Rightarrow> bool" where
  "connectorToolRequiresApproval toolName =
     (let name = js_lower toolName in
      if word_pattern MUTATING_WORDS name then True
      else if inner_word_pattern COMPOUND_WORDS name then True
      else \<not> word_pattern READ_ONLY_WORDS name)"

definition toolRequiresApproval :: "string \<Rightarrow> bool \<Rightarrow> bool" where
  "toolRequiresApproval toolName viaConnector =
     (if toolName \<in> set APPROVAL_EXEMPT_TOOLS then False
      else if toolName \<in> set APPROVAL_REQUIRED_BUILTIN_TOOLS then True
      else if viaConnector then connectorToolRequiresApproval toolName
      else False)"

definition categoryMatches :: "string \<Rightarrow> string \<Rightarrow> string \<Rightarrow> bool" where
  "categoryMatches category toolName connectorKind =
     (let normalized = js_lower category;
          consequential = connectorToolRequiresApproval toolName;
          name = js_lower toolName
      in if normalized = ''email'' then
           if js_lower connectorKind \<in> set EMAIL_CONNECTOR_SLUGS then consequential
           else consequential \<and> (gap_pattern ''send'' ''mail'' name \<or> occurs ''gmail_send'' name
                  \<or> occurs ''outlook_send'' name)
         else if normalized = ''purchase'' then
           if js_lower connectorKind \<in> set PURCHASE_CONNECTOR_SLUGS then consequential
           else consequential \<and> list_ex (\<lambda>w. occurs w name)
                  [''purchase'', ''pay_'', ''charge'', ''checkout'', ''buy_'']
         else False)"

definition ruleMatches :: "action_rule \<Rightarrow> string \<Rightarrow> string \<Rightarrow> bool" where
  "ruleMatches rule toolName connectorKind =
     (let value = js_lower (rule_matchValue rule) in
      case rule_matchKind rule of
        RuleTool \<Rightarrow> js_lower toolName = value
      | RuleConnector \<Rightarrow> js_lower connectorKind = value
      | RuleCategory \<Rightarrow> categoryMatches (rule_matchValue rule) toolName connectorKind
      | RuleUnknown _ \<Rightarrow> False)"

definition ruleSpecificity :: "action_rule \<Rightarrow> nat" where
  "ruleSpecificity rule = (case rule_matchKind rule of
     RuleTool \<Rightarrow> 3 | RuleConnector \<Rightarrow> 2 | RuleCategory \<Rightarrow> 1 | RuleUnknown _ \<Rightarrow> 0)"

datatype approval_decision = Ask | Allow

definition resolveActionApproval ::
  "string \<Rightarrow> string option \<Rightarrow> action_rule list \<Rightarrow> approval_decision" where
  "resolveActionApproval toolName connectorKind rules =
     (if toolName \<in> set APPROVAL_EXEMPT_TOOLS then Allow
      else let kind = (case connectorKind of None \<Rightarrow> connectorKindFromToolName toolName []
                         | Some k \<Rightarrow> k);
               matchingRules = filter (\<lambda>rule. ruleMatches rule toolName kind) rules
           in if matchingRules = [] then Allow
              else let highestSpecificity = Max (set (map ruleSpecificity matchingRules)) in
                   if list_ex (\<lambda>rule. ruleSpecificity rule = highestSpecificity
                        \<and> rule_effect_of rule = RuleRequire) matchingRules
                   then Ask else Allow)"

section \<open>Asks\<close>

definition isSecretAskBlock :: "message_block \<Rightarrow> bool" where
  "isSecretAskBlock block = (case block of
     AskBlock a \<Rightarrow> ask_input a = Some InputSecret \<and> \<not> truthy (ask_approvalEffectId a)
   | _ \<Rightarrow> False)"

definition isApprovalAskBlock :: "message_block \<Rightarrow> bool" where
  "isApprovalAskBlock block = (case block of
     AskBlock a \<Rightarrow>
       if \<not> truthy (ask_approvalEffectId a) \<or> ask_actions a = None \<or> ask_actions a = Some []
       then False
       else let actionIds = map fst (the (ask_actions a)) in
            ''allow'' \<in> set actionIds \<and> ''deny'' \<in> set actionIds \<and>
            list_all (\<lambda>i. i = ''allow'' \<or> i = ''always'' \<or> i = ''deny'') actionIds
   | _ \<Rightarrow> False)"

text \<open>Asks that still wait: what \<open>block.kind === "ask" && block.status !== "answered"\<close> finds.\<close>

definition pending_ask :: "message_block \<Rightarrow> bool" where
  "pending_ask block = (case block of AskBlock a \<Rightarrow> ask_status a \<noteq> Some AskAnswered | _ \<Rightarrow> False)"

record ask_message =
  am_id :: string
  am_runId :: "string option"
  am_blocks :: "message_block list"

record ask_snapshot =
  as_messages :: "ask_message list"
  as_run :: "(string \<times> run_status) option"
  as_activeRuns :: "(string \<times> run_status) list option"

fun latest_answerable :: "string set \<Rightarrow> ask_message list \<Rightarrow> string option" where
  "latest_answerable waiting [] = None"
| "latest_answerable waiting (m # ms) =
     (if \<not> truthy (am_runId m) \<or> the (am_runId m) \<notin> waiting then latest_answerable waiting ms
      else if list_ex pending_ask (am_blocks m) then Some (am_id m)
      else latest_answerable waiting ms)"

definition latestAnswerableAskMessageId :: "ask_snapshot option \<Rightarrow> string option" where
  "latestAnswerableAskMessageId snapshot = (case snapshot of
     None \<Rightarrow> None
   | Some s \<Rightarrow>
       let runs = (case as_activeRuns s of Some rs \<Rightarrow> rs
                   | None \<Rightarrow> (case as_run s of Some r \<Rightarrow> [r] | None \<Rightarrow> []));
           waitingRunIds = set (map fst (filter (\<lambda>(i, st). st = WaitingInput) runs))
       in latest_answerable waitingRunIds (rev (as_messages s)))"

section \<open>Lemmas\<close>

lemma occurs_at_append: "occurs_at w s i \<longleftrightarrow> (\<exists>t. drop i s = w @ t)"
  unfolding occurs_at_def by (metis append_eq_conv_conj append_take_drop_id)

lemma occurs_iff: "occurs w s \<longleftrightarrow> (\<exists>a b. s = a @ w @ b)"
proof
  assume "occurs w s"
  then obtain i t where "drop i s = w @ t"
    by (auto simp: occurs_def list_ex_iff occurs_at_append)
  then show "\<exists>a b. s = a @ w @ b" by (metis append_take_drop_id)
next
  assume "\<exists>a b. s = a @ w @ b"
  then obtain a b where "s = a @ w @ b" by blast
  then have "occurs_at w s (length a)" and "length a \<in> set (positions s)"
    by (auto simp: occurs_at_def positions_def)
  then show "occurs w s" by (auto simp: occurs_def list_ex_iff)
qed

lemma word_pattern_iff:
  "word_pattern ws s \<longleftrightarrow> (\<exists>i \<le> length s. (i = 0 \<or> s ! (i - 1) = CHR ''_'') \<and>
     (\<exists>w \<in> set ws. occurs_at w s i \<and>
       (i + length w = length s \<or> (i + length w < length s \<and> s ! (i + length w) = CHR ''_''))))"
  unfolding word_pattern_def list_ex_iff positions_def
  by (simp only: Bex_def set_upt atLeastLessThan_iff less_Suc_eq_le le0 simp_thms)

text \<open>
  The connector patterns are tests on the words of the tool name: \<open>(^|_)(w|...)(_|$)\<close>
  matches exactly when one of the parts between underscores is one of the words.
\<close>

theorem word_pattern_iff_part:
  assumes "\<And>w. w \<in> set ws \<Longrightarrow> CHR ''_'' \<notin> set w"
  shows "word_pattern ws s \<longleftrightarrow> (\<exists>w \<in> set ws. w \<in> set (js_split CHR ''_'' s))"
proof
  assume "word_pattern ws s"
  then obtain i w where w: "w \<in> set ws" and i: "i = 0 \<or> s ! (i - 1) = CHR ''_''"
    and at: "occurs_at w s i" and il: "i \<le> length s"
    and e: "i + length w = length s \<or> (i + length w < length s \<and> s ! (i + length w) = CHR ''_'')"
    unfolding word_pattern_iff by blast
  obtain t where t: "drop i s = w @ t" using at by (auto simp: occurs_at_append)
  have s: "s = take i s @ w @ t" using t by (metis append_take_drop_id)
  have "take i s = [] \<or> last (take i s) = CHR ''_''"
    using i il by (cases i) (auto simp: take_Suc_conv_app_nth)
  moreover have "t = [] \<or> hd t = CHR ''_''"
  proof -
    have "t = drop (i + length w) s"
      using t by (metis add.commute append_eq_conv_conj drop_drop)
    then show ?thesis using e by (auto simp: hd_drop_conv_nth)
  qed
  ultimately show "\<exists>w \<in> set ws. w \<in> set (js_split CHR ''_'' s)"
    unfolding js_split_word using assms w s by blast
next
  assume "\<exists>w \<in> set ws. w \<in> set (js_split CHR ''_'' s)"
  then obtain w a b where w: "w \<in> set ws" and s: "s = a @ w @ b"
    and a: "a = [] \<or> last a = CHR ''_''" and b: "b = [] \<or> hd b = CHR ''_''"
    by (auto simp: js_split_word)
  have "length a \<le> length s" using s by simp
  moreover have "length a = 0 \<or> s ! (length a - 1) = CHR ''_''"
    using a s by (cases a rule: rev_cases) (auto simp: nth_append)
  moreover have "occurs_at w s (length a)" by (simp add: occurs_at_def s)
  moreover have "length a + length w = length s \<or>
      (length a + length w < length s \<and> s ! (length a + length w) = CHR ''_'')"
    using b s by (auto simp: nth_append hd_conv_nth)
  ultimately show "word_pattern ws s"
    unfolding word_pattern_iff using w by blast
qed

theorem word_pattern_iff_part_witness:
  "word_pattern COMPOUND_WORDS ''mark_and_send'' \<longleftrightarrow>
     (\<exists>w \<in> set COMPOUND_WORDS. w \<in> set (js_split CHR ''_'' ''mark_and_send''))"
  by (rule word_pattern_iff_part) (auto simp: COMPOUND_WORDS_def)

lemma Max_map_eq:
  assumes "xs \<noteq> []" and "x \<in> set xs" and "\<forall>y \<in> set xs. f y \<le> (f x :: nat)"
  shows "Max (set (map f xs)) = f x"
  using assms by (intro Max_eqI) auto

lemma resolve_Ask_iff:
  assumes "toolName \<notin> set APPROVAL_EXEMPT_TOOLS"
  shows "resolveActionApproval toolName (Some kind) rules = Ask \<longleftrightarrow>
    (\<exists>r \<in> set rules. ruleMatches r toolName kind \<and> rule_effect_of r = RuleRequire \<and>
       (\<forall>q \<in> set rules. ruleMatches q toolName kind \<longrightarrow> ruleSpecificity q \<le> ruleSpecificity r))"
    (is "?l \<longleftrightarrow> ?r")
proof -
  define ms where "ms = filter (\<lambda>r. ruleMatches r toolName kind) rules"
  have l: "?l \<longleftrightarrow> ms \<noteq> [] \<and> (\<exists>r \<in> set ms.
      ruleSpecificity r = Max (set (map ruleSpecificity ms)) \<and> rule_effect_of r = RuleRequire)"
    using assms by (simp add: resolveActionApproval_def ms_def Let_def list_ex_iff)
  have max: "ruleSpecificity r = Max (set (map ruleSpecificity ms)) \<longleftrightarrow>
      (\<forall>q \<in> set ms. ruleSpecificity q \<le> ruleSpecificity r)" if r: "r \<in> set ms" for r
  proof
    assume eq: "ruleSpecificity r = Max (set (map ruleSpecificity ms))"
    show "\<forall>q \<in> set ms. ruleSpecificity q \<le> ruleSpecificity r"
      unfolding eq by (auto intro!: Max_ge)
  next
    assume le: "\<forall>q \<in> set ms. ruleSpecificity q \<le> ruleSpecificity r"
    have "ms \<noteq> []" using r by auto
    then show "ruleSpecificity r = Max (set (map ruleSpecificity ms))"
      by (rule Max_map_eq [OF _ r le, symmetric])
  qed
  have "?l \<longleftrightarrow> (\<exists>r \<in> set ms. rule_effect_of r = RuleRequire \<and>
      (\<forall>q \<in> set ms. ruleSpecificity q \<le> ruleSpecificity r))"
  proof
    assume ?l
    then show "\<exists>r \<in> set ms. rule_effect_of r = RuleRequire \<and>
      (\<forall>q \<in> set ms. ruleSpecificity q \<le> ruleSpecificity r)" unfolding l by (auto simp only: max)
  next
    assume "\<exists>r \<in> set ms. rule_effect_of r = RuleRequire \<and>
      (\<forall>q \<in> set ms. ruleSpecificity q \<le> ruleSpecificity r)"
    then obtain r where "r \<in> set ms" "rule_effect_of r = RuleRequire"
      "\<forall>q \<in> set ms. ruleSpecificity q \<le> ruleSpecificity r" by blast
    with max have "ruleSpecificity r = Max (set (map ruleSpecificity ms))" by blast
    with \<open>r \<in> set ms\<close> \<open>rule_effect_of r = RuleRequire\<close> show ?l unfolding l by force
  qed
  also have "\<dots> \<longleftrightarrow> ?r" by (auto simp: ms_def)
  finally show ?thesis .
qed

text \<open>
  A call asks exactly when the tool is not exempt and, among the rules that match it, one
  of the most specific (a tool rule before a connector rule before a category rule) requires
  approval: a less specific rule never overrides a more specific one, and at equal rank
  requiring approval wins over always allowing.
\<close>

theorem approval_resolution:
  "resolveActionApproval toolName (Some kind) rules = Ask \<longleftrightarrow>
   toolName \<notin> set APPROVAL_EXEMPT_TOOLS \<and>
   (\<exists>r \<in> set rules. ruleMatches r toolName kind \<and> rule_effect_of r = RuleRequire \<and>
      \<not> (\<exists>q \<in> set rules. ruleMatches q toolName kind \<and> ruleSpecificity r < ruleSpecificity q))"
proof (cases "toolName \<in> set APPROVAL_EXEMPT_TOOLS")
  case True
  then show ?thesis by (simp add: resolveActionApproval_def)
next
  case False
  then show ?thesis by (auto simp: resolve_Ask_iff not_less)
qed

text \<open>
  The question a client offers for an answer belongs to a waiting run and is open, and
  no later message has an open question of a waiting run.
\<close>

lemma latest_answerable_Some:
  "latest_answerable W ms = Some i \<Longrightarrow>
   \<exists>us m vs. ms = us @ m # vs \<and> am_id m = i \<and> truthy (am_runId m) \<and> the (am_runId m) \<in> W \<and>
     list_ex pending_ask (am_blocks m) \<and>
     (\<forall>u \<in> set us. \<not> (truthy (am_runId u) \<and> the (am_runId u) \<in> W \<and> list_ex pending_ask (am_blocks u)))"
proof (induction ms)
  case (Cons m ms)
  show ?case
  proof (cases "truthy (am_runId m) \<and> the (am_runId m) \<in> W \<and> list_ex pending_ask (am_blocks m)")
    case True
    with Cons.prems show ?thesis by (intro exI [of _ "[]"] exI [of _ m] exI [of _ ms]) auto
  next
    case False
    then have "latest_answerable W ms = Some i" using Cons.prems by (auto split: if_splits)
    with Cons.IH obtain us n vs where "ms = us @ n # vs" "am_id n = i" "truthy (am_runId n)"
      "the (am_runId n) \<in> W" "list_ex pending_ask (am_blocks n)"
      "\<forall>u \<in> set us. \<not> (truthy (am_runId u) \<and> the (am_runId u) \<in> W \<and> list_ex pending_ask (am_blocks u))"
      by blast
    with False show ?thesis
      by (intro exI [of _ "m # us"] exI [of _ n] exI [of _ vs]) auto
  qed
qed simp

end
