(* ===== verification/BackgroundJobs.thy ===== *)
theory BackgroundJobs
  imports Contracts
begin

text \<open>
  The background jobs the components publish and the keys under which a newer job replaces a
  pending one (packages/adapter-kit/src/background-jobs.ts).
\<close>

datatype job_payload =
    RunContinue string
  | RoutineWakeup string int
  | ComputerSleep string
  | ControlExpire string string
  | TeachingExpire string
  | HistoryCompact string

record job =
  j_payload :: job_payload
  j_availableAt :: "int option"
  j_replaceKey :: string

definition runJobKey :: "string \<Rightarrow> string" where
  "runJobKey runId = ''run:'' @ runId"

definition routineJobKey :: "string \<Rightarrow> string" where
  "routineJobKey routineId = ''routine:'' @ routineId"

definition computerSleepJobKey :: "string \<Rightarrow> string" where
  "computerSleepJobKey computerId = ''computer.sleep:'' @ computerId"

definition computerControlExpireJobKey :: "string \<Rightarrow> string option \<Rightarrow> string" where
  "computerControlExpireJobKey computerId leaseId =
     (if truthy leaseId then ''computer.control-expire:'' @ computerId @ '':'' @ the leaseId
      else ''computer.control-expire:'' @ computerId)"

definition skillTeachingExpireJobKey :: "string \<Rightarrow> string" where
  "skillTeachingExpireJobKey skillId = ''skill.teaching-expire:'' @ skillId"

definition historyCompactJobKey :: "string \<Rightarrow> string" where
  "historyCompactJobKey threadId = ''history.compact:'' @ threadId"

definition runContinueJob :: "string \<Rightarrow> job" where
  "runContinueJob runId =
     \<lparr>j_payload = RunContinue runId, j_availableAt = None, j_replaceKey = runJobKey runId\<rparr>"

definition routineWakeupJob :: "string \<Rightarrow> int \<Rightarrow> job" where
  "routineWakeupJob routineId scheduledFor =
     \<lparr>j_payload = RoutineWakeup routineId scheduledFor, j_availableAt = Some scheduledFor,
      j_replaceKey = routineJobKey routineId\<rparr>"

definition computerSleepJob :: "string \<Rightarrow> int \<Rightarrow> job" where
  "computerSleepJob computerId availableAt =
     \<lparr>j_payload = ComputerSleep computerId, j_availableAt = Some availableAt,
      j_replaceKey = computerSleepJobKey computerId\<rparr>"

definition computerControlExpireJob :: "string \<Rightarrow> string \<Rightarrow> int \<Rightarrow> job" where
  "computerControlExpireJob computerId leaseId availableAt =
     \<lparr>j_payload = ControlExpire computerId leaseId, j_availableAt = Some availableAt,
      j_replaceKey = computerControlExpireJobKey computerId (Some leaseId)\<rparr>"

definition skillTeachingExpireJob :: "string \<Rightarrow> int \<Rightarrow> job" where
  "skillTeachingExpireJob skillId availableAt =
     \<lparr>j_payload = TeachingExpire skillId, j_availableAt = Some availableAt,
      j_replaceKey = skillTeachingExpireJobKey skillId\<rparr>"

definition historyCompactJob :: "string \<Rightarrow> job" where
  "historyCompactJob threadId =
     \<lparr>j_payload = HistoryCompact threadId, j_availableAt = None,
      j_replaceKey = historyCompactJobKey threadId\<rparr>"

text \<open>What a job is about: the kind and the rows it names, without the time.\<close>

fun job_subject :: "job_payload \<Rightarrow> nat \<times> string list" where
  "job_subject (RunContinue r) = (0, [r])"
| "job_subject (RoutineWakeup r _) = (1, [r])"
| "job_subject (ComputerSleep c) = (2, [c])"
| "job_subject (ControlExpire c l) = (3, [c, l])"
| "job_subject (TeachingExpire k) = (4, [k])"
| "job_subject (HistoryCompact t) = (5, [t])"

definition job_of :: "job_payload \<Rightarrow> int \<Rightarrow> job" where
  "job_of p at = (case p of
     RunContinue r \<Rightarrow> runContinueJob r
   | RoutineWakeup r w \<Rightarrow> routineWakeupJob r w
   | ComputerSleep c \<Rightarrow> computerSleepJob c at
   | ControlExpire c l \<Rightarrow> computerControlExpireJob c l at
   | TeachingExpire k \<Rightarrow> skillTeachingExpireJob k at
   | HistoryCompact t \<Rightarrow> historyCompactJob t)"

lemma colon_split:
  assumes "a @ CHR '':'' # b = a' @ CHR '':'' # b'" and "CHR '':'' \<notin> set a" and "CHR '':'' \<notin> set a'"
  shows "a = a' \<and> b = b'"
proof -
  have "takeWhile (\<lambda>c. c \<noteq> CHR '':'') (a @ CHR '':'' # b) = a"
    and "takeWhile (\<lambda>c. c \<noteq> CHR '':'') (a' @ CHR '':'' # b') = a'"
    using assms(2,3) by (auto simp: takeWhile_append)
  with assms(1) have "a = a'" by simp
  with assms(1) show ?thesis by simp
qed

text \<open>
  Pending jobs replace each other only when they are about the same rows: as long as the
  identifiers of computers hold no colon and leases have one, the replacement keys of two
  jobs are equal exactly when the jobs have the same kind and name the same rows.
\<close>

theorem job_keys_identify:
  assumes "\<And>c l. p = ControlExpire c l \<Longrightarrow> CHR '':'' \<notin> set c \<and> l \<noteq> []"
    and "\<And>c l. q = ControlExpire c l \<Longrightarrow> CHR '':'' \<notin> set c \<and> l \<noteq> []"
  shows "j_replaceKey (job_of p at) = j_replaceKey (job_of q at') \<longleftrightarrow> job_subject p = job_subject q"
proof (cases "\<exists>c l c' l'. p = ControlExpire c l \<and> q = ControlExpire c' l'")
  case True
  then obtain c l c' l' where pq: "p = ControlExpire c l" "q = ControlExpire c' l'" by blast
  then have ids: "CHR '':'' \<notin> set c" "CHR '':'' \<notin> set c'" "l \<noteq> []" "l' \<noteq> []"
    using assms by auto
  have "c @ CHR '':'' # l = c' @ CHR '':'' # l' \<longleftrightarrow> c = c' \<and> l = l'"
    using colon_split ids by blast
  then show ?thesis using pq ids
    by (simp add: job_of_def computerControlExpireJob_def computerControlExpireJobKey_def)
next
  case False
  then show ?thesis
    by (cases p; cases q) (auto simp: job_of_def runContinueJob_def routineWakeupJob_def
        computerSleepJob_def computerControlExpireJob_def skillTeachingExpireJob_def
        historyCompactJob_def runJobKey_def routineJobKey_def computerSleepJobKey_def
        computerControlExpireJobKey_def skillTeachingExpireJobKey_def historyCompactJobKey_def)
qed

theorem job_keys_identify_witness:
  "j_replaceKey (job_of (ControlExpire ''c1'' ''l:2'') 5) \<noteq> j_replaceKey (job_of (ControlExpire ''c'' ''1:l:2'') 9)"
  using job_keys_identify [of "ControlExpire ''c1'' ''l:2''" "ControlExpire ''c'' ''1:l:2''" 5 9] by simp

end
