(* ===== verification/Store.thy ===== *)
theory Store
  imports ActionApproval BackgroundJobs
begin

text \<open>
  The database: one record type per model of packages/db/prisma/schema.prisma that the
  modelled handlers touch, with the columns they read or write, the unique and foreign key
  constraints a \<open>create\<close> can violate, and the referential actions of a delete. Columns
  marked \<open>@updatedAt\<close> are set by every update, to the handler's \<open>now\<close>.
\<close>

type_synonym time = int  \<comment> \<open>milliseconds, as \<open>Date.getTime()\<close>\<close>

datatype db_error =
    RecordNotFound               \<comment> \<open>P2025\<close>
  | UniqueViolation              \<comment> \<open>P2002\<close>
  | ForeignKeyViolation          \<comment> \<open>P2003\<close>
  | RunHistoryWriteError
  | ComputerBusyError
  | ManagedComputerStopPendingError
  | IsolationError
  | Thrown string

datatype attempt_status = AttRunning | AttWaitingInput | AttWaitingTakeover | AttCompleted
  | AttFailed | AttCancelled | AttSetupFailed | AttInterrupted

datatype effect_status = Intended | Approved | Denied | Executing | EffCompleted | Uncertain
  | EffOther string

datatype comp_state = Stopped | Booting | CompRunning | Suspending | Suspended | CompError
datatype control_holder = HolderNone | HolderBot | HolderUser

section \<open>Rows\<close>

record thread =
  th_id :: string
  th_workspaceId :: string
  th_botId :: "string option"
  th_groupId :: "string option"
  th_userId :: string
  th_nextEventSeq :: nat
  th_nextMessageSeq :: nat
  th_historyCompactedUpToSeq :: "int option"
  th_historyCompactionSummary :: "string option"
  th_historyCompactionGeneration :: nat
  th_unread :: bool
  th_updatedAt :: time

text \<open>\<open>m_blocks\<close> is \<open>None\<close> when the stored JSON is not a list of message blocks.\<close>

record message =
  m_id :: string
  m_threadId :: string
  m_seq :: nat
  m_role :: role
  m_blocks :: "message_block list option"
  m_botId :: "string option"
  m_replyToMessageId :: "string option"
  m_runId :: "string option"
  m_clientNonce :: "string option"
  m_createdAt :: time

record event =
  e_id :: string
  e_workspaceId :: string
  e_threadId :: string
  e_botId :: string
  e_seq :: nat
  e_type :: event_type
  e_payload :: payload
  e_runId :: "string option"
  e_createdAt :: time

record task =
  t_id :: string
  t_workspaceId :: string
  t_botId :: string
  t_threadId :: string
  t_userId :: string
  t_prompt :: string
  t_status :: run_status
  t_updatedAt :: time

record run =
  r_id :: string
  r_workspaceId :: string
  r_botId :: string
  r_threadId :: string
  r_taskId :: string
  r_userId :: string
  r_serviceIdentityId :: "string option"
  r_status :: run_status
  r_trigger :: run_trigger
  r_error :: "string option"
  r_leaseOwner :: "string option"
  r_leaseFence :: nat
  r_leaseExpiresAt :: "time option"
  r_checkpoint :: "string option"
  r_clientNonce :: "string option"
  r_sourceMessageId :: "string option"
  r_routineId :: "string option"
  r_startedAt :: "time option"
  r_completedAt :: "time option"
  r_createdAt :: time
  r_updatedAt :: time

record attempt =
  a_id :: string
  a_runId :: string
  a_fence :: nat
  a_status :: attempt_status
  a_error :: "string option"
  a_startedAt :: time
  a_finishedAt :: "time option"

record effect =
  x_id :: string
  x_workspaceId :: string
  x_runId :: string
  x_kind :: string
  x_idempotencyKey :: string
  x_status :: effect_status
  x_request :: json
  x_result :: "json option"
  x_updatedAt :: time

record approval_rule =
  ar_id :: string
  ar_workspaceId :: string
  ar_createdByUserId :: string
  ar_effect :: approval_rule_effect
  ar_matchKind :: approval_match
  ar_matchValue :: string

record computer =
  c_id :: string
  c_workspaceId :: string
  c_userId :: string
  c_scope :: string
  c_scopeKey :: string
  c_homeKey :: string
  c_homeRevision :: string
  c_kind :: string
  c_providerRef :: "string option"
  c_state :: comp_state
  c_controlHolder :: control_holder
  c_controlLeaseId :: "string option"
  c_controlLeaseExpiresAt :: "time option"
  c_controlBotId :: "string option"
  c_controlRunId :: "string option"
  c_controlFence :: nat
  c_controlUserId :: "string option"
  c_controlActorType :: "string option"
  c_controlActorName :: "string option"
  c_controlStartedAt :: "time option"
  c_executionRunId :: "string option"
  c_executionBotId :: "string option"
  c_executionLeaseExpiresAt :: "time option"
  c_executionFence :: nat
  c_screenUrl :: "string option"
  c_lastComputerActivityAt :: "time option"
  c_lastComputerState :: "comp_state option"
  c_updatedAt :: time

record exec_lease =
  l_computerId :: string
  l_botId :: string
  l_runId :: string
  l_fence :: nat
  l_expiresAt :: time

record bot =
  b_id :: string
  b_workspaceId :: string
  b_userId :: string
  b_name :: string
  b_title :: string
  b_description :: string
  b_color :: string
  b_managedByBrandWell :: bool
  b_managedStatus :: string
  b_serviceIdentityId :: "string option"
  b_primaryThreadId :: "string option"
  b_computerId :: "string option"
  b_computerSwitching :: bool
  b_archivedAt :: "time option"
  b_updatedAt :: time

record secret_row =
  s_id :: string
  s_userId :: string
  s_workspaceId :: string
  s_ownerType :: string
  s_serviceIdentityId :: "string option"
  s_kind :: string
  s_ciphertext :: string

record routine =
  rt_id :: string
  rt_workspaceId :: string
  rt_botId :: string
  rt_userId :: string
  rt_serviceIdentityId :: "string option"
  rt_prompt :: string
  rt_crons :: "string list"
  rt_timezone :: string
  rt_active :: bool
  rt_lastRunAt :: "time option"
  rt_nextRunAt :: "time option"

record chat_group =
  g_id :: string
  g_workspaceId :: string
  g_userId :: string
  g_name :: string
  g_updatedAt :: time

record group_member =
  gm_groupId :: string
  gm_botId :: string
  gm_createdAt :: time

record usage_record =
  us_workspaceId :: string
  us_botId :: "string option"
  us_userId :: string
  us_runId :: "string option"
  us_serviceIdentityId :: "string option"
  us_provider :: string
  us_model :: string
  us_inputTokens :: nat
  us_outputTokens :: nat
  us_costMicros :: int
  us_workloadType :: string
  us_createdAt :: time

text \<open>A sandbox of a provider, and the calls that reach the provider.\<close>

record computer_ref =
  cr_id :: string
  cr_botId :: string
  cr_kind :: string
  cr_providerRef :: string
  cr_fresh :: bool

datatype sandbox_call =
    CallProvision string "string option" string   \<comment> \<open>home key, provider reference, kind\<close>
  | CallPrepare computer_ref
  | CallImport computer_ref string
  | CallExport computer_ref string
  | CallLayout computer_ref string
  | CallReleaseScreen computer_ref
  | CallScreenControl computer_ref bool string
  | CallKeepAlive computer_ref
  | CallStop computer_ref
  | CallDestroy computer_ref

text \<open>
  Three lists are not tables: the jobs handed to the job publisher, the job keys it was asked
  to cancel, and the calls made to the sandbox provider, each in order.
\<close>

record db =
  db_threads :: "thread list"
  db_messages :: "message list"
  db_events :: "event list"
  db_tasks :: "task list"
  db_runs :: "run list"
  db_attempts :: "attempt list"
  db_effects :: "effect list"
  db_rules :: "approval_rule list"
  db_computers :: "computer list"
  db_leases :: "exec_lease list"
  db_bots :: "bot list"
  db_secrets :: "secret_row list"
  db_routines :: "routine list"
  db_groups :: "chat_group list"
  db_members :: "group_member list"
  db_usage :: "usage_record list"
  db_jobs :: "job list"
  db_cancels :: "string list"
  db_calls :: "sandbox_call list"

definition empty_db :: db where
  "empty_db = \<lparr>db_threads = [], db_messages = [], db_events = [], db_tasks = [], db_runs = [],
     db_attempts = [], db_effects = [], db_rules = [], db_computers = [], db_leases = [],
     db_bots = [], db_secrets = [], db_routines = [], db_groups = [], db_members = [],
     db_usage = [], db_jobs = [], db_cancels = [], db_calls = []\<rparr>"

type_synonym 'a dbtx = "(db, db_error, 'a) tx"
type_synonym 'a dbprog = "(db, db_error, 'a) prog"

end
