(* ===== verification/Tables.thy ===== *)
theory Tables
  imports Store
begin

text \<open>
  The calls the handlers make on the tables of the database: generic row operations inside
  a transaction, the unique and foreign key constraints that a \<open>create\<close> checks, the
  referential actions of a delete (schema.prisma), and one short name per table and call.
  Row locks (\<open>SELECT ... FOR UPDATE\<close>) have no effect on the rows: a transaction is one
  atomic step here.
\<close>

section \<open>Calls inside a transaction\<close>

definition find_first :: "(db \<Rightarrow> 'r list) \<Rightarrow> ('r \<Rightarrow> bool) \<Rightarrow> 'r option dbtx" where
  "find_first get p = tx_gets (\<lambda>s. find p (get s))"

definition find_many :: "(db \<Rightarrow> 'r list) \<Rightarrow> ('r \<Rightarrow> bool) \<Rightarrow> 'r list dbtx" where
  "find_many get p = tx_gets (\<lambda>s. filter p (get s))"

text \<open>\<open>updateMany\<close> answers the number of rows it wrote.\<close>

definition update_many ::
  "(db \<Rightarrow> 'r list) \<Rightarrow> (('r list \<Rightarrow> 'r list) \<Rightarrow> db \<Rightarrow> db) \<Rightarrow> ('r \<Rightarrow> bool) \<Rightarrow> ('r \<Rightarrow> 'r) \<Rightarrow> nat dbtx" where
  "update_many get upd p f = (\<lambda>s. Inr (countMany p (get s), upd (updateMany p f) s))"

text \<open>\<open>update\<close> of one row by its key answers the new row, or fails with P2025.\<close>

definition update_one ::
  "(db \<Rightarrow> 'r list) \<Rightarrow> (('r list \<Rightarrow> 'r list) \<Rightarrow> db \<Rightarrow> db) \<Rightarrow> ('r \<Rightarrow> bool) \<Rightarrow> ('r \<Rightarrow> 'r) \<Rightarrow> 'r dbtx" where
  "update_one get upd p f = (\<lambda>s. case find p (get s) of
     None \<Rightarrow> Inl RecordNotFound
   | Some r \<Rightarrow> Inr (f r, upd (updateMany p f) s))"

definition delete_many ::
  "(db \<Rightarrow> 'r list) \<Rightarrow> (('r list \<Rightarrow> 'r list) \<Rightarrow> db \<Rightarrow> db) \<Rightarrow> ('r \<Rightarrow> bool) \<Rightarrow> nat dbtx" where
  "delete_many get upd p = (\<lambda>s. Inr (countMany p (get s), upd (deleteMany p) s))"

text \<open>\<open>clash\<close> relates a stored row and a new one that break a unique constraint.\<close>

definition create_row ::
  "(db \<Rightarrow> 'r list) \<Rightarrow> (('r list \<Rightarrow> 'r list) \<Rightarrow> db \<Rightarrow> db) \<Rightarrow> ('r \<Rightarrow> 'r \<Rightarrow> bool) \<Rightarrow>
   (db \<Rightarrow> 'r \<Rightarrow> bool) \<Rightarrow> 'r \<Rightarrow> 'r dbtx" where
  "create_row get upd clash refs r = (\<lambda>s.
     if \<exists>q \<in> set (get s). clash q r then Inl UniqueViolation
     else if \<not> refs s r then Inl ForeignKeyViolation
     else Inr (r, upd (\<lambda>rs. rs @ [r]) s))"

lemma find_first_run [simp, tx_simps]: "find_first get p s = Inr (find p (get s), s)"
  by (simp add: find_first_def)

lemma find_many_run [simp, tx_simps]: "find_many get p s = Inr (filter p (get s), s)"
  by (simp add: find_many_def)

lemma update_many_run [simp, tx_simps]:
  "update_many get upd p f s = Inr (countMany p (get s), upd (updateMany p f) s)"
  by (simp add: update_many_def)

lemma delete_many_run [simp, tx_simps]:
  "delete_many get upd p s = Inr (countMany p (get s), upd (deleteMany p) s)"
  by (simp add: delete_many_def)

lemma update_one_Inr:
  "update_one get upd p f s = Inr (r, s') \<longleftrightarrow>
   (\<exists>q. find p (get s) = Some q \<and> r = f q \<and> s' = upd (updateMany p f) s)"
  by (auto simp: update_one_def split: option.splits)

lemma create_row_Inr:
  "create_row get upd clash refs r s = Inr (q, s') \<longleftrightarrow>
   q = r \<and> \<not> (\<exists>q \<in> set (get s). clash q r) \<and> refs s r \<and> s' = upd (\<lambda>rs. rs @ [r]) s"
  by (auto simp: create_row_def)

section \<open>Constraints\<close>

definition row_exists :: "('r \<Rightarrow> 'k) \<Rightarrow> 'r list \<Rightarrow> 'k \<Rightarrow> bool" where
  "row_exists key rs k \<longleftrightarrow> k \<in> key ` set rs"

definition row_exists_opt :: "('r \<Rightarrow> 'k) \<Rightarrow> 'r list \<Rightarrow> 'k option \<Rightarrow> bool" where
  "row_exists_opt key rs k \<longleftrightarrow> (case k of None \<Rightarrow> True | Some k' \<Rightarrow> row_exists key rs k')"

text \<open>Null values never clash.\<close>

definition same_nonce :: "string option \<Rightarrow> string option \<Rightarrow> bool" where
  "same_nonce a b \<longleftrightarrow> a \<noteq> None \<and> a = b"

definition message_clash :: "message \<Rightarrow> message \<Rightarrow> bool" where
  "message_clash q r \<longleftrightarrow> m_id q = m_id r
     \<or> (m_threadId q = m_threadId r \<and> m_seq q = m_seq r)
     \<or> (m_threadId q = m_threadId r \<and> same_nonce (m_clientNonce q) (m_clientNonce r))"

definition event_clash :: "event \<Rightarrow> event \<Rightarrow> bool" where
  "event_clash q r \<longleftrightarrow> e_id q = e_id r \<or> (e_threadId q = e_threadId r \<and> e_seq q = e_seq r)"

definition run_clash :: "run \<Rightarrow> run \<Rightarrow> bool" where
  "run_clash q r \<longleftrightarrow> r_id q = r_id r
     \<or> (r_workspaceId q = r_workspaceId r \<and> same_nonce (r_clientNonce q) (r_clientNonce r))"

definition effect_clash :: "effect \<Rightarrow> effect \<Rightarrow> bool" where
  "effect_clash q r \<longleftrightarrow> x_id q = x_id r \<or> x_idempotencyKey q = x_idempotencyKey r"

definition rule_key ::
  "approval_rule \<Rightarrow> string \<times> string \<times> approval_rule_effect \<times> approval_match \<times> string" where
  "rule_key q = (ar_workspaceId q, ar_createdByUserId q, ar_effect q, ar_matchKind q, ar_matchValue q)"

definition lease_clash :: "exec_lease \<Rightarrow> exec_lease \<Rightarrow> bool" where
  "lease_clash q r \<longleftrightarrow> l_computerId q = l_computerId r \<and> l_botId q = l_botId r"

definition member_clash :: "group_member \<Rightarrow> group_member \<Rightarrow> bool" where
  "member_clash q r \<longleftrightarrow> gm_groupId q = gm_groupId r \<and> gm_botId q = gm_botId r"

definition message_refs :: "db \<Rightarrow> message \<Rightarrow> bool" where
  "message_refs s r \<longleftrightarrow> row_exists th_id (db_threads s) (m_threadId r)
     \<and> row_exists_opt m_id (db_messages s) (m_replyToMessageId r)"

definition event_refs :: "db \<Rightarrow> event \<Rightarrow> bool" where
  "event_refs s r \<longleftrightarrow> row_exists th_id (db_threads s) (e_threadId r)"

definition task_refs :: "db \<Rightarrow> task \<Rightarrow> bool" where
  "task_refs s r \<longleftrightarrow> row_exists th_id (db_threads s) (t_threadId r)
     \<and> row_exists b_id (db_bots s) (t_botId r)"

definition run_refs :: "db \<Rightarrow> run \<Rightarrow> bool" where
  "run_refs s r \<longleftrightarrow> row_exists th_id (db_threads s) (r_threadId r)
     \<and> row_exists b_id (db_bots s) (r_botId r) \<and> row_exists t_id (db_tasks s) (r_taskId r)
     \<and> row_exists_opt m_id (db_messages s) (r_sourceMessageId r)
     \<and> row_exists_opt rt_id (db_routines s) (r_routineId r)"

definition attempt_refs :: "db \<Rightarrow> attempt \<Rightarrow> bool" where
  "attempt_refs s r \<longleftrightarrow> row_exists r_id (db_runs s) (a_runId r)"

definition effect_refs :: "db \<Rightarrow> effect \<Rightarrow> bool" where
  "effect_refs s r \<longleftrightarrow> row_exists r_id (db_runs s) (x_runId r)"

definition lease_refs :: "db \<Rightarrow> exec_lease \<Rightarrow> bool" where
  "lease_refs s r \<longleftrightarrow> row_exists c_id (db_computers s) (l_computerId r)"

definition no_refs :: "db \<Rightarrow> 'r \<Rightarrow> bool" where
  "no_refs s r \<longleftrightarrow> True"

lemmas refs_defs = message_refs_def event_refs_def task_refs_def run_refs_def attempt_refs_def
  effect_refs_def lease_refs_def no_refs_def row_exists_def row_exists_opt_def

lemmas clash_defs = message_clash_def event_clash_def run_clash_def effect_clash_def
  lease_clash_def member_clash_def same_nonce_def

section \<open>The tables\<close>

abbreviation thread_update :: "time \<Rightarrow> (thread \<Rightarrow> bool) \<Rightarrow> (thread \<Rightarrow> thread) \<Rightarrow> thread dbtx" where
  "thread_update now p f \<equiv>
     update_one db_threads db_threads_update p (\<lambda>r. (f r)\<lparr>th_updatedAt := now\<rparr>)"

abbreviation thread_updateMany :: "time \<Rightarrow> (thread \<Rightarrow> bool) \<Rightarrow> (thread \<Rightarrow> thread) \<Rightarrow> nat dbtx" where
  "thread_updateMany now p f \<equiv>
     update_many db_threads db_threads_update p (\<lambda>r. (f r)\<lparr>th_updatedAt := now\<rparr>)"

abbreviation message_create :: "message \<Rightarrow> message dbtx" where
  "message_create \<equiv> create_row db_messages db_messages_update message_clash message_refs"

abbreviation message_update :: "(message \<Rightarrow> bool) \<Rightarrow> (message \<Rightarrow> message) \<Rightarrow> message dbtx" where
  "message_update p f \<equiv> update_one db_messages db_messages_update p f"

abbreviation event_create :: "event \<Rightarrow> event dbtx" where
  "event_create \<equiv> create_row db_events db_events_update event_clash event_refs"

abbreviation event_deleteMany :: "(event \<Rightarrow> bool) \<Rightarrow> nat dbtx" where
  "event_deleteMany \<equiv> delete_many db_events db_events_update"

abbreviation task_create :: "task \<Rightarrow> task dbtx" where
  "task_create \<equiv> create_row db_tasks db_tasks_update (\<lambda>q r. t_id q = t_id r) task_refs"

abbreviation task_updateMany :: "time \<Rightarrow> (task \<Rightarrow> bool) \<Rightarrow> (task \<Rightarrow> task) \<Rightarrow> nat dbtx" where
  "task_updateMany now p f \<equiv>
     update_many db_tasks db_tasks_update p (\<lambda>r. (f r)\<lparr>t_updatedAt := now\<rparr>)"

abbreviation run_create :: "run \<Rightarrow> run dbtx" where
  "run_create \<equiv> create_row db_runs db_runs_update run_clash run_refs"

abbreviation run_update :: "time \<Rightarrow> (run \<Rightarrow> bool) \<Rightarrow> (run \<Rightarrow> run) \<Rightarrow> run dbtx" where
  "run_update now p f \<equiv> update_one db_runs db_runs_update p (\<lambda>r. (f r)\<lparr>r_updatedAt := now\<rparr>)"

abbreviation run_updateMany :: "time \<Rightarrow> (run \<Rightarrow> bool) \<Rightarrow> (run \<Rightarrow> run) \<Rightarrow> nat dbtx" where
  "run_updateMany now p f \<equiv>
     update_many db_runs db_runs_update p (\<lambda>r. (f r)\<lparr>r_updatedAt := now\<rparr>)"

abbreviation attempt_create :: "attempt \<Rightarrow> attempt dbtx" where
  "attempt_create \<equiv> create_row db_attempts db_attempts_update (\<lambda>q r. a_id q = a_id r) attempt_refs"

abbreviation attempt_updateMany :: "(attempt \<Rightarrow> bool) \<Rightarrow> (attempt \<Rightarrow> attempt) \<Rightarrow> nat dbtx" where
  "attempt_updateMany \<equiv> update_many db_attempts db_attempts_update"

abbreviation effect_create :: "effect \<Rightarrow> effect dbtx" where
  "effect_create \<equiv> create_row db_effects db_effects_update effect_clash effect_refs"

abbreviation effect_update :: "time \<Rightarrow> (effect \<Rightarrow> bool) \<Rightarrow> (effect \<Rightarrow> effect) \<Rightarrow> effect dbtx" where
  "effect_update now p f \<equiv>
     update_one db_effects db_effects_update p (\<lambda>r. (f r)\<lparr>x_updatedAt := now\<rparr>)"

abbreviation effect_updateMany :: "time \<Rightarrow> (effect \<Rightarrow> bool) \<Rightarrow> (effect \<Rightarrow> effect) \<Rightarrow> nat dbtx" where
  "effect_updateMany now p f \<equiv>
     update_many db_effects db_effects_update p (\<lambda>r. (f r)\<lparr>x_updatedAt := now\<rparr>)"

abbreviation computer_updateMany :: "time \<Rightarrow> (computer \<Rightarrow> bool) \<Rightarrow> (computer \<Rightarrow> computer) \<Rightarrow> nat dbtx" where
  "computer_updateMany now p f \<equiv>
     update_many db_computers db_computers_update p (\<lambda>r. (f r)\<lparr>c_updatedAt := now\<rparr>)"

abbreviation lease_create :: "exec_lease \<Rightarrow> exec_lease dbtx" where
  "lease_create \<equiv> create_row db_leases db_leases_update lease_clash lease_refs"

abbreviation lease_updateMany :: "(exec_lease \<Rightarrow> bool) \<Rightarrow> (exec_lease \<Rightarrow> exec_lease) \<Rightarrow> nat dbtx" where
  "lease_updateMany \<equiv> update_many db_leases db_leases_update"

abbreviation lease_deleteMany :: "(exec_lease \<Rightarrow> bool) \<Rightarrow> nat dbtx" where
  "lease_deleteMany \<equiv> delete_many db_leases db_leases_update"

abbreviation bot_update :: "time \<Rightarrow> (bot \<Rightarrow> bool) \<Rightarrow> (bot \<Rightarrow> bot) \<Rightarrow> bot dbtx" where
  "bot_update now p f \<equiv> update_one db_bots db_bots_update p (\<lambda>r. (f r)\<lparr>b_updatedAt := now\<rparr>)"

abbreviation bot_updateMany :: "time \<Rightarrow> (bot \<Rightarrow> bool) \<Rightarrow> (bot \<Rightarrow> bot) \<Rightarrow> nat dbtx" where
  "bot_updateMany now p f \<equiv>
     update_many db_bots db_bots_update p (\<lambda>r. (f r)\<lparr>b_updatedAt := now\<rparr>)"

text \<open>
  Deleting messages sets the references to them to null: \<open>Run.sourceMessage\<close> and
  \<open>Message.replyTo\<close> are declared with \<open>onDelete: SetNull\<close>.
\<close>

definition drop_ref :: "string set \<Rightarrow> string option \<Rightarrow> string option" where
  "drop_ref gone k = (case k of None \<Rightarrow> None | Some i \<Rightarrow> if i \<in> gone then None else Some i)"

definition message_deleteMany :: "(message \<Rightarrow> bool) \<Rightarrow> nat dbtx" where
  "message_deleteMany p = (\<lambda>s.
     let gone = m_id ` set (filter p (db_messages s)) in
     Inr (countMany p (db_messages s),
          s\<lparr>db_messages := map (\<lambda>m. m\<lparr>m_replyToMessageId := drop_ref gone (m_replyToMessageId m)\<rparr>)
                            (deleteMany p (db_messages s)),
            db_runs := map (\<lambda>r. r\<lparr>r_sourceMessageId := drop_ref gone (r_sourceMessageId r)\<rparr>)
                         (db_runs s)\<rparr>))"

text \<open>\<open>upsert\<close> of an approval rule with an empty update.\<close>

definition rule_upsert :: "approval_rule \<Rightarrow> unit dbtx" where
  "rule_upsert q = (\<lambda>s.
     if rule_key q \<in> rule_key ` set (db_rules s) then Inr ((), s)
     else Inr ((), s\<lparr>db_rules := db_rules s @ [q]\<rparr>))"

end
