(* ===== verification/Messages.thy ===== *)
theory Messages
  imports Tables
begin

text \<open>
  Writing the history of a thread: \<open>createThreadMessageInTransaction\<close> and
  \<open>assertRunCanWriteHistory\<close> (packages/db/src/messages.ts), \<open>appendEventInTransaction\<close> and
  \<open>eventsAfter\<close> (packages/db/src/events.ts). Both write paths take the next number of a
  per-thread counter; the interface \<open>thread_log\<close> states what they promise and what follows
  for every log that is written this way.
\<close>

section \<open>The log contract\<close>

text \<open>The counter of a thread; a thread that does not exist has issued no number.\<close>

definition next_of :: "(thread \<Rightarrow> nat) \<Rightarrow> db \<Rightarrow> string \<Rightarrow> nat" where
  "next_of nxt s tid = (case find (\<lambda>t. th_id t = tid) (db_threads s) of
     None \<Rightarrow> 0 | Some t \<Rightarrow> nxt t)"

text \<open>
  \<open>keys\<close> lists thread and number of every row. The invariant: a number is used once per
  thread, and the counter is above every number in use.
\<close>

definition log_inv :: "(db \<Rightarrow> (string \<times> nat) list) \<Rightarrow> (thread \<Rightarrow> nat) \<Rightarrow> db \<Rightarrow> bool" where
  "log_inv keys nxt s \<longleftrightarrow> distinct (map th_id (db_threads s)) \<and> distinct (keys s) \<and>
     (\<forall>(tid, n) \<in> set (keys s). n < next_of nxt s tid)"

text \<open>
  The history of a log: the invariant stays, counters only grow, and a row that was not
  there before carries a number the counter had not issued.
\<close>

definition log_step :: "(db \<Rightarrow> (string \<times> nat) list) \<Rightarrow> (thread \<Rightarrow> nat) \<Rightarrow> db \<Rightarrow> db \<Rightarrow> bool" where
  "log_step keys nxt s s' \<longleftrightarrow> (log_inv keys nxt s \<longrightarrow>
     log_inv keys nxt s' \<and> (\<forall>tid. next_of nxt s tid \<le> next_of nxt s' tid) \<and>
     (\<forall>(tid, n) \<in> set (keys s'). (tid, n) \<in> set (keys s) \<or> next_of nxt s tid \<le> n))"

lemma log_step_refl: "log_step keys nxt s s"
  by (auto simp: log_step_def)

lemma log_step_trans: "log_step keys nxt s t \<Longrightarrow> log_step keys nxt t u \<Longrightarrow> log_step keys nxt s u"
  unfolding log_step_def by (fastforce intro: order_trans)

lemma log_step_preorder: "state_preorder (log_step keys nxt)"
  by unfold_locales (auto intro: log_step_refl log_step_trans)

text \<open>Steps that only remove rows, and keep the counters, respect the contract.\<close>

lemma log_step_shrink:
  assumes "db_threads s' = db_threads s" and "distinct (keys s) \<longrightarrow> distinct (keys s')"
    and "set (keys s') \<subseteq> set (keys s)"
  shows "log_step keys nxt s s'"
  using assms by (auto simp: log_step_def log_inv_def next_of_def)

text \<open>An update of threads that leaves identity and counter alone respects it too.\<close>

lemma find_map:
  assumes "\<And>r. p (f r) \<longleftrightarrow> p r"
  shows "find p (map f rs) = map_option f (find p rs)"
  using assms by (induction rs) auto

lemma find_cong_ext: "(\<And>r. p r = q r) \<Longrightarrow> find p rs = find q rs"
  by (induction rs) auto

lemma next_of_updateMany:
  assumes "\<And>t. th_id (f t) = th_id t"
  shows "next_of nxt (s\<lparr>db_threads := updateMany p f (db_threads s)\<rparr>) tid =
    (case find (\<lambda>t. th_id t = tid) (db_threads s) of
       None \<Rightarrow> 0 | Some t \<Rightarrow> if p t then nxt (f t) else nxt t)"
proof -
  have "find (\<lambda>t. th_id t = tid) (updateMany p f (db_threads s)) =
      map_option (\<lambda>t. if p t then f t else t) (find (\<lambda>t. th_id t = tid) (db_threads s))"
    unfolding updateMany_def by (rule find_map) (simp add: assms)
  then show ?thesis by (auto simp: next_of_def split: option.splits)
qed

lemma log_step_threads:
  assumes "\<And>t. th_id (f t) = th_id t" and "\<And>t. nxt t \<le> nxt (f t)" and "keys s' = keys s"
    and "s' = s\<lparr>db_threads := updateMany p f (db_threads s)\<rparr>"
  shows "log_step keys nxt s s'"
proof -
  have mono: "next_of nxt s tid \<le> next_of nxt s' tid" for tid
    using assms by (auto simp: next_of_updateMany) (auto simp: next_of_def split: option.splits)
  moreover have "map th_id (db_threads s') = map th_id (db_threads s)"
    using assms by (simp add: map_updateMany)
  ultimately show ?thesis
    using assms(3) unfolding log_step_def log_inv_def by (fastforce intro: less_le_trans)
qed

lemma next_of_alt:
  "next_of nxt s tid = (case map_of (map (\<lambda>t. (th_id t, nxt t)) (db_threads s)) tid of
     None \<Rightarrow> 0 | Some n \<Rightarrow> n)"
proof -
  have "map_of (map (\<lambda>t. (th_id t, nxt t)) ts) tid = map_option nxt (find (\<lambda>t. th_id t = tid) ts)"
    for ts by (induction ts) auto
  then show ?thesis by (simp add: next_of_def split: option.split)
qed

text \<open>A step that moves the counter of one existing thread by one.\<close>

lemma next_of_bump:
  assumes "find (\<lambda>t. th_id t = tid) (db_threads s) = Some t"
    and m: "map (\<lambda>t. (th_id t, nxt t)) (db_threads s') =
      map (\<lambda>t. (th_id t, nxt t + (if th_id t = tid then 1 else 0))) (db_threads s)"
  shows "next_of nxt s' tid' = next_of nxt s tid' + (if tid' = tid then 1 else 0)"
proof -
  have "map_of (map (\<lambda>t. (th_id t, nxt t + (if th_id t = tid then 1 else 0))) ts) tid' =
      map_option (\<lambda>n. n + (if tid' = tid then 1 else 0)) (map_of (map (\<lambda>t. (th_id t, nxt t)) ts) tid')"
    for ts by (induction ts) auto
  moreover have "map_of (map (\<lambda>t. (th_id t, nxt t)) (db_threads s)) tid \<noteq> None"
    using find_SomeD [OF assms(1)] by (auto simp: map_of_eq_None_iff image_iff)
  ultimately show ?thesis
    unfolding next_of_alt m by (auto split: option.split)
qed

text \<open>
  The interface of a log: writing to thread \<open>tid\<close> takes the number of the counter, which
  moves on by one, and adds exactly one row.
\<close>

locale thread_log =
  fixes keys :: "db \<Rightarrow> (string \<times> nat) list"
    and nxt :: "thread \<Rightarrow> nat"
    and log_write :: "'i \<Rightarrow> (db, db_error, 'r) tx"
    and target :: "'i \<Rightarrow> string"
    and number :: "'r \<Rightarrow> nat"
  assumes write_keys: "log_write i s = Inr (r, s') \<Longrightarrow> keys s' = keys s @ [(target i, number r)]"
    and write_number: "log_write i s = Inr (r, s') \<Longrightarrow> number r = next_of nxt s (target i)"
    and write_counter: "log_write i s = Inr (r, s') \<Longrightarrow>
      next_of nxt s' tid = next_of nxt s tid + (if tid = target i then 1 else 0)"
    and write_threads: "log_write i s = Inr (r, s') \<Longrightarrow>
      map th_id (db_threads s') = map th_id (db_threads s)"
begin

lemma write_log_step: "tx_rel (log_step keys nxt) (log_write i)"
proof (rule tx_relI)
  fix s r s' assume w: "log_write i s = Inr (r, s')"
  show "log_step keys nxt s s'"
    unfolding log_step_def
  proof (intro impI conjI)
    assume inv: "log_inv keys nxt s"
    show "log_inv keys nxt s'"
      using inv write_keys [OF w] write_number [OF w] write_counter [OF w] write_threads [OF w]
      by (fastforce simp: log_inv_def)
    show "\<forall>tid. next_of nxt s tid \<le> next_of nxt s' tid"
      using write_counter [OF w] by simp
    show "\<forall>(tid, n) \<in> set (keys s'). (tid, n) \<in> set (keys s) \<or> next_of nxt s tid \<le> n"
      using write_keys [OF w] write_number [OF w] by auto
  qed
qed

lemma consecutive_writes:
  assumes "log_write i s = Inr (r, s1)" and "log_write j s1 = Inr (r', s2)" and "target i = target j"
  shows "number r' = Suc (number r)"
  using assms write_number write_counter [OF assms(1), of "target j"] by simp

lemma write_above_log:
  assumes "log_inv keys nxt s" and "log_write i s = Inr (r, s')" and "(target i, n) \<in> set (keys s)"
  shows "n < number r"
  using assms write_number by (fastforce simp: log_inv_def)

end

section \<open>Runs and the history\<close>

text \<open>A run that was cancelled, or that does not exist, may not write to its thread.\<close>

definition assertRunCanWriteHistory :: "string option \<Rightarrow> unit dbtx" where
  "assertRunCanWriteHistory runId =
     (if \<not> truthy runId then tx_return ()
      else tx_bind (find_first db_runs (\<lambda>r. Some (r_id r) = runId)) (\<lambda>r.
        case r of
          None \<Rightarrow> tx_throw RunHistoryWriteError
        | Some r \<Rightarrow> if r_status r = Cancelled then tx_throw RunHistoryWriteError
                    else tx_return ()))"

definition can_write :: "db \<Rightarrow> string option \<Rightarrow> bool" where
  "can_write s runId \<longleftrightarrow> (\<not> truthy runId \<or>
     (case find (\<lambda>r. Some (r_id r) = runId) (db_runs s) of
        None \<Rightarrow> False | Some r \<Rightarrow> r_status r \<noteq> Cancelled))"

lemma can_write_simps [simp]:
  "can_write (s\<lparr>db_threads := ts\<rparr>) k = can_write s k"
  "can_write (s\<lparr>db_messages := ms\<rparr>) k = can_write s k"
  "can_write (s\<lparr>db_events := es\<rparr>) k = can_write s k"
  "can_write (db_threads_update f s) k = can_write s k"
  by (simp_all add: can_write_def)

lemma assertRun_run:
  "assertRunCanWriteHistory runId s =
     (if can_write s runId then Inr ((), s) else Inl RunHistoryWriteError)"
  by (auto simp: assertRunCanWriteHistory_def can_write_def tx_bind_run split: option.splits)

section \<open>Messages\<close>

record message_input =
  mi_threadId :: string
  mi_role :: role
  mi_blocks :: "message_block list"
  mi_botId :: "string option"
  mi_replyToMessageId :: "string option"
  mi_runId :: "string option"
  mi_clientNonce :: "string option"

definition createThreadMessageInTransaction ::
  "time \<Rightarrow> string \<Rightarrow> message_input \<Rightarrow> message dbtx" where
  "createThreadMessageInTransaction now mid input =
     tx_bind (thread_update now (\<lambda>t. th_id t = mi_threadId input)
       (\<lambda>t. t\<lparr>th_nextMessageSeq := th_nextMessageSeq t + 1,
              th_unread := (if mi_role input = RoleBot then True else th_unread t)\<rparr>)) (\<lambda>t.
     tx_bind (assertRunCanWriteHistory (mi_runId input)) (\<lambda>_.
     message_create \<lparr>
       m_id = mid, m_threadId = mi_threadId input, m_seq = th_nextMessageSeq t - 1,
       m_role = mi_role input, m_blocks = Some (mi_blocks input), m_botId = mi_botId input,
       m_replyToMessageId = mi_replyToMessageId input, m_runId = mi_runId input,
       m_clientNonce = mi_clientNonce input, m_createdAt = now\<rparr>))"

definition message_keys :: "db \<Rightarrow> (string \<times> nat) list" where
  "message_keys s = map (\<lambda>m. (m_threadId m, m_seq m)) (db_messages s)"

lemma createThreadMessage_Inr:
  assumes "createThreadMessageInTransaction now mid input s = Inr (m, s')"
  obtains t where "find (\<lambda>t. th_id t = mi_threadId input) (db_threads s) = Some t"
    and "can_write s (mi_runId input)"
    and "m = \<lparr>m_id = mid, m_threadId = mi_threadId input, m_seq = th_nextMessageSeq t,
       m_role = mi_role input, m_blocks = Some (mi_blocks input), m_botId = mi_botId input,
       m_replyToMessageId = mi_replyToMessageId input, m_runId = mi_runId input,
       m_clientNonce = mi_clientNonce input, m_createdAt = now\<rparr>"
    and "s' = db_messages_update (\<lambda>ms. ms @ [m])
         (db_threads_update (updateMany (\<lambda>t. th_id t = mi_threadId input)
            (\<lambda>t. t\<lparr>th_nextMessageSeq := th_nextMessageSeq t + 1,
              th_unread := (if mi_role input = RoleBot then True else th_unread t),
              th_updatedAt := now\<rparr>)) s)"
    and "\<not> (\<exists>q \<in> set (db_messages s). message_clash q m)"
  using assms unfolding createThreadMessageInTransaction_def
  by (cases "find (\<lambda>t. th_id t = mi_threadId input) (db_threads s)")
    (force simp: tx_bind_run update_one_def create_row_def assertRun_run split: if_splits)+

lemma createThreadMessage_counter:
  assumes "createThreadMessageInTransaction now k input s = Inr (r, s')"
  shows "next_of th_nextMessageSeq s' tid = next_of th_nextMessageSeq s tid + (if tid = mi_threadId input then 1 else 0)"
proof (rule createThreadMessage_Inr [OF assms], goal_cases)
  case (1 t)
  show ?case by (rule next_of_bump [OF 1(1)]) (simp add: 1(4) updateMany_def)
qed

interpretation message_log: thread_log message_keys th_nextMessageSeq
    "\<lambda>(now, mid, i). createThreadMessageInTransaction now mid i" "\<lambda>(now, mid, i). mi_threadId i" m_seq
proof (unfold_locales, goal_cases)
  case (1 i s r s')
  then show ?case
    by (cases i) (auto elim!: createThreadMessage_Inr simp: message_keys_def)
next
  case (2 i s r s')
  then show ?case
    by (cases i) (auto elim!: createThreadMessage_Inr simp: next_of_def)
next
  case (3 i s r s' tid)
  then show ?case by (cases i) (simp add: createThreadMessage_counter)
next
  case (4 i s r s')
  then show ?case
    by (cases i) (auto elim!: createThreadMessage_Inr simp: map_updateMany)
qed

section \<open>Events\<close>

record event_input =
  ei_workspaceId :: string
  ei_threadId :: string
  ei_botId :: string
  ei_type :: event_type
  ei_payload :: payload
  ei_runId :: "string option"

definition appendEventInTransaction :: "time \<Rightarrow> string \<Rightarrow> event_input \<Rightarrow> event dbtx" where
  "appendEventInTransaction now eid input =
     tx_bind (thread_update now (\<lambda>t. th_id t = ei_threadId input)
       (\<lambda>t. t\<lparr>th_nextEventSeq := th_nextEventSeq t + 1\<rparr>)) (\<lambda>t.
     tx_bind (assertRunCanWriteHistory (ei_runId input)) (\<lambda>_.
     event_create \<lparr>
       e_id = eid, e_workspaceId = ei_workspaceId input, e_threadId = ei_threadId input,
       e_botId = ei_botId input, e_seq = th_nextEventSeq t - 1, e_type = ei_type input,
       e_payload = ei_payload input, e_runId = ei_runId input, e_createdAt = now\<rparr>))"

definition event_keys :: "db \<Rightarrow> (string \<times> nat) list" where
  "event_keys s = map (\<lambda>e. (e_threadId e, e_seq e)) (db_events s)"

lemma appendEvent_Inr:
  assumes "appendEventInTransaction now eid input s = Inr (e, s')"
  obtains t where "find (\<lambda>t. th_id t = ei_threadId input) (db_threads s) = Some t"
    and "can_write s (ei_runId input)"
    and "e = \<lparr>e_id = eid, e_workspaceId = ei_workspaceId input, e_threadId = ei_threadId input,
       e_botId = ei_botId input, e_seq = th_nextEventSeq t, e_type = ei_type input,
       e_payload = ei_payload input, e_runId = ei_runId input, e_createdAt = now\<rparr>"
    and "s' = db_events_update (\<lambda>es. es @ [e])
         (db_threads_update (updateMany (\<lambda>t. th_id t = ei_threadId input)
            (\<lambda>t. t\<lparr>th_nextEventSeq := th_nextEventSeq t + 1, th_updatedAt := now\<rparr>)) s)"
    and "\<not> (\<exists>q \<in> set (db_events s). event_clash q e)"
  using assms unfolding appendEventInTransaction_def
  by (cases "find (\<lambda>t. th_id t = ei_threadId input) (db_threads s)")
    (force simp: tx_bind_run update_one_def create_row_def assertRun_run split: if_splits)+

lemma appendEvent_counter:
  assumes "appendEventInTransaction now k input s = Inr (r, s')"
  shows "next_of th_nextEventSeq s' tid = next_of th_nextEventSeq s tid + (if tid = ei_threadId input then 1 else 0)"
proof (rule appendEvent_Inr [OF assms], goal_cases)
  case (1 t)
  show ?case by (rule next_of_bump [OF 1(1)]) (simp add: 1(4) updateMany_def)
qed

interpretation event_log: thread_log event_keys th_nextEventSeq
    "\<lambda>(now, eid, i). appendEventInTransaction now eid i" "\<lambda>(now, eid, i). ei_threadId i" e_seq
proof (unfold_locales, goal_cases)
  case (1 i s r s')
  then show ?case
    by (cases i) (auto elim!: appendEvent_Inr simp: event_keys_def)
next
  case (2 i s r s')
  then show ?case
    by (cases i) (auto elim!: appendEvent_Inr simp: next_of_def)
next
  case (3 i s r s' tid)
  then show ?case by (cases i) (simp add: appendEvent_counter)
next
  case (4 i s r s')
  then show ?case
    by (cases i) (auto elim!: appendEvent_Inr simp: map_updateMany)
qed

end
