(* ===== verification/RunHistory.thy ===== *)
theory RunHistory
  imports Messages
begin

text \<open>
  How the rows of runs and external effects may change. \<open>core_step\<close> and \<open>effect_step\<close> are
  the state machines that the handlers of the following theories drive: the columns that
  decide who owns a run, and the status of an effect. \<open>db_step\<close> is the contract of a
  transaction on the whole database: the two thread logs keep their invariants, rows of runs
  and effects keep their identity and move along the machines only, and new rows start in
  the initial state. The rules of the collection \<open>tx_rules\<close> prove the contract for each call
  on a table once; a handler then has it by composition.
\<close>

named_theorems tx_rules \<open>the contract of single database calls\<close>

section \<open>The machine of a run\<close>

text \<open>Status, lease owner, lease expiry, and whether the run has a completion time.\<close>

type_synonym core = "run_status \<times> string option \<times> time option \<times> bool"

definition core_of :: "run \<Rightarrow> core" where
  "core_of r = (r_status r, r_leaseOwner r, r_leaseExpiresAt r, r_completedAt r \<noteq> None)"

inductive core_step :: "core \<Rightarrow> core \<Rightarrow> bool" where
  touch: "core_step c c"
| claim: "st \<in> {Queued, WaitingInput, WaitingTakeover} \<or> (st \<in> {Leased, Running} \<and> ex \<noteq> None) \<Longrightarrow>
     core_step (st, ow, ex, d) (Leased, Some w, Some t, d)"
| start: "core_step (Leased, Some w, ex, d) (Running, Some w, ex, d)"
| renew: "core_step (Running, Some w, ex, d) (Running, Some w, Some t, d)"
| pause: "st = WaitingInput \<or> st = WaitingTakeover \<Longrightarrow>
     core_step (Running, Some w, ex, d) (st, None, None, d)"
| finish: "st = Completed \<or> st = Failed \<Longrightarrow>
     core_step (Running, Some w, ex, d) (st, None, None, True)"
| block: "core_step (Leased, Some w, ex, d) (Failed, None, None, True)"
| requeue: "st = Leased \<or> st = Running \<Longrightarrow>
     core_step (st, Some w, ex, d) (Queued, None, None, d)"
| resume: "st = WaitingInput \<or> st = WaitingTakeover \<Longrightarrow>
     core_step (st, ow, ex, d) (Queued, ow, ex, d)"
| cancel: "isActive st \<Longrightarrow> core_step (st, ow, ex, d) (Cancelled, None, None, True)"
| cancel_keep: "isActive st \<Longrightarrow> core_step (st, ow, ex, d) (Cancelled, ow, ex, True)"
| retry: "core_step (Failed, ow, ex, d) (Queued, None, None, False)"

inductive_simps core_step_completed: "core_step (Completed, ow, ex, d) c"
inductive_simps core_step_cancelled: "core_step (Cancelled, ow, ex, d) c"
inductive_cases core_stepE: "core_step c c'"

text \<open>The lease of a run is complete while it is held, and only then.\<close>

definition core_ok :: "core \<Rightarrow> bool" where
  "core_ok c = (case c of (st, ow, ex, d) \<Rightarrow>
     (st \<in> {Leased, Running} \<longrightarrow> ow \<noteq> None \<and> ex \<noteq> None) \<and>
     (st \<in> {Queued, WaitingInput, WaitingTakeover, Completed, Failed} \<longrightarrow> ow = None \<and> ex = None) \<and>
     (d \<longleftrightarrow> isTerminal st))"

lemma isTerminal_simps [simp]:
  "isTerminal Completed" "isTerminal Failed" "isTerminal Cancelled"
  "\<not> isTerminal Queued" "\<not> isTerminal Leased" "\<not> isTerminal Running"
  "\<not> isTerminal WaitingInput" "\<not> isTerminal WaitingTakeover"
  by (simp_all add: status_defs)

lemma core_step_ok: "core_step c c' \<Longrightarrow> core_ok c \<Longrightarrow> core_ok c'"
  by (induction rule: core_step.induct) (auto simp: core_ok_def active_iff_not_terminal)

lemma core_steps_ok: "core_step\<^sup>*\<^sup>* c c' \<Longrightarrow> core_ok c \<Longrightarrow> core_ok c'"
  by (induction rule: rtranclp_induct) (auto intro: core_step_ok)

text \<open>
  The machine against the transition table of packages/core/src/run-state.ts: apart from
  steps that keep the status, it uses exactly two edges that the table does not have.
\<close>

definition extra_transition :: "run_status \<Rightarrow> run_status \<Rightarrow> bool" where
  "extra_transition st st' \<longleftrightarrow> (st, st') \<in> {(Running, Queued), (Leased, Failed)}"

lemma core_step_status:
  "core_step (st, ow, ex, d) (st', ow', ex', d') \<Longrightarrow>
   st' = st \<or> canTransition st st' \<or> extra_transition st st'"
  by (elim core_stepE) (auto simp: canTransition_def extra_transition_def status_defs)

text \<open>Completed and cancelled runs are final.\<close>

lemma core_steps_final:
  "core_step\<^sup>*\<^sup>* c c' \<Longrightarrow> fst c \<in> {Completed, Cancelled} \<Longrightarrow> c' = c"
  by (induction rule: rtranclp_induct)
    (auto simp: core_step_completed core_step_cancelled)

section \<open>The machine of an effect\<close>

inductive effect_step :: "effect_status \<Rightarrow> effect_status \<Rightarrow> bool" where
  keep: "effect_step st st"
| approve: "effect_step Intended Approved"
| deny: "effect_step Intended Denied"
| claim_intended: "effect_step Intended Executing"
| claim_approved: "effect_step Approved Executing"
| complete_unclaimed: "effect_step Intended EffCompleted"
| complete: "effect_step Executing EffCompleted"
| settle: "effect_step Executing Uncertain"

inductive_cases effect_stepE: "effect_step st st'"

text \<open>An effect that was claimed, denied, settled or completed is never open again.\<close>

definition effect_open :: "effect_status \<Rightarrow> bool" where
  "effect_open st \<longleftrightarrow> st = Intended \<or> st = Approved"

lemma effect_steps_closed: "effect_step\<^sup>*\<^sup>* st st' \<Longrightarrow> \<not> effect_open st \<Longrightarrow> \<not> effect_open st'"
  by (induction rule: rtranclp_induct) (auto simp: effect_open_def elim: effect_stepE)

lemma effect_steps_final:
  "effect_step\<^sup>*\<^sup>* st st' \<Longrightarrow> st \<in> {EffCompleted, Uncertain, Denied} \<Longrightarrow> st' = st"
  by (induction rule: rtranclp_induct) (auto elim: effect_stepE)

section \<open>Evolution of a keyed table\<close>

text \<open>
  As long as keys are distinct they stay so, every row before the step continues under the same
  key, or was deleted in a state where \<open>del\<close> allows it, and every row after the step continues
  an earlier one or is new and started in an initial state.
\<close>

definition evolves ::
  "('r \<Rightarrow> 'k) \<Rightarrow> ('r \<Rightarrow> bool) \<Rightarrow> ('r \<Rightarrow> bool) \<Rightarrow> ('r \<Rightarrow> 'r \<Rightarrow> bool) \<Rightarrow> 'r list \<Rightarrow> 'r list \<Rightarrow> bool" where
  "evolves key init del Q rs rs' \<longleftrightarrow>
     (distinct (map key rs) \<longrightarrow> distinct (map key rs') \<and>
     (\<forall>r \<in> set rs. (\<exists>r' \<in> set rs'. key r' = key r \<and> Q\<^sup>*\<^sup>* r r') \<or> (\<exists>m. Q\<^sup>*\<^sup>* r m \<and> del m)) \<and>
     (\<forall>r' \<in> set rs'. (\<exists>r \<in> set rs. key r = key r' \<and> Q\<^sup>*\<^sup>* r r') \<or>
        (\<exists>i. init i \<and> key i = key r' \<and> Q\<^sup>*\<^sup>* i r')))"

lemma evolves_distinct: "evolves key init del Q rs rs' \<Longrightarrow> distinct (map key rs) \<Longrightarrow> distinct (map key rs')"
  by (simp add: evolves_def)

lemma evolves_refl: "evolves key init del Q rs rs"
  by (auto simp: evolves_def)

lemma evolves_trans:
  assumes st: "evolves key init del Q rs ts" and tu: "evolves key init del Q ts us"
  shows "evolves key init del Q rs us"
proof (cases "distinct (map key rs)")
  case d: True
  then have d': "distinct (map key ts)" by (rule evolves_distinct [OF st])
  have "(\<exists>u \<in> set us. key u = key r \<and> Q\<^sup>*\<^sup>* r u) \<or> (\<exists>m. Q\<^sup>*\<^sup>* r m \<and> del m)" if "r \<in> set rs" for r
  proof -
    from st d that consider t where "t \<in> set ts" "key t = key r" "Q\<^sup>*\<^sup>* r t" | m where "Q\<^sup>*\<^sup>* r m" "del m"
      unfolding evolves_def by blast
    then show ?thesis
    proof cases
      case 1
      with tu d' have "(\<exists>u \<in> set us. key u = key t \<and> Q\<^sup>*\<^sup>* t u) \<or> (\<exists>m. Q\<^sup>*\<^sup>* t m \<and> del m)"
        unfolding evolves_def by blast
      with 1 show ?thesis by (metis rtranclp_trans)
    qed blast
  qed
  moreover have "(\<exists>r \<in> set rs. key r = key u \<and> Q\<^sup>*\<^sup>* r u) \<or> (\<exists>i. init i \<and> key i = key u \<and> Q\<^sup>*\<^sup>* i u)"
    if "u \<in> set us" for u
  proof -
    from tu d' that consider t where "t \<in> set ts" "key t = key u" "Q\<^sup>*\<^sup>* t u"
      | i where "init i" "key i = key u" "Q\<^sup>*\<^sup>* i u"
      unfolding evolves_def by blast
    then show ?thesis
    proof cases
      case 1
      with st d have "(\<exists>r \<in> set rs. key r = key t \<and> Q\<^sup>*\<^sup>* r t) \<or> (\<exists>i. init i \<and> key i = key t \<and> Q\<^sup>*\<^sup>* i t)"
        unfolding evolves_def by blast
      with 1 show ?thesis by (metis rtranclp_trans)
    qed blast
  qed
  ultimately show ?thesis using st tu d d' unfolding evolves_def by simp
qed (simp add: evolves_def)

lemma evolves_update:
  assumes "\<And>r. distinct (map key rs) \<Longrightarrow> r \<in> set rs \<Longrightarrow> p r \<Longrightarrow> Q r (f r)" and "\<And>r. key (f r) = key r"
  shows "evolves key init del Q rs (updateMany p f rs)"
proof (cases "distinct (map key rs)")
  case d: True
  let ?g = "\<lambda>r. if p r then f r else r"
  have q: "Q\<^sup>*\<^sup>* r (?g r)" if "r \<in> set rs" for r using assms(1) [OF d that] by auto
  have k: "key (?g r) = key r" for r using assms(2) by simp
  have s: "set (updateMany p f rs) = ?g ` set rs" by (rule set_updateMany)
  show ?thesis
    unfolding evolves_def map_updateMany [of key f, OF assms(2)] s
  proof (intro conjI ballI impI)
    fix r assume r: "r \<in> set rs"
    show "(\<exists>r' \<in> ?g ` set rs. key r' = key r \<and> Q\<^sup>*\<^sup>* r r') \<or> (\<exists>m. Q\<^sup>*\<^sup>* r m \<and> del m)"
      by (intro disjI1 bexI [of _ "?g r"] conjI k q [OF r] imageI r)
  next
    fix r' assume "r' \<in> ?g ` set rs"
    then obtain r where r: "r \<in> set rs" and r': "r' = ?g r" by (rule imageE)
    show "(\<exists>r \<in> set rs. key r = key r' \<and> Q\<^sup>*\<^sup>* r r') \<or> (\<exists>i. init i \<and> key i = key r' \<and> Q\<^sup>*\<^sup>* i r')"
      unfolding r' by (intro disjI1 bexI [of _ r] conjI k [symmetric] q [OF r] r)
  qed (use d in simp)
qed (simp add: evolves_def)

lemma evolves_create:
  assumes "init r" and "key r \<notin> key ` set rs"
  shows "evolves key init del Q rs (rs @ [r])"
  using assms by (auto simp: evolves_def)

lemma evolves_delete:
  assumes "\<And>r. p r \<Longrightarrow> del r"
  shows "evolves key init del Q rs (deleteMany p rs)"
  using assms unfolding evolves_def by (auto simp: deleteMany_def distinct_map_filter)

section \<open>The contract of a transaction\<close>

definition run_key :: "run \<Rightarrow> string \<times> string \<times> string \<times> string" where
  "run_key r = (r_id r, r_threadId r, r_botId r, r_taskId r)"

definition run_init :: "run \<Rightarrow> bool" where
  "run_init r \<longleftrightarrow> r_status r = Queued \<and> r_leaseOwner r = None \<and> r_leaseExpiresAt r = None
     \<and> r_completedAt r = None \<and> r_leaseFence r = 0"

definition run_step :: "run \<Rightarrow> run \<Rightarrow> bool" where
  "run_step r r' \<longleftrightarrow> run_key r' = run_key r \<and> core_step (core_of r) (core_of r')"

text \<open>Only the compensation of a routine wake-up deletes runs, and only queued ones.\<close>

definition run_deletable :: "run \<Rightarrow> bool" where
  "run_deletable r \<longleftrightarrow> r_status r = Queued"

definition effect_init :: "effect \<Rightarrow> bool" where
  "effect_init x \<longleftrightarrow> x_status x = Intended"

definition effect_row_step :: "effect \<Rightarrow> effect \<Rightarrow> bool" where
  "effect_row_step x x' \<longleftrightarrow> x_idempotencyKey x' = x_idempotencyKey x \<and> x_runId x' = x_runId x
     \<and> x_kind x' = x_kind x \<and> effect_step (x_status x) (x_status x')"

definition runs_evolve :: "run list \<Rightarrow> run list \<Rightarrow> bool" where
  "runs_evolve = evolves r_id run_init run_deletable run_step"

definition effects_evolve :: "(effect \<Rightarrow> bool) \<Rightarrow> effect list \<Rightarrow> effect list \<Rightarrow> bool" where
  "effects_evolve del = evolves x_id effect_init del effect_row_step"

definition db_step :: "(effect \<Rightarrow> bool) \<Rightarrow> db \<Rightarrow> db \<Rightarrow> bool" where
  "db_step del s s' \<longleftrightarrow> log_step event_keys th_nextEventSeq s s'
     \<and> log_step message_keys th_nextMessageSeq s s'
     \<and> runs_evolve (db_runs s) (db_runs s') \<and> effects_evolve del (db_effects s) (db_effects s')"

interpretation db_step: state_preorder "db_step del"
  by unfold_locales
    (auto simp: db_step_def runs_evolve_def effects_evolve_def evolves_refl log_step_refl
      intro: evolves_trans log_step_trans)

lemmas [tx_rules] = db_step.rel_rules db_step.prel_rules

definition run_ids_distinct :: "db \<Rightarrow> bool" where
  "run_ids_distinct s \<longleftrightarrow> distinct (map r_id (db_runs s))"

definition effect_ids_distinct :: "db \<Rightarrow> bool" where
  "effect_ids_distinct s \<longleftrightarrow> distinct (map x_id (db_effects s))"

text \<open>
  With distinct identifiers a row that a step did not delete is followed by exactly one row.
\<close>

lemma evolves_row:
  assumes "evolves key init (\<lambda>_. False) Q rs rs'" and "distinct (map key rs)"
    and "r \<in> set rs" and "r' \<in> set rs'" and "key r' = key r"
  shows "Q\<^sup>*\<^sup>* r r'"
proof -
  from assms(1-3) obtain q where q: "q \<in> set rs'" "key q = key r" "Q\<^sup>*\<^sup>* r q"
    unfolding evolves_def by blast
  moreover have "distinct (map key rs')" using assms(1,2) by (simp add: evolves_def)
  ultimately have "q = r'" using assms(4,5) by (auto simp: distinct_map inj_on_def)
  with q(3) show ?thesis by simp
qed

lemma effect_row_steps:
  "effect_row_step\<^sup>*\<^sup>* x x' \<Longrightarrow> effect_step\<^sup>*\<^sup>* (x_status x) (x_status x')"
proof (induction rule: rtranclp_induct)
  case (step y z)
  then show ?case by (meson effect_row_step_def rtranclp.rtrancl_into_rtrancl)
qed simp

lemma run_row_steps: "run_step\<^sup>*\<^sup>* r r' \<Longrightarrow> core_step\<^sup>*\<^sup>* (core_of r) (core_of r') \<and> run_key r' = run_key r"
proof (induction rule: rtranclp_induct)
  case (step y z)
  then show ?case by (auto simp: run_step_def intro: rtranclp.rtrancl_into_rtrancl)
qed simp

text \<open>A step that leaves threads, logs, runs and effects alone.\<close>

lemma db_step_frame:
  assumes "db_threads s' = db_threads s" and "db_events s' = db_events s"
    and "db_messages s' = db_messages s" and "db_runs s' = db_runs s"
    and "db_effects s' = db_effects s"
  shows "db_step del s s'"
  using assms by (auto simp: db_step_def log_step_def log_inv_def next_of_def event_keys_def
      message_keys_def runs_evolve_def effects_evolve_def evolves_refl)

lemma log_step_frame:
  assumes "db_threads s' = db_threads s" and "keys s' = keys s"
  shows "log_step keys nxt s s'"
  using assms by (auto simp: log_step_def log_inv_def next_of_def)

lemma db_step_runs:
  assumes "runs_evolve (db_runs s) (g (db_runs s))"
  shows "db_step del s (db_runs_update g s)"
  using assms by (auto simp: db_step_def effects_evolve_def evolves_refl event_keys_def
      message_keys_def intro!: log_step_frame)

lemma db_step_effects:
  assumes "effects_evolve del (db_effects s) (g (db_effects s))"
  shows "db_step del s (db_effects_update g s)"
  using assms by (auto simp: db_step_def runs_evolve_def evolves_refl event_keys_def
      message_keys_def intro!: log_step_frame)

lemma db_step_threads:
  assumes "\<And>t. th_id (f t) = th_id t" and "\<And>t. th_nextEventSeq (f t) = th_nextEventSeq t"
    and "\<And>t. th_nextMessageSeq (f t) = th_nextMessageSeq t"
  shows "db_step del s (db_threads_update (updateMany p f) s)"
  unfolding db_step_def runs_evolve_def effects_evolve_def using assms
  by (auto simp: evolves_refl event_keys_def message_keys_def
      intro!: log_step_threads [where f = f and p = p])

subsection \<open>Calls on single tables\<close>

lemma rel_thread_update [tx_rules]:
  assumes "\<And>t. th_id (f t) = th_id t" and "\<And>t. th_nextEventSeq (f t) = th_nextEventSeq t"
    and "\<And>t. th_nextMessageSeq (f t) = th_nextMessageSeq t"
  shows "tx_rel (db_step del) (update_one db_threads db_threads_update p f)"
    and "tx_rel (db_step del) (update_many db_threads db_threads_update p f)"
  using assms by (auto intro!: tx_relI db_step_threads simp: update_one_Inr)

lemma rel_find [tx_rules]:
  "tx_rel (db_step del) (find_first get p)" "tx_rel (db_step del) (find_many get' p')"
  by (auto intro!: tx_relI db_step_frame)

lemma rel_assert_run [tx_rules]: "tx_rel (db_step del) (assertRunCanWriteHistory k)"
  by (auto intro!: tx_relI db_step_frame simp: assertRun_run split: if_splits)

lemma rel_create_message [tx_rules]:
  "tx_rel (db_step del) (createThreadMessageInTransaction now mid input)"
proof (rule tx_relI)
  fix s m s' assume w: "createThreadMessageInTransaction now mid input s = Inr (m, s')"
  have "log_step message_keys th_nextMessageSeq s s'"
    using tx_relD [OF message_log.write_log_step [of "(now, mid, input)"]] w by simp
  moreover have "log_step event_keys th_nextEventSeq s s' \<and> db_runs s' = db_runs s
      \<and> db_effects s' = db_effects s"
  proof (rule createThreadMessage_Inr [OF w], goal_cases)
    case (1 t)
    let ?f = "\<lambda>t. t\<lparr>th_nextMessageSeq := th_nextMessageSeq t + 1,
      th_unread := (if mi_role input = RoleBot then True else th_unread t), th_updatedAt := now\<rparr>"
    have "log_step event_keys th_nextEventSeq s
        (s\<lparr>db_threads := updateMany (\<lambda>t. th_id t = mi_threadId input) ?f (db_threads s)\<rparr>)"
      by (rule log_step_threads [where f = ?f]) (simp_all add: event_keys_def)
    moreover have "log_step event_keys th_nextEventSeq
        (s\<lparr>db_threads := updateMany (\<lambda>t. th_id t = mi_threadId input) ?f (db_threads s)\<rparr>) s'"
      by (rule log_step_frame) (simp_all add: 1(4) event_keys_def)
    ultimately show ?case by (auto simp: 1(4) intro: log_step_trans)
  qed
  ultimately show "db_step del s s'"
    by (simp add: db_step_def runs_evolve_def effects_evolve_def evolves_refl)
qed

lemma rel_append_event [tx_rules]: "tx_rel (db_step del) (appendEventInTransaction now eid input)"
proof (rule tx_relI)
  fix s e s' assume w: "appendEventInTransaction now eid input s = Inr (e, s')"
  have "log_step event_keys th_nextEventSeq s s'"
    using tx_relD [OF event_log.write_log_step [of "(now, eid, input)"]] w by simp
  moreover have "log_step message_keys th_nextMessageSeq s s' \<and> db_runs s' = db_runs s
      \<and> db_effects s' = db_effects s"
  proof (rule appendEvent_Inr [OF w], goal_cases)
    case (1 t)
    let ?f = "\<lambda>t. t\<lparr>th_nextEventSeq := th_nextEventSeq t + 1, th_updatedAt := now\<rparr>"
    have "log_step message_keys th_nextMessageSeq s
        (s\<lparr>db_threads := updateMany (\<lambda>t. th_id t = ei_threadId input) ?f (db_threads s)\<rparr>)"
      by (rule log_step_threads [where f = ?f]) (simp_all add: message_keys_def)
    moreover have "log_step message_keys th_nextMessageSeq
        (s\<lparr>db_threads := updateMany (\<lambda>t. th_id t = ei_threadId input) ?f (db_threads s)\<rparr>) s'"
      by (rule log_step_frame) (simp_all add: 1(4) message_keys_def)
    ultimately show ?case by (auto simp: 1(4) intro: log_step_trans)
  qed
  ultimately show "db_step del s s'"
    by (simp add: db_step_def runs_evolve_def effects_evolve_def evolves_refl)
qed

lemma rel_event_delete [tx_rules]:
  "tx_rel (db_step del) (delete_many db_events db_events_update p)"
  by (auto intro!: tx_relI log_step_shrink simp: db_step_def runs_evolve_def effects_evolve_def
      evolves_refl event_keys_def message_keys_def deleteMany_def distinct_map_filter
      simp flip: map_map)

lemma rel_message_update [tx_rules]:
  assumes "\<And>m. m_threadId (f m) = m_threadId m" and "\<And>m. m_seq (f m) = m_seq m"
  shows "tx_rel (db_step del) (update_one db_messages db_messages_update p f)"
  using assms by (auto intro!: tx_relI log_step_frame simp: update_one_Inr db_step_def
      runs_evolve_def effects_evolve_def evolves_refl event_keys_def message_keys_def map_updateMany)

lemma rel_run_update [tx_rules]:
  assumes "\<And>r. p r \<Longrightarrow> run_step r (f r)" and "\<And>r. r_id (f r) = r_id r"
  shows "tx_rel (db_step del) (update_many db_runs db_runs_update p f)"
    and "tx_rel (db_step del) (update_one db_runs db_runs_update p f)"
  using assms by (auto intro!: tx_relI db_step_runs evolves_update simp: runs_evolve_def update_one_Inr)

lemma rel_run_create [tx_rules]:
  "run_init r \<Longrightarrow> tx_rel (db_step del) (run_create r)"
  by (force intro!: tx_relI db_step_runs evolves_create
      simp: runs_evolve_def create_row_Inr run_clash_def)

lemma rel_run_delete [tx_rules]:
  "(\<And>r. p r \<Longrightarrow> r_status r = Queued) \<Longrightarrow>
   tx_rel (db_step del) (delete_many db_runs db_runs_update p)"
  by (auto intro!: tx_relI db_step_runs evolves_delete simp: runs_evolve_def run_deletable_def)

lemma rel_effect_update [tx_rules]:
  assumes "\<And>x. p x \<Longrightarrow> effect_row_step x (f x)" and "\<And>x. x_id (f x) = x_id x"
  shows "tx_rel (db_step del) (update_many db_effects db_effects_update p f)"
    and "tx_rel (db_step del) (update_one db_effects db_effects_update p f)"
  using assms
  by (auto intro!: tx_relI db_step_effects evolves_update simp: effects_evolve_def update_one_Inr)

lemma rel_effect_create [tx_rules]:
  "effect_init x \<Longrightarrow> tx_rel (db_step del) (effect_create x)"
  by (force intro!: tx_relI db_step_effects evolves_create
      simp: effects_evolve_def create_row_Inr effect_clash_def)

text \<open>Tables the contract says nothing about.\<close>

lemma rel_other_update [tx_rules]:
  "tx_rel (db_step del) (update_many db_tasks db_tasks_update p0 f0)"
  "tx_rel (db_step del) (update_one db_tasks db_tasks_update p0 f0)"
  "tx_rel (db_step del) (update_many db_attempts db_attempts_update p1 f1)"
  "tx_rel (db_step del) (update_one db_attempts db_attempts_update p1 f1)"
  "tx_rel (db_step del) (update_many db_computers db_computers_update p2 f2)"
  "tx_rel (db_step del) (update_one db_computers db_computers_update p2 f2)"
  "tx_rel (db_step del) (update_many db_leases db_leases_update p3 f3)"
  "tx_rel (db_step del) (update_one db_leases db_leases_update p3 f3)"
  "tx_rel (db_step del) (update_many db_bots db_bots_update p4 f4)"
  "tx_rel (db_step del) (update_one db_bots db_bots_update p4 f4)"
  "tx_rel (db_step del) (update_many db_routines db_routines_update p5 f5)"
  "tx_rel (db_step del) (update_one db_routines db_routines_update p5 f5)"
  "tx_rel (db_step del) (update_many db_secrets db_secrets_update p6 f6)"
  "tx_rel (db_step del) (update_one db_secrets db_secrets_update p6 f6)"
  "tx_rel (db_step del) (update_many db_groups db_groups_update p7 f7)"
  "tx_rel (db_step del) (update_one db_groups db_groups_update p7 f7)"
  "tx_rel (db_step del) (update_many db_members db_members_update p8 f8)"
  "tx_rel (db_step del) (update_one db_members db_members_update p8 f8)"
  by (auto intro!: tx_relI db_step_frame simp: update_one_Inr)

lemma rel_other_create [tx_rules]:
  "tx_rel (db_step del) (delete_many db_tasks db_tasks_update p0)"
  "tx_rel (db_step del) (create_row db_tasks db_tasks_update c0 k0 r0)"
  "tx_rel (db_step del) (delete_many db_attempts db_attempts_update p1)"
  "tx_rel (db_step del) (create_row db_attempts db_attempts_update c1 k1 r1)"
  "tx_rel (db_step del) (delete_many db_computers db_computers_update p2)"
  "tx_rel (db_step del) (create_row db_computers db_computers_update c2 k2 r2)"
  "tx_rel (db_step del) (delete_many db_leases db_leases_update p3)"
  "tx_rel (db_step del) (create_row db_leases db_leases_update c3 k3 r3)"
  "tx_rel (db_step del) (delete_many db_bots db_bots_update p4)"
  "tx_rel (db_step del) (create_row db_bots db_bots_update c4 k4 r4)"
  "tx_rel (db_step del) (delete_many db_routines db_routines_update p5)"
  "tx_rel (db_step del) (create_row db_routines db_routines_update c5 k5 r5)"
  "tx_rel (db_step del) (delete_many db_secrets db_secrets_update p6)"
  "tx_rel (db_step del) (create_row db_secrets db_secrets_update c6 k6 r6)"
  "tx_rel (db_step del) (delete_many db_groups db_groups_update p7)"
  "tx_rel (db_step del) (create_row db_groups db_groups_update c7 k7 r7)"
  "tx_rel (db_step del) (delete_many db_members db_members_update p8)"
  "tx_rel (db_step del) (create_row db_members db_members_update c8 k8 r8)"
  "tx_rel (db_step del) (create_row db_usage db_usage_update c9 k9 r9)"
  by (auto intro!: tx_relI db_step_frame simp: create_row_Inr)

lemma rel_rule_upsert [tx_rules]: "tx_rel (db_step del) (rule_upsert q)"
  by (auto intro!: tx_relI db_step_frame simp: rule_upsert_def split: if_splits)

lemma run_step_source: "run_step r (r\<lparr>r_sourceMessageId := k\<rparr>)"
  by (simp add: run_step_def run_key_def core_of_def core_step.touch)

lemma evolves_map:
  assumes "\<And>r. Q r (f r)" and "\<And>r. key (f r) = key r"
  shows "evolves key init del Q rs (map f rs)"
  using evolves_update [of key rs "\<lambda>_. True" Q f init del] assms by (simp add: updateMany_def)

lemma rel_message_delete [tx_rules]: "tx_rel (db_step del) (message_deleteMany p)"
proof (rule tx_relI)
  fix s n s' assume "message_deleteMany p s = Inr (n, s')"
  then obtain gone where s': "s' = s\<lparr>
      db_messages := map (\<lambda>m. m\<lparr>m_replyToMessageId := drop_ref gone (m_replyToMessageId m)\<rparr>)
        (deleteMany p (db_messages s)),
      db_runs := map (\<lambda>r. r\<lparr>r_sourceMessageId := drop_ref gone (r_sourceMessageId r)\<rparr>) (db_runs s)\<rparr>"
    by (auto simp: message_deleteMany_def Let_def)
  have k: "message_keys s' = map (\<lambda>m. (m_threadId m, m_seq m)) (filter (\<lambda>m. \<not> p m) (db_messages s))"
    by (simp add: s' message_keys_def deleteMany_def)
  have "log_step message_keys th_nextMessageSeq s s'"
  proof (rule log_step_shrink)
    show "distinct (message_keys s) \<longrightarrow> distinct (message_keys s')"
      unfolding k by (simp add: message_keys_def distinct_map_filter)
    show "set (message_keys s') \<subseteq> set (message_keys s)"
      unfolding k by (auto simp: message_keys_def)
  qed (simp add: s')
  moreover have "log_step event_keys th_nextEventSeq s s'"
    by (rule log_step_frame) (simp_all add: s' event_keys_def)
  ultimately show "db_step del s s'"
    by (auto simp: s' db_step_def runs_evolve_def effects_evolve_def evolves_refl
        intro!: evolves_map run_step_source)
qed

lemma rel_case_prod [tx_rules]: "(\<And>a b. tx_rel R (f a b)) \<Longrightarrow> tx_rel R (case v of (a, b) \<Rightarrow> f a b)"
  by (cases v) simp

text \<open>What other clients do between two statements: any step that keeps the contract.\<close>

definition env_ok :: "(effect \<Rightarrow> bool) \<Rightarrow> (db \<Rightarrow> db) \<Rightarrow> bool" where
  "env_ok del env \<longleftrightarrow> (\<forall>s. db_step del s (env s))"

lemma prel_env [tx_rules]: "env_ok del env \<Longrightarrow> prog_rel (db_step del) (prog_env env)"
  by (simp add: env_ok_def prog_rel_def)

text \<open>Publishing a job; a publisher that is down makes the call fail.\<close>

definition enqueue :: "bool \<Rightarrow> job \<Rightarrow> unit dbprog" where
  "enqueue fails j = (if fails then prog_throw (Thrown ''enqueue failed'')
     else prog_env (\<lambda>s. s\<lparr>db_jobs := db_jobs s @ [j]\<rparr>))"

lemma enqueue_step [tx_rules]: "prog_rel (db_step del) (enqueue fails j)"
  by (auto simp: enqueue_def prog_rel_def db_step.refl_state intro!: db_step_frame)

text \<open>Cancelling a pending job by its key.\<close>

definition job_cancel :: "bool \<Rightarrow> string \<Rightarrow> unit dbprog" where
  "job_cancel fails k = (if fails then prog_throw (Thrown ''cancel failed'')
     else prog_env (\<lambda>s. s\<lparr>db_cancels := db_cancels s @ [k]\<rparr>))"

lemma job_cancel_step [tx_rules]: "prog_rel (db_step del) (job_cancel fails k)"
  by (auto simp: job_cancel_def prog_rel_def db_step.refl_state intro!: db_step_frame)

text \<open>Row steps from single columns.\<close>

lemmas run_step_intro = run_step_def run_key_def core_of_def

end
