(* ===== verification/ThreadEvents.thy ===== *)
theory ThreadEvents
  imports RunHistory
begin

text \<open>
  The handlers of packages/db/src/events.ts: each is one database transaction on the runs,
  attempts, tasks, messages and events of a thread, followed by a realtime notification with
  the sequence number of the event it committed. The identifiers of created rows and the
  current time are arguments. A handler answers its result and the notifications it
  publishes; a failing publish is ignored by the code and has no further effect.
\<close>

type_synonym notification = "string \<times> nat"

definition threadTopic :: "string \<Rightarrow> string" where
  "threadTopic threadId = ''thread:'' @ threadId"

definition notifyRealtime :: "string \<Rightarrow> nat \<Rightarrow> notification list" where
  "notifyRealtime threadId cursor = [(threadTopic threadId, cursor)]"

record product_event =
  pe_id :: string
  pe_workspaceId :: string
  pe_threadId :: string
  pe_botId :: string
  pe_seq :: nat
  pe_type :: event_type
  pe_runId :: "string option"
  pe_createdAt :: time
  pe_payload :: payload

definition mapProductEvent :: "event \<Rightarrow> product_event" where
  "mapProductEvent e = \<lparr>pe_id = e_id e, pe_workspaceId = e_workspaceId e,
     pe_threadId = e_threadId e, pe_botId = e_botId e, pe_seq = e_seq e, pe_type = e_type e,
     pe_runId = e_runId e, pe_createdAt = e_createdAt e, pe_payload = e_payload e\<rparr>"

text \<open>The statuses of runs that \<open>clearThread\<close> cancels.\<close>

definition clearable :: "run_status list" where
  "clearable = [Queued, Leased, Running, WaitingInput, WaitingTakeover]"

section \<open>clearThread\<close>

record clear_input =
  ct_workspaceId :: string
  ct_threadId :: string
  ct_botId :: string

record clear_result =
  cr_event :: event
  cr_cancelledRunIds :: "string list"
  cr_historyCompactionGeneration :: nat

definition cancel_run :: "time \<Rightarrow> run \<Rightarrow> run" where
  "cancel_run now r = r\<lparr>r_status := Cancelled, r_completedAt := Some now,
     r_leaseOwner := None, r_leaseExpiresAt := None\<rparr>"

definition cancel_runs :: "time \<Rightarrow> string list \<Rightarrow> string list \<Rightarrow> unit dbtx" where
  "cancel_runs now runIds taskIds =
     (if runIds = [] then tx_return ()
      else
        tx_bind (run_updateMany now (\<lambda>r. r_id r \<in> set runIds) (cancel_run now)) (\<lambda>_.
        tx_bind (attempt_updateMany (\<lambda>a. a_runId a \<in> set runIds \<and> a_status a = AttRunning)
          (\<lambda>a. a\<lparr>a_status := AttCancelled, a_finishedAt := Some now\<rparr>)) (\<lambda>_.
        tx_bind (task_updateMany now (\<lambda>t. t_id t \<in> set taskIds) (\<lambda>t. t\<lparr>t_status := Cancelled\<rparr>)) (\<lambda>_.
        tx_return ()))))"

definition release_bot_execution :: "time \<Rightarrow> string \<Rightarrow> unit dbtx" where
  "release_bot_execution now botId =
     tx_bind (lease_deleteMany (\<lambda>l. l_botId l = botId)) (\<lambda>_.
     tx_bind (computer_updateMany now (\<lambda>c. c_executionBotId c = Some botId)
       (\<lambda>c. c\<lparr>c_executionRunId := None, c_executionBotId := None,
              c_executionLeaseExpiresAt := None\<rparr>)) (\<lambda>_.
     tx_return ()))"

text \<open>The compaction cursor moves behind every deleted message.\<close>

definition reset_compaction :: "time \<Rightarrow> string \<Rightarrow> nat \<Rightarrow> thread dbtx" where
  "reset_compaction now threadId nextMessageSeq =
     (if nextMessageSeq > 0 then
        thread_update now (\<lambda>t. th_id t = threadId)
          (\<lambda>t. t\<lparr>th_historyCompactedUpToSeq := Some (int nextMessageSeq - 1),
                 th_historyCompactionSummary := None,
                 th_historyCompactionGeneration := th_historyCompactionGeneration t + 1\<rparr>)
      else
        thread_update now (\<lambda>t. th_id t = threadId)
          (\<lambda>t. t\<lparr>th_historyCompactionSummary := None,
                 th_historyCompactionGeneration := th_historyCompactionGeneration t + 1\<rparr>))"

text \<open>Everything after the runs were cancelled.\<close>

definition clear_history ::
  "time \<Rightarrow> string \<Rightarrow> clear_input \<Rightarrow> thread \<Rightarrow> string list \<Rightarrow> clear_result dbtx" where
  "clear_history now eid input thread runIds =
     tx_bind (release_bot_execution now (ct_botId input)) (\<lambda>_.
     tx_bind (message_deleteMany (\<lambda>m. m_threadId m = ct_threadId input)) (\<lambda>_.
     tx_bind (event_deleteMany (\<lambda>e. e_threadId e = ct_threadId input)) (\<lambda>_.
     tx_bind (reset_compaction now (ct_threadId input) (th_nextMessageSeq thread)) (\<lambda>_.
     tx_bind (bot_update now (\<lambda>b. b_id b = ct_botId input \<and> b_workspaceId b = ct_workspaceId input)
       (\<lambda>b. b)) (\<lambda>_.
     tx_bind (appendEventInTransaction now eid
       \<lparr>ei_workspaceId = ct_workspaceId input, ei_threadId = ct_threadId input,
        ei_botId = ct_botId input, ei_type = ThreadCleared, ei_payload = [], ei_runId = None\<rparr>) (\<lambda>event.
     tx_return \<lparr>cr_event = event, cr_cancelledRunIds = runIds,
       cr_historyCompactionGeneration = th_historyCompactionGeneration thread\<rparr>))))))"

definition clear_selects :: "clear_input \<Rightarrow> run \<Rightarrow> bool" where
  "clear_selects input r \<longleftrightarrow> r_workspaceId r = ct_workspaceId input
     \<and> r_threadId r = ct_threadId input \<and> r_botId r = ct_botId input
     \<and> r_status r \<in> set clearable"

definition clear_mark_read :: "time \<Rightarrow> clear_input \<Rightarrow> thread dbtx" where
  "clear_mark_read now input =
     thread_update now (\<lambda>t. th_id t = ct_threadId input
         \<and> th_workspaceId t = ct_workspaceId input \<and> th_botId t = Some (ct_botId input))
       (\<lambda>t. t\<lparr>th_unread := False\<rparr>)"

definition clearThread_tx :: "time \<Rightarrow> string \<Rightarrow> clear_input \<Rightarrow> clear_result dbtx" where
  "clearThread_tx now eid input =
     tx_bind (clear_mark_read now input) (\<lambda>thread.
     tx_bind (find_many db_runs (clear_selects input)) (\<lambda>activeRuns.
     tx_bind (cancel_runs now (map r_id activeRuns) (map r_taskId activeRuns)) (\<lambda>_.
     clear_history now eid input thread (map r_id activeRuns))))"

definition clearThread ::
  "time \<Rightarrow> string \<Rightarrow> clear_input \<Rightarrow>
   ((product_event \<times> string list \<times> nat) \<times> notification list) dbtx" where
  "clearThread now eid input = tx_bind (clearThread_tx now eid input) (\<lambda>committed.
     tx_return ((mapProductEvent (cr_event committed), cr_cancelledRunIds committed,
         cr_historyCompactionGeneration committed),
       notifyRealtime (e_threadId (cr_event committed)) (e_seq (cr_event committed))))"

section \<open>sendUserMessage\<close>

record send_input =
  su_workspaceId :: string
  su_threadId :: string
  su_botId :: string
  su_userId :: string
  su_blocks :: "message_block list"
  su_prompt :: string
  su_trigger :: run_trigger
  su_clientNonce :: "string option"
  su_onlyIfIdle :: bool
  su_linkMessageToRun :: bool

record send_result =
  sr_messageId :: string
  sr_seq :: nat
  sr_taskId :: "string option"
  sr_runId :: "string option"

text \<open>The fresh identifiers of one send.\<close>

record send_ids =
  si_message :: string
  si_task :: string
  si_run :: string
  si_event :: string

text \<open>\<open>replay\<close>: what an earlier send with the same nonce created.\<close>

definition source_runs :: "db \<Rightarrow> string \<Rightarrow> run list" where
  "source_runs s mid =
     take 1 (sort_key r_createdAt (filter (\<lambda>r. r_sourceMessageId r = Some mid) (db_runs s)))"

definition send_replay :: "send_input \<Rightarrow> db \<Rightarrow> send_result option" where
  "send_replay input s =
     (if \<not> truthy (su_clientNonce input) then None
      else case find (\<lambda>m. m_threadId m = su_threadId input
             \<and> m_clientNonce m = su_clientNonce input) (db_messages s) of
        None \<Rightarrow> None
      | Some message \<Rightarrow>
          let run = (case source_runs s (m_id message) of [] \<Rightarrow> None | r # _ \<Rightarrow> Some r)
          in Some \<lparr>sr_messageId = m_id message, sr_seq = m_seq message,
               sr_taskId = map_option r_taskId run, sr_runId = map_option r_id run\<rparr>)"

definition send_message_input :: "send_input \<Rightarrow> message_input" where
  "send_message_input input = \<lparr>mi_threadId = su_threadId input, mi_role = RoleUser,
     mi_blocks = su_blocks input, mi_botId = None, mi_replyToMessageId = None,
     mi_runId = None, mi_clientNonce = su_clientNonce input\<rparr>"

definition send_run :: "time \<Rightarrow> send_ids \<Rightarrow> send_input \<Rightarrow> run" where
  "send_run now ids input = \<lparr>r_id = si_run ids, r_workspaceId = su_workspaceId input,
     r_botId = su_botId input, r_threadId = su_threadId input, r_taskId = si_task ids,
     r_userId = su_userId input, r_serviceIdentityId = None, r_status = Queued,
     r_trigger = su_trigger input, r_error = None, r_leaseOwner = None, r_leaseFence = 0,
     r_leaseExpiresAt = None, r_checkpoint = None,
     r_clientNonce = (if truthy (su_clientNonce input) then Some (''send:'' @ si_message ids) else None),
     r_sourceMessageId = Some (si_message ids), r_routineId = None, r_startedAt = None,
     r_completedAt = None, r_createdAt = now, r_updatedAt = now\<rparr>"

definition send_work :: "time \<Rightarrow> send_ids \<Rightarrow> send_input \<Rightarrow> run dbtx" where
  "send_work now ids input =
     tx_bind (task_create \<lparr>t_id = si_task ids, t_workspaceId = su_workspaceId input,
       t_botId = su_botId input, t_threadId = su_threadId input, t_userId = su_userId input,
       t_prompt = su_prompt input, t_status = Queued, t_updatedAt = now\<rparr>) (\<lambda>task.
     tx_bind (run_create (send_run now ids input)) (\<lambda>run.
     tx_bind (if su_linkMessageToRun input
              then tx_bind (message_update (\<lambda>m. m_id m = si_message ids)
                     (\<lambda>m. m\<lparr>m_runId := Some (r_id run)\<rparr>)) (\<lambda>_. tx_return ())
              else tx_return ()) (\<lambda>_.
     tx_return run)))"

text \<open>With \<open>onlyIfIdle\<close> no run is created while the bot has active work.\<close>

definition send_enqueue :: "time \<Rightarrow> send_ids \<Rightarrow> send_input \<Rightarrow> run option dbtx" where
  "send_enqueue now ids input =
     tx_bind (if su_onlyIfIdle input
              then find_first db_runs (\<lambda>r. r_botId r = su_botId input
                     \<and> r_status r \<in> set [Running, Queued, Leased])
              else tx_return None) (\<lambda>busy.
     if busy = None then tx_bind (send_work now ids input) (\<lambda>run. tx_return (Some run))
     else tx_return None)"

definition send_commit ::
  "time \<Rightarrow> send_ids \<Rightarrow> send_input \<Rightarrow> (message \<times> run option \<times> event) dbtx" where
  "send_commit now ids input =
     tx_bind (createThreadMessageInTransaction now (si_message ids) (send_message_input input)) (\<lambda>message.
     tx_bind (send_enqueue now ids input) (\<lambda>run.
     tx_bind (appendEventInTransaction now (si_event ids)
       \<lparr>ei_workspaceId = su_workspaceId input, ei_threadId = su_threadId input,
        ei_botId = su_botId input, ei_type = ThreadMessageCreated,
        ei_payload = message_payload (m_id message) RoleUser (su_blocks input),
        ei_runId = map_option r_id run\<rparr>) (\<lambda>event.
     tx_return (message, run, event))))"

text \<open>
  Between the replay read, the transaction and the second replay read other clients may
  commit: \<open>env1\<close> and \<open>env2\<close> are what they do to the database.
\<close>

definition sendUserMessage ::
  "(db \<Rightarrow> db) \<Rightarrow> (db \<Rightarrow> db) \<Rightarrow> time \<Rightarrow> send_ids \<Rightarrow> send_input \<Rightarrow> db \<Rightarrow>
   (db_error + send_result \<times> notification list) \<times> db" where
  "sendUserMessage env1 env2 now ids input s =
     (case send_replay input s of
        Some existing \<Rightarrow> (Inr (existing, []), s)
      | None \<Rightarrow>
          let s1 = env1 s in
          (case send_commit now ids input s1 of
             Inr ((message, run, event), s2) \<Rightarrow>
               (Inr (\<lparr>sr_messageId = m_id message, sr_seq = m_seq message,
                      sr_taskId = map_option r_taskId run, sr_runId = map_option r_id run\<rparr>,
                     notifyRealtime (su_threadId input) (e_seq event)), s2)
           | Inl error \<Rightarrow>
               let s2 = env2 s1 in
               (case send_replay input s2 of
                  Some winner \<Rightarrow> (Inr (winner, []), s2)
                | None \<Rightarrow> (Inl error, s2))))"

section \<open>answerRunInput\<close>

record answer_input =
  ar_workspace :: string
  ar_threadId :: string
  ar_runId :: string
  ar_messageId :: string
  ar_answeredByUserId :: string
  ar_answer :: string

record secret_input =
  ss_runId :: string
  ss_userId :: string
  ss_workspaceId :: string
  ss_plaintext :: string

definition waiting_run :: "answer_input \<Rightarrow> run \<Rightarrow> bool" where
  "waiting_run input r \<longleftrightarrow> r_id r = ar_runId input \<and> r_workspaceId r = ar_workspace input
     \<and> r_threadId r = ar_threadId input \<and> r_status r = WaitingInput"

text \<open>Only the block found is answered: the code compares blocks by identity.\<close>

fun answer_first :: "(message_block \<Rightarrow> message_block) \<Rightarrow> message_block list \<Rightarrow> message_block list" where
  "answer_first f [] = []"
| "answer_first f (b # bs) = (if pending_ask b then f b # bs else b # answer_first f bs)"

definition answer_block :: "string \<Rightarrow> message_block \<Rightarrow> message_block" where
  "answer_block answer b = (case b of
     AskBlock a \<Rightarrow> AskBlock (a\<lparr>ask_status := Some AskAnswered, ask_answer := Some answer\<rparr>)
   | _ \<Rightarrow> b)"

definition ask_of :: "message_block \<Rightarrow> ask_block option" where
  "ask_of b = (case b of AskBlock a \<Rightarrow> Some a | _ \<Rightarrow> None)"

text \<open>The approval the answer decides, and the user who may turn it into a rule.\<close>

definition answer_approval :: "answer_input \<Rightarrow> string \<Rightarrow> ask_block \<Rightarrow> effect option dbtx" where
  "answer_approval input runUserId a =
     (if \<not> (case ask_actions a of None \<Rightarrow> False | Some actions \<Rightarrow>
              list_ex (\<lambda>action. fst action = ar_answer input) actions) then tx_return None
      else tx_bind (find_first db_effects (\<lambda>x. Some (x_id x) = ask_approvalEffectId a
             \<and> x_workspaceId x = ar_workspace input \<and> x_runId x = ar_runId input
             \<and> x_status x = Intended)) (\<lambda>effect.
           case effect of
             None \<Rightarrow> tx_return None
           | Some x \<Rightarrow>
               if ar_answer input = ''always'' \<and> runUserId \<noteq> ar_answeredByUserId input
               then tx_return None else tx_return (Some x)))"

definition apply_approval :: "time \<Rightarrow> string \<Rightarrow> answer_input \<Rightarrow> effect \<Rightarrow> unit dbtx" where
  "apply_approval now ruleId input x =
     tx_bind (effect_update now (\<lambda>e. x_id e = x_id x)
       (\<lambda>e. e\<lparr>x_status := (if ar_answer input = ''allow'' \<or> ar_answer input = ''always''
                            then Approved else Denied)\<rparr>)) (\<lambda>_.
     if ar_answer input = ''always''
     then rule_upsert \<lparr>ar_id = ruleId, ar_workspaceId = ar_workspace input,
            ar_createdByUserId = ar_answeredByUserId input, ar_effect = RuleAllow,
            ar_matchKind = RuleTool, ar_matchValue = x_kind x\<rparr>
     else tx_return ())"

definition apply_secret ::
  "time \<Rightarrow> (secret_input \<Rightarrow> unit dbtx) \<Rightarrow> string \<Rightarrow> answer_input \<Rightarrow> unit dbtx" where
  "apply_secret now store runUserId input =
     tx_bind (store \<lparr>ss_runId = ar_runId input, ss_userId = runUserId,
       ss_workspaceId = ar_workspace input, ss_plaintext = ar_answer input\<rparr>) (\<lambda>_.
     tx_bind (effect_updateMany now (\<lambda>x. x_runId x = ar_runId input
         \<and> x_workspaceId x = ar_workspace input \<and> x_kind x = ''request_secret''
         \<and> x_status x = Intended) (\<lambda>x. x\<lparr>x_status := Approved\<rparr>)) (\<lambda>_.
     tx_return ()))"

definition apply_prompt :: "time \<Rightarrow> answer_input \<Rightarrow> unit dbtx" where
  "apply_prompt now input =
     tx_bind (tx_gets (\<lambda>s. map r_taskId (filter (\<lambda>r. r_id r = ar_runId input) (db_runs s)))) (\<lambda>tasks.
     tx_bind (task_updateMany now (\<lambda>t. t_id t \<in> set tasks)
       (\<lambda>t. t\<lparr>t_prompt := ar_answer input\<rparr>)) (\<lambda>count.
     if count \<noteq> 1 then tx_throw (Thrown ''Run task was not available to answer'')
     else tx_return ()))"

definition answer_decide ::
  "time \<Rightarrow> string \<Rightarrow> (secret_input \<Rightarrow> unit dbtx) option \<Rightarrow> answer_input \<Rightarrow> run \<Rightarrow>
   message_block \<Rightarrow> effect option \<Rightarrow> unit dbtx" where
  "answer_decide now ruleId writer input run pendingAsk approvalEffect =
     (if isApprovalAskBlock pendingAsk
      then (case approvalEffect of None \<Rightarrow> tx_return ()
            | Some x \<Rightarrow> apply_approval now ruleId input x)
      else if isSecretAskBlock pendingAsk
      then (case writer of None \<Rightarrow> tx_return ()
            | Some store \<Rightarrow> apply_secret now store (r_userId run) input)
      else apply_prompt now input)"

definition answer_finish ::
  "time \<Rightarrow> string \<Rightarrow> answer_input \<Rightarrow> run \<Rightarrow> message \<Rightarrow> message_block list \<Rightarrow> (string \<times> nat) option dbtx" where
  "answer_finish now eid input run message blocks =
     tx_bind (message_update (\<lambda>m. m_id m = m_id message) (\<lambda>m. m\<lparr>m_blocks := Some blocks\<rparr>)) (\<lambda>_.
     tx_bind (appendEventInTransaction now eid
       \<lparr>ei_workspaceId = ar_workspace input, ei_threadId = ar_threadId input,
        ei_botId = r_botId run, ei_type = ThreadMessageUpdated,
        ei_payload = message_payload (m_id message) RoleBot blocks,
        ei_runId = Some (ar_runId input)\<rparr>) (\<lambda>updated.
     tx_return (Some (e_threadId updated, e_seq updated))))"

text \<open>The transaction: \<open>None\<close> is the code's \<open>return null\<close>, before anything was written.\<close>

definition answer_apply ::
  "time \<Rightarrow> string \<Rightarrow> string \<Rightarrow> (secret_input \<Rightarrow> unit dbtx) option \<Rightarrow> answer_input \<Rightarrow> run \<Rightarrow> message \<Rightarrow>
   message_block list \<Rightarrow> message_block \<Rightarrow> effect option \<Rightarrow> (string \<times> nat) option dbtx" where
  "answer_apply now eid ruleId writer input run message parsed pendingAsk approvalEffect =
     tx_bind (run_updateMany now (waiting_run input) (\<lambda>r. r\<lparr>r_status := Queued\<rparr>)) (\<lambda>count.
     if count \<noteq> 1 then tx_return None
     else
       tx_bind (answer_decide now ruleId writer input run pendingAsk approvalEffect) (\<lambda>_.
       answer_finish now eid input run message (answer_first (answer_block
         (if isSecretAskBlock pendingAsk then [] else ar_answer input)) parsed)))"

definition answerRunInput_tx ::
  "time \<Rightarrow> string \<Rightarrow> string \<Rightarrow> (secret_input \<Rightarrow> unit dbtx) option \<Rightarrow> answer_input \<Rightarrow>
   (string \<times> nat) option dbtx" where
  "answerRunInput_tx now eid ruleId writer input =
     tx_bind (find_first db_runs (waiting_run input)) (\<lambda>found.
     case found of None \<Rightarrow> tx_return None
     | Some run \<Rightarrow>
     tx_bind (find_first db_messages (\<lambda>m. m_id m = ar_messageId input
         \<and> m_threadId m = ar_threadId input \<and> m_runId m = Some (ar_runId input)
         \<and> m_role m = RoleBot)) (\<lambda>message.
     case message of None \<Rightarrow> tx_return None
     | Some message \<Rightarrow>
     (case m_blocks message of None \<Rightarrow> tx_return None
      | Some parsed \<Rightarrow>
     (case find pending_ask parsed of None \<Rightarrow> tx_return None
      | Some pendingAsk \<Rightarrow>
     (case ask_of pendingAsk of None \<Rightarrow> tx_return None
      | Some a \<Rightarrow>
          if isSecretAskBlock pendingAsk \<and> writer = None then tx_return None
          else if isApprovalAskBlock pendingAsk
          then tx_bind (answer_approval input (r_userId run) a) (\<lambda>effect.
                 case effect of None \<Rightarrow> tx_return None
                 | Some x \<Rightarrow>
                     answer_apply now eid ruleId writer input run message parsed pendingAsk (Some x))
          else answer_apply now eid ruleId writer input run message parsed pendingAsk None)))))"

text \<open>What the handlers do with a committed transaction: answer and notify.\<close>

definition answer_committed ::
  "(string \<times> nat) option dbtx \<Rightarrow> (bool \<times> notification list) dbtx" where
  "answer_committed tx = tx_bind tx (\<lambda>committed. tx_return (case committed of
     None \<Rightarrow> (False, [])
   | Some (threadId, seq) \<Rightarrow> (True, notifyRealtime threadId seq)))"

definition answerRunInput ::
  "time \<Rightarrow> string \<Rightarrow> string \<Rightarrow> (secret_input \<Rightarrow> unit dbtx) option \<Rightarrow> answer_input \<Rightarrow>
   (bool \<times> notification list) dbtx" where
  "answerRunInput now eid ruleId writer input =
     answer_committed (answerRunInput_tx now eid ruleId writer input)"

section \<open>Leaving the running state\<close>

text \<open>
  The identity under which a worker runs a run: every write that ends or pauses it names
  the owner and the fence of the lease it was claimed with.
\<close>

record lease_input =
  li_workspaceId :: string
  li_threadId :: string
  li_botId :: string
  li_runId :: string
  li_attemptId :: string
  li_leaseOwner :: string
  li_leaseFence :: nat

definition holds_lease :: "lease_input \<Rightarrow> run \<Rightarrow> bool" where
  "holds_lease input r \<longleftrightarrow> r_id r = li_runId input \<and> r_workspaceId r = li_workspaceId input
     \<and> r_threadId r = li_threadId input \<and> r_botId r = li_botId input \<and> r_status r = Running
     \<and> r_leaseOwner r = Some (li_leaseOwner input) \<and> r_leaseFence r = li_leaseFence input"

definition open_attempt :: "lease_input \<Rightarrow> attempt \<Rightarrow> bool" where
  "open_attempt input a \<longleftrightarrow> a_id a = li_attemptId input \<and> a_runId a = li_runId input
     \<and> a_fence a = li_leaseFence input \<and> a_status a = AttRunning"

definition bot_message :: "lease_input \<Rightarrow> message_block list \<Rightarrow> message_input" where
  "bot_message input bs = \<lparr>mi_threadId = li_threadId input, mi_role = RoleBot, mi_blocks = bs,
     mi_botId = Some (li_botId input), mi_replyToMessageId = None,
     mi_runId = Some (li_runId input), mi_clientNonce = None\<rparr>"

definition run_event :: "lease_input \<Rightarrow> event_type \<Rightarrow> payload \<Rightarrow> event_input" where
  "run_event input ty p = \<lparr>ei_workspaceId = li_workspaceId input,
     ei_threadId = li_threadId input, ei_botId = li_botId input, ei_type = ty, ei_payload = p,
     ei_runId = Some (li_runId input)\<rparr>"

definition run_progress :: "string \<Rightarrow> event \<Rightarrow> bool" where
  "run_progress runId e \<longleftrightarrow> e_runId e = Some runId \<and> e_type e = ThreadProgress"

definition pauseRunForInput_tx ::
  "time \<Rightarrow> string \<Rightarrow> string \<Rightarrow> string \<Rightarrow> lease_input \<Rightarrow> message_block list \<Rightarrow> (string \<times> nat) option dbtx" where
  "pauseRunForInput_tx now mid eid1 eid2 input blocks =
     tx_bind (run_updateMany now (holds_lease input)
       (\<lambda>r. r\<lparr>r_status := WaitingInput, r_leaseOwner := None, r_leaseExpiresAt := None\<rparr>)) (\<lambda>paused.
     if paused \<noteq> 1 then tx_return None
     else
       tx_bind (attempt_updateMany (open_attempt input)
         (\<lambda>a. a\<lparr>a_status := AttWaitingInput, a_finishedAt := Some now\<rparr>)) (\<lambda>attempt.
       if attempt \<noteq> 1 then tx_throw (Thrown ''Active run attempt was not available to pause'')
       else
         tx_bind (createThreadMessageInTransaction now mid (bot_message input blocks)) (\<lambda>message.
         tx_bind (appendEventInTransaction now eid1
           (run_event input ThreadMessageCreated (message_payload (m_id message) RoleBot blocks))) (\<lambda>_.
         tx_bind (appendEventInTransaction now eid2 (run_event input RunWaitingInput [])) (\<lambda>waitingEvent.
         tx_bind (event_deleteMany (run_progress (li_runId input))) (\<lambda>_.
         tx_return (Some (e_threadId waitingEvent, e_seq waitingEvent))))))))"

definition pauseRunForInput ::
  "time \<Rightarrow> string \<Rightarrow> string \<Rightarrow> string \<Rightarrow> lease_input \<Rightarrow> message_block list \<Rightarrow>
   (bool \<times> notification list) dbtx" where
  "pauseRunForInput now mid eid1 eid2 input blocks =
     answer_committed (pauseRunForInput_tx now mid eid1 eid2 input blocks)"

definition pauseRunForTakeover_tx ::
  "time \<Rightarrow> string \<Rightarrow> lease_input \<Rightarrow> string \<Rightarrow> (string \<times> nat) option dbtx" where
  "pauseRunForTakeover_tx now eid input reason =
     tx_bind (run_updateMany now (holds_lease input)
       (\<lambda>r. r\<lparr>r_status := WaitingTakeover, r_leaseOwner := None, r_leaseExpiresAt := None,
              r_checkpoint := None\<rparr>)) (\<lambda>paused.
     if paused \<noteq> 1 then tx_return None
     else
       tx_bind (attempt_updateMany (open_attempt input)
         (\<lambda>a. a\<lparr>a_status := AttWaitingTakeover, a_finishedAt := Some now\<rparr>)) (\<lambda>attempt.
       if attempt \<noteq> 1 then tx_throw (Thrown ''Active run attempt was not available to pause'')
       else
         tx_bind (appendEventInTransaction now eid
           (run_event input ComputerTakeoverRequested [(''reason'', PJson (JStr reason))])) (\<lambda>waitingEvent.
         tx_bind (event_deleteMany (run_progress (li_runId input))) (\<lambda>_.
         tx_return (Some (e_threadId waitingEvent, e_seq waitingEvent))))))"

definition pauseRunForTakeover ::
  "time \<Rightarrow> string \<Rightarrow> lease_input \<Rightarrow> string \<Rightarrow> (bool \<times> notification list) dbtx" where
  "pauseRunForTakeover now eid input reason =
     answer_committed (pauseRunForTakeover_tx now eid input reason)"

datatype outcome = OutcomeCompleted "message_block list" | OutcomeFailed string

definition outcome_status :: "outcome \<Rightarrow> run_status" where
  "outcome_status oc = (case oc of OutcomeCompleted _ \<Rightarrow> Completed | OutcomeFailed _ \<Rightarrow> Failed)"

definition outcome_attempt :: "outcome \<Rightarrow> attempt_status" where
  "outcome_attempt oc = (case oc of OutcomeCompleted _ \<Rightarrow> AttCompleted | OutcomeFailed _ \<Rightarrow> AttFailed)"

definition outcome_error :: "outcome \<Rightarrow> string option" where
  "outcome_error oc = (case oc of OutcomeCompleted _ \<Rightarrow> None | OutcomeFailed e \<Rightarrow> Some e)"

definition outcome_event :: "outcome \<Rightarrow> event_type" where
  "outcome_event oc = (case oc of OutcomeCompleted _ \<Rightarrow> RunCompleted | OutcomeFailed _ \<Rightarrow> RunFailed)"

definition outcome_payload :: "outcome \<Rightarrow> payload" where
  "outcome_payload oc = (case oc of OutcomeCompleted _ \<Rightarrow> []
     | OutcomeFailed e \<Rightarrow> [(''error'', PJson (JStr e))])"

definition finalize_history ::
  "time \<Rightarrow> string \<Rightarrow> string \<Rightarrow> string \<Rightarrow> lease_input \<Rightarrow> outcome \<Rightarrow> event dbtx" where
  "finalize_history now mid eid1 eid2 input oc =
     tx_bind (case oc of
         OutcomeCompleted blocks \<Rightarrow>
           tx_bind (createThreadMessageInTransaction now mid (bot_message input blocks)) (\<lambda>message.
           tx_bind (appendEventInTransaction now eid1
             (run_event input ThreadMessageCreated (message_payload (m_id message) RoleBot blocks))) (\<lambda>_.
           tx_return ()))
       | OutcomeFailed _ \<Rightarrow> tx_return ()) (\<lambda>_.
     appendEventInTransaction now eid2 (run_event input (outcome_event oc) (outcome_payload oc)))"

definition finalizeRun_tx ::
  "time \<Rightarrow> string \<Rightarrow> string \<Rightarrow> string \<Rightarrow> lease_input \<Rightarrow> string \<Rightarrow> outcome \<Rightarrow> (string \<times> nat) option dbtx" where
  "finalizeRun_tx now mid eid1 eid2 input taskId oc =
     tx_bind (tx_catch (tx_bind (assertRunCanWriteHistory (Some (li_runId input))) (\<lambda>_. tx_return True))
       (\<lambda>error. if error = RunHistoryWriteError then tx_return False else tx_throw error)) (\<lambda>ok.
     if \<not> ok then tx_return None
     else
     tx_bind (run_updateMany now (\<lambda>r. holds_lease input r \<and> r_taskId r = taskId)
       (\<lambda>r. r\<lparr>r_status := outcome_status oc, r_error := outcome_error oc, r_completedAt := Some now,
              r_leaseOwner := None, r_leaseExpiresAt := None\<rparr>)) (\<lambda>terminal.
     if terminal \<noteq> 1 then tx_return None
     else
     tx_bind (attempt_updateMany (open_attempt input)
       (\<lambda>a. a\<lparr>a_status := outcome_attempt oc, a_error := outcome_error oc, a_finishedAt := Some now\<rparr>)) (\<lambda>attempt.
     if attempt \<noteq> 1 then tx_throw (Thrown ''Active run attempt was not available to finalize'')
     else
     tx_bind (task_updateMany now (\<lambda>t. t_id t = taskId \<and> t_workspaceId t = li_workspaceId input
         \<and> t_threadId t = li_threadId input \<and> t_botId t = li_botId input)
       (\<lambda>t. t\<lparr>t_status := outcome_status oc\<rparr>)) (\<lambda>task.
     if task \<noteq> 1 then tx_throw (Thrown ''Run task was not available to finalize'')
     else
     tx_bind (finalize_history now mid eid1 eid2 input oc) (\<lambda>lastEvent.
     tx_bind (event_deleteMany (run_progress (li_runId input))) (\<lambda>_.
     tx_bind (bot_update now (\<lambda>b. b_id b = li_botId input) (\<lambda>b. b)) (\<lambda>_.
     tx_return (Some (e_threadId lastEvent, e_seq lastEvent)))))))))"

definition finalizeRun ::
  "time \<Rightarrow> string \<Rightarrow> string \<Rightarrow> string \<Rightarrow> lease_input \<Rightarrow> string \<Rightarrow> outcome \<Rightarrow>
   (bool \<times> notification list) dbtx" where
  "finalizeRun now mid eid1 eid2 input taskId oc =
     answer_committed (finalizeRun_tx now mid eid1 eid2 input taskId oc)"

section \<open>Computer control\<close>

datatype release_reason = ReasonDone | ReasonExpired | ReasonReleased | ReasonSkipped

definition reason_string :: "release_reason \<Rightarrow> string" where
  "reason_string r = (case r of ReasonDone \<Rightarrow> ''done'' | ReasonExpired \<Rightarrow> ''expired''
     | ReasonReleased \<Rightarrow> ''released'' | ReasonSkipped \<Rightarrow> ''skipped'')"

definition holder_string :: "control_holder \<Rightarrow> string" where
  "holder_string h = (case h of HolderNone \<Rightarrow> ''none'' | HolderBot \<Rightarrow> ''bot'' | HolderUser \<Rightarrow> ''user'')"

record release_input =
  rl_workspaceId :: string
  rl_computerId :: string
  rl_botId :: string
  rl_runId :: "string option"
  rl_leaseId :: string
  rl_holder :: control_holder
  rl_reason :: release_reason

definition release_checkpoint :: "release_reason \<Rightarrow> string" where
  "release_checkpoint reason =
     (if reason = ReasonSkipped \<or> reason = ReasonExpired then ''takeover-skipped'' else ''takeover'')"

definition controls :: "release_input \<Rightarrow> computer \<Rightarrow> bool" where
  "controls input c \<longleftrightarrow> c_id c = rl_computerId input \<and> c_workspaceId c = rl_workspaceId input
     \<and> c_controlBotId c = Some (rl_botId input) \<and> c_controlLeaseId c = Some (rl_leaseId input)
     \<and> c_controlRunId c = rl_runId input"

definition clear_control :: "control_holder \<Rightarrow> computer \<Rightarrow> computer" where
  "clear_control holder c = c\<lparr>c_controlHolder := holder, c_controlLeaseId := None,
     c_controlLeaseExpiresAt := None, c_controlBotId := None, c_controlRunId := None,
     c_controlUserId := None, c_controlActorType := None, c_controlActorName := None,
     c_controlStartedAt := None\<rparr>"

definition primary_thread :: "db \<Rightarrow> bot \<Rightarrow> thread option" where
  "primary_thread s b = find (\<lambda>t. Some (th_id t) = b_primaryThreadId b) (db_threads s)"

definition takeover_resumes :: "release_input \<Rightarrow> run \<Rightarrow> bool" where
  "takeover_resumes input r \<longleftrightarrow> Some (r_id r) = rl_runId input
     \<and> r_workspaceId r = rl_workspaceId input \<and> r_botId r = rl_botId input
     \<and> r_status r = WaitingTakeover"

definition finalizeComputerControlRelease_tx ::
  "time \<Rightarrow> string \<Rightarrow> release_input \<Rightarrow> ((string \<times> nat) option \<times> string option) option dbtx" where
  "finalizeComputerControlRelease_tx now eid input =
     tx_bind (computer_updateMany now (controls input) (clear_control (rl_holder input))) (\<lambda>cleared.
     if cleared \<noteq> 1 then tx_return None
     else
       tx_bind (if truthy (rl_runId input)
                then run_updateMany now (takeover_resumes input)
                  (\<lambda>r. r\<lparr>r_status := Queued,
                         r_checkpoint := Some (release_checkpoint (rl_reason input))\<rparr>)
                else tx_return 0) (\<lambda>resumed.
       let runId = (if resumed = 1 then rl_runId input else None) in
       tx_bind (find_first db_bots (\<lambda>b. b_id b = rl_botId input
           \<and> b_workspaceId b = rl_workspaceId input)) (\<lambda>bot.
       tx_bind (tx_gets (\<lambda>s. case bot of None \<Rightarrow> None | Some b \<Rightarrow> primary_thread s b)) (\<lambda>thread.
       case thread of
         None \<Rightarrow> tx_return (Some (None, runId))
       | Some t \<Rightarrow>
           tx_bind (appendEventInTransaction now eid
             \<lparr>ei_workspaceId = rl_workspaceId input, ei_threadId = th_id t,
              ei_botId = rl_botId input, ei_type = ComputerTakeoverReleased,
              ei_payload = [(''holder'', PJson (JStr (holder_string (rl_holder input)))),
                (''leaseId'', PJson (JStr (rl_leaseId input))),
                (''reason'', PJson (JStr (reason_string (rl_reason input))))],
              ei_runId = runId\<rparr>) (\<lambda>event.
           tx_return (Some (Some (e_threadId event, e_seq event), runId)))))))"

text \<open>\<open>None\<close> is the answer \<open>false\<close>; otherwise the run that was resumed, if one was.\<close>

definition finalizeComputerControlRelease ::
  "time \<Rightarrow> string \<Rightarrow> release_input \<Rightarrow> (string option option \<times> notification list) dbtx" where
  "finalizeComputerControlRelease now eid input =
     tx_bind (finalizeComputerControlRelease_tx now eid input) (\<lambda>committed.
     tx_return (case committed of
         None \<Rightarrow> (None, [])
       | Some (None, runId) \<Rightarrow> (Some runId, [])
       | Some (Some (threadId, seq), runId) \<Rightarrow> (Some runId, notifyRealtime threadId seq)))"

section \<open>appendEvent\<close>

definition appendEvent ::
  "time \<Rightarrow> string \<Rightarrow> event_input \<Rightarrow> (product_event \<times> notification list) dbtx" where
  "appendEvent now eid input = tx_bind (appendEventInTransaction now eid input) (\<lambda>event.
     tx_return (mapProductEvent event, notifyRealtime (e_threadId event) (e_seq event)))"

section \<open>The handlers keep the contract of the database\<close>

text \<open>
  Every handler of this theory keeps the contract of \<open>RunHistory\<close>, hence its invariants:
  the proof is the composition of the contracts of its calls, and for each update of a run
  or an effect the edge of its machine.
\<close>

text \<open>
  Cancelling by identifier is only within the machine for identifiers of active runs: the
  transaction that reads them and the update see the same rows.
\<close>

definition runs_active :: "string list \<Rightarrow> db \<Rightarrow> bool" where
  "runs_active ids s \<longleftrightarrow> (\<forall>r \<in> set (db_runs s). r_id r \<in> set ids \<longrightarrow> isActive (r_status r))"

lemma cancel_run_step: "isActive (r_status r) \<Longrightarrow> run_step r ((cancel_run now r)\<lparr>r_updatedAt := t\<rparr>)"
  by (simp add: run_step_intro cancel_run_def core_step.cancel)

lemma cancel_runs_step:
  assumes "run_ids_distinct s \<Longrightarrow> runs_active ids s" and "cancel_runs now ids tids s = Inr (u, s')"
  shows "db_step del s s'"
proof (cases "ids = []")
  case True
  then show ?thesis using assms by (simp add: cancel_runs_def db_step.refl_state)
next
  case False
  let ?s1 = "db_runs_update (updateMany (\<lambda>r. r_id r \<in> set ids)
    (\<lambda>r. (cancel_run now r)\<lparr>r_updatedAt := now\<rparr>)) s"
  have "db_step del s ?s1"
    using assms(1) by (intro db_step_runs)
      (auto simp: runs_evolve_def runs_active_def cancel_run_def run_ids_distinct_def
        intro!: evolves_update cancel_run_step [unfolded cancel_run_def])
  moreover have "db_step del ?s1 s'"
    using assms(2) False by (auto simp: cancel_runs_def tx_bind_run intro!: db_step_frame)
  ultimately show ?thesis by (rule db_step.trans_state)
qed

lemma release_bot_execution_step: "tx_rel (db_step del) (release_bot_execution now b)"
  unfolding release_bot_execution_def by (intro tx_rules)

lemma reset_compaction_step: "tx_rel (db_step del) (reset_compaction now tid n)"
  unfolding reset_compaction_def by (intro tx_rules) simp_all

lemma source_runs_active:
  "distinct (map r_id rs) \<Longrightarrow> \<forall>r \<in> set rs. p r \<longrightarrow> isActive (r_status r) \<Longrightarrow>
   \<forall>r \<in> set rs. r_id r \<in> set (map r_id (filter p rs)) \<longrightarrow> isActive (r_status r)"
  by (auto simp: distinct_map inj_on_def)

lemma clearable_active: "st \<in> set clearable \<longleftrightarrow> isActive st"
  by (cases st) (simp_all add: clearable_def)

lemma clear_mark_read_step: "tx_rel (db_step del) (clear_mark_read now input)"
  unfolding clear_mark_read_def by (intro tx_rules) simp_all

lemma clear_history_step: "tx_rel (db_step del) (clear_history now eid input t ids)"
  unfolding clear_history_def by (intro tx_rules release_bot_execution_step reset_compaction_step)

lemma clearThread_tx_step:
  assumes c: "clearThread_tx now eid input s = Inr (r, s')"
  shows "db_step del s s'"
proof -
  from c obtain t s1 where
    u: "clear_mark_read now input s = Inr (t, s1)"
    and r: "tx_bind (cancel_runs now (map r_id (filter (clear_selects input) (db_runs s1)))
        (map r_taskId (filter (clear_selects input) (db_runs s1))))
      (\<lambda>_. clear_history now eid input t (map r_id (filter (clear_selects input) (db_runs s1)))) s1
      = Inr (r, s')"
    unfolding clearThread_tx_def by (elim tx_bind_InrE) (simp add: tx_bind_run)
  from r obtain x s2 where
    s2: "cancel_runs now (map r_id (filter (clear_selects input) (db_runs s1)))
        (map r_taskId (filter (clear_selects input) (db_runs s1))) s1 = Inr (x, s2)"
    and rest: "clear_history now eid input t (map r_id (filter (clear_selects input) (db_runs s1))) s2
      = Inr (r, s')"
    by (rule tx_bind_InrE)
  have "db_step del s s1" by (rule tx_relD [OF clear_mark_read_step u])
  moreover have "db_runs s1 = db_runs s" using u by (auto simp: clear_mark_read_def update_one_Inr)
  then have "runs_active (map r_id (filter (clear_selects input) (db_runs s1))) s1"
    if "run_ids_distinct s1"
    using that source_runs_active [of "db_runs s1" "clear_selects input"]
    by (simp add: runs_active_def run_ids_distinct_def clearable_active clear_selects_def)
  then have "db_step del s1 s2" by (rule cancel_runs_step [OF _ s2])
  moreover have "db_step del s2 s'" by (rule tx_relD [OF clear_history_step rest])
  ultimately show ?thesis by (blast intro: db_step.trans_state)
qed

lemma clearThread_step:
  "tx_rel (db_step del) (clearThread now eid input)"
  unfolding clearThread_def by (intro tx_rules tx_relI [OF clearThread_tx_step])

lemma send_commit_step: "tx_rel (db_step del) (send_commit now ids input)"
  unfolding send_commit_def send_enqueue_def send_work_def
  by (intro tx_rules) (simp_all add: run_init_def send_run_def)

lemma effect_step_intro:
  "effect_step (x_status x) st \<Longrightarrow> effect_row_step x (x\<lparr>x_status := st, x_updatedAt := t\<rparr>)"
  by (simp add: effect_row_step_def)

lemma apply_prompt_step: "tx_rel (db_step del) (apply_prompt now input)"
  unfolding apply_prompt_def by (intro tx_rules)

lemma apply_secret_step:
  assumes "\<And>i. tx_rel (db_step del) (store i)"
  shows "tx_rel (db_step del) (apply_secret now store u input)"
  unfolding apply_secret_def
  by (intro tx_rules assms) (auto simp: effect_row_step_def intro: effect_step.approve)

lemma waiting_run_step: "waiting_run input r \<Longrightarrow> run_step r (r\<lparr>r_status := Queued, r_updatedAt := t\<rparr>)"
  by (simp add: run_step_intro waiting_run_def core_step.resume)

lemma holds_lease_step:
  assumes "holds_lease input r"
  shows "run_step r (r\<lparr>r_status := WaitingInput, r_leaseOwner := None, r_leaseExpiresAt := None,
      r_updatedAt := t\<rparr>)"
    and "run_step r (r\<lparr>r_status := WaitingTakeover, r_leaseOwner := None, r_leaseExpiresAt := None,
      r_checkpoint := None, r_updatedAt := t\<rparr>)"
    and "run_step r (r\<lparr>r_status := outcome_status oc, r_error := outcome_error oc,
      r_completedAt := Some u, r_leaseOwner := None, r_leaseExpiresAt := None, r_updatedAt := t\<rparr>)"
  using assms by (auto simp: run_step_intro holds_lease_def outcome_status_def core_step.pause
      core_step.finish split: outcome.split)

lemma pauseRunForInput_step: "tx_rel (db_step del) (pauseRunForInput now mid e1 e2 input bs)"
  unfolding pauseRunForInput_def answer_committed_def pauseRunForInput_tx_def
  by (intro tx_rules) (simp_all add: holds_lease_step)

lemma pauseRunForTakeover_step: "tx_rel (db_step del) (pauseRunForTakeover now eid input reason)"
  unfolding pauseRunForTakeover_def answer_committed_def pauseRunForTakeover_tx_def
  by (intro tx_rules) (simp_all add: holds_lease_step)

lemma rel_case_outcome [tx_rules]:
  "(\<And>bs. tx_rel R (f bs)) \<Longrightarrow> (\<And>e. tx_rel R (g e)) \<Longrightarrow>
   tx_rel R (case oc of OutcomeCompleted bs \<Rightarrow> f bs | OutcomeFailed e \<Rightarrow> g e)"
  by (cases oc) simp_all

lemma finalizeRun_step: "tx_rel (db_step del) (finalizeRun now mid e1 e2 input tid oc)"
  unfolding finalizeRun_def answer_committed_def finalizeRun_tx_def finalize_history_def
  by (intro tx_rules) (auto intro: holds_lease_step)

lemma finalizeComputerControlRelease_step:
  "tx_rel (db_step del) (finalizeComputerControlRelease now eid input)"
  unfolding finalizeComputerControlRelease_def finalizeComputerControlRelease_tx_def
  by (intro tx_rules)
    (auto simp: run_step_intro takeover_resumes_def intro!: core_step.resume)

lemma appendEvent_step: "tx_rel (db_step del) (appendEvent now eid input)"
  unfolding appendEvent_def by (intro tx_rules)

text \<open>
  Deciding an approval by the identifier of the effect stays within the machine because the
  same transaction found that effect in the status \<open>intended\<close>.
\<close>

definition effect_intended :: "string \<Rightarrow> db \<Rightarrow> bool" where
  "effect_intended k s \<longleftrightarrow> (\<forall>x \<in> set (db_effects s). x_id x = k \<longrightarrow> x_status x = Intended)"

lemma apply_approval_step:
  assumes "effect_ids_distinct s \<Longrightarrow> effect_intended (x_id x) s" and "apply_approval now rid input x s = Inr (u, s')"
  shows "db_step del s s'"
proof -
  let ?f = "\<lambda>e. e\<lparr>x_status := (if ar_answer input = ''allow'' \<or> ar_answer input = ''always''
    then Approved else Denied), x_updatedAt := now\<rparr>"
  let ?s1 = "db_effects_update (updateMany (\<lambda>e. x_id e = x_id x) ?f) s"
  have 1: "db_step del s ?s1"
  proof (rule db_step_effects)
    show "effects_evolve del (db_effects s) (updateMany (\<lambda>e. x_id e = x_id x) ?f (db_effects s))"
      unfolding effects_evolve_def
    proof (rule evolves_update)
      fix e assume "distinct (map x_id (db_effects s))" and "e \<in> set (db_effects s)" and "x_id e = x_id x"
      then have "x_status e = Intended" using assms(1) by (auto simp: effect_intended_def effect_ids_distinct_def)
      then show "effect_row_step e (?f e)"
        by (auto simp: effect_row_step_def intro: effect_step.approve effect_step.deny)
    qed simp
  qed
  have 2: "(if ar_answer input = ''always''
     then rule_upsert \<lparr>ar_id = rid, ar_workspaceId = ar_workspace input,
            ar_createdByUserId = ar_answeredByUserId input, ar_effect = RuleAllow,
            ar_matchKind = RuleTool, ar_matchValue = x_kind x\<rparr>
     else tx_return ()) ?s1 = Inr (u, s')"
    using assms(2) by (auto simp: apply_approval_def tx_bind_Inr update_one_Inr)
  have "db_step del ?s1 s'"
    using 2 tx_relD [OF rel_rule_upsert, of _ ?s1] by (auto split: if_splits intro: db_step.refl_state)
  with 1 show ?thesis by (rule db_step.trans_state)
qed

text \<open>A writer of run secrets stays within the tables the contract leaves free.\<close>

definition writer_ok :: "(effect \<Rightarrow> bool) \<Rightarrow> (secret_input \<Rightarrow> unit dbtx) option \<Rightarrow> bool" where
  "writer_ok del writer \<longleftrightarrow> (\<forall>store. writer = Some store \<longrightarrow> (\<forall>i. tx_rel (db_step del) (store i)))"

lemma answer_finish_step: "tx_rel (db_step del) (answer_finish now eid input r m bs)"
  unfolding answer_finish_def by (intro tx_rules) simp_all

lemma answer_decide_step:
  assumes "writer_ok del writer" and "\<And>x. eff = Some x \<Longrightarrow> effect_ids_distinct s \<Longrightarrow> effect_intended (x_id x) s"
    and "answer_decide now rid writer input run ask eff s = Inr (u, s')"
  shows "db_step del s s'"
proof (cases "isApprovalAskBlock ask")
  case True
  then show ?thesis using assms(2,3)
    by (cases eff) (auto simp: answer_decide_def db_step.refl_state intro: apply_approval_step)
next
  case False
  moreover have "tx_rel (db_step del) (if isSecretAskBlock ask
      then (case writer of None \<Rightarrow> tx_return () | Some store \<Rightarrow> apply_secret now store (r_userId run) input)
      else apply_prompt now input)"
    using assms(1) unfolding writer_ok_def
    by (cases writer) (auto intro!: db_step.rel_return apply_secret_step apply_prompt_step)
  ultimately show ?thesis using assms(3) by (auto simp: answer_decide_def dest: tx_relD)
qed

lemma answer_apply_step:
  assumes w: "writer_ok del writer" and x: "\<And>x. eff = Some x \<Longrightarrow> effect_ids_distinct s \<Longrightarrow> effect_intended (x_id x) s"
    and a: "answer_apply now eid rid writer input run m bs ask eff s = Inr (v, s')"
  shows "db_step del s s'"
proof -
  let ?s1 = "db_runs_update (updateMany (waiting_run input)
    (\<lambda>r. r\<lparr>r_status := Queued, r_updatedAt := now\<rparr>)) s"
  have 1: "db_step del s ?s1"
    by (intro db_step_runs) (auto simp: runs_evolve_def intro!: evolves_update waiting_run_step)
  show ?thesis
  proof (cases "countMany (waiting_run input) (db_runs s) = 1")
    case True
    with a obtain u s2 where
      2: "answer_decide now rid writer input run ask eff ?s1 = Inr (u, s2)"
      and 3: "answer_finish now eid input run m (answer_first (answer_block
         (if isSecretAskBlock ask then [] else ar_answer input)) bs) s2 = Inr (v, s')"
      by (auto simp: answer_apply_def tx_bind_Inr)
    have "db_step del ?s1 s2"
      using x by (intro answer_decide_step [OF w _ 2]) (simp add: effect_intended_def effect_ids_distinct_def)
    moreover have "db_step del s2 s'" by (rule tx_relD [OF answer_finish_step 3])
    ultimately show ?thesis by (blast intro: 1 db_step.trans_state)
  next
    case False
    with a 1 show ?thesis by (simp add: answer_apply_def tx_bind_run)
  qed
qed

lemma answer_approval_Some:
  assumes "answer_approval input u a s = Inr (Some x, s')"
  shows "s' = s" and "x \<in> set (db_effects s)" and "x_status x = Intended"
    and "Some (x_id x) = ask_approvalEffectId a"
    and "ar_answer input = ''always'' \<longrightarrow> u = ar_answeredByUserId input"
    and "x_runId x = ar_runId input"
  using assms
  by (auto simp: answer_approval_def tx_bind_run dest!: find_SomeD split: if_splits option.splits)

lemma answer_approval_None:
  "answer_approval input u a s = Inr (None, s') \<Longrightarrow> s' = s"
  by (auto simp: answer_approval_def tx_bind_run split: if_splits option.splits)

lemma effect_intended_found:
  "effect_ids_distinct s \<Longrightarrow> x \<in> set (db_effects s) \<Longrightarrow> x_status x = Intended \<Longrightarrow>
   effect_intended (x_id x) s"
  by (auto simp: effect_ids_distinct_def effect_intended_def distinct_map inj_on_def)

text \<open>What a successful answer found before it wrote anything.\<close>

lemma answerRunInput_tx_cases:
  assumes "answerRunInput_tx now eid rid writer input s = Inr (v, s')"
  obtains (none) "v = None" and "s' = s"
  | (answered) run m bs ask a eff where "find (waiting_run input) (db_runs s) = Some run"
      and "m \<in> set (db_messages s)" and "m_id m = ar_messageId input" and "m_blocks m = Some bs"
      and "find pending_ask bs = Some ask" and "ask = AskBlock a"
      and "isSecretAskBlock ask \<longrightarrow> writer \<noteq> None"
      and "isApprovalAskBlock ask \<longrightarrow> (\<exists>x. eff = Some x \<and>
             answer_approval input (r_userId run) a s = Inr (Some x, s))"
      and "\<not> isApprovalAskBlock ask \<longrightarrow> eff = None"
      and "answer_apply now eid rid writer input run m bs ask eff s = Inr (v, s')"
proof (cases "find (waiting_run input) (db_runs s)")
  case None
  then show ?thesis using assms by (intro none) (simp_all add: answerRunInput_tx_def tx_bind_run)
next
  case run: (Some run)
  let ?pm = "\<lambda>m. m_id m = ar_messageId input \<and> m_threadId m = ar_threadId input
    \<and> m_runId m = Some (ar_runId input) \<and> m_role m = RoleBot"
  show ?thesis
  proof (cases "find ?pm (db_messages s)")
    case None
    then show ?thesis using assms run by (intro none) (simp_all add: answerRunInput_tx_def tx_bind_run)
  next
    case m: (Some m)
    show ?thesis
    proof (cases "m_blocks m = None \<or> find pending_ask (the (m_blocks m)) = None \<or>
        ask_of (the (find pending_ask (the (m_blocks m)))) = None \<or>
        (isSecretAskBlock (the (find pending_ask (the (m_blocks m)))) \<and> writer = None)")
      case True
      then show ?thesis using assms run m
        by (intro none) (auto simp: answerRunInput_tx_def tx_bind_run split: option.splits if_splits)
    next
      case False
      then obtain bs ask a where bs: "m_blocks m = Some bs" and ask: "find pending_ask bs = Some ask"
        and a: "ask_of ask = Some a" and w: "isSecretAskBlock ask \<longrightarrow> writer \<noteq> None"
        by (cases "m_blocks m"; cases "find pending_ask (the (m_blocks m))") auto
      have ab: "ask = AskBlock a" using a by (cases ask) (auto simp: ask_of_def)
      note facts = run m bs ask ab w
      show ?thesis
      proof (cases "isApprovalAskBlock ask")
        case True
        with assms facts a obtain e t where e: "answer_approval input (r_userId run) a s = Inr (e, t)"
          and rest: "(case e of None \<Rightarrow> tx_return None | Some x \<Rightarrow>
            answer_apply now eid rid writer input run m bs ask (Some x)) t = Inr (v, s')"
          by (cases "answer_approval input (r_userId run) a s")
            (auto simp: answerRunInput_tx_def tx_bind_run split: if_splits)
        show ?thesis
        proof (cases e)
          case None
          then show ?thesis using e rest by (intro none) (auto dest: answer_approval_None)
        next
          case (Some x)
          then have "t = s" using e answer_approval_Some(1) by blast
          then show ?thesis using facts True Some e rest find_SomeD [OF m]
            by (intro answered [of run m bs ask a "Some x"]) auto
        qed
      next
        case False
        with assms facts a have "answer_apply now eid rid writer input run m bs ask None s = Inr (v, s')"
          by (auto simp: answerRunInput_tx_def tx_bind_run split: if_splits)
        then show ?thesis using facts False find_SomeD [OF m]
          by (intro answered [of run m bs ask a None]) auto
      qed
    qed
  qed
qed

lemma answerRunInput_step:
  assumes w: "writer_ok del writer"
  shows "tx_rel (db_step del) (answerRunInput now eid rid writer input)"
proof (rule tx_relI)
  fix s v s' assume "answerRunInput now eid rid writer input s = Inr (v, s')"
  then obtain u where "answerRunInput_tx now eid rid writer input s = Inr (u, s')"
    by (auto simp: answerRunInput_def answer_committed_def tx_bind_Inr)
  then show "db_step del s s'"
  proof (cases rule: answerRunInput_tx_cases)
    case none
    then show ?thesis by (simp add: db_step.refl_state)
  next
    case (answered run m bs ask a eff)
    have "effect_intended (x_id x) s" if "eff = Some x" "effect_ids_distinct s" for x
      using answered(8,9) that effect_intended_found answer_approval_Some(2,3) by blast
    then show ?thesis by (rule answer_apply_step [OF w _ answered(10)])
  qed
qed

end
