(* ===== verification/Samples.thy ===== *)
theory Samples
  imports Tables
begin

text \<open>
  A small database for the witnesses of the theorems: one bot with a thread, a task and a run
  that a worker holds under fence 2, and the rows of a pending approval.
\<close>

definition sample_run :: "string \<Rightarrow> run_status \<Rightarrow> string option \<Rightarrow> nat \<Rightarrow> run" where
  "sample_run i st ow f = \<lparr>r_id = i, r_workspaceId = ''w'', r_botId = ''b'', r_threadId = ''t'',
     r_taskId = ''k'', r_userId = ''u'', r_serviceIdentityId = None, r_status = st,
     r_trigger = TrigUser, r_error = None, r_leaseOwner = ow, r_leaseFence = f,
     r_leaseExpiresAt = (if ow = None then None else Some 1000), r_checkpoint = None,
     r_clientNonce = None, r_sourceMessageId = None, r_routineId = None, r_startedAt = None,
     r_completedAt = (if isTerminal st then Some 1 else None), r_createdAt = 0, r_updatedAt = 0\<rparr>"

definition sample_thread :: thread where
  "sample_thread = \<lparr>th_id = ''t'', th_workspaceId = ''w'', th_botId = Some ''b'', th_groupId = None,
     th_userId = ''u'', th_nextEventSeq = 0, th_nextMessageSeq = 0,
     th_historyCompactedUpToSeq = None, th_historyCompactionSummary = None,
     th_historyCompactionGeneration = 0, th_unread = False, th_updatedAt = 0\<rparr>"

definition sample_task :: task where
  "sample_task = \<lparr>t_id = ''k'', t_workspaceId = ''w'', t_botId = ''b'', t_threadId = ''t'',
     t_userId = ''u'', t_prompt = ''p'', t_status = Running, t_updatedAt = 0\<rparr>"

definition sample_bot :: bot where
  "sample_bot = \<lparr>b_id = ''b'', b_workspaceId = ''w'', b_userId = ''u'', b_name = ''Ada'',
     b_title = [], b_description = [], b_color = [], b_managedByBrandWell = False,
     b_managedStatus = ''active'', b_serviceIdentityId = None, b_primaryThreadId = Some ''t'', b_computerId = None,
     b_computerSwitching = False, b_archivedAt = None, b_updatedAt = 0\<rparr>"

definition sample_attempt :: "nat \<Rightarrow> attempt" where
  "sample_attempt f = \<lparr>a_id = ''a'', a_runId = ''r'', a_fence = f, a_status = AttRunning,
     a_error = None, a_startedAt = 0, a_finishedAt = None\<rparr>"

definition sample_db :: db where
  "sample_db = empty_db\<lparr>db_threads := [sample_thread], db_bots := [sample_bot],
     db_tasks := [sample_task], db_runs := [sample_run ''r'' Running (Some ''w1'') 2],
     db_attempts := [sample_attempt 2]\<rparr>"

lemmas sample_defs = sample_db_def sample_run_def sample_thread_def sample_task_def
  sample_bot_def sample_attempt_def empty_db_def

text \<open>A question that waits for the approval of the effect \<open>x\<close>.\<close>

definition sample_ask :: ask_block where
  "sample_ask = \<lparr>ask_text = ''Review'', ask_approvalEffectId = Some ''x'', ask_detail = None,
     ask_input = None, ask_status = Some AskPending, ask_answer = None,
     ask_actions = Some [(''allow'', ''Allow once''), (''always'', ''Always''), (''deny'', ''Deny'')]\<rparr>"

definition sample_effect :: "effect_status \<Rightarrow> effect" where
  "sample_effect st = \<lparr>x_id = ''x'', x_workspaceId = ''w'', x_runId = ''r'', x_kind = ''gmail_send'',
     x_idempotencyKey = ''key'', x_status = st, x_request = JNull, x_result = None, x_updatedAt = 0\<rparr>"

definition sample_message :: message where
  "sample_message = \<lparr>m_id = ''m'', m_threadId = ''t'', m_seq = 0, m_role = RoleBot,
     m_blocks = Some [AskBlock sample_ask], m_botId = Some ''b'', m_replyToMessageId = None,
     m_runId = Some ''r'', m_clientNonce = None, m_createdAt = 0\<rparr>"

end
