(* ===== verification/ThreadGuarantees.thy ===== *)
theory ThreadGuarantees
  imports ThreadEvents Samples
begin

text \<open>
  What the handlers of \<open>ThreadEvents\<close> guarantee: a worker whose lease was taken over writes
  nothing, a finished or paused run leaves exactly its events behind, a cleared thread stays
  clear, an answer is taken once, and a send is idempotent under its nonce.
\<close>

section \<open>What the log writes leave alone\<close>

lemma createThreadMessage_frame:
  assumes "createThreadMessageInTransaction now mid input s = Inr (m, s')"
  shows "db_runs s' = db_runs s" "db_events s' = db_events s" "db_tasks s' = db_tasks s"
    "db_attempts s' = db_attempts s" "db_effects s' = db_effects s" "db_bots s' = db_bots s"
    "db_messages s' = db_messages s @ [m]" "db_leases s' = db_leases s"
    "db_computers s' = db_computers s" "db_rules s' = db_rules s"
    "next_of th_nextEventSeq s' tid = next_of th_nextEventSeq s tid"
    "m_id m = mid" "m_threadId m = mi_threadId input" "m_blocks m = Some (mi_blocks input)"
    "m_role m = mi_role input" "m_runId m = mi_runId input" "m_clientNonce m = mi_clientNonce input"
    "m_seq m = next_of th_nextMessageSeq s (mi_threadId input)"
    "can_write s (mi_runId input)"
  by (rule createThreadMessage_Inr [OF assms];
      auto simp: next_of_def updateMany_def find_map split: option.splits)+

lemma appendEvent_frame:
  assumes "appendEventInTransaction now eid input s = Inr (e, s')"
  shows "db_runs s' = db_runs s" "db_events s' = db_events s @ [e]" "db_tasks s' = db_tasks s"
    "db_attempts s' = db_attempts s" "db_effects s' = db_effects s" "db_bots s' = db_bots s"
    "db_messages s' = db_messages s" "db_leases s' = db_leases s"
    "db_computers s' = db_computers s" "db_rules s' = db_rules s"
    "next_of th_nextMessageSeq s' tid = next_of th_nextMessageSeq s tid"
    "e_threadId e = ei_threadId input" "e_type e = ei_type input" "e_payload e = ei_payload input"
    "e_runId e = ei_runId input" "e_seq e = next_of th_nextEventSeq s (ei_threadId input)"
    "can_write s (ei_runId input)"
  by (rule appendEvent_Inr [OF assms];
      auto simp: next_of_def updateMany_def find_map split: option.splits)+

section \<open>Stale workers\<close>

lemma answer_committed_run:
  "answer_committed tx s = (case tx s of Inl e \<Rightarrow> Inl e
     | Inr (None, s') \<Rightarrow> Inr ((False, []), s')
     | Inr (Some (tid, n), s') \<Rightarrow> Inr ((True, notifyRealtime tid n), s'))"
  by (auto simp: answer_committed_def tx_bind_run split: sum.splits prod.splits option.splits)

lemma finalizeRun_tx_no_lease:
  assumes "\<not> (\<exists>r \<in> set (db_runs s). holds_lease input r)"
  shows "finalizeRun_tx now mid e1 e2 input tid oc s = Inr (None, s)"
proof -
  have c: "countMany (\<lambda>r. holds_lease input r \<and> r_taskId r = tid) (db_runs s) = 0"
    using assms by auto
  then show ?thesis
    by (simp add: finalizeRun_tx_def tx_bind_run tx_catch_def assertRun_run updateMany_count0 del: countMany_0)
qed

lemma pause_tx_no_lease:
  assumes "\<not> (\<exists>r \<in> set (db_runs s). holds_lease input r)"
  shows "pauseRunForInput_tx now mid e1 e2 input bs s = Inr (None, s)"
    and "pauseRunForTakeover_tx now eid input reason s = Inr (None, s)"
proof -
  have c: "countMany (holds_lease input) (db_runs s) = 0"
    using assms by auto
  then show "pauseRunForInput_tx now mid e1 e2 input bs s = Inr (None, s)"
    and "pauseRunForTakeover_tx now eid input reason s = Inr (None, s)"
    by (simp_all add: pauseRunForInput_tx_def pauseRunForTakeover_tx_def tx_bind_run
        updateMany_count0 del: countMany_0)
qed


text \<open>The worker with fence \<open>f\<close> of the sample run.\<close>

definition sample_lease :: "nat \<Rightarrow> lease_input" where
  "sample_lease f = \<lparr>li_workspaceId = ''w'', li_threadId = ''t'', li_botId = ''b'',
     li_runId = ''r'', li_attemptId = ''a'', li_leaseOwner = ''w1'', li_leaseFence = f\<rparr>"

lemmas lease_defs = sample_defs sample_lease_def


section \<open>Ending a run\<close>

definition finished :: "time \<Rightarrow> outcome \<Rightarrow> run \<Rightarrow> run" where
  "finished now oc r = r\<lparr>r_status := outcome_status oc, r_error := outcome_error oc,
     r_completedAt := Some now, r_leaseOwner := None, r_leaseExpiresAt := None, r_updatedAt := now\<rparr>"

definition attempt_finished :: "time \<Rightarrow> outcome \<Rightarrow> attempt \<Rightarrow> attempt" where
  "attempt_finished now oc a = a\<lparr>a_status := outcome_attempt oc, a_error := outcome_error oc,
     a_finishedAt := Some now\<rparr>"

definition task_finished :: "time \<Rightarrow> outcome \<Rightarrow> task \<Rightarrow> task" where
  "task_finished now oc t = t\<lparr>t_status := outcome_status oc, t_updatedAt := now\<rparr>"

definition task_of :: "lease_input \<Rightarrow> string \<Rightarrow> task \<Rightarrow> bool" where
  "task_of input tid t \<longleftrightarrow> t_id t = tid \<and> t_workspaceId t = li_workspaceId input
     \<and> t_threadId t = li_threadId input \<and> t_botId t = li_botId input"

text \<open>The events that the outcome of a run adds, and the messages.\<close>

definition outcome_types :: "outcome \<Rightarrow> event_type list" where
  "outcome_types oc = (case oc of OutcomeCompleted _ \<Rightarrow> [ThreadMessageCreated, RunCompleted]
     | OutcomeFailed _ \<Rightarrow> [RunFailed])"

definition outcome_messages :: "outcome \<Rightarrow> message_block list list" where
  "outcome_messages oc = (case oc of OutcomeCompleted bs \<Rightarrow> [bs] | OutcomeFailed _ \<Rightarrow> [])"

lemma finalize_history_frame:
  assumes "finalize_history now mid e1 e2 input oc s = Inr (e, s')"
  shows "db_runs s' = db_runs s \<and> db_attempts s' = db_attempts s \<and> db_tasks s' = db_tasks s \<and>
    (\<exists>ms. db_messages s' = db_messages s @ ms \<and> map m_blocks ms = map Some (outcome_messages oc) \<and>
       (\<forall>m \<in> set ms. m_runId m = Some (li_runId input) \<and> m_threadId m = li_threadId input)) \<and>
    (\<exists>evs. db_events s' = db_events s @ evs \<and> map e_type evs = outcome_types oc \<and>
       map e_seq evs = [next_of th_nextEventSeq s (li_threadId input) ..<
         next_of th_nextEventSeq s (li_threadId input) + length evs] \<and>
       (\<forall>x \<in> set evs. e_runId x = Some (li_runId input) \<and> e_threadId x = li_threadId input) \<and>
       e = last evs)"
proof (cases oc)
  case (OutcomeFailed er)
  then have "appendEventInTransaction now e2
      (run_event input (outcome_event oc) (outcome_payload oc)) s = Inr (e, s')"
    using assms by (simp add: finalize_history_def tx_bind_run)
  note f = appendEvent_frame [OF this]
  show ?thesis using OutcomeFailed f
    by (auto simp: outcome_messages_def outcome_types_def run_event_def outcome_event_def)
next
  case (OutcomeCompleted bs)
  with assms obtain m s1 e1' s2 where
    1: "createThreadMessageInTransaction now mid (bot_message input bs) s = Inr (m, s1)"
    and 2: "appendEventInTransaction now e1
      (run_event input ThreadMessageCreated (message_payload (m_id m) RoleBot bs)) s1 = Inr (e1', s2)"
    and 3: "appendEventInTransaction now e2
      (run_event input (outcome_event oc) (outcome_payload oc)) s2 = Inr (e, s')"
    by (auto simp: finalize_history_def tx_bind_Inr)
  note f = createThreadMessage_frame [OF 1] appendEvent_frame [OF 2] appendEvent_frame [OF 3]
    appendEvent_counter [OF 2]
  have "map e_seq [e1', e] = [next_of th_nextEventSeq s (li_threadId input) ..<
         next_of th_nextEventSeq s (li_threadId input) + length [e1', e]]"
    using f by (simp add: run_event_def upt_conv_Cons)
  then show ?thesis using OutcomeCompleted f
    by (intro conjI exI [of _ "[m]"] exI [of _ "[e1', e]"])
      (auto simp: outcome_messages_def outcome_types_def run_event_def outcome_event_def bot_message_def)
qed

lemma finalizeRun_tx_SomeE:
  assumes "finalizeRun_tx now mid e1 e2 input tid oc s = Inr (Some (t, n), s')"
  obtains s1 s2 e where "can_write s (Some (li_runId input))"
    and "s1 = db_tasks_update (updateMany (task_of input tid) (task_finished now oc))
          (db_attempts_update (updateMany (open_attempt input) (attempt_finished now oc))
            (db_runs_update (updateMany (\<lambda>r. holds_lease input r \<and> r_taskId r = tid)
              (finished now oc)) s))"
    and "countMany (\<lambda>r. holds_lease input r \<and> r_taskId r = tid) (db_runs s) = 1"
    and "countMany (open_attempt input) (db_attempts s) = 1"
    and "countMany (task_of input tid) (db_tasks s) = 1"
    and "finalize_history now mid e1 e2 input oc s1 = Inr (e, s2)"
    and "db_events s' = deleteMany (run_progress (li_runId input)) (db_events s2)"
    and "db_runs s' = db_runs s2" and "db_attempts s' = db_attempts s2" and "db_tasks s' = db_tasks s2"
    and "db_messages s' = db_messages s2" and "t = e_threadId e" and "n = e_seq e"
  using assms unfolding finalizeRun_tx_def tx_bind_run tx_catch_def assertRun_run
    task_of_def [symmetric, abs_def] finished_def [symmetric, abs_def]
  by (auto simp: tx_bind_Inr tx_bind_run update_one_Inr task_of_def [abs_def] finished_def [abs_def]
      attempt_finished_def [abs_def] task_finished_def [abs_def] split: if_splits sum.splits)

lemma answer_committed_True:
  assumes "answer_committed tx s = Inr ((True, ns), s')"
  obtains t n where "tx s = Inr (Some (t, n), s')" and "ns = notifyRealtime t n"
  using assms by (auto simp: answer_committed_run split: sum.splits prod.splits option.splits)

lemma outcome_types_no_progress: "ThreadProgress \<notin> set (outcome_types oc)"
  by (simp add: outcome_types_def split: outcome.split)

lemma deleteMany_append_keep:
  "(\<And>x. x \<in> set ys \<Longrightarrow> \<not> p x) \<Longrightarrow> deleteMany p (xs @ ys) = deleteMany p xs @ ys"
  by (simp add: deleteMany_def)

text \<open>
  C1. A run that its worker finishes ends everywhere at once: the one run that holds this
  lease, its one open attempt and its task take the outcome; the thread gets the answer (when
  the run completed) and the closing event under consecutive numbers, the run's progress
  events are gone, and subscribers are told the number of the last event.
\<close>

theorem finalizeRun_success:
  assumes "finalizeRun now mid e1 e2 input tid oc s = Inr ((True, ns), s')"
  shows "replaced_one (\<lambda>r. holds_lease input r \<and> r_taskId r = tid) (finished now oc)
      (db_runs s) (db_runs s') \<and>
    replaced_one (open_attempt input) (attempt_finished now oc) (db_attempts s) (db_attempts s') \<and>
    replaced_one (task_of input tid) (task_finished now oc) (db_tasks s) (db_tasks s') \<and>
    (\<exists>ms. db_messages s' = db_messages s @ ms \<and> map m_blocks ms = map Some (outcome_messages oc)) \<and>
    (\<exists>evs. db_events s' = deleteMany (run_progress (li_runId input)) (db_events s) @ evs \<and>
       map e_type evs = outcome_types oc \<and>
       map e_seq evs = [next_of th_nextEventSeq s (li_threadId input) ..<
         next_of th_nextEventSeq s (li_threadId input) + length evs] \<and>
       (\<forall>e \<in> set evs. e_threadId e = li_threadId input \<and> e_runId e = Some (li_runId input)) \<and>
       ns = [(threadTopic (li_threadId input), e_seq (last evs))])"
proof -
  from assms obtain t n where tx: "finalizeRun_tx now mid e1 e2 input tid oc s = Inr (Some (t, n), s')"
    and ns: "ns = notifyRealtime t n"
    unfolding finalizeRun_def by (rule answer_committed_True)
  from tx show ?thesis
  proof (cases rule: finalizeRun_tx_SomeE)
    case (1 s1 s2 e)
    note fr = finalize_history_frame [OF 1(6)]
    obtain evs where evs: "db_events s2 = db_events s1 @ evs" "map e_type evs = outcome_types oc"
      "map e_seq evs = [next_of th_nextEventSeq s1 (li_threadId input) ..<
         next_of th_nextEventSeq s1 (li_threadId input) + length evs]"
      "\<forall>x \<in> set evs. e_runId x = Some (li_runId input) \<and> e_threadId x = li_threadId input" "e = last evs"
      using fr by blast
    have nx: "next_of th_nextEventSeq s1 = next_of th_nextEventSeq s"
      by (simp add: 1(2) next_of_def fun_eq_iff)
    have "\<not> run_progress (li_runId input) x" if "x \<in> set evs" for x
      using that evs(2) outcome_types_no_progress [of oc]
      by (metis imageI list.set_map run_progress_def)
    then have ev: "db_events s' = deleteMany (run_progress (li_runId input)) (db_events s) @ evs"
      by (simp add: 1(7) evs(1) deleteMany_append_keep) (simp add: 1(2))
    have "evs \<noteq> []" using evs(2) by (auto simp: outcome_types_def split: outcome.splits)
    then have "ns = [(threadTopic (li_threadId input), e_seq (last evs))]"
      using evs(4,5) by (simp add: ns 1(12,13) notifyRealtime_def)
    moreover have "db_runs s' = updateMany (\<lambda>r. holds_lease input r \<and> r_taskId r = tid)
        (finished now oc) (db_runs s)"
      and "db_attempts s' = updateMany (open_attempt input) (attempt_finished now oc) (db_attempts s)"
      and "db_tasks s' = updateMany (task_of input tid) (task_finished now oc) (db_tasks s)"
      using fr by (simp_all add: 1(8,9,10)) (simp_all add: 1(2))
    moreover obtain ms where "db_messages s' = db_messages s @ ms"
      "map m_blocks ms = map Some (outcome_messages oc)"
      using fr by (auto simp: 1(11) 1(2))
    ultimately show ?thesis
      using updateMany_one [OF 1(3)] updateMany_one [OF 1(4)] updateMany_one [OF 1(5)]
        ev evs(2,3,4) nx by auto
  qed
qed

lemma sample_finalize_run:
  "finalizeRun 5 ''m'' ''e1'' ''e2'' (sample_lease 2) ''k'' (OutcomeFailed ''x'') sample_db
     = Inr ((True, [(''thread:t'', 0)]),
        sample_db\<lparr>db_threads := [sample_thread\<lparr>th_nextEventSeq := 1, th_updatedAt := 5\<rparr>],
          db_bots := [sample_bot\<lparr>b_updatedAt := 5\<rparr>],
          db_tasks := [task_finished 5 (OutcomeFailed ''x'') sample_task],
          db_runs := [finished 5 (OutcomeFailed ''x'') (sample_run ''r'' Running (Some ''w1'') 2)],
          db_attempts := [attempt_finished 5 (OutcomeFailed ''x'') (sample_attempt 2)],
          db_events := [\<lparr>e_id = ''e2'', e_workspaceId = ''w'', e_threadId = ''t'', e_botId = ''b'',
            e_seq = 0, e_type = RunFailed, e_payload = [(''error'', PJson (JStr ''x''))],
            e_runId = Some ''r'', e_createdAt = 5\<rparr>]\<rparr>)"
  by code_simp

theorem finalizeRun_success_witness:
  "\<exists>ns s'. finalizeRun 5 ''m'' ''e1'' ''e2'' (sample_lease 2) ''k'' (OutcomeFailed ''x'') sample_db
     = Inr ((True, ns), s') \<and>
   replaced_one (open_attempt (sample_lease 2)) (attempt_finished 5 (OutcomeFailed ''x''))
     (db_attempts sample_db) (db_attempts s')"
  using finalizeRun_success [OF sample_finalize_run] sample_finalize_run by blast

section \<open>Clearing a thread\<close>

lemma cancel_runs_frame:
  assumes "cancel_runs now ids tids s = Inr (u, s')"
  shows "db_events s' = db_events s" "db_messages s' = db_messages s" "db_threads s' = db_threads s"
    "db_runs s' = updateMany (\<lambda>r. r_id r \<in> set ids) (\<lambda>r. (cancel_run now r)\<lparr>r_updatedAt := now\<rparr>) (db_runs s)"
  using assms by (auto simp: cancel_runs_def tx_bind_run updateMany_none split: if_splits)

lemma clear_history_frame:
  assumes "clear_history now eid input t ids s = Inr (r, s')"
  shows "db_events s' = deleteMany (\<lambda>e. e_threadId e = ct_threadId input) (db_events s) @ [cr_event r]"
    and "\<forall>m \<in> set (db_messages s'). m_threadId m \<noteq> ct_threadId input"
    and "map (\<lambda>r. (r_id r, r_status r, r_threadId r, r_botId r, r_workspaceId r)) (db_runs s')
      = map (\<lambda>r. (r_id r, r_status r, r_threadId r, r_botId r, r_workspaceId r)) (db_runs s)"
    and "cr_cancelledRunIds r = ids"
    and "e_type (cr_event r) = ThreadCleared" and "e_threadId (cr_event r) = ct_threadId input"
    and "e_seq (cr_event r) = next_of th_nextEventSeq s (ct_threadId input)"
    and "next_of th_nextMessageSeq s' k = next_of th_nextMessageSeq s k"
    and "\<exists>t'. find (\<lambda>t. th_id t = ct_threadId input) (db_threads s') = Some t' \<and>
      (0 < th_nextMessageSeq t \<longrightarrow> th_historyCompactedUpToSeq t' = Some (int (th_nextMessageSeq t) - 1)) \<and>
      th_historyCompactionSummary t' = None"
proof -
  from assms obtain s1 s2 s3 n t' b e where
    1: "release_bot_execution now (ct_botId input) s = Inr ((), s1)"
    and 2: "message_deleteMany (\<lambda>m. m_threadId m = ct_threadId input) s1 = Inr (n, s2)"
    and 3: "reset_compaction now (ct_threadId input) (th_nextMessageSeq t)
      (db_events_update (deleteMany (\<lambda>e. e_threadId e = ct_threadId input)) s2) = Inr (t', s3)"
    and 4: "appendEventInTransaction now eid
       \<lparr>ei_workspaceId = ct_workspaceId input, ei_threadId = ct_threadId input,
        ei_botId = ct_botId input, ei_type = ThreadCleared, ei_payload = [], ei_runId = None\<rparr>
        (db_bots_update b s3) = Inr (e, s')"
    and 5: "r = \<lparr>cr_event = e, cr_cancelledRunIds = ids,
       cr_historyCompactionGeneration = th_historyCompactionGeneration t\<rparr>"
    unfolding clear_history_def
    by (elim tx_bind_InrE) (auto simp: update_one_Inr)
  have s1: "db_events s1 = db_events s" "db_messages s1 = db_messages s" "db_runs s1 = db_runs s"
    "db_threads s1 = db_threads s"
    using 1 by (auto simp: release_bot_execution_def tx_bind_run)
  have s2: "db_events s2 = db_events s1" "db_threads s2 = db_threads s1"
    "\<forall>m \<in> set (db_messages s2). m_threadId m \<noteq> ct_threadId input"
    "map (\<lambda>r. (r_id r, r_status r, r_threadId r, r_botId r, r_workspaceId r)) (db_runs s2)
      = map (\<lambda>r. (r_id r, r_status r, r_threadId r, r_botId r, r_workspaceId r)) (db_runs s1)"
    using 2 by (auto simp: message_deleteMany_def Let_def deleteMany_def)
  have s3: "db_events s3 = deleteMany (\<lambda>e. e_threadId e = ct_threadId input) (db_events s2)"
    "db_messages s3 = db_messages s2" "db_runs s3 = db_runs s2"
    "next_of th_nextEventSeq s3 k = next_of th_nextEventSeq s2 k"
    "next_of th_nextMessageSeq s3 k = next_of th_nextMessageSeq s2 k" for k
    using 3 by (auto simp: reset_compaction_def update_one_Inr next_of_def updateMany_def find_map
        split: if_splits option.splits)
  have nx: "next_of f (db_bots_update b s3) k = next_of f s3 k" for f k by (simp add: next_of_def)
  have n0: "next_of f s2 k = next_of f s k" for f k by (simp add: next_of_def s1 s2)
  note f = appendEvent_frame [OF 4]
  show "db_events s' = deleteMany (\<lambda>e. e_threadId e = ct_threadId input) (db_events s) @ [cr_event r]"
    by (simp add: f(2) 5 s3(1) s2(1) s1(1))
  show "\<forall>m \<in> set (db_messages s'). m_threadId m \<noteq> ct_threadId input"
    using s2(3) by (simp add: f(7) s3(2))
  show "map (\<lambda>r. (r_id r, r_status r, r_threadId r, r_botId r, r_workspaceId r)) (db_runs s')
      = map (\<lambda>r. (r_id r, r_status r, r_threadId r, r_botId r, r_workspaceId r)) (db_runs s)"
    using s2(4) by (simp add: f(1) s3(3) s1(3))
  show "cr_cancelledRunIds r = ids" "e_type (cr_event r) = ThreadCleared"
    "e_threadId (cr_event r) = ct_threadId input" by (simp_all add: 5 f)
  show "e_seq (cr_event r) = next_of th_nextEventSeq s (ct_threadId input)"
    by (simp add: 5 f(16) nx s3(4) n0)
  show "next_of th_nextMessageSeq s' k = next_of th_nextMessageSeq s k"
    by (simp add: f(11) nx s3(5) n0)
  have "\<exists>t'. find (\<lambda>t. th_id t = ct_threadId input) (db_threads s3) = Some t' \<and>
      (0 < th_nextMessageSeq t \<longrightarrow> th_historyCompactedUpToSeq t' = Some (int (th_nextMessageSeq t) - 1)) \<and>
      th_historyCompactionSummary t' = None"
    using 3 by (auto simp: reset_compaction_def update_one_Inr updateMany_def find_map
        split: if_splits dest: find_SomeD)
  then show "\<exists>t'. find (\<lambda>t. th_id t = ct_threadId input) (db_threads s') = Some t' \<and>
      (0 < th_nextMessageSeq t \<longrightarrow> th_historyCompactedUpToSeq t' = Some (int (th_nextMessageSeq t) - 1)) \<and>
      th_historyCompactionSummary t' = None"
    by (elim exE) (rule appendEvent_Inr [OF 4], auto simp: updateMany_def find_map)
qed

lemma clear_mark_read_frame:
  assumes "clear_mark_read now input s = Inr (t, s')"
  shows "db_runs s' = db_runs s" "db_events s' = db_events s" "db_messages s' = db_messages s"
    "next_of th_nextEventSeq s' k = next_of th_nextEventSeq s k"
    "next_of th_nextMessageSeq s' k = next_of th_nextMessageSeq s k"
proof -
  obtain p where s': "s' = db_threads_update (updateMany p (\<lambda>t. t\<lparr>th_unread := False, th_updatedAt := now\<rparr>)) s"
    using assms by (auto simp: clear_mark_read_def update_one_Inr)
  show "db_runs s' = db_runs s" "db_events s' = db_events s" "db_messages s' = db_messages s"
    "next_of th_nextEventSeq s' k = next_of th_nextEventSeq s k"
    "next_of th_nextMessageSeq s' k = next_of th_nextMessageSeq s k"
    by (simp_all add: s') (auto simp: next_of_def updateMany_def find_map split: option.splits)
qed

interpretation thread_table: keyed_table th_id .

lemma clear_mark_read_row:
  assumes "distinct (map th_id (db_threads s))" and "clear_mark_read now input s = Inr (t, s')"
  shows "th_nextMessageSeq t = next_of th_nextMessageSeq s (ct_threadId input)"
proof -
  obtain q where q: "q \<in> set (db_threads s)" "th_id q = ct_threadId input"
    and t: "t = q\<lparr>th_unread := False, th_updatedAt := now\<rparr>"
    using assms(2) by (auto simp: clear_mark_read_def update_one_Inr dest!: find_SomeD)
  have "find (\<lambda>t. th_id t = ct_threadId input) (db_threads s) = Some q"
    using thread_table.find_by_key [OF assms(1) q(1)] q(2) by simp
  then show ?thesis by (simp add: t next_of_def)
qed

text \<open>A clear cancels every run it selects, and none is left to select.\<close>

lemma cancel_selected:
  assumes "cancel_runs now (map r_id (filter (clear_selects input) (db_runs s))) tids s = Inr (u, s')" and "r \<in> set (db_runs s')"
  shows "\<not> clear_selects input r"
    and "r_id r \<in> set (map r_id (filter (clear_selects input) (db_runs s))) \<Longrightarrow> r_status r = Cancelled"
proof -
  obtain q where q: "q \<in> set (db_runs s)"
    and rq: "r = (if r_id q \<in> set (map r_id (filter (clear_selects input) (db_runs s)))
      then (cancel_run now q)\<lparr>r_updatedAt := now\<rparr> else q)"
    using assms(2) by (auto simp: cancel_runs_frame(4) [OF assms(1)] updateMany_def)
  show "\<not> clear_selects input r"
    using q by (auto simp: rq clear_selects_def cancel_run_def clearable_def)
  show "r_id r \<in> set (map r_id (filter (clear_selects input) (db_runs s))) \<Longrightarrow> r_status r = Cancelled"
    by (auto simp: rq cancel_run_def)
qed

text \<open>
  C16. Clearing a thread leaves one event, \<open>thread.cleared\<close>, and no message; every active run
  of the bot in the thread is cancelled and can never write to a history again; the message
  numbering goes on, and the compaction cursor covers every message that was deleted.
\<close>

theorem clearThread_clears:
  assumes d: "distinct (map th_id (db_threads s))"
    and c: "clearThread now eid input s = Inr (((ev, ids, gen), ns), s')"
  shows "(\<forall>m \<in> set (db_messages s'). m_threadId m \<noteq> ct_threadId input) \<and>
    (\<exists>e. filter (\<lambda>e. e_threadId e = ct_threadId input) (db_events s') = [e] \<and>
       e_type e = ThreadCleared \<and> e_seq e = next_of th_nextEventSeq s (ct_threadId input) \<and>
       ns = [(threadTopic (ct_threadId input), e_seq e)]) \<and>
    ids = map r_id (filter (clear_selects input) (db_runs s)) \<and>
    \<not> (\<exists>r \<in> set (db_runs s'). clear_selects input r) \<and>
    (\<forall>k \<in> set ids. k \<noteq> [] \<longrightarrow> \<not> can_write s' (Some k)) \<and>
    next_of th_nextMessageSeq s' (ct_threadId input) = next_of th_nextMessageSeq s (ct_threadId input) \<and>
    (\<exists>t. find (\<lambda>t. th_id t = ct_threadId input) (db_threads s') = Some t \<and>
       (0 < th_nextMessageSeq t \<longrightarrow> th_historyCompactedUpToSeq t = Some (int (th_nextMessageSeq t) - 1)))"
proof -
  let ?sel = "\<lambda>s. filter (clear_selects input) (db_runs s)"
  from c obtain cr where tx: "clearThread_tx now eid input s = Inr (cr, s')"
    and ids: "ids = cr_cancelledRunIds cr"
    and ns: "ns = notifyRealtime (e_threadId (cr_event cr)) (e_seq (cr_event cr))"
    by (auto simp: clearThread_def tx_bind_Inr)
  from tx obtain t s1 where 1: "clear_mark_read now input s = Inr (t, s1)"
    and r: "tx_bind (cancel_runs now (map r_id (?sel s1)) (map r_taskId (?sel s1)))
      (\<lambda>_. clear_history now eid input t (map r_id (?sel s1))) s1 = Inr (cr, s')"
    unfolding clearThread_tx_def by (elim tx_bind_InrE) (simp add: tx_bind_run)
  from r obtain u s2 where
    2: "cancel_runs now (map r_id (?sel s1)) (map r_taskId (?sel s1)) s1 = Inr (u, s2)"
    and 3: "clear_history now eid input t (map r_id (?sel s1)) s2 = Inr (cr, s')"
    by (rule tx_bind_InrE)
  note f1 = clear_mark_read_frame [OF 1]
  note f2 = cancel_runs_frame [OF 2]
  note f3 = clear_history_frame [OF 3]
  have sel: "?sel s1 = ?sel s" by (simp add: f1(1))
  have nx: "next_of g s2 k = next_of g s1 k" for g k by (simp add: next_of_def f2(3))
  note gone = cancel_selected [OF 2]
  have core: "(r_id r, r_status r, r_threadId r, r_botId r, r_workspaceId r)
      \<in> (\<lambda>r. (r_id r, r_status r, r_threadId r, r_botId r, r_workspaceId r)) ` set (db_runs s2)"
    if "r \<in> set (db_runs s')" for r
    using that f3(3) by (metis (mono_tags, lifting) image_eqI list.set_map)
  have A: "\<not> clear_selects input r" if "r \<in> set (db_runs s')" for r
    using core [OF that] gone(1) by (auto simp: clear_selects_def)
  have B: "\<not> can_write s' (Some k)" if "k \<in> set ids" "k \<noteq> []" for k
  proof -
    have "r_status r = Cancelled" if "r \<in> set (db_runs s')" "r_id r = k" for r
      using core [OF that(1)] gone(2) \<open>k \<in> set ids\<close> that(2) by (auto simp: ids f3(4))
    then show ?thesis using that by (auto simp: can_write_def split: option.splits dest: find_SomeD)
  qed
  have C: "filter (\<lambda>e. e_threadId e = ct_threadId input) (db_events s') = [cr_event cr]"
    by (simp add: f3(1) deleteMany_def f3(6))
  obtain t' where tt: "find (\<lambda>t. th_id t = ct_threadId input) (db_threads s') = Some t' \<and>
      (0 < th_nextMessageSeq t \<longrightarrow> th_historyCompactedUpToSeq t' = Some (int (th_nextMessageSeq t) - 1)) \<and>
      th_historyCompactionSummary t' = None"
    using f3(9) by (rule exE)
  note t' = tt [THEN conjunct1] tt [THEN conjunct2, THEN conjunct1]
  have "th_nextMessageSeq t' = next_of th_nextMessageSeq s' (ct_threadId input)"
    by (simp add: next_of_def t'(1))
  also have "\<dots> = th_nextMessageSeq t"
    by (simp add: f3(8) nx f1(5) clear_mark_read_row [OF d 1])
  finally have D: "\<exists>t. find (\<lambda>t. th_id t = ct_threadId input) (db_threads s') = Some t \<and>
       (0 < th_nextMessageSeq t \<longrightarrow> th_historyCompactedUpToSeq t = Some (int (th_nextMessageSeq t) - 1))"
    using t' by auto
  have E: "\<exists>e. filter (\<lambda>e. e_threadId e = ct_threadId input) (db_events s') = [e] \<and>
       e_type e = ThreadCleared \<and> e_seq e = next_of th_nextEventSeq s (ct_threadId input) \<and>
       ns = [(threadTopic (ct_threadId input), e_seq e)]"
    by (intro exI [of _ "cr_event cr"] conjI C f3(5)) (simp_all add: f3(6,7) nx f1(4) ns notifyRealtime_def)
  have F: "ids = map r_id (?sel s)" by (simp add: ids f3(4) sel)
  have G: "next_of th_nextMessageSeq s' (ct_threadId input) = next_of th_nextMessageSeq s (ct_threadId input)"
    by (simp add: f3(8) nx f1(5))
  show ?thesis using A B by (intro conjI f3(2) E F G D) blast+
qed

definition sample_clear :: clear_input where
  "sample_clear = \<lparr>ct_workspaceId = ''w'', ct_threadId = ''t'', ct_botId = ''b''\<rparr>"

theorem clearThread_clears_witness:
  "\<exists>r s'. clearThread 5 ''e'' sample_clear sample_db = Inr (r, s') \<and>
     \<not> (\<exists>r \<in> set (db_runs s'). clear_selects sample_clear r) \<and> \<not> can_write s' (Some ''r'')"
proof -
  have "case clearThread 5 ''e'' sample_clear sample_db of Inl _ \<Rightarrow> False | Inr r \<Rightarrow>
      fst (snd (fst (fst r))) = [''r'']"
    by code_simp
  then obtain ev ids gen ns s' where
    r: "clearThread 5 ''e'' sample_clear sample_db = Inr (((ev, ids, gen), ns), s')" and i: "ids = [''r'']"
    by (auto split: sum.splits)
  have "distinct (map th_id (db_threads sample_db))" by (simp add: sample_defs)
  from clearThread_clears [OF this r] show ?thesis using r i by auto
qed

section \<open>Answers\<close>

lemma answer_finish_frame:
  assumes "answer_finish now eid input run m bs s = Inr (v, s')"
  shows "db_runs s' = db_runs s" "db_effects s' = db_effects s" "db_rules s' = db_rules s" "v \<noteq> None"
proof -
  from assms obtain m' u s1 e where 1: "message_update (\<lambda>x. m_id x = m_id m) (\<lambda>m. m\<lparr>m_blocks := Some bs\<rparr>) s = Inr (m', s1)"
    and 2: "appendEventInTransaction now eid u s1 = Inr (e, s')" and v: "v = Some (e_threadId e, e_seq e)"
    unfolding answer_finish_def by (elim tx_bind_InrE) (simp add: tx_return_run)
  show "db_runs s' = db_runs s" "db_effects s' = db_effects s" "db_rules s' = db_rules s" "v \<noteq> None"
    using 1 appendEvent_frame [OF 2] by (auto simp: update_one_Inr v)
qed

text \<open>The writer of run secrets: it only adds to the table of secrets.\<close>

definition writer_frame :: "(secret_input \<Rightarrow> unit dbtx) option \<Rightarrow> bool" where
  "writer_frame writer \<longleftrightarrow> (\<forall>store i s u s'. writer = Some store \<longrightarrow> store i s = Inr (u, s') \<longrightarrow>
     (\<exists>rows. s' = s\<lparr>db_secrets := rows\<rparr>))"

definition approves :: "answer_input \<Rightarrow> bool" where
  "approves input \<longleftrightarrow> ar_answer input = ''allow'' \<or> ar_answer input = ''always''"

lemma answer_decide_frame:
  assumes w: "writer_frame writer"
    and "answer_decide now rid writer input run ask eff s = Inr (u, s')"
  shows "db_runs s' = db_runs s"
    and "isApprovalAskBlock ask \<Longrightarrow> eff = Some x \<Longrightarrow> db_effects s' =
      updateMany (\<lambda>e. x_id e = x_id x)
        (\<lambda>e. e\<lparr>x_status := (if approves input then Approved else Denied), x_updatedAt := now\<rparr>) (db_effects s)"
    and "\<not> isApprovalAskBlock ask \<Longrightarrow> isSecretAskBlock ask \<Longrightarrow> writer \<noteq> None \<Longrightarrow> db_effects s' =
      updateMany (\<lambda>x. x_runId x = ar_runId input \<and> x_workspaceId x = ar_workspace input
         \<and> x_kind x = ''request_secret'' \<and> x_status x = Intended)
        (\<lambda>x. x\<lparr>x_status := Approved, x_updatedAt := now\<rparr>) (db_effects s)"
    and "\<not> isApprovalAskBlock ask \<Longrightarrow> \<not> isSecretAskBlock ask \<Longrightarrow> db_effects s' = db_effects s"
proof -
  have ap: "db_runs s' = db_runs s \<and> db_effects s' = updateMany (\<lambda>e. x_id e = x_id x)
      (\<lambda>e. e\<lparr>x_status := (if approves input then Approved else Denied), x_updatedAt := now\<rparr>) (db_effects s)"
    if "apply_approval now rid input x s = Inr (u, s')" for x
    using that by (auto simp: apply_approval_def tx_bind_Inr update_one_Inr rule_upsert_def
        approves_def split: if_splits)
  have se: "db_runs s' = db_runs s \<and> db_effects s' =
      updateMany (\<lambda>x. x_runId x = ar_runId input \<and> x_workspaceId x = ar_workspace input
         \<and> x_kind x = ''request_secret'' \<and> x_status x = Intended)
        (\<lambda>x. x\<lparr>x_status := Approved, x_updatedAt := now\<rparr>) (db_effects s)"
    if "apply_secret now store v input s = Inr (u, s')" "writer = Some store" for store v
    using that w by (fastforce simp: apply_secret_def tx_bind_Inr writer_frame_def)
  have pr: "db_runs s' = db_runs s \<and> db_effects s' = db_effects s"
    if "apply_prompt now input s = Inr (u, s')"
    using that by (auto simp: apply_prompt_def tx_bind_run split: if_splits)
  note d = assms(2) [unfolded answer_decide_def]
  show "db_runs s' = db_runs s"
    using d ap se pr by (auto split: if_splits option.splits)
  show "isApprovalAskBlock ask \<Longrightarrow> eff = Some x \<Longrightarrow> db_effects s' =
      updateMany (\<lambda>e. x_id e = x_id x)
        (\<lambda>e. e\<lparr>x_status := (if approves input then Approved else Denied), x_updatedAt := now\<rparr>) (db_effects s)"
    using d ap by simp
  show "\<not> isApprovalAskBlock ask \<Longrightarrow> isSecretAskBlock ask \<Longrightarrow> writer \<noteq> None \<Longrightarrow> db_effects s' =
      updateMany (\<lambda>x. x_runId x = ar_runId input \<and> x_workspaceId x = ar_workspace input
         \<and> x_kind x = ''request_secret'' \<and> x_status x = Intended)
        (\<lambda>x. x\<lparr>x_status := Approved, x_updatedAt := now\<rparr>) (db_effects s)"
    using d se by auto
  show "\<not> isApprovalAskBlock ask \<Longrightarrow> \<not> isSecretAskBlock ask \<Longrightarrow> db_effects s' = db_effects s"
    using d pr by simp
qed

lemma answer_apply_cases:
  assumes "answer_apply now eid rid writer input run m bs ask eff s = Inr (v, s')"
  obtains (refused) "countMany (waiting_run input) (db_runs s) \<noteq> 1" and "v = None"
      and "db_effects s' = db_effects s"
  | (applied) s1 u s2 where "countMany (waiting_run input) (db_runs s) = 1"
      and "s1 = db_runs_update (updateMany (waiting_run input)
        (\<lambda>r. r\<lparr>r_status := Queued, r_updatedAt := now\<rparr>)) s"
      and "answer_decide now rid writer input run ask eff s1 = Inr (u, s2)"
      and "answer_finish now eid input run m (answer_first (answer_block
         (if isSecretAskBlock ask then [] else ar_answer input)) bs) s2 = Inr (v, s')"
  using assms by (cases "countMany (waiting_run input) (db_runs s) = 1")
    (auto simp: answer_apply_def tx_bind_Inr)

lemma answerRunInput_no_waiting:
  "find (waiting_run input) (db_runs s) = None \<Longrightarrow>
   answerRunInput now eid rid writer input s = Inr ((False, []), s)"
  by (simp add: answerRunInput_def answer_committed_run answerRunInput_tx_def tx_bind_run)

text \<open>
  C8. An answer that is accepted moves exactly the one run that waits for it back to the queue,
  and it is the only one: in the state it leaves, every further answer to this run - to the
  same question or another, by whomever - is refused and changes nothing.
\<close>

theorem answer_taken_once:
  assumes "writer_frame writer"
    and "answerRunInput now eid rid writer input s = Inr ((True, ns), s')"
    and "ar_runId input' = ar_runId input" and "ar_workspace input' = ar_workspace input"
    and "ar_threadId input' = ar_threadId input"
  shows "replaced_one (waiting_run input) (\<lambda>r. r\<lparr>r_status := Queued, r_updatedAt := now\<rparr>)
      (db_runs s) (db_runs s') \<and>
    answerRunInput now' eid' rid' writer' input' s' = Inr ((False, []), s')"
proof -
  obtain t n where "answerRunInput_tx now eid rid writer input s = Inr (Some (t, n), s')"
    using assms(2) unfolding answerRunInput_def by (rule answer_committed_True)
  then obtain run m bs ask eff where
    "answer_apply now eid rid writer input run m bs ask eff s = Inr (Some (t, n), s')"
    by (cases rule: answerRunInput_tx_cases) auto
  then show ?thesis
  proof (cases rule: answer_apply_cases)
    case (applied s1 u s2)
    have r: "db_runs s' = updateMany (waiting_run input) (\<lambda>r. r\<lparr>r_status := Queued, r_updatedAt := now\<rparr>) (db_runs s)"
      by (simp add: answer_finish_frame [OF applied(4)] answer_decide_frame(1) [OF assms(1) applied(3)] applied(2))
    have "waiting_run input' = waiting_run input"
      using assms(3-5) by (simp add: waiting_run_def fun_eq_iff)
    then have "find (waiting_run input') (db_runs s') = None"
      by (auto simp: find_None_ball r updateMany_def waiting_run_def)
    then show ?thesis using updateMany_one [OF applied(1)] r by (simp add: answerRunInput_no_waiting)
  qed simp
qed

text \<open>An effect an approval decides, and one a secret unlocks, was the effect of the card.\<close>

lemma approved_by_update:
  assumes "\<And>y. y \<in> set es \<Longrightarrow> x_id y = x_id x \<Longrightarrow> y = x"
    and "x' \<in> set (updateMany p (\<lambda>e. e\<lparr>x_status := st, x_updatedAt := now\<rparr>) es)" "x_id x' = x_id x"
    and "x_status x \<noteq> Approved" "x_status x' = Approved"
  shows "p x \<and> st = Approved \<and> x \<in> set es"
proof -
  obtain z where z: "z \<in> set es" and xz: "x' = (if p z then z\<lparr>x_status := st, x_updatedAt := now\<rparr> else z)"
    using assms(2) by (auto simp: updateMany_def)
  have "x_id z = x_id x" using xz assms(3) by (auto split: if_splits)
  with z assms(1) have "z = x" by blast
  with xz z assms(4,5) show ?thesis by (auto split: if_splits)
qed

text \<open>
  C15. An effect turns from anything else to approved only through an open question of the
  run: either the approval card that names this very effect, answered with \<open>allow\<close> or
  \<open>always\<close> while the effect is still undecided, or the secret card of the run, for its
  pending request of a secret.
\<close>

theorem approval_needs_its_card:
  assumes "writer_frame writer" and d: "effect_ids_distinct s"
    and a: "answerRunInput now eid rid writer input s = Inr (b, s')"
    and x: "x \<in> set (db_effects s)" and x': "x' \<in> set (db_effects s')" "x_id x' = x_id x"
    and st: "x_status x \<noteq> Approved" "x_status x' = Approved"
  shows "x_status x = Intended \<and> x_runId x = ar_runId input \<and>
    (\<exists>m \<in> set (db_messages s). \<exists>bs a. m_id m = ar_messageId input \<and> m_blocks m = Some bs \<and>
       find pending_ask bs = Some (AskBlock a) \<and>
       (isApprovalAskBlock (AskBlock a) \<and> ask_approvalEffectId a = Some (x_id x) \<and> approves input \<or>
        isSecretAskBlock (AskBlock a) \<and> x_kind x = ''request_secret''))"
proof -
  have uniq: "y = x" if "y \<in> set (db_effects s)" "x_id y = x_id x" for y
    using that x d by (auto simp: effect_ids_distinct_def distinct_map inj_on_def)
  have no: "db_effects s' \<noteq> db_effects s" using uniq [of x'] x' st by auto
  obtain v where "answerRunInput_tx now eid rid writer input s = Inr (v, s')"
    using a by (auto simp: answerRunInput_def answer_committed_def tx_bind_Inr)
  then show ?thesis
  proof (cases rule: answerRunInput_tx_cases)
    case none
    with no show ?thesis by simp
  next
    case (answered run m bs ask a eff)
    from answered(10) show ?thesis
    proof (cases rule: answer_apply_cases)
      case refused
      with no show ?thesis by simp
    next
      case (applied s1 u s2)
      note df = answer_decide_frame [OF assms(1) applied(3)]
      have e2: "db_effects s' = db_effects s2" by (simp add: answer_finish_frame [OF applied(4)])
      have e1: "db_effects s1 = db_effects s" by (simp add: applied(2))
      show ?thesis
      proof (cases "isApprovalAskBlock ask")
        case True
        then obtain y where y: "eff = Some y" "answer_approval input (r_userId run) a s = Inr (Some y, s)"
          using answered(8) by blast
        note yp = answer_approval_Some [OF y(2)]
        have eff: "db_effects s' = updateMany (\<lambda>e. x_id e = x_id y)
          (\<lambda>e. e\<lparr>x_status := (if approves input then Approved else Denied), x_updatedAt := now\<rparr>) (db_effects s)"
          using df(2) [OF True y(1)] e1 e2 by simp
        have "x_id x = x_id y \<and> (if approves input then Approved else Denied) = Approved \<and> x \<in> set (db_effects s)"
          by (rule approved_by_update [OF uniq x'(1) [unfolded eff] x'(2) st])
        then have "x_id x = x_id y" "approves input" by (auto split: if_splits)
        moreover from this have "y = x" using uniq yp(2) by simp
        ultimately show ?thesis using yp True answered by (auto intro!: bexI [of _ m])
      next
        case False
        have sec: "isSecretAskBlock ask" using df(4) [OF False] no e1 e2 by auto
        then have eff: "db_effects s' = updateMany (\<lambda>x. x_runId x = ar_runId input \<and> x_workspaceId x = ar_workspace input
         \<and> x_kind x = ''request_secret'' \<and> x_status x = Intended)
        (\<lambda>x. x\<lparr>x_status := Approved, x_updatedAt := now\<rparr>) (db_effects s)"
          using df(3) [OF False sec] answered(7) e1 e2 by simp
        have "x_runId x = ar_runId input \<and> x_kind x = ''request_secret'' \<and> x_status x = Intended"
          using approved_by_update [OF uniq x'(1) [unfolded eff] x'(2) st] by blast
        then show ?thesis using sec answered by (auto intro!: bexI [of _ m])
      qed
    qed
  qed
qed

text \<open>A run that waits for the approval of the effect \<open>x\<close>.\<close>

definition sample_waiting :: db where
  "sample_waiting = sample_db\<lparr>db_runs := [sample_run ''r'' WaitingInput None 2],
     db_messages := [sample_message], db_effects := [sample_effect Intended]\<rparr>"

definition sample_answer :: answer_input where
  "sample_answer = \<lparr>ar_workspace = ''w'', ar_threadId = ''t'', ar_runId = ''r'',
     ar_messageId = ''m'', ar_answeredByUserId = ''u'', ar_answer = ''allow''\<rparr>"

definition sample_answered :: db where
  "sample_answered = (case answerRunInput 5 ''e'' ''rule'' None sample_answer sample_waiting of
     Inl _ \<Rightarrow> empty_db | Inr r \<Rightarrow> snd r)"

lemma sample_answer_run:
  "answerRunInput 5 ''e'' ''rule'' None sample_answer sample_waiting
     = Inr ((True, [(''thread:t'', 0)]), sample_answered)"
  by code_simp

theorem answer_taken_once_witness:
  "answerRunInput 6 ''e2'' ''rule'' None (sample_answer\<lparr>ar_answer := ''deny''\<rparr>) sample_answered
     = Inr ((False, []), sample_answered)"
  using answer_taken_once [OF _ sample_answer_run, of "sample_answer\<lparr>ar_answer := ''deny''\<rparr>"]
  by (simp add: writer_frame_def)

theorem approval_needs_its_card_witness:
  "x_status (sample_effect Intended) = Intended \<and> approves sample_answer \<and>
   isApprovalAskBlock (AskBlock sample_ask)"
proof -
  have "\<exists>x' \<in> set (db_effects sample_answered). x_id x' = ''x'' \<and> x_status x' = Approved"
    by code_simp
  then obtain x' where "x' \<in> set (db_effects sample_answered)" "x_id x' = ''x''" "x_status x' = Approved"
    by blast
  with approval_needs_its_card [OF _ _ sample_answer_run, of "sample_effect Intended" x']
  show ?thesis
    by (auto simp: writer_frame_def sample_waiting_def sample_effect_def effect_ids_distinct_def
        sample_message_def isApprovalAskBlock_def isSecretAskBlock_def sample_ask_def pending_ask_def)
qed

section \<open>Sends\<close>

text \<open>The message a nonce names is the message its send created.\<close>

lemma send_work_frame:
  assumes "send_work now ids input s = Inr (run, s')"
  shows "db_runs s' = db_runs s @ [run]" and "run = send_run now ids input"
    and "map (\<lambda>m. (m_id m, m_threadId m, m_seq m, m_clientNonce m)) (db_messages s')
      = map (\<lambda>m. (m_id m, m_threadId m, m_seq m, m_clientNonce m)) (db_messages s)"
  using assms by (auto simp: send_work_def tx_bind_Inr create_row_Inr update_one_Inr updateMany_def
      split: if_splits)

lemma send_enqueue_frame:
  assumes "send_enqueue now ids input s = Inr (run, s')"
  shows "db_runs s' = db_runs s @ (case run of None \<Rightarrow> [] | Some r \<Rightarrow> [send_run now ids input])"
    and "run = None \<or> run = Some (send_run now ids input)"
    and "map (\<lambda>m. (m_id m, m_threadId m, m_seq m, m_clientNonce m)) (db_messages s')
      = map (\<lambda>m. (m_id m, m_threadId m, m_seq m, m_clientNonce m)) (db_messages s)"
  using assms send_work_frame [of now ids input s]
  by (auto simp: send_enqueue_def tx_bind_Inr split: if_splits)

lemma find_snoc_new: "\<forall>q \<in> set xs. \<not> p q \<Longrightarrow> p x \<Longrightarrow> find p (xs @ [x]) = Some x"
  by (induction xs) auto

lemma find_map_key:
  assumes "map k xs = map k ys" and "\<And>x y. k x = k y \<Longrightarrow> p x = p y" and "find p xs = Some x"
  shows "\<exists>y. find p ys = Some y \<and> k y = k x"
  using assms(1,3)
proof (induction xs arbitrary: ys)
  case (Cons a xs)
  then obtain b bs where ys: "ys = b # bs" and ab: "k a = k b" and r: "map k xs = map k bs"
    by (cases ys) auto
  show ?case
  proof (cases "p a")
    case True
    with ab Cons.prems(2) assms(2) [OF ab] show ?thesis by (simp add: ys)
  next
    case False
    with Cons.prems(2) have "find p xs = Some x" by simp
    with Cons.IH [OF r] False assms(2) [OF ab] show ?thesis by (simp add: ys)
  qed
qed simp

lemma nonce_taken_send_fails:
  assumes "truthy (su_clientNonce input)" and "send_replay input s = Some r"
  shows "\<exists>e. send_commit now ids input s = Inl e"
proof -
  obtain m where m: "m \<in> set (db_messages s)" "m_threadId m = su_threadId input"
    "m_clientNonce m = su_clientNonce input"
    using assms by (auto simp: send_replay_def split: option.splits dest!: find_SomeD)
  have "createThreadMessageInTransaction now (si_message ids) (send_message_input input) s
      \<noteq> Inr (x, s')" for x s'
  proof
    assume c: "createThreadMessageInTransaction now (si_message ids) (send_message_input input) s = Inr (x, s')"
    have "message_clash m x"
      using m assms(1) createThreadMessage_frame(13,17) [OF c]
      by (auto simp: message_clash_def send_message_input_def same_nonce_def truthy_def split: option.splits)
    then show False using m(1) by (rule_tac createThreadMessage_Inr [OF c]) auto
  qed
  then show ?thesis
    by (cases "createThreadMessageInTransaction now (si_message ids) (send_message_input input) s")
      (auto simp: send_commit_def tx_bind_run)
qed

lemma send_commit_replay:
  assumes n: "truthy (su_clientNonce input)"
    and c: "send_commit now ids input s = Inr ((m, run, e), s')"
    and fresh: "\<forall>r \<in> set (db_runs s). r_sourceMessageId r \<noteq> Some (si_message ids)"
  shows "send_replay input s' = Some \<lparr>sr_messageId = m_id m, sr_seq = m_seq m,
    sr_taskId = map_option r_taskId run, sr_runId = map_option r_id run\<rparr>"
proof -
  from c obtain s1 s2 where
    1: "createThreadMessageInTransaction now (si_message ids) (send_message_input input) s = Inr (m, s1)"
    and 2: "send_enqueue now ids input s1 = Inr (run, s2)"
    and 3: "appendEventInTransaction now (si_event ids)
       \<lparr>ei_workspaceId = su_workspaceId input, ei_threadId = su_threadId input,
        ei_botId = su_botId input, ei_type = ThreadMessageCreated,
        ei_payload = message_payload (m_id m) RoleUser (su_blocks input),
        ei_runId = map_option r_id run\<rparr> s2 = Inr (e, s')"
    unfolding send_commit_def by (auto simp: tx_bind_Inr)
  note f1 = createThreadMessage_frame [OF 1]
  note f3 = appendEvent_frame [OF 3]
  let ?p = "\<lambda>m. m_threadId m = su_threadId input \<and> m_clientNonce m = su_clientNonce input"
  let ?k = "\<lambda>m. (m_id m, m_threadId m, m_seq m, m_clientNonce m)"
  have "\<not> ?p q" if "q \<in> set (db_messages s)" for q
  proof
    assume "?p q"
    then have "message_clash q m" using n f1(13,17)
      by (auto simp: message_clash_def send_message_input_def same_nonce_def truthy_def split: option.splits)
    then show False using that by (rule_tac createThreadMessage_Inr [OF 1]) auto
  qed
  moreover have "?p m" using f1(13,17) by (simp add: send_message_input_def)
  ultimately have find1: "find ?p (db_messages s1) = Some m"
    unfolding f1(7) by (intro find_snoc_new) auto
  note f2 = send_enqueue_frame [OF 2]
  obtain q where q: "find ?p (db_messages s') = Some q" "?k q = ?k m"
    using find_map_key [OF f2(3) [symmetric] _ find1] by (auto simp: f3(7))
  have src: "source_runs s' (m_id m) = (case run of None \<Rightarrow> [] | Some r \<Rightarrow> [send_run now ids input])"
    using fresh by (cases run) (auto simp: f1(12) source_runs_def f3(1) f2(1) f1(1) filter_empty_conv send_run_def)
  show ?thesis using n q f2(2) by (auto simp: send_replay_def src Let_def)
qed

text \<open>
  C17. Sending is idempotent under its nonce: after a send has answered, a repetition answers
  the same message and run and writes nothing - when it starts later, and also when it had
  already looked for an earlier send and found none, so that its transaction collides with
  the one that has committed meanwhile.
\<close>

theorem sendUserMessage_idempotent:
  assumes n: "truthy (su_clientNonce input)"
    and send: "sendUserMessage env1 env2 now ids input s = (Inr (r, ns), s')"
    and fresh: "\<forall>r \<in> set (db_runs (env1 s)). r_sourceMessageId r \<noteq> Some (si_message ids)"
  shows "sendUserMessage env3 env4 now' ids' input s' = (Inr (r, []), s') \<and>
    (send_replay input s0 = None \<longrightarrow>
       sendUserMessage (\<lambda>_. s') (\<lambda>x. x) now' ids' input s0 = (Inr (r, []), s'))"
proof -
  have replay: "send_replay input s' = Some r"
  proof (cases "send_replay input s")
    case (Some q)
    then show ?thesis using send by (simp add: sendUserMessage_def)
  next
    case None
    show ?thesis
    proof (cases "send_commit now ids input (env1 s)")
      case (Inl e)
      then show ?thesis using send None
        by (auto simp: sendUserMessage_def Let_def split: option.splits)
    next
      case (Inr v)
      then obtain m run e s2 where "send_commit now ids input (env1 s) = Inr ((m, run, e), s2)"
        by (cases v) auto
      with send None send_commit_replay [OF n this fresh] show ?thesis
        by (auto simp: sendUserMessage_def Let_def)
    qed
  qed
  obtain e where "send_commit now' ids' input s' = Inl e"
    using nonce_taken_send_fails [OF n replay] by blast
  with replay show ?thesis by (simp add: sendUserMessage_def Let_def)
qed

definition sample_send :: send_input where
  "sample_send = \<lparr>su_workspaceId = ''w'', su_threadId = ''t'', su_botId = ''b'', su_userId = ''u'',
     su_blocks = [TextBlock ''hi''], su_prompt = ''hi'', su_trigger = TrigUser,
     su_clientNonce = Some ''n1'', su_onlyIfIdle = False, su_linkMessageToRun = True\<rparr>"

definition sample_ids :: "string \<Rightarrow> send_ids" where
  "sample_ids p = \<lparr>si_message = p @ ''m'', si_task = p @ ''k'', si_run = p @ ''r'', si_event = p @ ''e''\<rparr>"

definition sample_sent :: db where
  "sample_sent = snd (sendUserMessage id id 5 (sample_ids ''1'') sample_send sample_db)"

lemma sample_send_run:
  "sendUserMessage id id 5 (sample_ids ''1'') sample_send sample_db =
     (Inr (\<lparr>sr_messageId = ''1m'', sr_seq = 0, sr_taskId = Some ''1k'', sr_runId = Some ''1r''\<rparr>,
        [(''thread:t'', 0)]), sample_sent)"
  by code_simp

theorem sendUserMessage_idempotent_witness:
  "sendUserMessage id id 9 (sample_ids ''2'') sample_send sample_sent =
     (Inr (\<lparr>sr_messageId = ''1m'', sr_seq = 0, sr_taskId = Some ''1k'', sr_runId = Some ''1r''\<rparr>, []),
        sample_sent)"
  using sendUserMessage_idempotent [OF _ sample_send_run, of id id 9 "sample_ids ''2''" sample_db]
  by (simp add: sample_send_def sample_defs)

end
