(* ===== verification/EffectGate.thy ===== *)
theory EffectGate
  imports RunHistory Samples
begin

text \<open>
  The gate in front of every tool call with an external effect: the effect's row decides
  whether the call may execute, must wait, or was already done
  (packages/adapters/src/approval-effect.ts, run-secret.ts, tool-loop.ts, takeover-resume.ts
  and the gate of \<open>applyTool\<close> in executor.ts). A statement outside a transaction is one
  atomic step; what other workers commit between two statements is the argument \<open>env\<close>.
\<close>

section \<open>Small decisions\<close>

datatype resume_checkpoint = CheckTakeover | CheckTakeoverSkipped

definition checkpoint_string :: "resume_checkpoint \<Rightarrow> string" where
  "checkpoint_string c = (case c of CheckTakeover \<Rightarrow> ''takeover''
     | CheckTakeoverSkipped \<Rightarrow> ''takeover-skipped'')"

definition takeoverResumeFromRelease :: "json \<Rightarrow> resume_checkpoint \<times> string" where
  "takeoverResumeFromRelease reason =
     (if reason = JStr ''skipped'' \<or> reason = JStr ''expired'' then
        (CheckTakeoverSkipped,
         ''The user skipped the login. Continue without treating the login as complete. Do not request takeover again unless you still cannot proceed.'')
      else
        (CheckTakeover,
         ''The user finished the login. Continue from where you left off. Do not request takeover again.''))"

definition runSecretKind :: "string \<Rightarrow> string" where
  "runSecretKind runId = ''run-secret:'' @ runId"

datatype leftover = DropLeftover | ConsumeReplacement

definition resolveCompletedSecretLeftover :: "time \<Rightarrow> time \<Rightarrow> leftover" where
  "resolveCompletedSecretLeftover secretCreatedAt effectUpdatedAt =
     (if secretCreatedAt \<le> effectUpdatedAt then DropLeftover else ConsumeReplacement)"

section \<open>The gate of a duplicate effect\<close>

definition uncertainEffectResult :: "string \<Rightarrow> json" where
  "uncertainEffectResult toolName = JObj [(''error'', JStr (''The earlier '' @ toolName @
     '' execution was interrupted, so its outcome is unknown. It was not replayed to avoid a duplicate side effect. Verify the destination before proposing another action.'')),
     (''uncertain'', JBool True)]"

datatype gate = GateExecute | GateReturn json | GatePaused | GateUncertain string

text \<open>\<open>??\<close>: a missing result, or null, is replaced.\<close>

definition nullish :: "json option \<Rightarrow> json \<Rightarrow> json" where
  "nullish v d = (case v of None \<Rightarrow> d | Some JNull \<Rightarrow> d | Some j \<Rightarrow> j)"

definition resolveDuplicateEffectGate :: "effect_status \<Rightarrow> json option \<Rightarrow> string \<Rightarrow> gate" where
  "resolveDuplicateEffectGate status result toolName =
     (if status = EffCompleted then GateReturn (nullish result (JObj [(''duplicate'', JBool True)]))
      else if status = Denied then GateReturn (JObj [(''error'', JStr ''User denied this action.'')])
      else if status = Executing then GateUncertain toolName
      else if status = Uncertain then GateReturn (nullish result (uncertainEffectResult toolName))
      else if status = Approved then GateExecute
      else if status = Intended then GatePaused
      else GateUncertain toolName)"

definition effect_gate :: "effect \<Rightarrow> string \<Rightarrow> gate" where
  "effect_gate x toolName = resolveDuplicateEffectGate (x_status x) (x_result x) toolName"

datatype secret_action = SecretReturn json | SettleAttempt | SecretAsk

definition resolveMissingRunSecretAction :: "effect option \<Rightarrow> secret_action" where
  "resolveMissingRunSecretAction eff = (case eff of
     None \<Rightarrow> SecretAsk
   | Some x \<Rightarrow> (case effect_gate x ''request_secret'' of
       GateReturn r \<Rightarrow> SecretReturn r
     | GateUncertain _ \<Rightarrow> SettleAttempt
     | _ \<Rightarrow> if x_status x = Executing then SettleAttempt else SecretAsk))"

section \<open>Claims\<close>

definition effect_in :: "string \<Rightarrow> effect_status \<Rightarrow> effect \<Rightarrow> bool" where
  "effect_in effectId st x \<longleftrightarrow> x_id x = effectId \<and> x_status x = st"

definition claimApprovedEffect :: "time \<Rightarrow> string \<Rightarrow> bool dbtx" where
  "claimApprovedEffect now effectId =
     tx_bind (effect_updateMany now (effect_in effectId Approved) (\<lambda>x. x\<lparr>x_status := Executing\<rparr>)) (\<lambda>count.
     tx_return (count = 1))"

definition claimIntendedEffect :: "time \<Rightarrow> string \<Rightarrow> bool dbtx" where
  "claimIntendedEffect now effectId =
     tx_bind (effect_updateMany now (effect_in effectId Intended) (\<lambda>x. x\<lparr>x_status := Executing\<rparr>)) (\<lambda>count.
     tx_return (count = 1))"

definition completeExternalEffect :: "time \<Rightarrow> string \<Rightarrow> effect_status \<Rightarrow> json \<Rightarrow> bool dbtx" where
  "completeExternalEffect now effectId expectedStatus result =
     tx_bind (effect_updateMany now (effect_in effectId expectedStatus)
       (\<lambda>x. x\<lparr>x_status := EffCompleted, x_result := Some result\<rparr>)) (\<lambda>count.
     tx_return (count = 1))"

definition replaceCompletedExternalEffectResult :: "time \<Rightarrow> string \<Rightarrow> json \<Rightarrow> bool dbtx" where
  "replaceCompletedExternalEffectResult now effectId result =
     tx_bind (effect_updateMany now (effect_in effectId EffCompleted)
       (\<lambda>x. x\<lparr>x_result := Some result\<rparr>)) (\<lambda>count.
     tx_return (count = 1))"

definition find_effect :: "db \<Rightarrow> string \<Rightarrow> effect option" where
  "find_effect s effectId = find (\<lambda>x. x_id x = effectId) (db_effects s)"

definition settle_write :: "time \<Rightarrow> string \<Rightarrow> string \<Rightarrow> bool dbtx" where
  "settle_write now effectId toolName =
     tx_bind (effect_updateMany now (effect_in effectId Executing)
       (\<lambda>x. x\<lparr>x_status := Uncertain, x_result := Some (uncertainEffectResult toolName)\<rparr>)) (\<lambda>count.
     tx_return (count = 1))"

definition settle_read :: "string \<Rightarrow> string \<Rightarrow> db \<Rightarrow> json" where
  "settle_read effectId toolName s = (case find_effect s effectId of
     None \<Rightarrow> uncertainEffectResult toolName
   | Some current \<Rightarrow> (case effect_gate current toolName of
       GateReturn result \<Rightarrow> result
     | _ \<Rightarrow> uncertainEffectResult toolName))"

definition settleUncertainEffect ::
  "(db \<Rightarrow> db) \<Rightarrow> time \<Rightarrow> string \<Rightarrow> string \<Rightarrow> json dbprog" where
  "settleUncertainEffect env now effectId toolName =
     prog_bind (prog_tx (settle_write now effectId toolName)) (\<lambda>settled.
     if settled then prog_return (uncertainEffectResult toolName)
     else prog_bind (prog_env env) (\<lambda>_. prog_gets (settle_read effectId toolName)))"

section \<open>Recording an effect\<close>

record recorded =
  rec_duplicate :: bool
  rec_effect :: effect

record run_ref =
  rr_id :: string
  rr_workspaceId :: string
  rr_threadId :: string
  rr_botId :: string

definition recordEffect ::
  "(db \<Rightarrow> db) \<Rightarrow> time \<Rightarrow> string \<Rightarrow> string \<Rightarrow> run_ref \<Rightarrow> string \<Rightarrow> string \<Rightarrow> json \<Rightarrow> recorded dbprog" where
  "recordEffect env now xid eid run kind executionId request =
     prog_bind (prog_gets (\<lambda>s. find (\<lambda>x. x_idempotencyKey x = executionId) (db_effects s))) (\<lambda>existing.
     prog_bind (prog_env env) (\<lambda>_.
     case existing of
       Some x \<Rightarrow>
         prog_bind (prog_tx (appendEventInTransaction now eid
           \<lparr>ei_workspaceId = rr_workspaceId run, ei_threadId = rr_threadId run,
            ei_botId = rr_botId run, ei_type = EffectReconciled,
            ei_payload = [(''executionId'', PJson (JStr executionId)), (''kind'', PJson (JStr kind))],
            ei_runId = Some (rr_id run)\<rparr>)) (\<lambda>_.
         prog_return \<lparr>rec_duplicate = True, rec_effect = x\<rparr>)
     | None \<Rightarrow>
         prog_bind (prog_tx (effect_create \<lparr>x_id = xid, x_workspaceId = rr_workspaceId run,
           x_runId = rr_id run, x_kind = kind, x_idempotencyKey = executionId,
           x_status = Intended, x_request = request, x_result = None, x_updatedAt = now\<rparr>)) (\<lambda>x.
         prog_return \<lparr>rec_duplicate = False, rec_effect = x\<rparr>)))"

text \<open>Only the details of an agent tool result are stored.\<close>

definition json_get :: "json \<Rightarrow> string \<Rightarrow> json option" where
  "json_get j k = (case j of JObj kvs \<Rightarrow> map_of kvs k | _ \<Rightarrow> None)"

definition stored_result :: "json \<Rightarrow> json" where
  "stored_result result =
     (if json_get result ''kind'' = Some (JStr ''agent_tool_result'')
         \<and> json_get result ''details'' \<noteq> None
      then the (json_get result ''details'') else result)"

definition completeEffect :: "time \<Rightarrow> string \<Rightarrow> effect_status \<Rightarrow> json \<Rightarrow> bool dbtx" where
  "completeEffect now effectId expectedStatus result =
     completeExternalEffect now effectId expectedStatus (stored_result result)"

section \<open>The replay queue\<close>

text \<open>
  After an approval the persisted requests are replayed in order; a call takes its request
  from the head of the queue or keeps the arguments it was given.
\<close>

type_synonym replay = "string \<times> json"

definition nextToolName :: "replay list \<Rightarrow> string option" where
  "nextToolName pending = (case pending of [] \<Rightarrow> None | p # _ \<Rightarrow> Some (fst p))"

definition take_replay ::
  "string \<Rightarrow> replay list \<Rightarrow> (db_error + (string \<times> json) list option) \<times> replay list" where
  "take_replay toolName pending = (case pending of
     [] \<Rightarrow> (Inr None, pending)
   | p # rest \<Rightarrow>
       if fst p \<noteq> toolName then (Inr None, pending)
       else (case snd p of
           JObj kvs \<Rightarrow> (Inr (Some kvs), rest)
         | _ \<Rightarrow> (Inl (Thrown (''Approved '' @ toolName @ '' request is not a JSON object'')), rest)))"

definition assertDrained :: "replay list \<Rightarrow> db_error + unit" where
  "assertDrained pending = (if length pending > 0
     then Inl (Thrown ''Approved tool requests were not fully replayed'') else Inr ())"

definition socialReviewUpdateAllowed :: "(string \<times> json) list \<Rightarrow> string option \<Rightarrow> bool" where
  "socialReviewUpdateAllowed args socialRecordId \<longleftrightarrow> truthy socialRecordId
     \<and> map_of args ''record_id'' = Some (JStr (the socialRecordId))
     \<and> js_String (map_of args ''action'') \<in> set [''review'', ''skip'', ''complete'']"

datatype restored = RestoredArgs "(string \<times> json) list" | RestoreRefused string

definition restoreApprovedToolInput ::
  "string \<Rightarrow> (string \<times> json) list \<Rightarrow> bool \<Rightarrow> string option \<Rightarrow> replay list \<Rightarrow>
   (db_error + restored) \<times> replay list" where
  "restoreApprovedToolInput name supplied socialReview socialRecordId pending =
     (case take_replay name pending of
        (Inl e, rest) \<Rightarrow> (Inl e, rest)
      | (Inr taken, rest) \<Rightarrow>
          let args = (case taken of None \<Rightarrow> supplied | Some a \<Rightarrow> a) in
          (Inr (if socialReview \<and> name = ''brandwell_socialstreams_update_opportunity''
                  \<and> \<not> socialReviewUpdateAllowed args socialRecordId
                then RestoreRefused ''This review can only update its assigned SocialStreams opportunity.''
                else RestoredArgs args), rest))"

section \<open>The gate of applyTool\<close>

text \<open>What \<open>applyTool\<close> does before the body of the tool runs.\<close>

datatype gate_action =
    ActRun                      \<comment> \<open>run the body, without a claim\<close>
  | ActClaim effect_status      \<comment> \<open>claim the effect from this status, then run the body\<close>
  | ActReturn json
  | ActDropSecret json          \<comment> \<open>delete the left-over secret and return\<close>
  | ActPauseApproval
  | ActPauseSecret
  | ActRequestApproval
  | ActSettle string

definition gate_decide ::
  "string \<Rightarrow> bool \<Rightarrow> bool \<Rightarrow> recorded option \<Rightarrow> run_status option \<Rightarrow> time option \<Rightarrow> gate_action" where
  "gate_decide name needsApproval bypassApproval applied runStatus secretCreatedAt =
     (case applied of
        None \<Rightarrow> ActRun
      | Some rec \<Rightarrow>
          if rec_duplicate rec then
            (case effect_gate (rec_effect rec) name of
               GateReturn result \<Rightarrow>
                 if name = ''request_secret'' then
                   (case secretCreatedAt of
                      None \<Rightarrow> ActReturn result
                    | Some created \<Rightarrow>
                        if resolveCompletedSecretLeftover created (x_updatedAt (rec_effect rec)) = DropLeftover
                        then ActDropSecret result else ActRun)
                 else ActReturn result
             | GatePaused \<Rightarrow>
                 if name = ''request_secret'' then
                   if runStatus = Some WaitingInput then ActPauseSecret else ActRun
                 else if \<not> needsApproval then ActClaim Intended
                 else if runStatus = Some WaitingInput then ActPauseApproval
                 else ActRequestApproval
             | GateUncertain toolName \<Rightarrow> ActSettle toolName
             | GateExecute \<Rightarrow> ActClaim Approved)
          else if needsApproval then ActRequestApproval
          else if bypassApproval then ActClaim Intended
          else ActRun)"

definition claim_from :: "effect_status \<Rightarrow> time \<Rightarrow> string \<Rightarrow> bool dbtx" where
  "claim_from st now effectId =
     (if st = Approved then claimApprovedEffect now effectId else claimIntendedEffect now effectId)"

text \<open>\<open>None\<close>: the claim succeeded and the body runs; a lost claim looks at the row again.\<close>

definition uncertainEffectError :: "string \<Rightarrow> db_error" where
  "uncertainEffectError toolName = Thrown (''tool '' @ toolName @
     '' has an earlier execution with an uncertain outcome; it may already have completed, so verify the destination before retrying'')"

definition claimOrReturn ::
  "(db \<Rightarrow> db) \<Rightarrow> (db \<Rightarrow> db) \<Rightarrow> time \<Rightarrow> string \<Rightarrow> string \<Rightarrow> effect_status \<Rightarrow> json option dbprog" where
  "claimOrReturn env1 env2 now name effectId st =
     prog_bind (prog_tx (claim_from st now effectId)) (\<lambda>claimed.
     if claimed then prog_return None
     else prog_bind (prog_env env1) (\<lambda>_.
       prog_bind (prog_gets (\<lambda>s. find_effect s effectId)) (\<lambda>current.
       case current of
         None \<Rightarrow> prog_throw (uncertainEffectError name)
       | Some x \<Rightarrow> (case effect_gate x name of
             GateReturn result \<Rightarrow> prog_return (Some result)
           | GateUncertain _ \<Rightarrow>
               prog_bind (settleUncertainEffect env2 now effectId name) (\<lambda>r. prog_return (Some r))
           | _ \<Rightarrow> prog_throw (uncertainEffectError name)))))"

section \<open>The writer of run secrets\<close>

text \<open>
  \<open>put\<close> is the encrypting store: it answers the identifier and the ciphertext of a new
  secret. The row is written in the transaction that answers the question.
\<close>

definition createRunSecretWriter ::
  "(string \<Rightarrow> string \<times> string) \<Rightarrow> string \<Rightarrow> string \<Rightarrow> string \<Rightarrow> string \<Rightarrow> unit dbtx" where
  "createRunSecretWriter put runId userId workspaceId plaintext =
     (let stored = put plaintext in
      tx_bind (create_row db_secrets db_secrets_update (\<lambda>q r. s_id q = s_id r) no_refs
        \<lparr>s_id = fst stored, s_userId = userId, s_workspaceId = workspaceId,
         s_ownerType = ''user'', s_serviceIdentityId = None,
         s_kind = runSecretKind runId, s_ciphertext = snd stored\<rparr>) (\<lambda>_. tx_return ()))"

section \<open>Contracts\<close>

lemma effect_step_update:
  "effect_in k st x \<Longrightarrow> effect_step st st' \<Longrightarrow>
   effect_row_step x (x\<lparr>x_status := st', x_updatedAt := t\<rparr>)"
  "effect_in k st x \<Longrightarrow> effect_step st st' \<Longrightarrow>
   effect_row_step x (x\<lparr>x_status := st', x_result := r, x_updatedAt := t\<rparr>)"
  by (simp_all add: effect_in_def effect_row_step_def)

lemma claim_steps:
  "tx_rel (db_step del) (claimApprovedEffect now k)"
  "tx_rel (db_step del) (claimIntendedEffect now k)"
  "tx_rel (db_step del) (claim_from st now k)"
  unfolding claim_from_def claimApprovedEffect_def claimIntendedEffect_def
  by (intro tx_rules; auto intro: effect_step_update effect_step.intros)+

lemma settle_write_step: "tx_rel (db_step del) (settle_write now k tool)"
  unfolding settle_write_def by (intro tx_rules; auto intro: effect_step_update effect_step.settle)

lemma completeExternalEffect_step:
  "st = Intended \<or> st = Executing \<Longrightarrow> tx_rel (db_step del) (completeExternalEffect now k st j)"
  unfolding completeExternalEffect_def
  by (intro tx_rules; auto intro: effect_step_update effect_step.intros)

lemma replaceCompleted_step:
  "tx_rel (db_step del) (replaceCompletedExternalEffectResult now k j)"
  unfolding replaceCompletedExternalEffectResult_def
  by (intro tx_rules; auto simp: effect_row_step_def effect_step.keep)

lemma rel_case_gate [tx_rules]:
  "prog_rel R a \<Longrightarrow> (\<And>r. prog_rel R (b r)) \<Longrightarrow> prog_rel R c \<Longrightarrow> (\<And>t. prog_rel R (d t)) \<Longrightarrow>
   prog_rel R (case g of GateExecute \<Rightarrow> a | GateReturn r \<Rightarrow> b r | GatePaused \<Rightarrow> c | GateUncertain t \<Rightarrow> d t)"
  by (cases g) simp_all

lemma settleUncertainEffect_step:
  "env_ok del env \<Longrightarrow> prog_rel (db_step del) (settleUncertainEffect env now k tool)"
  unfolding settleUncertainEffect_def by (intro tx_rules settle_write_step)

lemma claimOrReturn_step:
  "env_ok del env1 \<Longrightarrow> env_ok del env2 \<Longrightarrow>
   prog_rel (db_step del) (claimOrReturn env1 env2 now name k st)"
  unfolding claimOrReturn_def
  by (intro tx_rules claim_steps settleUncertainEffect_step)

lemma recordEffect_step:
  "env_ok del env \<Longrightarrow> prog_rel (db_step del) (recordEffect env now xid eid run kind key req)"
  unfolding recordEffect_def by (intro tx_rules) (simp_all add: effect_init_def)

lemma createRunSecretWriter_step:
  "tx_rel (db_step del) (createRunSecretWriter put k u w p)"
  unfolding createRunSecretWriter_def by (intro tx_rules)

section \<open>Guarantees\<close>

lemma claim_from_run:
  "claim_from st now k s =
    (let st0 = (if st = Approved then Approved else Intended) in
     Inr (countMany (effect_in k st0) (db_effects s) = 1,
       db_effects_update (updateMany (effect_in k st0)
         (\<lambda>x. x\<lparr>x_status := Executing, x_updatedAt := now\<rparr>)) s))"
  by (simp add: claim_from_def claimApprovedEffect_def claimIntendedEffect_def tx_bind_run)

text \<open>
  C3. An effect is claimed for execution at most once: after one worker's claim has succeeded,
  whatever transactions of any worker follow, every later claim of this effect fails and
  leaves the database as it is - from \<open>approved\<close> as from \<open>intended\<close>.
\<close>

theorem effect_claimed_once:
  assumes d: "effect_ids_distinct s" and c: "claim_from st now k s = Inr (True, s1)"
    and later: "db_step (\<lambda>_. False) s1 s2"
  shows "claim_from st' now' k s2 = Inr (False, s2)"
proof -
  let ?st = "if st = Approved then Approved else Intended"
  have s1: "db_effects s1 = updateMany (effect_in k ?st)
      (\<lambda>x. x\<lparr>x_status := Executing, x_updatedAt := now\<rparr>) (db_effects s)"
    and one: "countMany (effect_in k ?st) (db_effects s) = 1"
    using c by (auto simp: claim_from_run Let_def)
  have d1: "distinct (map x_id (db_effects s1))"
    using d by (simp add: s1 map_updateMany effect_ids_distinct_def)
  obtain us x vs where x: "db_effects s = us @ x # vs" "effect_in k ?st x"
    using count_one_split [OF one] by blast
  define y where "y = x\<lparr>x_status := Executing, x_updatedAt := now\<rparr>"
  have y: "y \<in> set (db_effects s1)" "x_id y = k" "x_status y = Executing"
    using x by (auto simp: s1 y_def updateMany_def effect_in_def)
  have ev: "evolves x_id effect_init (\<lambda>_. False) effect_row_step (db_effects s1) (db_effects s2)"
    using later by (simp add: db_step_def effects_evolve_def)
  have "\<not> effect_open (x_status z)" if "z \<in> set (db_effects s2)" "x_id z = k" for z
  proof -
    have "effect_row_step\<^sup>*\<^sup>* y z" using evolves_row [OF ev d1 y(1) that(1)] that(2) y(2) by simp
    then show ?thesis using effect_row_steps effect_steps_closed y(3)
      by (metis effect_open_def effect_status.distinct)
  qed
  then have none: "\<not> effect_in k st0 z" if "z \<in> set (db_effects s2)" "effect_open st0" for st0 z
    using that by (auto simp: effect_in_def)
  have "effect_open (if st' = Approved then Approved else Intended)" by (simp add: effect_open_def)
  with none have "countMany (effect_in k (if st' = Approved then Approved else Intended)) (db_effects s2) = 0"
    by simp
  then show ?thesis by (simp add: claim_from_run Let_def updateMany_count0 del: countMany_0)
qed

definition gate_db :: "effect_status \<Rightarrow> db" where
  "gate_db st = sample_db\<lparr>db_effects := [sample_effect st]\<rparr>"

lemma gate_claim_run:
  "claim_from Approved 5 ''x'' (gate_db Approved) =
     Inr (True, (gate_db Executing)\<lparr>db_effects := [(sample_effect Executing)\<lparr>x_updatedAt := 5\<rparr>]\<rparr>)"
  by code_simp

theorem effect_claimed_once_witness:
  "claim_from Intended 6 ''x'' ((gate_db Executing)\<lparr>db_effects := [(sample_effect Executing)\<lparr>x_updatedAt := 5\<rparr>]\<rparr>)
     = Inr (False, (gate_db Executing)\<lparr>db_effects := [(sample_effect Executing)\<lparr>x_updatedAt := 5\<rparr>]\<rparr>)"
  by (rule effect_claimed_once [OF _ gate_claim_run db_step.refl_state])
    (simp add: effect_ids_distinct_def gate_db_def)



text \<open>
  An execution that may have happened is not repeated: for an effect that is executing,
  settled, denied or completed, the gate neither runs the tool nor claims the effect, and a
  claim that is attempted on it anyway fails without a write.
\<close>

theorem no_replay_of_closed_effects:
  assumes "name \<noteq> ''request_secret''" and "rec_duplicate rec"
    and "\<not> effect_open (x_status (rec_effect rec))"
  shows "gate_decide name needs bypass (Some rec) runStatus secret \<noteq> ActRun \<and>
    (\<forall>st. gate_decide name needs bypass (Some rec) runStatus secret \<noteq> ActClaim st) \<and>
    (\<forall>s. effect_ids_distinct s \<and> rec_effect rec \<in> set (db_effects s) \<longrightarrow>
       claim_from st now (x_id (rec_effect rec)) s = Inr (False, s))"
proof (intro conjI allI impI)
  show "gate_decide name needs bypass (Some rec) runStatus secret \<noteq> ActRun"
    "gate_decide name needs bypass (Some rec) runStatus secret \<noteq> ActClaim st" for st
    using assms by (auto simp: gate_decide_def effect_gate_def resolveDuplicateEffectGate_def
        effect_open_def)
next
  fix s assume s: "effect_ids_distinct s \<and> rec_effect rec \<in> set (db_effects s)"
  let ?st = "if st = Approved then Approved else Intended"
  have "\<not> effect_in (x_id (rec_effect rec)) ?st z" if "z \<in> set (db_effects s)" for z
  proof
    assume z: "effect_in (x_id (rec_effect rec)) ?st z"
    then have "z = rec_effect rec"
      using s that by (auto simp: effect_in_def effect_ids_distinct_def distinct_map inj_on_def)
    with z assms(3) show False by (auto simp: effect_in_def effect_open_def split: if_splits)
  qed
  then have "countMany (effect_in (x_id (rec_effect rec)) ?st) (db_effects s) = 0" by simp
  then show "claim_from st now (x_id (rec_effect rec)) s = Inr (False, s)"
    by (simp add: claim_from_run Let_def updateMany_count0 del: countMany_0)
qed

theorem no_replay_of_closed_effects_witness:
  "gate_decide ''gmail_send'' False True
     (Some \<lparr>rec_duplicate = True, rec_effect = sample_effect Executing\<rparr>) None None \<noteq> ActRun \<and>
   claim_from Approved 5 ''x'' (gate_db Executing) = Inr (False, gate_db Executing)"
  using no_replay_of_closed_effects [of "''gmail_send''"
      "\<lparr>rec_duplicate = True, rec_effect = sample_effect Executing\<rparr>" False True None None Approved 5]
  by (simp add: effect_open_def sample_effect_def gate_db_def effect_ids_distinct_def)

text \<open>The tools that take their requests from the queue, one after the other.\<close>

fun take_all :: "string list \<Rightarrow> replay list \<Rightarrow> (string \<times> json) list option list \<times> replay list" where
  "take_all [] q = ([], q)"
| "take_all (n # ns) q =
     (case take_replay n q of
        (Inr r, q') \<Rightarrow> (case take_all ns q' of (rs, q'') \<Rightarrow> (r # rs, q''))
      | (Inl _, q') \<Rightarrow> ([], q'))"

text \<open>
  Approved requests are replayed once each and in order: whatever tools are called, the
  requests handed out are a prefix of the approved ones, each to a call of its own kind, the
  rest stays queued, and the queue passes its final check exactly when all were taken.
\<close>

theorem replay_in_order:
  assumes "\<forall>p \<in> set q. \<exists>kvs. snd p = JObj kvs" and "take_all names q = (rs, q')"
  shows "\<exists>taken. q = taken @ q' \<and> map JObj (map the (filter (\<lambda>r. r \<noteq> None) rs)) = map snd taken \<and>
    map fst taken = map fst (filter (\<lambda>p. snd p \<noteq> None) (zip names rs)) \<and>
    (assertDrained q' = Inr () \<longleftrightarrow> q' = [])"
  using assms
proof (induction names arbitrary: q rs)
  case Nil
  then show ?case by (auto simp: assertDrained_def)
next
  case (Cons n ns)
  show ?case
  proof (cases "q \<noteq> [] \<and> fst (hd q) = n")
    case True
    then obtain kvs rest where q: "q = (n, JObj kvs) # rest"
      using Cons.prems(1) by (cases q) (auto simp: prod_eq_iff)
    obtain rs1 where rs1: "take_all ns rest = (rs1, q')" "rs = Some kvs # rs1"
      using Cons.prems(2) by (auto simp: q take_replay_def split: prod.splits)
    have "\<forall>p \<in> set rest. \<exists>kvs. snd p = JObj kvs" using Cons.prems(1) q by simp
    then obtain taken where "rest = taken @ q'"
      "map JObj (map the (filter (\<lambda>r. r \<noteq> None) rs1)) = map snd taken"
      "map fst taken = map fst (filter (\<lambda>p. snd p \<noteq> None) (zip ns rs1))"
      using Cons.IH [OF _ rs1(1)] by blast
    then show ?thesis
      by (intro exI [of _ "(n, JObj kvs) # taken"]) (auto simp: q rs1(2) assertDrained_def)
  next
    case False
    then have "take_replay n q = (Inr None, q)" by (cases q) (auto simp: take_replay_def)
    with Cons.prems(2) obtain rs1 where rs1: "take_all ns q = (rs1, q')" "rs = None # rs1"
      by (auto split: prod.splits)
    then show ?thesis using Cons.IH [OF Cons.prems(1) rs1(1)] by auto
  qed
qed

theorem replay_in_order_witness:
  "\<exists>taken. [(''a'', JObj []), (''b'', JObj [(''k'', JNull)])] = taken @ [(''b'', JObj [(''k'', JNull)])]"
  using replay_in_order [of "[(''a'', JObj []), (''b'', JObj [(''k'', JNull)])]" "[''c'', ''a'']"
      "[None, Some []]" "[(''b'', JObj [(''k'', JNull)])]"]
  by (auto simp: take_replay_def)

end
