(* ===== verification/LeaseContract.thy ===== *)
theory LeaseContract
  imports RunHistory
begin

text \<open>
  The interface of a fenced lease. A worker that took a lease on a resource (a run, or a
  bot's seat on a computer) carries a handle with the fence it got; every later write names
  the handle. Providers: the run leases of \<open>RunExecutor\<close> and the execution leases of
  \<open>ComputerLease\<close>.
\<close>

locale fenced_lease =
  fixes inv :: "db \<Rightarrow> bool"
    and holds :: "'h \<Rightarrow> db \<Rightarrow> bool"
    and resource :: "'h \<Rightarrow> 'k"
    and renew :: "time \<Rightarrow> 'h \<Rightarrow> (db, db_error, bool) tx"
    and release :: "time \<Rightarrow> 'h \<Rightarrow> (db, db_error, unit) tx"
  assumes exclusive: "inv s \<Longrightarrow> holds h s \<Longrightarrow> holds h' s \<Longrightarrow> resource h = resource h' \<Longrightarrow> h = h'"
    and renew_held: "inv s \<Longrightarrow> holds h s \<Longrightarrow>
      \<exists>s'. renew now h s = Inr (True, s') \<and> inv s' \<and> (\<forall>g. holds g s' \<longleftrightarrow> holds g s)"
    and renew_lost: "\<not> holds h s \<Longrightarrow> renew now h s = Inr (False, s)"
    and release_held: "inv s \<Longrightarrow> holds h s \<Longrightarrow>
      \<exists>s'. release now h s = Inr ((), s') \<and> inv s' \<and> \<not> holds h s' \<and>
        (\<forall>g. resource g \<noteq> resource h \<longrightarrow> holds g s' = holds g s)"
    and release_lost: "\<not> holds h s \<Longrightarrow> release now h s = Inr ((), s)"
begin

text \<open>A handle that another one has replaced can neither renew nor release any more.\<close>

lemma superseded:
  assumes "inv s" and "holds h' s" and "resource h = resource h'" and "h \<noteq> h'"
  shows "renew now h s = Inr (False, s)" and "release now h s = Inr ((), s)"
proof -
  have "\<not> holds h s" using assms exclusive by blast
  then show "renew now h s = Inr (False, s)" and "release now h s = Inr ((), s)"
    by (simp_all add: renew_lost release_lost)
qed

lemma renew_answers_holds:
  assumes "inv s" and "renew now h s = Inr (b, s')"
  shows "b \<longleftrightarrow> holds h s"
  using assms renew_held [of s h now] renew_lost [of h s now] by (cases "holds h s") auto

lemma release_once:
  assumes "inv s" and "release now h s = Inr (u, s')"
  shows "release now' h s' = Inr ((), s')"
proof (cases "holds h s")
  case True
  with assms release_held [of s h now] have "\<not> holds h s'" by auto
  then show ?thesis by (rule release_lost)
next
  case False
  with assms(2) have "s' = s" by (simp add: release_lost)
  with False show ?thesis by (simp add: release_lost)
qed

end

end
