(* ===== verification/ComputerLease.thy ===== *)
theory ComputerLease
  imports LeaseContract Samples
begin

text \<open>
  Shared computers: scope and home keys (packages/db/src/computers.ts), the execution lease a
  run takes on a team computer (packages/adapters/src/computer-lifecycle.ts), and the control
  a person takes of a computer (computer-control.ts). Statements outside a transaction are
  separate steps; \<open>env\<close> arguments are what other clients do between them.
\<close>

section \<open>Keys\<close>

datatype computer_mode = Team | Dedicated

definition parseComputerMode :: "string \<Rightarrow> db_error + computer_mode" where
  "parseComputerMode scope =
     (if scope = ''team'' then Inr Team else if scope = ''dedicated'' then Inr Dedicated
      else Inl (Thrown (''Unknown computer scope: '' @ scope)))"

definition mode_string :: "computer_mode \<Rightarrow> string" where
  "mode_string m = (case m of Team \<Rightarrow> ''team'' | Dedicated \<Rightarrow> ''dedicated'')"

definition computerScopeKey :: "computer_mode \<Rightarrow> string \<Rightarrow> string option \<Rightarrow> db_error + string" where
  "computerScopeKey mode workspaceId botId =
     (if mode = Team then Inr (''team:'' @ workspaceId)
      else if \<not> truthy botId then Inl (Thrown ''Dedicated computers require a bot id'')
      else Inr (''bot:'' @ the botId))"

definition computerHomeKey :: "computer_mode \<Rightarrow> string \<Rightarrow> string option \<Rightarrow> db_error + string" where
  "computerHomeKey mode workspaceId botId =
     (if mode = Team then Inr (''team-'' @ workspaceId)
      else if \<not> truthy botId then Inl (Thrown ''Dedicated computers require a bot id'')
      else Inr (the botId))"

section \<open>Execution leases\<close>

definition EXECUTION_LEASE_MS :: time where
  "EXECUTION_LEASE_MS = 5 * 60000"

definition TAKEOVER_HOLD_MS :: time where
  "TAKEOVER_HOLD_MS = 24 * 60 * 60000"

record acquire_input =
  aq_computerId :: string
  aq_runId :: string
  aq_botId :: string
  aq_resumeHeldLease :: bool

text \<open>The lease a run holds: computer, bot, run and fence.\<close>

record lease_handle =
  lh_computerId :: string
  lh_botId :: string
  lh_runId :: string
  lh_fence :: nat

definition screenLeaseIdForRun :: "lease_handle option \<Rightarrow> string \<Rightarrow> nat \<Rightarrow> string" where
  "screenLeaseIdForRun lease runId fence =
     (case lease of None \<Rightarrow> screenLeaseId runId fence
      | Some l \<Rightarrow> screenLeaseId (lh_runId l) (lh_fence l))"

definition find_computer :: "string \<Rightarrow> computer dbprog" where
  "find_computer computerId =
     prog_bind (prog_gets (\<lambda>s. find (\<lambda>c. c_id c = computerId) (db_computers s))) (\<lambda>c.
     case c of None \<Rightarrow> prog_throw RecordNotFound | Some c \<Rightarrow> prog_return c)"

definition reclaimable :: "time \<Rightarrow> acquire_input \<Rightarrow> exec_lease \<Rightarrow> bool" where
  "reclaimable now input l \<longleftrightarrow> l_computerId l = aq_computerId input \<and> l_botId l = aq_botId input
     \<and> (l_expiresAt l < now \<or> (aq_resumeHeldLease input \<and> l_runId l = aq_runId input))"

text \<open>\<open>updateManyAndReturn\<close>: the fence of the row after the update.\<close>

definition lease_reclaim :: "time \<Rightarrow> acquire_input \<Rightarrow> nat option dbtx" where
  "lease_reclaim now input =
     tx_bind (find_first db_leases (reclaimable now input)) (\<lambda>found.
     tx_bind (lease_updateMany (reclaimable now input)
       (\<lambda>l. l\<lparr>l_runId := aq_runId input, l_expiresAt := now + EXECUTION_LEASE_MS,
              l_fence := l_fence l + 1\<rparr>)) (\<lambda>_.
     tx_return (map_option (\<lambda>l. l_fence l + 1) found)))"

definition lease_insert :: "time \<Rightarrow> acquire_input \<Rightarrow> nat dbtx" where
  "lease_insert now input =
     tx_bind (lease_create \<lparr>l_computerId = aq_computerId input, l_botId = aq_botId input,
       l_runId = aq_runId input, l_fence = 1, l_expiresAt = now + EXECUTION_LEASE_MS\<rparr>) (\<lambda>l.
     tx_return (l_fence l))"

definition holds_handle :: "lease_handle \<Rightarrow> exec_lease \<Rightarrow> bool" where
  "holds_handle h l \<longleftrightarrow> l_computerId l = lh_computerId h \<and> l_botId l = lh_botId h
     \<and> l_runId l = lh_runId h \<and> l_fence l = lh_fence h"

definition releaseComputerExecutionLease :: "lease_handle option \<Rightarrow> unit dbtx" where
  "releaseComputerExecutionLease lease = (case lease of
     None \<Rightarrow> tx_return ()
   | Some h \<Rightarrow> tx_bind (lease_deleteMany (holds_handle h)) (\<lambda>_. tx_return ()))"

definition renewComputerExecutionLease :: "time \<Rightarrow> lease_handle option \<Rightarrow> bool dbtx" where
  "renewComputerExecutionLease now lease = (case lease of
     None \<Rightarrow> tx_return True
   | Some h \<Rightarrow> tx_bind (lease_updateMany (holds_handle h)
       (\<lambda>l. l\<lparr>l_expiresAt := now + EXECUTION_LEASE_MS\<rparr>)) (\<lambda>count. tx_return (count = 1)))"

definition holdComputerExecutionLeaseForTakeover :: "time \<Rightarrow> lease_handle option \<Rightarrow> bool dbtx" where
  "holdComputerExecutionLeaseForTakeover now lease = (case lease of
     None \<Rightarrow> tx_return True
   | Some h \<Rightarrow> tx_bind (lease_updateMany (holds_handle h)
       (\<lambda>l. l\<lparr>l_expiresAt := now + TAKEOVER_HOLD_MS\<rparr>)) (\<lambda>count. tx_return (count = 1)))"

definition validateAcquiredComputerLease ::
  "(db \<Rightarrow> db) \<Rightarrow> lease_handle \<Rightarrow> lease_handle option dbprog" where
  "validateAcquiredComputerLease env lease =
     prog_bind (find_computer (lh_computerId lease)) (\<lambda>computer.
     if c_state computer \<noteq> Suspending then prog_return (Some lease)
     else prog_bind (prog_env env) (\<lambda>_.
       prog_bind (prog_tx (releaseComputerExecutionLease (Some lease))) (\<lambda>_.
       prog_throw ComputerBusyError)))"

definition acquired :: "acquire_input \<Rightarrow> nat \<Rightarrow> lease_handle" where
  "acquired input fence = \<lparr>lh_computerId = aq_computerId input, lh_botId = aq_botId input,
     lh_runId = aq_runId input, lh_fence = fence\<rparr>"

text \<open>The environments: before the reclaim, before the insert, before the check, before a release.\<close>

definition acquireComputerExecutionLease ::
  "(nat \<Rightarrow> db \<Rightarrow> db) \<Rightarrow> time \<Rightarrow> acquire_input \<Rightarrow> lease_handle option dbprog" where
  "acquireComputerExecutionLease env now input =
     prog_bind (find_computer (aq_computerId input)) (\<lambda>computer.
     if c_scope computer \<noteq> ''team'' then prog_return None
     else if c_state computer = Suspending then prog_throw ComputerBusyError
     else
       prog_bind (prog_env (env 0)) (\<lambda>_.
       prog_bind (prog_tx (lease_reclaim now input)) (\<lambda>reclaimed.
       case reclaimed of
         Some fence \<Rightarrow>
           prog_bind (prog_env (env 2)) (\<lambda>_.
           validateAcquiredComputerLease (env 3) (acquired input fence))
       | None \<Rightarrow>
           prog_bind (prog_env (env 1)) (\<lambda>_.
           prog_bind (prog_catch (prog_tx (lease_insert now input))
             (\<lambda>error. if error = UniqueViolation then prog_throw ComputerBusyError
                      else prog_throw error)) (\<lambda>fence.
           prog_bind (prog_env (env 2)) (\<lambda>_.
           validateAcquiredComputerLease (env 3) (acquired input fence)))))))"

section \<open>Control by a person\<close>

definition DEFAULT_TAKEOVER_LEASE_MS :: time where
  "DEFAULT_TAKEOVER_LEASE_MS = 15 * 60 * 1000"

text \<open>
  \<open>configured\<close> is \<open>COMPUTER_TAKEOVER_TTL_MS\<close>. A fraction of a millisecond is dropped here: the
  value is only added to a date, which drops it too.
\<close>

definition takeoverLeaseMs :: "string option \<Rightarrow> time" where
  "takeoverLeaseMs configured =
     (case configured of None \<Rightarrow> DEFAULT_TAKEOVER_LEASE_MS
      | Some v \<Rightarrow> (case js_floor (js_Number v) of
            None \<Rightarrow> DEFAULT_TAKEOVER_LEASE_MS
          | Some raw \<Rightarrow> if raw \<ge> 1000 then raw else DEFAULT_TAKEOVER_LEASE_MS))"

definition hasActiveComputerControl :: "time \<Rightarrow> computer option \<Rightarrow> bool" where
  "hasActiveComputerControl now computer = (case computer of
     None \<Rightarrow> False
   | Some c \<Rightarrow> c_controlHolder c = HolderUser \<and> truthy (c_controlLeaseId c)
       \<and> (case c_controlLeaseExpiresAt c of None \<Rightarrow> False | Some t \<Rightarrow> t > now))"

definition teachingControlLeaseExpiresAt :: "string option \<Rightarrow> time \<Rightarrow> time \<Rightarrow> time" where
  "teachingControlLeaseExpiresAt configured teachingExpiresAt now =
     max (now + takeoverLeaseMs configured) teachingExpiresAt"

definition scheduleComputerControlExpiry :: "bool \<Rightarrow> string \<Rightarrow> string \<Rightarrow> time \<Rightarrow> unit dbprog" where
  "scheduleComputerControlExpiry fails computerId leaseId expiresAt =
     enqueue fails (computerControlExpireJob computerId leaseId expiresAt)"

definition extendActiveComputerControl ::
  "(db \<Rightarrow> db) \<Rightarrow> bool \<Rightarrow> string option \<Rightarrow> computer \<Rightarrow> string \<Rightarrow> time \<Rightarrow> time \<Rightarrow> bool dbprog" where
  "extendActiveComputerControl env fails configured computer botId until now =
     (if \<not> hasActiveComputerControl now (Some computer) \<or> c_controlBotId computer \<noteq> Some botId
         \<or> \<not> truthy (c_controlLeaseId computer)
      then prog_return False
      else let expiresAt = teachingControlLeaseExpiresAt configured until now in
        prog_bind (prog_tx (computer_updateMany now (\<lambda>c. c_id c = c_id computer
             \<and> c_controlHolder c = HolderUser \<and> c_controlBotId c = Some botId
             \<and> c_controlLeaseId c = c_controlLeaseId computer)
           (\<lambda>c. c\<lparr>c_controlLeaseExpiresAt := Some expiresAt\<rparr>))) (\<lambda>extended.
         if extended \<noteq> 1 then prog_return False
         else prog_bind (prog_env env) (\<lambda>_.
           prog_bind (scheduleComputerControlExpiry fails (c_id computer) (the (c_controlLeaseId computer)) expiresAt) (\<lambda>_.
           prog_return True))))"

section \<open>Contracts\<close>

lemma find_computer_step [tx_rules]: "prog_rel (db_step del) (find_computer k)"
  unfolding find_computer_def by (intro tx_rules)

lemma lease_tx_steps [tx_rules]:
  "tx_rel (db_step del) (lease_reclaim now i)" "tx_rel (db_step del) (lease_insert now i)"
  "tx_rel (db_step del) (releaseComputerExecutionLease h)"
  "tx_rel (db_step del) (renewComputerExecutionLease now h)"
  "tx_rel (db_step del) (holdComputerExecutionLeaseForTakeover now h)"
  unfolding lease_reclaim_def lease_insert_def releaseComputerExecutionLease_def
    renewComputerExecutionLease_def holdComputerExecutionLeaseForTakeover_def
  by (intro tx_rules)+

lemma acquire_step:
  assumes "\<And>i. env_ok del (env i)"
  shows "prog_rel (db_step del) (acquireComputerExecutionLease env now input)"
  unfolding acquireComputerExecutionLease_def validateAcquiredComputerLease_def
  by (intro tx_rules assms)

section \<open>Exclusion\<close>

text \<open>The unique constraint on computer and bot.\<close>

definition leases_unique :: "db \<Rightarrow> bool" where
  "leases_unique s \<longleftrightarrow> distinct (map (\<lambda>l. (l_computerId l, l_botId l)) (db_leases s))"

interpretation lease_table: keyed_table "\<lambda>l. (l_computerId l, l_botId l)" .

definition lease_held :: "lease_handle \<Rightarrow> db \<Rightarrow> bool" where
  "lease_held h s \<longleftrightarrow> (\<exists>l \<in> set (db_leases s). holds_handle h l)"

lemma lease_count:
  assumes "leases_unique s"
  shows "countMany (holds_handle h) (db_leases s) = (if lease_held h s then 1 else 0)"
proof -
  have "holds_handle h = (\<lambda>l. (l_computerId l, l_botId l) = (lh_computerId h, lh_botId h) \<and>
      (l_runId l = lh_runId h \<and> l_fence l = lh_fence h))"
    by (auto simp: holds_handle_def)
  then have "countMany (holds_handle h) (db_leases s) \<le> 1"
    using lease_table.count_by_key assms unfolding leases_unique_def by (simp only:)
  moreover have "countMany (holds_handle h) (db_leases s) = 0 \<longleftrightarrow> \<not> lease_held h s"
    by (simp add: lease_held_def)
  ultimately show ?thesis by (auto simp del: countMany_0)
qed

lemma lease_not_held_update:
  "\<not> lease_held h s \<Longrightarrow> updateMany (holds_handle h) f (db_leases s) = db_leases s"
  "\<not> lease_held h s \<Longrightarrow> deleteMany (holds_handle h) (db_leases s) = db_leases s"
  by (auto simp: lease_held_def deleteMany_def intro!: updateMany_none)

lemma handle_eqI:
  "holds_handle h l \<Longrightarrow> holds_handle h' l \<Longrightarrow> h = (h' :: lease_handle)"
  by (cases h; cases h') (simp add: holds_handle_def)

interpretation exec_lease: fenced_lease leases_unique lease_held "\<lambda>h. (lh_computerId h, lh_botId h)"
    "\<lambda>now h. renewComputerExecutionLease now (Some h)" "\<lambda>_ h. releaseComputerExecutionLease (Some h)"
proof
  fix s h h' assume "leases_unique s" "lease_held h s" "lease_held h' s"
    and eq: "(lh_computerId h, lh_botId h) = (lh_computerId h', lh_botId h')"
  then obtain l l' where "l \<in> set (db_leases s)" "l' \<in> set (db_leases s)" "holds_handle h l" "holds_handle h' l'"
    by (auto simp: lease_held_def)
  moreover from this eq have "l = l'"
    using \<open>leases_unique s\<close> lease_table.row_unique [of "db_leases s" l l']
    by (simp add: leases_unique_def holds_handle_def)
  ultimately show "h = h'" by (auto intro: handle_eqI)
next
  fix s h now assume u: "leases_unique s" and h: "lease_held h s"
  let ?s = "db_leases_update (updateMany (holds_handle h)
    (\<lambda>l. l\<lparr>l_expiresAt := now + EXECUTION_LEASE_MS\<rparr>)) s"
  have "renewComputerExecutionLease now (Some h) s = Inr (True, ?s)"
    using lease_count [OF u, of h] h by (simp add: renewComputerExecutionLease_def tx_bind_run del: countMany_0)
  moreover have "leases_unique ?s" using u by (simp add: leases_unique_def map_updateMany)
  moreover have "lease_held g ?s \<longleftrightarrow> lease_held g s" for g
    by (simp add: lease_held_def bex_updateMany holds_handle_def)
  ultimately show "\<exists>s'. renewComputerExecutionLease now (Some h) s = Inr (True, s') \<and>
      leases_unique s' \<and> (\<forall>g. lease_held g s' \<longleftrightarrow> lease_held g s)" by blast
next
  fix h s now assume "\<not> lease_held h s"
  then show "renewComputerExecutionLease now (Some h) s = Inr (False, s)"
    by (auto simp: renewComputerExecutionLease_def tx_bind_run lease_not_held_update lease_held_def countMany_def
        filter_empty_conv)
next
  fix s h now assume u: "leases_unique s" and h: "lease_held h s"
  let ?s = "db_leases_update (deleteMany (holds_handle h)) s"
  have "releaseComputerExecutionLease (Some h) s = Inr ((), ?s)"
    by (simp add: releaseComputerExecutionLease_def tx_bind_run)
  moreover have "leases_unique ?s"
    using u lease_table.distinct_delete by (simp add: leases_unique_def)
  moreover have "\<not> lease_held h ?s" by (simp add: lease_held_def set_deleteMany)
  moreover have "lease_held g ?s = lease_held g s"
    if "(lh_computerId g, lh_botId g) \<noteq> (lh_computerId h, lh_botId h)" for g
    using that by (auto simp: lease_held_def set_deleteMany holds_handle_def)
  ultimately show "\<exists>s'. releaseComputerExecutionLease (Some h) s = Inr ((), s') \<and> leases_unique s' \<and>
      \<not> lease_held h s' \<and> (\<forall>g. (lh_computerId g, lh_botId g) \<noteq> (lh_computerId h, lh_botId h) \<longrightarrow>
        lease_held g s' = lease_held g s)" by blast
next
  fix h s now assume "\<not> lease_held h s"
  then show "releaseComputerExecutionLease (Some h) s = Inr ((), s)"
    by (simp add: releaseComputerExecutionLease_def tx_bind_run lease_not_held_update)
qed

lemma seat_updateMany_unique:
  assumes "leases_unique s"
    and "\<And>l. l_computerId (f l) = l_computerId l" and "\<And>l. l_botId (f l) = l_botId l"
  shows "leases_unique (db_leases_update (updateMany p f) s)"
  using assms by (simp add: leases_unique_def map_updateMany)

lemma reclaim_Some:
  assumes u: "leases_unique s" and r: "lease_reclaim now input s = Inr (Some fence, s')"
  obtains l where "l \<in> set (db_leases s)" and "reclaimable now input l" and "fence = l_fence l + 1"
    and "leases_unique s'" and "lease_held (acquired input fence) s'" and "db_computers s' = db_computers s"
proof -
  let ?f = "\<lambda>l. l\<lparr>l_runId := aq_runId input, l_expiresAt := now + EXECUTION_LEASE_MS, l_fence := l_fence l + 1\<rparr>"
  obtain l where f: "find (reclaimable now input) (db_leases s) = Some l" and fe: "fence = l_fence l + 1"
    and s': "s' = db_leases_update (updateMany (reclaimable now input) ?f) s"
    using r by (auto simp: lease_reclaim_def tx_bind_run)
  have l: "l \<in> set (db_leases s)" "reclaimable now input l" using find_SomeD [OF f] by auto
  then have "?f l \<in> set (db_leases s')" by (force simp: s' updateMany_def)
  moreover have "holds_handle (acquired input fence) (?f l)"
    using l by (simp add: holds_handle_def acquired_def reclaimable_def fe)
  ultimately have "lease_held (acquired input fence) s'" by (auto simp: lease_held_def)
  moreover have "leases_unique s'" unfolding s' by (rule seat_updateMany_unique [OF u]) simp_all
  ultimately show thesis using l fe by (intro that) (simp_all add: s')
qed

lemma insert_lease_Inr:
  assumes "leases_unique s" and "lease_insert now input s = Inr (fence, s')"
  shows "leases_unique s'" and "lease_held (acquired input fence) s'"
    and "\<not> (\<exists>l \<in> set (db_leases s). l_computerId l = aq_computerId input \<and> l_botId l = aq_botId input)"
    and "fence = 1"
proof -
  have s': "s' = db_leases_update (\<lambda>ls. ls @ [\<lparr>l_computerId = aq_computerId input, l_botId = aq_botId input,
       l_runId = aq_runId input, l_fence = 1, l_expiresAt = now + EXECUTION_LEASE_MS\<rparr>]) s"
    and no: "\<not> (\<exists>l \<in> set (db_leases s). l_computerId l = aq_computerId input \<and> l_botId l = aq_botId input)"
    and f: "fence = 1"
    using assms(2) by (auto simp: lease_insert_def tx_bind_Inr create_row_Inr lease_clash_def)
  show "fence = 1" by (rule f)
  show "\<not> (\<exists>l \<in> set (db_leases s). l_computerId l = aq_computerId input \<and> l_botId l = aq_botId input)"
    by (rule no)
  show "leases_unique s'" using assms(1) no by (auto simp: s' leases_unique_def)
  show "lease_held (acquired input fence) s'"
    by (simp add: s' lease_held_def holds_handle_def acquired_def f)
qed

lemma release_keeps_unique:
  "leases_unique s \<Longrightarrow> releaseComputerExecutionLease h s = Inr (u, s') \<Longrightarrow> leases_unique s'"
  using lease_table.distinct_delete
  by (auto simp: releaseComputerExecutionLease_def tx_bind_run leases_unique_def split: option.splits)

lemma validate_Inr:
  assumes "validateAcquiredComputerLease env lease s = (Inr v, s')"
  shows "v = Some lease" and "s' = s"
proof -
  have "prog_tx (releaseComputerExecutionLease (Some lease)) t =
      (Inr (), db_leases_update (deleteMany (holds_handle lease)) t)" for t
    by (simp add: releaseComputerExecutionLease_def prog_tx_run tx_bind_run)
  then show "v = Some lease" and "s' = s"
    using assms by (auto simp: validateAcquiredComputerLease_def find_computer_def prog_bind_run
        split: option.splits if_splits)
qed

lemma prog_env_id: "prog_bind (prog_env (\<lambda>x. x)) f = f ()"
  by (rule ext) (simp add: prog_bind_run)

text \<open>What an undisturbed acquisition did.\<close>

lemma acquire_cases:
  assumes "acquireComputerExecutionLease (\<lambda>_ x. x) now input s = (Inr (Some h), s')"
  obtains (reclaimed) fence where "lease_reclaim now input s = Inr (Some fence, s')"
      and "h = acquired input fence"
  | (inserted) fence s1 where "lease_reclaim now input s = Inr (None, s1)"
      and "lease_insert now input s1 = Inr (fence, s')" and "h = acquired input fence"
proof -
  obtain v s1 where rc: "lease_reclaim now input s = Inr (v, s1)"
    by (simp add: lease_reclaim_def tx_bind_run)
  have unfold: "(case v of
         Some fence \<Rightarrow> validateAcquiredComputerLease (\<lambda>x. x) (acquired input fence) s1
       | None \<Rightarrow> prog_bind (prog_catch (prog_tx (lease_insert now input))
             (\<lambda>error. if error = UniqueViolation then prog_throw ComputerBusyError
                      else prog_throw error)) (\<lambda>fence.
           validateAcquiredComputerLease (\<lambda>x. x) (acquired input fence)) s1) = (Inr (Some h), s')"
    using assms rc unfolding acquireComputerExecutionLease_def prog_env_id
    by (auto simp: prog_bind_run find_computer_def prog_tx_run split: option.splits if_splits)
  show thesis
  proof (cases v)
    case (Some fence)
    with unfold validate_Inr have "h = acquired input fence" "s' = s1" by fastforce+
    with Some rc show thesis by (intro reclaimed) simp_all
  next
    case None
    show thesis
    proof (cases "lease_insert now input s1")
      case (Inl e)
      with unfold None show thesis
        by (auto simp: prog_bind_run prog_catch_def prog_tx_run split: if_splits)
    next
      case (Inr r)
      then obtain fence s2 where ins: "lease_insert now input s1 = Inr (fence, s2)" by (cases r) auto
      with unfold None have "validateAcquiredComputerLease (\<lambda>x. x) (acquired input fence) s2 = (Inr (Some h), s')"
        by (simp add: prog_bind_run prog_catch_def prog_tx_run)
      with validate_Inr have "h = acquired input fence" "s' = s2" by fastforce+
      with None rc ins show thesis by (intro inserted) simp_all
    qed
  qed
qed

text \<open>
  Taking the seat of a bot on a team computer is exclusive: it succeeds only when the seat
  is free, its lease has expired, or it is this very run's own lease being resumed; and from
  then on every handle that held the seat before can neither renew nor release it.
\<close>

theorem acquire_supersedes:
  assumes u: "leases_unique s"
    and a: "acquireComputerExecutionLease (\<lambda>_ x. x) now input s = (Inr (Some h), s')"
  shows "leases_unique s' \<and> lease_held h s' \<and>
    (\<forall>l \<in> set (db_leases s). l_computerId l = aq_computerId input \<and> l_botId l = aq_botId input \<longrightarrow>
       l_expiresAt l < now \<or> (aq_resumeHeldLease input \<and> l_runId l = aq_runId input)) \<and>
    (\<forall>g. lh_computerId g = aq_computerId input \<and> lh_botId g = aq_botId input \<and> lease_held g s \<longrightarrow>
       renewComputerExecutionLease now' (Some g) s' = Inr (False, s') \<and>
       releaseComputerExecutionLease (Some g) s' = Inr ((), s'))"
  using a
proof (cases rule: acquire_cases)
  case (reclaimed fence)
  from reclaim_Some [OF u reclaimed(1)] obtain l where
    l: "l \<in> set (db_leases s)" "reclaimable now input l" "fence = l_fence l + 1"
    and u': "leases_unique s'" and h: "lease_held (acquired input fence) s'" by metis
  have seat: "k = l" if "k \<in> set (db_leases s)" "l_computerId k = aq_computerId input" "l_botId k = aq_botId input" for k
    using lease_table.row_unique [of "db_leases s" k l] u l that
    by (simp add: leases_unique_def reclaimable_def)
  have "g \<noteq> acquired input fence" if gs: "lease_held g s" "lh_computerId g = aq_computerId input"
      "lh_botId g = aq_botId input" for g
  proof -
    obtain k where k: "k \<in> set (db_leases s)" "holds_handle g k" using gs(1) by (auto simp: lease_held_def)
    with gs seat [of k] have "lh_fence g = l_fence l" by (auto simp: holds_handle_def)
    then show ?thesis using l(3) by (auto simp: acquired_def)
  qed
  then have "renewComputerExecutionLease now' (Some g) s' = Inr (False, s') \<and>
       releaseComputerExecutionLease (Some g) s' = Inr ((), s')"
    if "lease_held g s" "lh_computerId g = aq_computerId input" "lh_botId g = aq_botId input" for g
    using exec_lease.superseded [OF u' h, of g] that by (simp add: acquired_def)
  moreover have "l_expiresAt k < now \<or> (aq_resumeHeldLease input \<and> l_runId k = aq_runId input)"
    if "k \<in> set (db_leases s)" "l_computerId k = aq_computerId input" "l_botId k = aq_botId input" for k
    using seat [OF that] l(2) by (simp add: reclaimable_def)
  ultimately show ?thesis using u' h reclaimed(2) by blast
next
  case (inserted fence s1)
  have "find (reclaimable now input) (db_leases s) = None"
    and s1: "s1 = db_leases_update (updateMany (reclaimable now input)
       (\<lambda>l. l\<lparr>l_runId := aq_runId input, l_expiresAt := now + EXECUTION_LEASE_MS, l_fence := l_fence l + 1\<rparr>)) s"
    using inserted(1) by (auto simp: lease_reclaim_def tx_bind_run)
  then have eq: "db_leases s1 = db_leases s" by (simp add: find_None_ball updateMany_none)
  then have u1: "leases_unique s1" using u by (simp add: leases_unique_def)
  note i = insert_lease_Inr [OF u1 inserted(2)]
  have none: "\<not> lease_held g s" if "lh_computerId g = aq_computerId input" "lh_botId g = aq_botId input" for g
    using i(3) that by (auto simp: lease_held_def holds_handle_def eq)
  show ?thesis using i none inserted(3) by (auto simp: eq)
qed

definition sample_computer :: "comp_state \<Rightarrow> computer" where
  "sample_computer st = \<lparr>c_id = ''c'', c_workspaceId = ''w'', c_userId = ''u'', c_scope = ''team'',
     c_scopeKey = ''team:w'', c_homeKey = ''team-w'', c_homeRevision = ''empty'', c_kind = ''docker'',
     c_providerRef = Some ''p'', c_state = st, c_controlHolder = HolderNone, c_controlLeaseId = None,
     c_controlLeaseExpiresAt = None, c_controlBotId = None, c_controlRunId = None, c_controlFence = 0,
     c_controlUserId = None, c_controlActorType = None, c_controlActorName = None,
     c_controlStartedAt = None, c_executionRunId = None, c_executionBotId = None,
     c_executionLeaseExpiresAt = None, c_executionFence = 0, c_screenUrl = None,
     c_lastComputerActivityAt = None, c_lastComputerState = None, c_updatedAt = 0\<rparr>"

definition sample_leased :: "string \<Rightarrow> nat \<Rightarrow> time \<Rightarrow> db" where
  "sample_leased r f e = sample_db\<lparr>db_computers := [sample_computer CompRunning],
     db_leases := [\<lparr>l_computerId = ''c'', l_botId = ''b'', l_runId = r, l_fence = f, l_expiresAt = e\<rparr>]\<rparr>"

definition sample_acquire :: acquire_input where
  "sample_acquire = \<lparr>aq_computerId = ''c'', aq_runId = ''r2'', aq_botId = ''b'', aq_resumeHeldLease = False\<rparr>"

lemma sample_acquire_run:
  "acquireComputerExecutionLease (\<lambda>_ x. x) 100 sample_acquire (sample_leased ''r1'' 4 50) =
     (Inr (Some \<lparr>lh_computerId = ''c'', lh_botId = ''b'', lh_runId = ''r2'', lh_fence = 5\<rparr>),
      sample_leased ''r2'' 5 300100)"
  by code_simp

theorem acquire_supersedes_witness:
  "renewComputerExecutionLease 101
     (Some \<lparr>lh_computerId = ''c'', lh_botId = ''b'', lh_runId = ''r1'', lh_fence = 4\<rparr>)
     (sample_leased ''r2'' 5 300100) = Inr (False, sample_leased ''r2'' 5 300100)"
proof -
  let ?g = "\<lparr>lh_computerId = ''c'', lh_botId = ''b'', lh_runId = ''r1'', lh_fence = 4\<rparr>"
  have u: "leases_unique (sample_leased ''r1'' 4 50)"
    by (simp add: leases_unique_def sample_leased_def)
  have h: "lh_computerId ?g = aq_computerId sample_acquire \<and> lh_botId ?g = aq_botId sample_acquire \<and>
      lease_held ?g (sample_leased ''r1'' 4 50)"
    by (simp add: sample_acquire_def lease_held_def sample_leased_def holds_handle_def)
  show ?thesis
    by (rule acquire_supersedes [OF u sample_acquire_run, THEN conjunct2, THEN conjunct2, THEN conjunct2,
          THEN spec, THEN mp, OF h, THEN conjunct1])
qed

end
