(* ===== verification/WorkspacePaths.thy ===== *)
theory WorkspacePaths
  imports ComputerLease
begin

text \<open>
  Paths on a computer (packages/adapters/src/computer-support.ts): requests of a bot are
  normalised, kept inside the workspace, and on a team computer resolved under the bot's own
  directory. \<open>posix_join\<close> is \<open>path.posix.join\<close> of the standard library. The reference for
  \<open>shellQuote\<close> is the quoting rule of the POSIX shell, \<open>sh_word\<close>.
\<close>

section \<open>path.posix\<close>

fun posix_segments :: "bool \<Rightarrow> string list \<Rightarrow> string list \<Rightarrow> string list" where
  "posix_segments absolute acc [] = rev acc"
| "posix_segments absolute acc (s # ss) =
     (if s = [] \<or> s = ''.'' then posix_segments absolute acc ss
      else if s = ''..'' then
        (case acc of
           [] \<Rightarrow> posix_segments absolute (if absolute then [] else [s]) ss
         | a # as \<Rightarrow> posix_segments absolute (if a = ''..'' then s # acc else as) ss)
      else posix_segments absolute (s # acc) ss)"

definition posix_normalize :: "string \<Rightarrow> string" where
  "posix_normalize p =
     (if p = [] then ''.''
      else let absolute = (hd p = CHR ''/''); trailing = (last p = CHR ''/'');
               body = js_join ''/'' (posix_segments absolute [] (js_split CHR ''/'' p)) in
        if body = [] then (if absolute then ''/'' else if trailing then ''./'' else ''.'')
        else (if absolute then ''/'' else []) @ body @ (if trailing then ''/'' else []))"

definition posix_join :: "string \<Rightarrow> string \<Rightarrow> string" where
  "posix_join a b = (let parts = filter (\<lambda>p. p \<noteq> []) [a, b] in
     if parts = [] then ''.'' else posix_normalize (js_join ''/'' parts))"

section \<open>The workspace\<close>

definition portable :: "string \<Rightarrow> string" where
  "portable value = map (\<lambda>c. if c = CHR 0x5C then CHR ''/'' else c) value"

definition normalizeWorkspacePath :: "string \<Rightarrow> db_error + string" where
  "normalizeWorkspacePath value =
     (let normalized = dropWhile (\<lambda>c. c = CHR ''/'') (portable value);
          segments = filter (\<lambda>s. s \<noteq> []) (js_split CHR ''/'' normalized) in
      if list_ex (\<lambda>s. s = ''.'' \<or> s = ''..'') segments
      then Inl (Thrown ''Path escapes the computer workspace'')
      else Inr (js_join ''/'' segments))"

definition result_bind :: "db_error + 'a \<Rightarrow> ('a \<Rightarrow> db_error + 'b) \<Rightarrow> db_error + 'b" where
  "result_bind r f = (case r of Inl e \<Rightarrow> Inl e | Inr v \<Rightarrow> f v)"

definition workspacePath :: "string \<Rightarrow> string \<Rightarrow> db_error + string" where
  "workspacePath root relative = result_bind (normalizeWorkspacePath relative) (\<lambda>normalized.
     Inr (if normalized \<noteq> [] then posix_join root normalized else root))"

definition teamBotWorkspaceDirectory :: "string \<Rightarrow> db_error + string" where
  "teamBotWorkspaceDirectory botId = result_bind (normalizeWorkspacePath botId) (\<lambda>d.
     Inr (posix_join ''bots'' d))"

definition isTeamRootPath :: "string \<Rightarrow> bool" where
  "isTeamRootPath value \<longleftrightarrow> value = ''shared'' \<or> js_prefix ''shared/'' value
     \<or> value = ''bots'' \<or> js_prefix ''bots/'' value"

definition stripVirtualWorkspaceRoot :: "string \<Rightarrow> string option" where
  "stripVirtualWorkspaceRoot value =
     (if portable value = ''/'' then Some []
      else if js_prefix ''/'' (portable value) then Some (drop 1 (portable value)) else None)"

definition resolveBotWorkspacePath ::
  "computer_mode \<Rightarrow> string \<Rightarrow> string \<Rightarrow> db_error + string" where
  "resolveBotWorkspacePath scope botId requestedPath =
     (if scope \<noteq> Team then Inr requestedPath
      else let explicitRootPath = stripVirtualWorkspaceRoot requestedPath in
        result_bind (normalizeWorkspacePath (case explicitRootPath of None \<Rightarrow> requestedPath | Some p \<Rightarrow> p))
          (\<lambda>normalized.
            if explicitRootPath \<noteq> None \<or> isTeamRootPath normalized then Inr normalized
            else result_bind (teamBotWorkspaceDirectory botId) (\<lambda>d. Inr (posix_join d normalized))))"

definition resolveBotWorkspaceCwd ::
  "computer_mode \<Rightarrow> string \<Rightarrow> string option \<Rightarrow> db_error + string option" where
  "resolveBotWorkspaceCwd scope botId requestedCwd =
     (if scope \<noteq> Team then Inr requestedCwd
      else if \<not> truthy requestedCwd \<or> requestedCwd = Some ''.''
        then result_bind (teamBotWorkspaceDirectory botId) (\<lambda>d. Inr (Some d))
      else if js_prefix ''/'' (the requestedCwd) then Inr requestedCwd
      else result_bind (resolveBotWorkspacePath scope botId (the requestedCwd)) (\<lambda>p. Inr (Some p)))"

definition isBotRelativeRequest :: "string \<Rightarrow> db_error + bool" where
  "isBotRelativeRequest value =
     (if stripVirtualWorkspaceRoot value \<noteq> None then Inr False
      else result_bind (normalizeWorkspacePath value) (\<lambda>p. Inr (\<not> isTeamRootPath p)))"

definition displayBotWorkspacePath ::
  "computer_mode \<Rightarrow> string \<Rightarrow> string \<Rightarrow> string \<Rightarrow> db_error + string" where
  "displayBotWorkspacePath scope botId requestedPath storedPath =
     (if scope \<noteq> Team then Inr storedPath
      else result_bind (isBotRelativeRequest requestedPath) (\<lambda>own.
        if \<not> own then Inr storedPath
        else result_bind (normalizeWorkspacePath storedPath) (\<lambda>normalized.
          result_bind (teamBotWorkspaceDirectory botId) (\<lambda>botDirectory.
            Inr (if normalized = botDirectory then []
                 else if js_prefix (botDirectory @ ''/'') normalized
                   then drop (length botDirectory + 1) normalized
                 else normalized)))))"

definition shellQuote :: "string \<Rightarrow> string" where
  "shellQuote value = [CHR 0x27]
     @ concat (map (\<lambda>c. if c = CHR 0x27 then [CHR 0x27, CHR 0x22, CHR 0x27, CHR 0x22, CHR 0x27] else [c]) value)
     @ [CHR 0x27]"

definition boundedComputerActions :: "'a list \<Rightarrow> db_error + 'a list" where
  "boundedComputerActions actions = (if length actions > 24
     then Inl (Thrown ''computer action batch exceeds 24 actions'') else Inr actions)"

section \<open>Clean paths\<close>

definition clean_segment :: "string \<Rightarrow> bool" where
  "clean_segment s \<longleftrightarrow> s \<noteq> [] \<and> CHR ''/'' \<notin> set s \<and> CHR 0x5C \<notin> set s \<and> s \<noteq> ''.'' \<and> s \<noteq> ''..''"

definition clean_path :: "string \<Rightarrow> bool" where
  "clean_path p \<longleftrightarrow> (\<exists>ss. list_all clean_segment ss \<and> p = js_join ''/'' ss)"

lemma split_join_segments:
  "ss \<noteq> [] \<Longrightarrow> (\<forall>s \<in> set ss. d \<notin> set s) \<Longrightarrow> js_split d (js_join [d] ss) = ss"
proof (induction ss rule: induct_list012)
  case (3 x y zs)
  then show ?case by (simp add: js_split_append js_split_id)
qed (simp_all add: js_split_id)

lemma clean_segments_split:
  "list_all clean_segment ss \<Longrightarrow> ss \<noteq> [] \<Longrightarrow> js_split CHR ''/'' (js_join ''/'' ss) = ss"
  by (intro split_join_segments) (auto simp: list_all_iff clean_segment_def)

lemma js_join_in: "c \<in> set (js_join [d] ss) \<Longrightarrow> c = d \<or> (\<exists>s \<in> set ss. c \<in> set s)"
  by (induction "[d]" ss rule: js_join.induct) auto

lemma js_join_Nil_iff: "list_all clean_segment ss \<Longrightarrow> js_join ''/'' ss = [] \<longleftrightarrow> ss = []"
  by (cases ss; cases "tl ss") (auto simp: clean_segment_def)

lemma portable_clean: "list_all clean_segment ss \<Longrightarrow> portable (js_join ''/'' ss) = js_join ''/'' ss"
  unfolding portable_def
proof (rule map_idI)
  fix c assume "list_all clean_segment ss" "c \<in> set (js_join ''/'' ss)"
  then show "(if c = CHR 0x5C then CHR ''/'' else c) = c"
    using js_join_in [of c "CHR ''/''" ss] by (auto simp: list_all_iff clean_segment_def)
qed

lemma hd_clean: "list_all clean_segment ss \<Longrightarrow> ss \<noteq> [] \<Longrightarrow> hd (js_join ''/'' ss) \<noteq> CHR ''/''"
  by (cases ss; cases "tl ss") (auto simp: clean_segment_def hd_append dest: hd_in_set)

lemma last_clean: "list_all clean_segment ss \<Longrightarrow> ss \<noteq> [] \<Longrightarrow> last (js_join ''/'' ss) \<noteq> CHR ''/''"
proof (induction ss rule: induct_list012)
  case (3 x y zs)
  then have "js_join ''/'' (y # zs) \<noteq> []" using js_join_Nil_iff [of "y # zs"] by simp
  with 3 show ?case by (simp add: last_append)
qed (auto simp: clean_segment_def dest: last_in_set)

lemma normalize_clean:
  assumes "list_all clean_segment ss"
  shows "normalizeWorkspacePath (js_join ''/'' ss) = Inr (js_join ''/'' ss)"
proof (cases "ss = []")
  case False
  have d: "dropWhile (\<lambda>c. c = CHR ''/'') (js_join ''/'' ss) = js_join ''/'' ss"
    using hd_clean [OF assms False] by (intro dropWhile_id) simp
  have f: "filter (\<lambda>s. s \<noteq> []) ss = ss"
    using assms by (auto simp: list_all_iff clean_segment_def intro: filter_True)
  have "\<not> list_ex (\<lambda>s. s = ''.'' \<or> s = ''..'') ss"
    using assms by (auto simp: list_all_iff list_ex_iff clean_segment_def)
  then show ?thesis
    by (simp add: normalizeWorkspacePath_def portable_clean assms d clean_segments_split False f)
qed (simp add: normalizeWorkspacePath_def portable_def)

lemma normalize_Inr:
  assumes "normalizeWorkspacePath v = Inr p"
  obtains ss where "list_all clean_segment ss" and "p = js_join ''/'' ss"
proof -
  let ?q = "dropWhile (\<lambda>c. c = CHR ''/'') (portable v)"
  let ?ss = "filter (\<lambda>s. s \<noteq> []) (js_split CHR ''/'' ?q)"
  have p: "p = js_join ''/'' ?ss" and n: "\<not> list_ex (\<lambda>s. s = ''.'' \<or> s = ''..'') ?ss"
    using assms by (auto simp: normalizeWorkspacePath_def Let_def split: if_splits)
  have "clean_segment s" if s: "s \<in> set ?ss" for s
  proof -
    have "set s \<subseteq> set ?q"
      using js_split_word [of s "CHR ''/''" ?q] s by auto
    moreover have "CHR 0x5C \<notin> set ?q"
      by (auto simp: portable_def dest!: set_dropWhileD split: if_splits)
    ultimately show ?thesis using s n js_split_no_sep [of s "CHR ''/''" ?q]
      by (auto simp: clean_segment_def list_ex_iff)
  qed
  with p show thesis by (intro that [of ?ss]) (auto simp: list_all_iff)
qed

lemma posix_segments_clean:
  "list_all clean_segment ss \<Longrightarrow> posix_segments b acc ss = rev acc @ ss"
  by (induction ss arbitrary: acc) (auto simp: clean_segment_def)

lemma posix_normalize_clean:
  assumes "list_all clean_segment ss" and "ss \<noteq> []"
  shows "posix_normalize (js_join ''/'' ss) = js_join ''/'' ss"
  using assms hd_clean [OF assms] last_clean [OF assms] js_join_Nil_iff [OF assms(1)]
  by (simp add: posix_normalize_def clean_segments_split posix_segments_clean)

lemma posix_join_clean:
  assumes "list_all clean_segment as" and "as \<noteq> []" and "list_all clean_segment bs"
  shows "posix_join (js_join ''/'' as) (js_join ''/'' bs) = js_join ''/'' (as @ bs)"
proof (cases "bs = []")
  case True
  then show ?thesis using assms js_join_Nil_iff [OF assms(1)]
    by (simp add: posix_join_def posix_normalize_clean)
next
  case False
  have "js_join ''/'' [js_join ''/'' as, js_join ''/'' bs] = js_join ''/'' (as @ bs)"
    using assms(2) False by (simp add: js_join_append)
  then show ?thesis using assms False js_join_Nil_iff [OF assms(1)] js_join_Nil_iff [OF assms(3)]
    by (simp add: posix_join_def posix_normalize_clean)
qed


lemma js_prefix_append: "js_prefix p (p @ t)"
  by (simp add: js_prefix_def occurs_at_def)

lemma team_directory_Inr:
  assumes "teamBotWorkspaceDirectory botId = Inr d"
  obtains bs where "list_all clean_segment bs" and "d = js_join ''/'' (''bots'' # bs)"
    and "list_all clean_segment (''bots'' # bs)" and "normalizeWorkspacePath botId = Inr (js_join ''/'' bs)"
proof -
  obtain n where n: "normalizeWorkspacePath botId = Inr n" "d = posix_join ''bots'' n"
    using assms by (auto simp: teamBotWorkspaceDirectory_def result_bind_def split: sum.splits)
  then obtain bs where bs: "list_all clean_segment bs" "n = js_join ''/'' bs"
    using normalize_Inr by blast
  have b: "list_all clean_segment [''bots'']" by (simp add: clean_segment_def)
  have "d = js_join ''/'' (''bots'' # bs)"
    using posix_join_clean [OF b _ bs(1)] n(2) bs(2) by simp
  with bs b n(1) show thesis by (intro that) simp_all
qed

text \<open>A request of a bot that names neither a root path nor a shared directory.\<close>

lemma relative_request:
  assumes "isBotRelativeRequest req = Inr True" and "resolveBotWorkspacePath Team botId req = Inr p"
  obtains bs ns where "list_all clean_segment (''bots'' # bs)" and "list_all clean_segment ns"
    and "normalizeWorkspacePath req = Inr (js_join ''/'' ns)"
    and "teamBotWorkspaceDirectory botId = Inr (js_join ''/'' (''bots'' # bs))"
    and "p = js_join ''/'' (''bots'' # bs @ ns)"
proof -
  obtain n where n: "normalizeWorkspacePath req = Inr n" "\<not> isTeamRootPath n"
    and s: "stripVirtualWorkspaceRoot req = None"
    using assms(1) by (auto simp: isBotRelativeRequest_def result_bind_def split: sum.splits if_splits)
  then obtain ns where ns: "list_all clean_segment ns" "n = js_join ''/'' ns"
    using normalize_Inr by blast
  obtain d where d: "teamBotWorkspaceDirectory botId = Inr d" "p = posix_join d n"
    using assms(2) n s by (auto simp: resolveBotWorkspacePath_def result_bind_def split: sum.splits)
  from team_directory_Inr [OF d(1)] obtain bs where
    bs: "d = js_join ''/'' (''bots'' # bs)" "list_all clean_segment (''bots'' # bs)" by blast
  have "p = js_join ''/'' ((''bots'' # bs) @ ns)"
    using posix_join_clean [OF bs(2) _ ns(1)] d(2) bs(1) ns(2) by simp
  with bs ns n(1) d(1) show thesis by (intro that [of bs ns]) simp_all
qed



text \<open>
  What a bot sees is what it asked for: a path that was resolved into the bot's own
  directory is displayed as the normalised request, without that directory.
\<close>

theorem display_inverts_resolve:
  assumes "isBotRelativeRequest req = Inr True" and "resolveBotWorkspacePath Team botId req = Inr p"
  shows "displayBotWorkspacePath Team botId req p = normalizeWorkspacePath req"
proof -
  obtain bs ns where bs: "list_all clean_segment (''bots'' # bs)" and ns: "list_all clean_segment ns"
    and n: "normalizeWorkspacePath req = Inr (js_join ''/'' ns)"
    and d: "teamBotWorkspaceDirectory botId = Inr (js_join ''/'' (''bots'' # bs))"
    and p: "p = js_join ''/'' (''bots'' # bs @ ns)"
    using relative_request [OF assms] .
  let ?d = "js_join ''/'' (''bots'' # bs)"
  have c: "normalizeWorkspacePath p = Inr p"
    unfolding p using bs ns by (intro normalize_clean) simp
  show ?thesis
  proof (cases "ns = []")
    case True
    then show ?thesis using assms(1) c d n
      by (simp add: displayBotWorkspacePath_def result_bind_def p)
  next
    case False
    then have pd: "p = ?d @ ''/'' @ js_join ''/'' ns"
      using js_join_append [of "''bots'' # bs" ns "''/''"] by (simp add: p)
    then have "p \<noteq> ?d" and "js_prefix (?d @ ''/'') p" and "drop (length ?d + 1) p = js_join ''/'' ns"
      using js_prefix_append [of "?d @ ''/''" "js_join ''/'' ns"] by simp_all
    then show ?thesis using assms(1) c d n
      by (simp add: displayBotWorkspacePath_def result_bind_def)
  qed
qed

theorem display_inverts_resolve_witness:
  "displayBotWorkspacePath Team ''ada'' ''notes//a.md'' ''bots/ada/notes/a.md'' = Inr ''notes/a.md''"
proof -
  have "isBotRelativeRequest ''notes//a.md'' = Inr True"
    and "resolveBotWorkspacePath Team ''ada'' ''notes//a.md'' = Inr ''bots/ada/notes/a.md''" by code_simp+
  from display_inverts_resolve [OF this] have
    "displayBotWorkspacePath Team ''ada'' ''notes//a.md'' ''bots/ada/notes/a.md'' = normalizeWorkspacePath ''notes//a.md''" .
  also have "\<dots> = Inr ''notes/a.md''" by code_simp
  finally show ?thesis .
qed

section \<open>Shell quoting\<close>

text \<open>
  A word of the shell: single and double quotes open a quoted part that ends at the next such
  quote; outside them only characters that have no meaning to the shell are literal, and
  inside double quotes none of \<open>$\<close>, backquote and backslash may occur.
\<close>

datatype sh_mode = ShPlain | ShSingle | ShDouble

definition sh_literal :: "char \<Rightarrow> bool" where
  "sh_literal c \<longleftrightarrow> (let n = of_char c :: nat in
     (48 \<le> n \<and> n \<le> 57) \<or> (65 \<le> n \<and> n \<le> 90) \<or> (97 \<le> n \<and> n \<le> 122) \<or> n = 95 \<or> n = 45 \<or> n = 46 \<or> n = 47)"

fun sh_word :: "sh_mode \<Rightarrow> string \<Rightarrow> string option" where
  "sh_word m [] = (if m = ShPlain then Some [] else None)"
| "sh_word ShPlain (c # cs) =
     (if c = CHR 0x27 then sh_word ShSingle cs
      else if c = CHR 0x22 then sh_word ShDouble cs
      else if sh_literal c then map_option ((#) c) (sh_word ShPlain cs) else None)"
| "sh_word ShSingle (c # cs) =
     (if c = CHR 0x27 then sh_word ShPlain cs else map_option ((#) c) (sh_word ShSingle cs))"
| "sh_word ShDouble (c # cs) =
     (if c = CHR 0x22 then sh_word ShPlain cs
      else if c \<in> {CHR ''$'', CHR 0x60, CHR 0x5C} then None
      else map_option ((#) c) (sh_word ShDouble cs))"

lemma sh_word_quoted:
  "sh_word ShSingle (concat (map (\<lambda>c. if c = CHR 0x27
      then [CHR 0x27, CHR 0x22, CHR 0x27, CHR 0x22, CHR 0x27] else [c]) value) @ [CHR 0x27]) = Some value"
  by (induction "value") auto

text \<open>
  A quoted value is one word of the shell whatever it contains, and the shell reads back
  exactly the value.
\<close>

theorem shellQuote_word: "sh_word ShPlain (shellQuote value) = Some value"
  by (simp add: shellQuote_def sh_word_quoted)

end
