(* ===== verification/JsonText.thy ===== *)
theory JsonText
  imports Contracts
begin

text \<open>
  \<open>JSON.stringify\<close> of the standard library, and the JavaScript conversions of a payload
  member: \<open>??\<close>, truth and \<open>String\<close>. Numbers are integers here.
\<close>

definition hex_digit :: "nat \<Rightarrow> char" where
  "hex_digit n = (if n < 10 then char_of (48 + n) else char_of (87 + n))"

definition json_escape :: "char \<Rightarrow> string" where
  "json_escape c = (let n = of_char c :: nat in
     if n = 34 then [CHR 0x5C, CHR 0x22]
     else if n = 92 then [CHR 0x5C, CHR 0x5C]
     else if n = 8 then [CHR 0x5C, CHR ''b'']
     else if n = 9 then [CHR 0x5C, CHR ''t'']
     else if n = 10 then [CHR 0x5C, CHR ''n'']
     else if n = 12 then [CHR 0x5C, CHR ''f'']
     else if n = 13 then [CHR 0x5C, CHR ''r'']
     else if n < 32 then [CHR 0x5C, CHR ''u'', CHR ''0'', CHR ''0'', hex_digit (n div 16), hex_digit (n mod 16)]
     else [c])"

definition json_quote :: "string \<Rightarrow> string" where
  "json_quote s = CHR 0x22 # concat (map json_escape s) @ [CHR 0x22]"

fun json_stringify :: "json \<Rightarrow> string" where
  "json_stringify JNull = ''null''"
| "json_stringify (JBool b) = (if b then ''true'' else ''false'')"
| "json_stringify (JNum i) = int_string i"
| "json_stringify (JStr s) = json_quote s"
| "json_stringify (JArr xs) = ''['' @ js_join '','' (map json_stringify xs) @ '']''"
| "json_stringify (JObj ms) =
     ''{'' @ js_join '','' (map (\<lambda>m. json_quote (fst m) @ '':'' @ json_stringify (snd m)) ms) @ ''}''"

text \<open>\<open>JSON.stringify\<close> of a value that may be missing is \<open>undefined\<close>.\<close>

definition json_stringify_opt :: "json option \<Rightarrow> string option" where
  "json_stringify_opt v = map_option json_stringify v"

fun json_truthy :: "json \<Rightarrow> bool" where
  "json_truthy JNull = False"
| "json_truthy (JBool b) = b"
| "json_truthy (JNum i) = (i \<noteq> 0)"
| "json_truthy (JStr s) = (s \<noteq> [])"
| "json_truthy _ = True"

definition member_truthy :: "pval option \<Rightarrow> bool" where
  "member_truthy v = (case v of None \<Rightarrow> False | Some (PJson j) \<Rightarrow> json_truthy j | Some (PBlocks _) \<Rightarrow> True)"

text \<open>\<open>v ?? d\<close>: a missing member and \<open>null\<close> give the default.\<close>

definition member_or :: "pval option \<Rightarrow> string \<Rightarrow> pval" where
  "member_or v d = (case v of None \<Rightarrow> PJson (JStr d) | Some (PJson JNull) \<Rightarrow> PJson (JStr d) | Some p \<Rightarrow> p)"

definition member_String :: "pval \<Rightarrow> string" where
  "member_String v = (case v of PJson j \<Rightarrow> json_String j
     | PBlocks bs \<Rightarrow> js_join '','' (map (\<lambda>_. ''[object Object]'') bs))"

end
