(* ===== verification/LiveProjection.thy ===== *)
theory LiveProjection
  imports JsonText "HOL-Library.Sublist"
begin

text \<open>
  What a reader sees of a run while it works (packages/core/src/events.ts): the blocks of the
  live message, which each progress or tool event extends, and the projection of a whole event
  log to messages. The guard against repeated tool calls (packages/adapters/src/tool-loop.ts)
  uses the streaks of the same file.
\<close>

section \<open>Tool steps and streaks\<close>

definition js_upper_char :: "char \<Rightarrow> char" where
  "js_upper_char c = (let n = of_char c :: nat in
     if (97 \<le> n \<and> n \<le> 122) \<or> (224 \<le> n \<and> n \<le> 254 \<and> n \<noteq> 247) then char_of (n - 32) else c)"

definition humanizeToolName :: "string \<Rightarrow> string" where
  "humanizeToolName name =
     (let spaced = js_trim (map (\<lambda>c. if c = CHR ''_'' then CHR '' '' else c) name) in
      if spaced = [] then name
      else let lower = js_lower spaced in js_upper_char (hd lower) # tl lower)"

type_synonym tool_step = "string \<times> nat"

definition appendToolStep :: "tool_step list \<Rightarrow> string \<Rightarrow> tool_step list" where
  "appendToolStep steps toolName =
     (let label = humanizeToolName toolName in
      if steps \<noteq> [] \<and> fst (last steps) = label
      then butlast steps @ [(label, snd (last steps) + 1)]
      else steps @ [(label, 1)])"

text \<open>The key is \<open>undefined\<close> before the first call; \<open>args\<close> may be missing too.\<close>

type_synonym streak = "string option \<times> nat"

definition trackToolCallStreak :: "streak \<Rightarrow> string \<Rightarrow> json option \<Rightarrow> streak" where
  "trackToolCallStreak streak name args =
     (let key = name @ '':'' @ (case json_stringify_opt args of None \<Rightarrow> ''undefined'' | Some t \<Rightarrow> t) in
      if Some key = fst streak then (Some key, snd streak + 1) else (Some key, 1))"

definition trackToolNameStreak :: "streak \<Rightarrow> string \<Rightarrow> streak" where
  "trackToolNameStreak streak name =
     (if Some name = fst streak then (Some name, snd streak + 1) else (Some name, 1))"

definition MAX_CONSECUTIVE_IDENTICAL_TOOL_CALLS :: nat where
  "MAX_CONSECUTIVE_IDENTICAL_TOOL_CALLS = 6"

definition advanceToolCallLoopGuard :: "streak \<Rightarrow> string \<Rightarrow> json option \<Rightarrow> streak \<times> bool" where
  "advanceToolCallLoopGuard streak name args =
     (let next = trackToolCallStreak streak name args in
      (next, snd next \<ge> MAX_CONSECUTIVE_IDENTICAL_TOOL_CALLS))"

section \<open>The live message\<close>

text \<open>
  \<open>/[.!?]["')\]]*\s*$/\<close>; the typographic quotes of the pattern lie outside the characters
  of this model.
\<close>

definition sentence_end :: "string \<Rightarrow> bool" where
  "sentence_end text =
     (case dropWhile (\<lambda>c. c \<in> set [CHR 0x22, CHR 0x27, CHR '')'', CHR '']''])
         (dropWhile js_space (rev text)) of
        [] \<Rightarrow> False
      | c # _ \<Rightarrow> c \<in> set [CHR ''.'', CHR ''!'', CHR ''?''])"

definition endsSentence :: "string \<Rightarrow> bool" where
  "endsSentence text \<longleftrightarrow> js_trim text = [] \<or> sentence_end text"

definition appendTextSegment :: "message_block list \<Rightarrow> string \<Rightarrow> message_block list" where
  "appendTextSegment segments text =
     (if text = [] then segments
      else case (if segments = [] then None else Some (last segments)) of
        Some (TextBlock t) \<Rightarrow> butlast segments @ [TextBlock (t @ text)]
      | _ \<Rightarrow> segments @ [TextBlock text])"

definition appendToolCallSegment :: "message_block list \<Rightarrow> string \<Rightarrow> message_block list" where
  "appendToolCallSegment segments toolName =
     (case (if segments = [] then None else Some (last segments)) of
        Some (StepsBlock priorSteps) \<Rightarrow> butlast segments @ [StepsBlock (appendToolStep priorSteps toolName)]
      | _ \<Rightarrow> segments @ [StepsBlock (appendToolStep [] toolName)])"

fun block_live_text :: "message_block \<Rightarrow> string" where
  "block_live_text (TextBlock t) = t"
| "block_live_text (ProgressBlock t _) = t"
| "block_live_text _ = []"

definition liveMessageText :: "message_block list \<Rightarrow> string" where
  "liveMessageText blocks = concat (map block_live_text blocks)"

definition progressMessageText :: "payload option \<Rightarrow> string \<Rightarrow> string" where
  "progressMessageText p previousText =
     (let get = (\<lambda>k. case p of None \<Rightarrow> None | Some m \<Rightarrow> map_of m k) in
      case get ''delta'' of
        Some (PJson (JStr delta)) \<Rightarrow> previousText @ delta
      | _ \<Rightarrow> member_String (member_or (get ''text'') []))"

datatype live_update = UpdateProgress "payload option" | UpdateTool string

text \<open>The last block, when it is the one that still grows.\<close>

definition live_tail :: "message_block list \<Rightarrow> (string \<times> string list) option" where
  "live_tail blocks = (if blocks = [] then None else case last blocks of
     ProgressBlock t names \<Rightarrow> Some (t, case names of None \<Rightarrow> [] | Some ns \<Rightarrow> ns) | _ \<Rightarrow> None)"

definition live_flush :: "message_block list \<Rightarrow> string \<Rightarrow> string list \<Rightarrow> message_block list" where
  "live_flush segments tailText pendingToolNames =
     (if pendingToolNames \<noteq> [] \<and> endsSentence tailText
      then foldl appendToolCallSegment (appendTextSegment segments tailText) pendingToolNames
      else if tailText = [] then segments
      else segments @ [ProgressBlock tailText (if pendingToolNames = [] then None else Some pendingToolNames)])"

definition reduceLiveMessageBlocks :: "message_block list \<Rightarrow> live_update \<Rightarrow> message_block list" where
  "reduceLiveMessageBlocks blocks update =
     (let tail = live_tail blocks;
          segments = (case tail of None \<Rightarrow> blocks | Some _ \<Rightarrow> butlast blocks);
          priorText = liveMessageText blocks;
          flushedLength = (case tail of None \<Rightarrow> length priorText | Some (t, _) \<Rightarrow> length priorText - length t);
          tailText = (case update of
              UpdateProgress p \<Rightarrow> drop flushedLength (progressMessageText p priorText)
            | UpdateTool _ \<Rightarrow> (case tail of None \<Rightarrow> [] | Some (t, _) \<Rightarrow> t));
          pendingToolNames = (case tail of None \<Rightarrow> [] | Some (_, ns) \<Rightarrow> ns)
            @ (case update of UpdateProgress _ \<Rightarrow> [] | UpdateTool name \<Rightarrow> [name])
      in live_flush segments tailText pendingToolNames)"

section \<open>The projection of an event log\<close>

text \<open>
  \<open>Map\<close> of the standard library keeps its entries in insertion order: setting a present key
  keeps its place.
\<close>

definition js_map_set :: "'k \<Rightarrow> 'v \<Rightarrow> ('k \<times> 'v) list \<Rightarrow> ('k \<times> 'v) list" where
  "js_map_set k v m = (if k \<in> fst ` set m then map (\<lambda>e. if fst e = k then (k, v) else e) m
     else m @ [(k, v)])"

definition js_map_delete :: "'k \<Rightarrow> ('k \<times> 'v) list \<Rightarrow> ('k \<times> 'v) list" where
  "js_map_delete k m = filter (\<lambda>e. fst e \<noteq> k) m"

record log_event =
  le_id :: string
  le_threadId :: string
  le_seq :: nat
  le_type :: event_type
  le_payload :: payload
  le_runId :: "string option"
  le_botId :: "string option"
  le_createdAt :: string

record thread_message =
  tm_id :: string
  tm_threadId :: string
  tm_seq :: nat
  tm_role :: string
  tm_blocks :: "message_block list"
  tm_botId :: "string option"
  tm_runId :: "string option"
  tm_createdAt :: string

record projection =
  pj_messages :: "thread_message list"
  pj_live :: "(string \<times> thread_message) list"
  pj_subagents :: "(string \<times> thread_message) list"
  pj_durable :: "string list"

definition progressMessageId :: "string option \<Rightarrow> string option \<Rightarrow> string" where
  "progressMessageId runId eid =
     ''progress:'' @ (case runId of Some r \<Rightarrow> r | None \<Rightarrow> (case eid of Some i \<Rightarrow> i | None \<Rightarrow> ''live''))"

definition isRunTerminalEvent :: "event_type \<Rightarrow> bool" where
  "isRunTerminalEvent t \<longleftrightarrow> t = RunCompleted \<or> t = RunFailed \<or> t = RunCancelled"

definition subagentBlockFromPayload :: "payload \<Rightarrow> subagent_block" where
  "subagentBlockFromPayload p =
     (let status = map_of p ''status'';
          optional = (\<lambda>k. case map_of p k of None \<Rightarrow> None
            | Some v \<Rightarrow> if member_truthy (Some v) then Some (member_String v) else None) in
      \<lparr>sub_agentId = member_String (member_or (map_of p ''agentId'') []),
       sub_name = member_String (member_or (map_of p ''name'') ''subagent''),
       sub_task = member_String (member_or (map_of p ''task'') []),
       sub_status = (if status = Some (PJson (JStr ''completed'')) then SubCompleted
         else if status = Some (PJson (JStr ''failed'')) then SubFailed else SubRunning),
       sub_progress = optional ''progress'', sub_result = optional ''result''\<rparr>)"

text \<open>A live message is kept as the message it will be shown as.\<close>

definition liveProjection :: "log_event \<Rightarrow> (string \<times> thread_message) list \<Rightarrow> thread_message" where
  "liveProjection e live = (let i = progressMessageId (le_runId e) (Some (le_id e)) in
     case map_of live i of Some m \<Rightarrow> m
     | None \<Rightarrow> \<lparr>tm_id = i, tm_threadId = le_threadId e, tm_seq = le_seq e, tm_role = ''bot'',
         tm_blocks = [], tm_botId = le_botId e, tm_runId = le_runId e, tm_createdAt = le_createdAt e\<rparr>)"

definition clearLive :: "log_event \<Rightarrow> (string \<times> thread_message) list \<Rightarrow> (string \<times> thread_message) list" where
  "clearLive e live = (if truthy (le_runId e)
     then js_map_delete (progressMessageId (le_runId e) (Some (le_id e))) live else [])"

definition update_live :: "live_update \<Rightarrow> log_event \<Rightarrow> projection \<Rightarrow> projection" where
  "update_live u e p = (let m = liveProjection e (pj_live p) in
     p\<lparr>pj_live := js_map_set (progressMessageId (le_runId e) (Some (le_id e)))
        (m\<lparr>tm_blocks := reduceLiveMessageBlocks (tm_blocks m) u, tm_seq := le_seq e,
           tm_botId := le_botId e, tm_createdAt := le_createdAt e\<rparr>) (pj_live p)\<rparr>)"

text \<open>
  The members of a \<open>thread.message.created\<close> payload are those \<open>message_payload\<close> writes:
  \<open>role\<close> and \<open>messageId\<close> strings, \<open>blocks\<close> a list of blocks, each possibly missing.
\<close>

definition payload_blocks :: "payload \<Rightarrow> message_block list" where
  "payload_blocks p = (case map_of p ''blocks'' of Some (PBlocks bs) \<Rightarrow> bs | _ \<Rightarrow> [])"

definition subagent_ids :: "message_block list \<Rightarrow> string list" where
  "subagent_ids bs = concat (map (\<lambda>b. case b of SubagentBlock s \<Rightarrow> [sub_agentId s] | _ \<Rightarrow> []) bs)"

definition created_message :: "log_event \<Rightarrow> thread_message" where
  "created_message e =
     \<lparr>tm_id = member_String (member_or (map_of (le_payload e) ''messageId'') (le_id e)),
      tm_threadId = le_threadId e, tm_seq = le_seq e,
      tm_role = member_String (member_or (map_of (le_payload e) ''role'') ''bot''),
      tm_blocks = payload_blocks (le_payload e), tm_botId = le_botId e, tm_runId = le_runId e,
      tm_createdAt = le_createdAt e\<rparr>"

definition subagent_message :: "log_event \<Rightarrow> subagent_block \<Rightarrow> thread_message" where
  "subagent_message e b =
     \<lparr>tm_id = ''subagent:'' @ sub_agentId b, tm_threadId = le_threadId e, tm_seq = le_seq e,
      tm_role = ''bot'', tm_blocks = [SubagentBlock b], tm_botId = le_botId e,
      tm_runId = le_runId e, tm_createdAt = le_createdAt e\<rparr>"

definition project_event :: "projection \<Rightarrow> log_event \<Rightarrow> projection" where
  "project_event p e = (case le_type e of
       ThreadMessageCreated \<Rightarrow>
         let ids = subagent_ids (payload_blocks (le_payload e)) in
         p\<lparr>pj_live := clearLive e (pj_live p), pj_durable := pj_durable p @ ids,
           pj_subagents := foldl (\<lambda>m i. js_map_delete i m) (pj_subagents p) ids,
           pj_messages := pj_messages p @ [created_message e]\<rparr>
     | ThreadProgress \<Rightarrow> update_live (UpdateProgress (Some (le_payload e))) e p
     | AgentToolCalled \<Rightarrow>
         update_live (UpdateTool (member_String (member_or (map_of (le_payload e) ''name'') []))) e p
     | ThreadCleared \<Rightarrow> \<lparr>pj_messages = [], pj_live = [], pj_subagents = [], pj_durable = []\<rparr>
     | ThreadSubagent \<Rightarrow>
         let b = subagentBlockFromPayload (le_payload e) in
         if sub_agentId b \<in> set (pj_durable p) then p
         else p\<lparr>pj_subagents := js_map_set (sub_agentId b) (subagent_message e b) (pj_subagents p)\<rparr>
     | t \<Rightarrow> if isRunTerminalEvent t then p\<lparr>pj_live := clearLive e (pj_live p)\<rparr> else p)"

definition empty_projection :: projection where
  "empty_projection = \<lparr>pj_messages = [], pj_live = [], pj_subagents = [], pj_durable = []\<rparr>"

definition projectMessages :: "log_event list \<Rightarrow> thread_message list" where
  "projectMessages events = (let p = foldl project_event empty_projection events in
     pj_messages p @ map snd (pj_subagents p)
       @ filter (\<lambda>m. tm_blocks m \<noteq> []) (map snd (pj_live p)))"

section \<open>The blocks of the live message\<close>

lemma liveMessageText_append [simp]: "liveMessageText (as @ bs) = liveMessageText as @ liveMessageText bs"
  by (simp add: liveMessageText_def)

lemma liveMessageText_simps [simp]:
  "liveMessageText [] = []" "liveMessageText (b # bs) = block_live_text b @ liveMessageText bs"
  by (simp_all add: liveMessageText_def)

fun block_calls :: "message_block \<Rightarrow> nat" where
  "block_calls (StepsBlock steps) = sum_list (map snd steps)"
| "block_calls (ProgressBlock _ (Some ns)) = length ns"
| "block_calls _ = 0"

definition live_calls :: "message_block list \<Rightarrow> nat" where
  "live_calls bs = sum_list (map block_calls bs)"

lemma live_calls_simps [simp]:
  "live_calls [] = 0" "live_calls (b # bs) = block_calls b + live_calls bs"
  "live_calls (as @ bs) = live_calls as + live_calls bs"
  by (simp_all add: live_calls_def)

lemma sum_appendToolStep: "sum_list (map snd (appendToolStep steps n)) = sum_list (map snd steps) + 1"
  by (cases steps rule: rev_cases) (auto simp: appendToolStep_def Let_def)

text \<open>Both ways to extend the segments, by what they do to the last one.\<close>

lemma appendTextSegment_cases:
  obtains (none) "text = []" "appendTextSegment segs text = segs"
  | (merge) t us where "text \<noteq> []" "segs = us @ [TextBlock t]"
      "appendTextSegment segs text = us @ [TextBlock (t @ text)]"
  | (fresh) "text \<noteq> []" "appendTextSegment segs text = segs @ [TextBlock text]"
      "segs = [] \<or> (\<forall>t. last segs \<noteq> TextBlock t)"
proof (cases "text = []")
  case False
  show thesis
  proof (cases segs rule: rev_cases)
    case Nil
    with False show thesis by (intro fresh) (simp_all add: appendTextSegment_def)
  next
    case (snoc us b)
    with False show thesis
      by (cases b) (auto simp: appendTextSegment_def intro: merge fresh)
  qed
qed (simp add: appendTextSegment_def none)

lemma appendToolCallSegment_cases:
  obtains (merge) us st where "segs = us @ [StepsBlock st]"
      "appendToolCallSegment segs n = us @ [StepsBlock (appendToolStep st n)]"
  | (fresh) "appendToolCallSegment segs n = segs @ [StepsBlock (appendToolStep [] n)]"
      "segs = [] \<or> (\<forall>st. last segs \<noteq> StepsBlock st)"
proof (cases segs rule: rev_cases)
  case Nil
  then show thesis by (intro fresh) (simp_all add: appendToolCallSegment_def)
next
  case (snoc us b)
  then show thesis by (cases b) (auto simp: appendToolCallSegment_def intro: merge fresh)
qed

lemma text_appendText [simp]: "liveMessageText (appendTextSegment segs t) = liveMessageText segs @ t"
  by (cases t segs rule: appendTextSegment_cases) auto

lemma calls_appendText [simp]: "live_calls (appendTextSegment segs t) = live_calls segs"
  by (cases t segs rule: appendTextSegment_cases) auto

lemma text_appendCall [simp]: "liveMessageText (appendToolCallSegment segs n) = liveMessageText segs"
  by (cases segs n rule: appendToolCallSegment_cases) auto

lemma calls_appendCall [simp]: "live_calls (appendToolCallSegment segs n) = live_calls segs + 1"
  by (cases segs n rule: appendToolCallSegment_cases) (auto simp: sum_appendToolStep)

lemma foldl_appendCall [simp]:
  "liveMessageText (foldl appendToolCallSegment segs ns) = liveMessageText segs"
  "live_calls (foldl appendToolCallSegment segs ns) = live_calls segs + length ns"
  by (induction ns arbitrary: segs) auto

lemma endsSentence_Nil [simp]: "endsSentence []"
  by (simp add: endsSentence_def js_trim_def js_trimStart_def js_trimEnd_def)

lemma live_flush_text: "liveMessageText (live_flush segs t ns) = liveMessageText segs @ t"
  by (auto simp: live_flush_def)

lemma live_flush_calls: "live_calls (live_flush segs t ns) = live_calls segs + length ns"
  by (auto simp: live_flush_def)

lemma live_tail_Some:
  assumes "live_tail bs = Some (t, ns)"
  obtains us names where "bs = us @ [ProgressBlock t names]" and "ns = (case names of None \<Rightarrow> [] | Some xs \<Rightarrow> xs)"
  using assms by (cases bs rule: rev_cases) (auto simp: live_tail_def split: message_block.splits)

text \<open>What an update does, in terms of the blocks before the growing one.\<close>

lemma reduce_cases:
  obtains (grow) us t names where "blocks = us @ [ProgressBlock t names]"
      "reduceLiveMessageBlocks blocks u = live_flush us
         (case u of UpdateProgress p \<Rightarrow> drop (length (liveMessageText us))
            (progressMessageText p (liveMessageText blocks)) | UpdateTool _ \<Rightarrow> t)
         ((case names of None \<Rightarrow> [] | Some ns \<Rightarrow> ns) @ (case u of UpdateProgress _ \<Rightarrow> [] | UpdateTool n \<Rightarrow> [n]))"
  | (plain) "live_tail blocks = None"
      "reduceLiveMessageBlocks blocks u = live_flush blocks
         (case u of UpdateProgress p \<Rightarrow> drop (length (liveMessageText blocks))
            (progressMessageText p (liveMessageText blocks)) | UpdateTool _ \<Rightarrow> [])
         (case u of UpdateProgress _ \<Rightarrow> [] | UpdateTool n \<Rightarrow> [n])"
proof (cases "live_tail blocks")
  case None
  then show thesis by (cases u; intro plain) (simp_all add: reduceLiveMessageBlocks_def Let_def)
next
  case (Some tn)
  then obtain t ns where tail: "live_tail blocks = Some (t, ns)" by (cases tn) auto
  then obtain us names where b: "blocks = us @ [ProgressBlock t names]"
    and n: "ns = (case names of None \<Rightarrow> [] | Some xs \<Rightarrow> xs)" by (rule live_tail_Some)
  with tail show thesis by (cases u; intro grow [OF b]) (simp_all add: reduceLiveMessageBlocks_def Let_def b)
qed

text \<open>
  No text is lost or shown twice: after an update the text of the live message is what was
  already settled before the growing block, followed by the rest of the new text - so a delta
  is exactly appended, and a tool call leaves the text as it is.
\<close>

theorem live_text_faithful:
  "liveMessageText (reduceLiveMessageBlocks blocks (UpdateTool name)) = liveMessageText blocks \<and>
   liveMessageText (reduceLiveMessageBlocks blocks (UpdateProgress (Some [(''delta'', PJson (JStr d))])))
     = liveMessageText blocks @ d \<and>
   (\<exists>settled. prefix settled (liveMessageText blocks) \<and>
     liveMessageText (reduceLiveMessageBlocks blocks (UpdateProgress p)) =
       settled @ drop (length settled) (progressMessageText p (liveMessageText blocks)))"
proof (intro conjI)
  show "liveMessageText (reduceLiveMessageBlocks blocks (UpdateTool name)) = liveMessageText blocks"
    by (cases blocks "UpdateTool name" rule: reduce_cases) (simp_all add: live_flush_text)
  show "liveMessageText (reduceLiveMessageBlocks blocks (UpdateProgress (Some [(''delta'', PJson (JStr d))])))
     = liveMessageText blocks @ d"
    by (cases blocks "UpdateProgress (Some [(''delta'', PJson (JStr d))])" rule: reduce_cases)
      (simp_all add: live_flush_text progressMessageText_def)
  show "\<exists>settled. prefix settled (liveMessageText blocks) \<and>
     liveMessageText (reduceLiveMessageBlocks blocks (UpdateProgress p)) =
       settled @ drop (length settled) (progressMessageText p (liveMessageText blocks))"
  proof (cases blocks "UpdateProgress p" rule: reduce_cases)
    case (grow us t names)
    then show ?thesis by (intro exI [of _ "liveMessageText us"]) (simp add: live_flush_text)
  next
    case plain
    then show ?thesis by (intro exI [of _ "liveMessageText blocks"]) (simp add: live_flush_text)
  qed
qed

text \<open>The form of a live message: what a client may assume of the blocks it renders.\<close>

datatype live_kind = KText | KSteps | KGrowing | KOther

fun live_kind_of :: "message_block \<Rightarrow> live_kind" where
  "live_kind_of (TextBlock _) = KText"
| "live_kind_of (StepsBlock _) = KSteps"
| "live_kind_of (ProgressBlock _ _) = KGrowing"
| "live_kind_of _ = KOther"

definition steps_ok :: "tool_step list \<Rightarrow> bool" where
  "steps_ok st \<longleftrightarrow> st \<noteq> [] \<and> distinct_adj (map fst st) \<and> (\<forall>e \<in> set st. 0 < snd e)"

fun settled_ok :: "message_block \<Rightarrow> bool" where
  "settled_ok (TextBlock t) = (t \<noteq> [])"
| "settled_ok (StepsBlock st) = steps_ok st"
| "settled_ok _ = False"

definition settled_shape :: "message_block list \<Rightarrow> bool" where
  "settled_shape bs \<longleftrightarrow> (\<forall>b \<in> set bs. settled_ok b) \<and> distinct_adj (map live_kind_of bs)"

definition live_shape :: "message_block list \<Rightarrow> bool" where
  "live_shape bs \<longleftrightarrow> settled_shape bs \<or>
     (\<exists>us t names. bs = us @ [ProgressBlock t names] \<and> settled_shape us \<and> t \<noteq> [] \<and>
        (\<forall>ns. names = Some ns \<longrightarrow> ns \<noteq> [] \<and> \<not> endsSentence t))"

lemma distinct_adj_snoc:
  "distinct_adj (xs @ [x]) \<longleftrightarrow> distinct_adj xs \<and> (xs = [] \<or> last xs \<noteq> x)"
  by (simp add: distinct_adj_append_iff)

lemma steps_ok_append: "st = [] \<or> steps_ok st \<Longrightarrow> steps_ok (appendToolStep st n)"
  by (cases st rule: rev_cases) (auto simp: appendToolStep_def Let_def steps_ok_def distinct_adj_append_iff)

lemma settled_shape_snoc:
  "settled_shape (bs @ [b]) \<longleftrightarrow>
     settled_shape bs \<and> settled_ok b \<and> (bs = [] \<or> live_kind_of (last bs) \<noteq> live_kind_of b)"
  by (auto simp: settled_shape_def distinct_adj_snoc last_map)

lemma settled_last_kind:
  assumes "settled_shape bs" and "bs \<noteq> []"
  shows "(\<exists>t. last bs = TextBlock t) \<or> (\<exists>st. last bs = StepsBlock st)"
proof -
  from assms have "settled_ok (last bs)" by (simp add: settled_shape_def)
  then show ?thesis by (cases "last bs") auto
qed

lemma settled_appendText: "settled_shape segs \<Longrightarrow> settled_shape (appendTextSegment segs t)"
proof (cases t segs rule: appendTextSegment_cases)
  case fresh
  assume "settled_shape segs"
  with fresh settled_last_kind [of segs] show ?thesis by (auto simp: settled_shape_snoc)
qed (auto simp: settled_shape_snoc)

lemma settled_appendCall: "settled_shape segs \<Longrightarrow> settled_shape (appendToolCallSegment segs n)"
proof (cases segs n rule: appendToolCallSegment_cases)
  case fresh
  assume "settled_shape segs"
  with fresh settled_last_kind [of segs] show ?thesis
    by (auto simp: settled_shape_snoc steps_ok_append)
qed (auto simp: settled_shape_snoc steps_ok_append)

lemma settled_foldl_appendCall:
  "settled_shape segs \<Longrightarrow> settled_shape (foldl appendToolCallSegment segs ns)"
  by (induction ns arbitrary: segs) (auto intro: settled_appendCall)

lemma live_flush_shape:
  assumes "settled_shape segs"
  shows "live_shape (live_flush segs t ns)"
proof -
  consider (flush) "ns \<noteq> []" "endsSentence t" | (none) "t = []" "ns = []" | (grow) "t \<noteq> []" "ns = [] \<or> \<not> endsSentence t"
    using endsSentence_Nil by blast
  then show ?thesis
  proof cases
    case flush
    then show ?thesis using assms
      by (simp add: live_flush_def live_shape_def settled_foldl_appendCall settled_appendText)
  next
    case none
    then show ?thesis using assms by (simp add: live_flush_def live_shape_def)
  next
    case grow
    then have "live_flush segs t ns = segs @ [ProgressBlock t (if ns = [] then None else Some ns)]"
      by (auto simp: live_flush_def)
    with assms grow show ?thesis by (auto simp: live_shape_def)
  qed
qed

lemma live_shape_reduce: "live_shape bs \<Longrightarrow> live_shape (reduceLiveMessageBlocks bs u)"
proof (cases bs u rule: reduce_cases)
  case (grow us t names)
  assume "live_shape bs"
  then have "settled_shape us" by (auto simp: grow(1) live_shape_def settled_shape_snoc)
  then show ?thesis unfolding grow(2) by (rule live_flush_shape)
next
  case plain
  assume "live_shape bs"
  with plain(1) have "settled_shape bs" by (auto simp: live_shape_def live_tail_def)
  then show ?thesis unfolding plain(2) by (rule live_flush_shape)
qed

lemma live_calls_reduce:
  "live_calls (reduceLiveMessageBlocks bs u) = live_calls bs + (case u of UpdateTool _ \<Rightarrow> 1 | _ \<Rightarrow> 0)"
proof (cases bs u rule: reduce_cases)
  case (grow us t names)
  then show ?thesis by (auto simp: live_flush_calls split: live_update.split option.split)
next
  case plain
  then show ?thesis by (simp add: live_flush_calls split: live_update.split)
qed

text \<open>
  Whatever updates arrive, the live message keeps its form - settled text and tool steps
  alternate, neighbouring steps have different labels and positive counts, only the last block
  may still grow, and it holds tool calls back exactly until its text ends a sentence - and
  every tool call is counted once, as a step or as pending.
\<close>

theorem live_blocks_invariant:
  "live_shape (foldl reduceLiveMessageBlocks [] us) \<and>
   live_calls (foldl reduceLiveMessageBlocks [] us) = length (filter (\<lambda>u. \<exists>n. u = UpdateTool n) us)"
proof (induction us rule: rev_induct)
  case Nil
  show ?case by (simp add: live_shape_def settled_shape_def)
next
  case (snoc u us)
  then show ?case by (cases u) (simp_all add: live_shape_reduce live_calls_reduce)
qed

section \<open>The loop guard\<close>

definition call_key :: "string \<times> json option \<Rightarrow> string" where
  "call_key c = the (fst (trackToolCallStreak (None, 0) (fst c) (snd c)))"

definition guard_run :: "(string \<times> json option) list \<Rightarrow> streak" where
  "guard_run calls = foldl (\<lambda>st c. fst (advanceToolCallLoopGuard st (fst c) (snd c))) (None, 0) calls"

lemma track_key:
  "trackToolCallStreak st n a = (let key = call_key (n, a) in
     if Some key = fst st then (Some key, snd st + 1) else (Some key, 1))"
  by (simp add: trackToolCallStreak_def call_key_def Let_def)

lemma guard_run_snoc:
  "guard_run (cs @ [c]) = (let key = call_key c in
     if Some key = fst (guard_run cs) then (Some key, snd (guard_run cs) + 1) else (Some key, 1))"
  by (simp add: guard_run_def advanceToolCallLoopGuard_def track_key Let_def)

lemma guard_run_streak:
  "cs \<noteq> [] \<Longrightarrow> guard_run cs = (Some (call_key (last cs)),
     length (takeWhile (\<lambda>c. call_key c = call_key (last cs)) (rev cs)))"
proof (induction cs rule: rev_induct)
  case (snoc c cs)
  show ?case
  proof (cases "cs = []")
    case False
    with snoc.IH have ih: "guard_run cs = (Some (call_key (last cs)),
      length (takeWhile (\<lambda>c. call_key c = call_key (last cs)) (rev cs)))" by simp
    obtain d ds where r: "rev cs = d # ds" using False by (cases "rev cs") auto
    then have l: "last cs = d" by (metis hd_rev list.sel(1))
    show ?thesis
      by (cases "call_key c = call_key d") (auto simp: guard_run_snoc Let_def ih l r)
  qed (simp add: guard_run_def advanceToolCallLoopGuard_def track_key Let_def)
qed simp

lemma takeWhile_length_ge:
  "n \<le> length (takeWhile p xs) \<longleftrightarrow> n \<le> length xs \<and> (\<forall>x \<in> set (take n xs). p x)"
proof (induction xs arbitrary: n)
  case (Cons x xs)
  then show ?case by (cases n) auto
qed simp

text \<open>
  The guard stops an agent exactly when its last six calls were the same tool with the same
  arguments: never earlier, and always then.
\<close>

theorem loop_guard_exact:
  "snd (advanceToolCallLoopGuard (guard_run calls) name args) \<longleftrightarrow>
     5 \<le> length calls \<and>
     (\<forall>c \<in> set (drop (length calls - 5) calls). call_key c = call_key (name, args))"
proof -
  let ?cs = "calls @ [(name, args)]" and ?p = "\<lambda>c. call_key c = call_key (name, args)"
  have "snd (advanceToolCallLoopGuard (guard_run calls) name args) \<longleftrightarrow> 6 \<le> snd (guard_run ?cs)"
    by (simp add: guard_run_def advanceToolCallLoopGuard_def MAX_CONSECUTIVE_IDENTICAL_TOOL_CALLS_def Let_def)
  also have "\<dots> \<longleftrightarrow> 6 \<le> length (takeWhile ?p (rev ?cs))" by (simp add: guard_run_streak)
  also have "\<dots> \<longleftrightarrow> 5 \<le> length (takeWhile ?p (rev calls))" by auto
  also have "\<dots> \<longleftrightarrow> 5 \<le> length calls \<and> (\<forall>c \<in> set (drop (length calls - 5) calls). ?p c)"
    unfolding takeWhile_length_ge by (simp add: take_rev)
  finally show ?thesis .
qed

theorem loop_guard_exact_witness:
  "snd (advanceToolCallLoopGuard (guard_run (replicate 5 (''read'', None))) ''read'' None)"
  using loop_guard_exact [of "replicate 5 (''read'', None)" "''read''" None] by simp

section \<open>What the projection shows\<close>

text \<open>The part of the log a reader still sees, and its events by what they do.\<close>

definition since_clear :: "log_event list \<Rightarrow> log_event list" where
  "since_clear es = rev (takeWhile (\<lambda>e. le_type e \<noteq> ThreadCleared) (rev es))"

definition creates :: "log_event \<Rightarrow> bool" where
  "creates e \<longleftrightarrow> le_type e = ThreadMessageCreated"

definition live_id :: "log_event \<Rightarrow> string" where
  "live_id e = progressMessageId (le_runId e) (Some (le_id e))"

definition grows_live :: "log_event \<Rightarrow> bool" where
  "grows_live e \<longleftrightarrow> le_type e = ThreadProgress \<or> le_type e = AgentToolCalled"

definition ends_live :: "log_event \<Rightarrow> string \<Rightarrow> bool" where
  "ends_live e k \<longleftrightarrow> (creates e \<or> isRunTerminalEvent (le_type e)) \<and> (truthy (le_runId e) \<longrightarrow> live_id e = k)"

definition still_live :: "log_event list \<Rightarrow> string \<Rightarrow> bool" where
  "still_live es k \<longleftrightarrow> (\<exists>us e vs. es = us @ e # vs \<and> grows_live e \<and> live_id e = k \<and>
     (\<forall>v \<in> set vs. \<not> ends_live v k))"

definition durable_ids :: "log_event list \<Rightarrow> string list" where
  "durable_ids es = concat (map (\<lambda>e. subagent_ids (payload_blocks (le_payload e))) (filter creates es))"

lemma still_live_snoc:
  "still_live (es @ [e]) k \<longleftrightarrow> (grows_live e \<and> live_id e = k) \<or> (still_live es k \<and> \<not> ends_live e k)"
proof
  assume "still_live (es @ [e]) k"
  then obtain us x vs where x: "es @ [e] = us @ x # vs" "grows_live x" "live_id x = k" "\<forall>v \<in> set vs. \<not> ends_live v k"
    by (auto simp: still_live_def)
  then show "(grows_live e \<and> live_id e = k) \<or> (still_live es k \<and> \<not> ends_live e k)"
    by (cases vs rule: rev_cases) (auto simp: still_live_def)
next
  assume "(grows_live e \<and> live_id e = k) \<or> (still_live es k \<and> \<not> ends_live e k)"
  then show "still_live (es @ [e]) k"
  proof
    assume "grows_live e \<and> live_id e = k"
    then show ?thesis unfolding still_live_def by (intro exI [of _ es] exI [of _ e] exI [of _ "[]"]) simp
  next
    assume "still_live es k \<and> \<not> ends_live e k"
    then obtain us x vs where "es = us @ x # vs" "grows_live x" "live_id x = k" "\<forall>v \<in> set vs. \<not> ends_live v k"
      "\<not> ends_live e k" by (auto simp: still_live_def)
    then show ?thesis unfolding still_live_def
      by (intro exI [of _ us] exI [of _ x] exI [of _ "vs @ [e]"]) auto
  qed
qed

lemma since_clear_snoc:
  "since_clear (es @ [e]) = (if le_type e = ThreadCleared then [] else since_clear es @ [e])"
  by (simp add: since_clear_def)

lemma set_js_map_set: "set (js_map_set k v m) \<subseteq> insert (k, v) {e \<in> set m. fst e \<noteq> k}"
  by (auto simp: js_map_set_def)

lemma set_js_map_delete: "set (js_map_delete k m) = {e \<in> set m. fst e \<noteq> k}"
  by (auto simp: js_map_delete_def)

lemma set_delete_all: "set (foldl (\<lambda>m i. js_map_delete i m) m ids) = {e \<in> set m. fst e \<notin> set ids}"
  by (induction ids arbitrary: m) (auto simp: set_js_map_delete)

definition projected :: "log_event list \<Rightarrow> projection \<Rightarrow> bool" where
  "projected es p \<longleftrightarrow>
     pj_messages p = map created_message (filter creates es) \<and>
     set (pj_durable p) = set (durable_ids es) \<and>
     (\<forall>(k, m) \<in> set (pj_live p). tm_id m = k \<and> tm_role m = ''bot'' \<and> still_live es k) \<and>
     (\<forall>(k, m) \<in> set (pj_subagents p). tm_role m = ''bot'' \<and> k \<notin> set (durable_ids es) \<and>
        (\<exists>b. tm_blocks m = [SubagentBlock b] \<and> sub_agentId b = k))"

lemma projectedI:
  assumes "pj_messages p = map created_message (filter creates es)"
    and "set (pj_durable p) = set (durable_ids es)"
    and "\<And>k m. (k, m) \<in> set (pj_live p) \<Longrightarrow> tm_id m = k \<and> tm_role m = ''bot'' \<and> still_live es k"
    and "\<And>k m. (k, m) \<in> set (pj_subagents p) \<Longrightarrow> tm_role m = ''bot'' \<and> k \<notin> set (durable_ids es) \<and>
      (\<exists>b. tm_blocks m = [SubagentBlock b] \<and> sub_agentId b = k)"
  shows "projected es p"
  using assms by (auto simp: projected_def)

lemma projectedD:
  assumes "projected es p"
  shows "pj_messages p = map created_message (filter creates es)"
    and "set (pj_durable p) = set (durable_ids es)"
    and "(k, m) \<in> set (pj_live p) \<Longrightarrow> tm_id m = k \<and> tm_role m = ''bot'' \<and> still_live es k"
    and "(k, m) \<in> set (pj_subagents p) \<Longrightarrow> tm_role m = ''bot'' \<and> k \<notin> set (durable_ids es) \<and>
      (\<exists>b. tm_blocks m = [SubagentBlock b] \<and> sub_agentId b = k)"
  using assms by (auto simp: projected_def)

lemma durable_ids_snoc:
  "durable_ids (es @ [e]) = durable_ids es @ (if creates e then subagent_ids (payload_blocks (le_payload e)) else [])"
  by (simp add: durable_ids_def)

lemma clearLive_live:
  assumes "projected es p" and "creates e \<or> isRunTerminalEvent (le_type e)"
    and "(k, m) \<in> set (clearLive e (pj_live p))"
  shows "tm_id m = k \<and> tm_role m = ''bot'' \<and> still_live (es @ [e]) k"
proof -
  have "(k, m) \<in> set (pj_live p)" and "\<not> ends_live e k"
    using assms(2,3) by (auto simp: clearLive_def set_js_map_delete ends_live_def live_id_def split: if_splits)
  with projectedD(3) [OF assms(1)] show ?thesis by (simp add: still_live_snoc)
qed

lemma update_live_projected:
  assumes p: "projected es p" and g: "grows_live e"
  shows "projected (es @ [e]) (update_live u e p)"
proof -
  have ne: "\<not> creates e" "\<not> isRunTerminalEvent (le_type e)"
    using g by (auto simp: grows_live_def creates_def isRunTerminalEvent_def)
  have i: "tm_id (liveProjection e (pj_live p)) = live_id e \<and> tm_role (liveProjection e (pj_live p)) = ''bot''"
    using projectedD(3) [OF p, OF map_of_SomeD]
    by (auto simp: liveProjection_def live_id_def Let_def split: option.split)
  show ?thesis
  proof (rule projectedI)
    fix k m assume "(k, m) \<in> set (pj_live (update_live u e p))"
    then consider "k = live_id e" "tm_id m = live_id e" "tm_role m = ''bot''" | "(k, m) \<in> set (pj_live p)"
      using i set_js_map_set by (fastforce simp: update_live_def Let_def live_id_def)
    then show "tm_id m = k \<and> tm_role m = ''bot'' \<and> still_live (es @ [e]) k"
    proof cases
      case 2
      then show ?thesis using projectedD(3) [OF p 2] ne by (simp add: still_live_snoc ends_live_def)
    qed (simp add: still_live_snoc g)
  next
    fix k m assume "(k, m) \<in> set (pj_subagents (update_live u e p))"
    then have "(k, m) \<in> set (pj_subagents p)" by (simp add: update_live_def Let_def)
    from projectedD(4) [OF p this] show "tm_role m = ''bot'' \<and> k \<notin> set (durable_ids (es @ [e])) \<and>
        (\<exists>b. tm_blocks m = [SubagentBlock b] \<and> sub_agentId b = k)"
      using ne by (simp add: durable_ids_snoc)
  qed (simp_all add: update_live_def Let_def durable_ids_snoc ne projectedD(1,2) [OF p])
qed

lemma project_created:
  assumes p: "projected es p" and c: "creates e"
  shows "projected (es @ [e]) (project_event p e)"
proof (rule projectedI)
  have pe: "project_event p e = p\<lparr>pj_live := clearLive e (pj_live p),
      pj_durable := pj_durable p @ subagent_ids (payload_blocks (le_payload e)),
      pj_subagents := foldl (\<lambda>m i. js_map_delete i m) (pj_subagents p) (subagent_ids (payload_blocks (le_payload e))),
      pj_messages := pj_messages p @ [created_message e]\<rparr>"
    using c by (simp add: project_event_def creates_def Let_def)
  show "pj_messages (project_event p e) = map created_message (filter creates (es @ [e]))"
    using p c by (simp add: pe projectedD)
  show "set (pj_durable (project_event p e)) = set (durable_ids (es @ [e]))"
    using p c by (simp add: pe durable_ids_snoc projectedD)
  fix k m
  show "tm_id m = k \<and> tm_role m = ''bot'' \<and> still_live (es @ [e]) k" if "(k, m) \<in> set (pj_live (project_event p e))"
    using clearLive_live [OF p, of e k m] c that by (simp add: pe)
  show "tm_role m = ''bot'' \<and> k \<notin> set (durable_ids (es @ [e])) \<and> (\<exists>b. tm_blocks m = [SubagentBlock b] \<and> sub_agentId b = k)"
    if "(k, m) \<in> set (pj_subagents (project_event p e))"
    using projectedD(4) [OF p, of k m] c that by (simp add: pe set_delete_all durable_ids_snoc)
qed

lemma project_subagent:
  assumes p: "projected es p" and t: "le_type e = ThreadSubagent"
  shows "projected (es @ [e]) (project_event p e)"
proof -
  let ?b = "subagentBlockFromPayload (le_payload e)"
  have ne: "\<not> creates e" "\<And>k. \<not> ends_live e k"
    using t by (auto simp: creates_def ends_live_def isRunTerminalEvent_def)
  have eq: "project_event p e = (if sub_agentId ?b \<in> set (pj_durable p) then p
      else p\<lparr>pj_subagents := js_map_set (sub_agentId ?b) (subagent_message e ?b) (pj_subagents p)\<rparr>)"
    by (simp add: project_event_def t Let_def)
  show ?thesis
  proof (rule projectedI)
    fix k m assume "(k, m) \<in> set (pj_subagents (project_event p e))"
    then consider "(k, m) \<in> set (pj_subagents p)"
      | "k = sub_agentId ?b" "m = subagent_message e ?b" "k \<notin> set (durable_ids es)"
      using set_js_map_set projectedD(2) [OF p] by (fastforce simp: eq split: if_splits)
    then show "tm_role m = ''bot'' \<and> k \<notin> set (durable_ids (es @ [e])) \<and> (\<exists>b. tm_blocks m = [SubagentBlock b] \<and> sub_agentId b = k)"
    proof cases
      case 1
      then show ?thesis using projectedD(4) [OF p 1] ne by (simp add: durable_ids_snoc)
    qed (use ne in \<open>simp add: subagent_message_def durable_ids_snoc\<close>)
  next
    fix k m assume "(k, m) \<in> set (pj_live (project_event p e))"
    then have "(k, m) \<in> set (pj_live p)" by (simp add: eq split: if_splits)
    from projectedD(3) [OF p this] show "tm_id m = k \<and> tm_role m = ''bot'' \<and> still_live (es @ [e]) k"
      by (simp add: still_live_snoc ne)
  qed (simp_all add: eq durable_ids_snoc ne projectedD(1,2) [OF p])
qed

text \<open>An event that only takes live messages away.\<close>

lemma projected_fewer_live:
  assumes p: "projected es p" and c: "\<not> creates e"
    and l: "\<And>k m. (k, m) \<in> set live \<Longrightarrow> tm_id m = k \<and> tm_role m = ''bot'' \<and> still_live (es @ [e]) k"
  shows "projected (es @ [e]) (p\<lparr>pj_live := live\<rparr>)"
proof (rule projectedI)
  fix k m assume "(k, m) \<in> set (pj_subagents (p\<lparr>pj_live := live\<rparr>))"
  then have "(k, m) \<in> set (pj_subagents p)" by simp
  from projectedD(4) [OF p this] show "tm_role m = ''bot'' \<and> k \<notin> set (durable_ids (es @ [e])) \<and>
      (\<exists>b. tm_blocks m = [SubagentBlock b] \<and> sub_agentId b = k)"
    using c by (simp add: durable_ids_snoc)
qed (simp_all add: durable_ids_snoc c l projectedD(1,2) [OF p])

lemma project_event_projected:
  assumes p: "projected es p" and t: "le_type e \<noteq> ThreadCleared"
  shows "projected (es @ [e]) (project_event p e)"
proof -
  consider "creates e" | "grows_live e" | "le_type e = ThreadSubagent"
    | (other) "\<not> creates e" "\<not> grows_live e" "le_type e \<noteq> ThreadSubagent" by blast
  then show ?thesis
  proof cases
    case 2
    then have "\<exists>u. project_event p e = update_live u e p"
      unfolding grows_live_def
      by (elim disjE; simp add: project_event_def del: Let_def) (rule exI, rule refl)+
    with update_live_projected [OF p 2] show ?thesis by force
  next
    case other
    then have eq: "project_event p e = (if isRunTerminalEvent (le_type e) then p\<lparr>pj_live := clearLive e (pj_live p)\<rparr> else p)"
      using t by (cases "le_type e") (auto simp: project_event_def creates_def grows_live_def isRunTerminalEvent_def)
    show ?thesis
    proof (cases "isRunTerminalEvent (le_type e)")
      case True
      with eq projected_fewer_live [OF p other(1) clearLive_live [OF p]] show ?thesis by simp
    next
      case False
      then have "\<not> ends_live e k" for k using other(1) by (simp add: ends_live_def)
      then have "projected (es @ [e]) (p\<lparr>pj_live := pj_live p\<rparr>)"
        using projectedD(3) [OF p] by (intro projected_fewer_live [OF p other(1)]) (simp add: still_live_snoc)
      with False eq show ?thesis by simp
    qed
  qed (auto intro: project_created [OF p] project_subagent [OF p])
qed

lemma foldl_projected: "projected (since_clear es) (foldl project_event empty_projection es)"
proof (induction es rule: rev_induct)
  case Nil
  show ?case by (simp add: projected_def since_clear_def empty_projection_def durable_ids_def)
next
  case (snoc e es)
  show ?case
  proof (cases "le_type e = ThreadCleared")
    case True
    then show ?thesis
      by (simp add: since_clear_snoc project_event_def projected_def durable_ids_def)
  next
    case False
    with project_event_projected [OF snoc] show ?thesis by (simp add: since_clear_snoc)
  qed
qed


text \<open>A message after a clear: the cleared one is gone, the new one is shown first.\<close>

definition sample_log :: "log_event list" where
  "sample_log = map (\<lambda>(i, t). \<lparr>le_id = i, le_threadId = ''t'', le_seq = 0, le_type = t, le_payload = [],
     le_runId = None, le_botId = None, le_createdAt = []\<rparr>)
     [(''e1'', ThreadMessageCreated), (''e2'', ThreadCleared), (''e3'', ThreadMessageCreated)]"


end
