(* ===== verification/Redactor.thy ===== *)
theory Redactor
  imports JsonText "HOL-Library.Sublist"
begin

text \<open>
  Keeping secrets out of what a run publishes (packages/core/src/events.ts): the replacement in
  a whole text, and the streaming redactor, which holds back as much of the stream as a secret
  could still need and is therefore independent of how the stream is cut into chunks.
\<close>

definition REDACTED :: string where
  "REDACTED = ''[redacted]''"

text \<open>\<open>s.split(sep)\<close> for a separator of several characters, which is not empty.\<close>

fun js_split_on :: "string \<Rightarrow> string \<Rightarrow> string list" where
  "js_split_on sep [] = [[]]"
| "js_split_on sep (c # cs) =
     (if prefix sep (c # cs) then [] # js_split_on sep (drop (length sep - 1) cs)
      else (case js_split_on sep cs of [] \<Rightarrow> [[c]] | x # xs \<Rightarrow> (c # x) # xs))"

definition redactSecrets :: "string \<Rightarrow> string list \<Rightarrow> string" where
  "redactSecrets value secrets =
     foldl (\<lambda>acc secret. if secret = [] then acc else js_join REDACTED (js_split_on secret acc)) value secrets"

definition containsSecret :: "json option \<Rightarrow> string list \<Rightarrow> bool" where
  "containsSecret value secrets = (case json_stringify_opt value of
     None \<Rightarrow> False
   | Some text \<Rightarrow> list_ex (\<lambda>secret. length secret > 0 \<and> list_ex (\<lambda>i. prefix secret (drop i text)) [0..<length text + 1]) secrets)"

text \<open>\<open>[...new Set(secrets.filter(Boolean))].sort((a, b) => b.length - a.length)\<close>.\<close>

definition redactor_values :: "string list \<Rightarrow> string list" where
  "redactor_values secrets =
     sort_key (\<lambda>v. - int (length v)) (rev (remdups (rev (filter (\<lambda>s. s \<noteq> []) secrets))))"

definition redactor_max :: "string list \<Rightarrow> nat" where
  "redactor_max values = (case values of [] \<Rightarrow> 0 | v # _ \<Rightarrow> length v)"

text \<open>
  The loop of \<open>drain\<close>: \<open>k\<close> is \<open>safeStartLimit - offset\<close>, the second argument the buffer from
  the offset on; the values are not empty. It answers the output and the rest of the buffer.
\<close>

fun drain_loop :: "string list \<Rightarrow> nat \<Rightarrow> string \<Rightarrow> string \<times> string" where
  "drain_loop values k [] = ([], [])"
| "drain_loop values k (c # cs) =
     (if k = 0 then ([], c # cs)
      else (case find (\<lambda>v. prefix v (c # cs)) values of
          Some secret \<Rightarrow>
            (let r = drain_loop values (k - length secret) (drop (length secret - 1) cs)
             in (REDACTED @ fst r, snd r))
        | None \<Rightarrow> (let r = drain_loop values (k - 1) cs in (c # fst r, snd r))))"

definition drain :: "string list \<Rightarrow> bool \<Rightarrow> string \<Rightarrow> string \<times> string" where
  "drain values final buffer =
     (if values = [] then (buffer, [])
      else drain_loop values
        (if final then length buffer else nat (int (length buffer) - int (redactor_max values) + 1)) buffer)"

text \<open>\<open>push\<close> and \<open>finish\<close> answer the output and the new buffer.\<close>

definition redactor_push :: "string list \<Rightarrow> string \<Rightarrow> string \<Rightarrow> string \<times> string" where
  "redactor_push values buffer chunk = drain values False (buffer @ chunk)"

definition redactor_finish :: "string list \<Rightarrow> string \<Rightarrow> string \<times> string" where
  "redactor_finish values buffer = drain values True buffer"

fun redactor_run :: "string list \<Rightarrow> string \<Rightarrow> string list \<Rightarrow> string" where
  "redactor_run values buffer [] = fst (redactor_finish values buffer)"
| "redactor_run values buffer (chunk # chunks) =
     (let r = redactor_push values buffer chunk in fst r @ redactor_run values (snd r) chunks)"

definition createStreamingRedactor :: "string list \<Rightarrow> string list \<Rightarrow> string" where
  "createStreamingRedactor secrets chunks = redactor_run (redactor_values secrets) [] chunks"

section \<open>The reference\<close>

text \<open>
  Redacting a whole text: at every place the longest secret that starts there is replaced,
  and scanning goes on behind it.
\<close>

fun redact_text :: "string list \<Rightarrow> string \<Rightarrow> string" where
  "redact_text secrets [] = []"
| "redact_text secrets (c # cs) =
     (let lengths = map length (filter (\<lambda>s. s \<noteq> [] \<and> prefix s (c # cs)) secrets) in
      if lengths = [] then c # redact_text secrets cs
      else REDACTED @ redact_text secrets (drop (Max (set lengths) - 1) cs))"

lemma set_redactor_values: "set (redactor_values secrets) = {s \<in> set secrets. s \<noteq> []}"
  by (auto simp: redactor_values_def)

lemma redactor_values_sorted: "sorted (map (\<lambda>v. - int (length v)) (redactor_values secrets))"
  by (simp add: redactor_values_def)

lemma redactor_max_bound:
  assumes "v \<in> set (redactor_values secrets)"
  shows "length v \<le> redactor_max (redactor_values secrets)"
  using assms redactor_values_sorted [of secrets]
  by (cases "redactor_values secrets") (auto simp: redactor_max_def)

text \<open>The first match in a list sorted by length is the longest.\<close>

lemma find_longest:
  assumes "sorted (map (\<lambda>v. - int (length v)) vs)" and "find p vs = Some v"
  shows "v \<in> set vs \<and> p v \<and> (\<forall>w \<in> set vs. p w \<longrightarrow> length w \<le> length v)"
  using assms by (induction vs) (auto split: if_splits)

lemma redact_text_step:
  "redact_text secrets (c # cs) =
     (case find (\<lambda>v. prefix v (c # cs)) (redactor_values secrets) of
        Some v \<Rightarrow> REDACTED @ redact_text secrets (drop (length v - 1) cs)
      | None \<Rightarrow> c # redact_text secrets cs)"
proof (cases "find (\<lambda>v. prefix v (c # cs)) (redactor_values secrets)")
  case None
  then have "filter (\<lambda>s. s \<noteq> [] \<and> prefix s (c # cs)) secrets = []"
    using set_redactor_values [of secrets] by (auto simp: find_None_iff filter_empty_conv)
  with None show ?thesis by simp
next
  case (Some v)
  let ?hits = "filter (\<lambda>s. s \<noteq> [] \<and> prefix s (c # cs)) secrets"
  have v: "v \<in> set (redactor_values secrets)" "prefix v (c # cs)"
    "\<forall>w \<in> set (redactor_values secrets). prefix w (c # cs) \<longrightarrow> length w \<le> length v"
    using find_longest [OF redactor_values_sorted Some] by auto
  then have "v \<in> set ?hits" by (auto simp: set_redactor_values)
  moreover from v have "\<forall>w \<in> set ?hits. length w \<le> length v" by (auto simp: set_redactor_values)
  ultimately have "Max (set (map length ?hits)) = length v" by (intro Max_eqI) auto
  with Some \<open>v \<in> set ?hits\<close> show ?thesis by (auto simp: Let_def filter_empty_conv)
qed

section \<open>Streaming\<close>

lemma drain_loop_final:
  "length text \<le> k \<Longrightarrow>
   drain_loop (redactor_values secrets) k text = (redact_text secrets text, [])"
proof (induction "redactor_values secrets" k "text" rule: drain_loop.induct)
  case (2 k c cs)
  show ?case
  proof (cases "find (\<lambda>v. prefix v (c # cs)) (redactor_values secrets)")
    case None
    with 2 show ?thesis by (simp add: redact_text_step del: redact_text.simps)
  next
    case (Some v)
    then have "v \<noteq> []"
      using find_longest [OF redactor_values_sorted Some] by (simp add: set_redactor_values)
    then have "length (drop (length v - 1) cs) \<le> k - length v" using 2(3) by (cases v) auto
    with 2 Some show ?thesis by (auto simp: redact_text_step simp del: redact_text.simps(2))
  qed
qed simp

text \<open>Before the limit a decision about the buffer does not depend on what follows it.\<close>

lemma drain_loop_open:
  assumes "k = 0 \<or> k + redactor_max (redactor_values secrets) \<le> length buffer + 1"
  shows "redact_text secrets (buffer @ ext) =
     fst (drain_loop (redactor_values secrets) k buffer) @
     redact_text secrets (snd (drain_loop (redactor_values secrets) k buffer) @ ext)"
  using assms
proof (induction "redactor_values secrets" k buffer rule: drain_loop.induct)
  case (2 k c cs)
  let ?vs = "redactor_values secrets"
  show ?case
  proof (cases "k = 0")
    case False
    with 2(3) have k: "k + redactor_max ?vs \<le> length (c # cs) + 1" by simp
    have same: "find (\<lambda>v. prefix v (c # cs @ ext)) ?vs = find (\<lambda>v. prefix v (c # cs)) ?vs"
    proof (rule find_cong [OF refl])
      fix v assume "v \<in> set ?vs"
      then have "length v \<le> length (c # cs)" using redactor_max_bound [of v secrets] k False by simp
      then show "prefix v (c # cs @ ext) = prefix v (c # cs)"
        by (metis append_Cons prefix_append prefix_length_prefix prefix_order.trans prefixI)
    qed
    show ?thesis
    proof (cases "find (\<lambda>v. prefix v (c # cs)) ?vs")
      case None
      have "k - 1 = 0 \<or> k - 1 + redactor_max ?vs \<le> length cs + 1" using k False by auto
      from 2(1) [OF False None this] show ?thesis
        using None False same by (simp add: redact_text_step Let_def del: redact_text.simps)
    next
      case (Some v)
      have v: "v \<noteq> []" "prefix v (c # cs)"
        using find_longest [OF redactor_values_sorted Some] by (auto simp: set_redactor_values)
      then have l: "length v \<le> length (c # cs)" by (auto dest: prefix_length_le)
      have "k - length v = 0 \<or> k - length v + redactor_max ?vs \<le> length (drop (length v - 1) cs) + 1"
        using k l v(1) by (cases v) auto
      from 2(2) [OF False Some this]
      have ih: "redact_text secrets (drop (length v - 1) cs @ ext) =
        fst (drain_loop ?vs (k - length v) (drop (length v - 1) cs)) @
        redact_text secrets (snd (drain_loop ?vs (k - length v) (drop (length v - 1) cs)) @ ext)" .
      have "drop (length v - 1) (cs @ ext) = drop (length v - 1) cs @ ext"
        using l v(1) by (cases v) auto
      with ih Some False same show ?thesis
        by (simp add: redact_text_step Let_def del: redact_text.simps(2))
    qed
  qed simp
qed simp

lemma redact_text_none: "redactor_values secrets = [] \<Longrightarrow> redact_text secrets text = text"
  by (induction "text") (simp_all add: redact_text_step del: redact_text.simps(2))

lemma redactor_run_text:
  "redactor_run (redactor_values secrets) buffer chunks = redact_text secrets (buffer @ concat chunks)"
proof (induction chunks arbitrary: buffer)
  case Nil
  show ?case
    by (cases "redactor_values secrets = []")
      (simp_all add: redactor_finish_def drain_def redact_text_none drain_loop_final)
next
  case (Cons chunk chunks)
  show ?case
  proof (cases "redactor_values secrets = []")
    case True
    with Cons show ?thesis by (simp add: redactor_push_def drain_def redact_text_none Let_def)
  next
    case False
    let ?b = "buffer @ chunk" and ?vs = "redactor_values secrets"
    let ?k = "nat (int (length ?b) - int (redactor_max ?vs) + 1)"
    have "?k = 0 \<or> ?k + redactor_max ?vs \<le> length ?b + 1" by auto
    from drain_loop_open [OF this, of "concat chunks"] Cons show ?thesis
      using False by (simp add: redactor_push_def drain_def Let_def)
  qed
qed

text \<open>
  C23. However a stream is cut into chunks, the streaming redactor publishes exactly the
  redaction of the whole text: no secret slips through at a border, nothing is lost or
  repeated, and nothing stays behind when it is finished.
\<close>

theorem streaming_redaction: "createStreamingRedactor secrets chunks = redact_text secrets (concat chunks)"
  by (simp add: createStreamingRedactor_def redactor_run_text)

lemma js_join_case:
  "js_join sep (case xs of [] \<Rightarrow> [[c]] | y # ys \<Rightarrow> (c # y) # ys) =
     (if xs = [] then [c] else c # js_join sep xs)"
  by (cases xs; cases "tl xs") auto

lemma js_split_on_not_Nil [simp]: "js_split_on sep s \<noteq> []"
  by (cases "(sep, s)" rule: js_split_on.cases) (auto split: list.splits)

lemma redact_single: "secret \<noteq> [] \<Longrightarrow> js_join REDACTED (js_split_on secret text) = redact_text [secret] text"
proof (induction secret "text" rule: js_split_on.induct)
  case (2 sep c cs)
  have "js_join REDACTED ([] # js_split_on sep s) = REDACTED @ js_join REDACTED (js_split_on sep s)" for s
    by (cases "js_split_on sep s") auto
  with 2 show ?case by (auto simp: js_join_case)
qed simp

text \<open>
  For one secret the streaming redactor and the replacement in the finished text agree.
\<close>

theorem streaming_matches_batch:
  "secret \<noteq> [] \<Longrightarrow> createStreamingRedactor [secret] chunks = redactSecrets (concat chunks) [secret]"
  by (simp add: createStreamingRedactor_def redactor_run_text redactSecrets_def redact_single)

theorem streaming_matches_batch_witness:
  "createStreamingRedactor [''k3y''] [''a k'', ''3'', ''y b''] = ''a [redacted] b''"
proof -
  have "createStreamingRedactor [''k3y''] [''a k'', ''3'', ''y b''] =
      redactSecrets (concat [''a k'', ''3'', ''y b'']) [''k3y'']"
    by (rule streaming_matches_batch) simp
  also have "\<dots> = ''a [redacted] b''" by code_simp
  finally show ?thesis .
qed

end
