(* ===== verification/MessagePages.thy ===== *)
theory MessagePages
  imports LiveProjection
begin

text \<open>
  How a client puts the pages of a thread's history together (packages/core/src/message-pages.ts):
  a refreshed snapshot is merged with what was loaded before, and older pages are put in front.
\<close>

record page_message =
  pm_id :: string
  pm_seq :: "int option"

record 'm history =
  hi_threadId :: string
  hi_messages :: "'m list"
  hi_olderCursor :: "int option"

definition isDurableMessage :: "string \<Rightarrow> bool" where
  "isDurableMessage i \<longleftrightarrow> \<not> prefix ''progress:'' i \<and> \<not> prefix ''subagent:'' i"

fun unseen :: "string set \<Rightarrow> 'a page_message_scheme list \<Rightarrow> 'a page_message_scheme list" where
  "unseen seen [] = []"
| "unseen seen (m # ms) =
     (if pm_id m \<in> seen then unseen seen ms else m # unseen (insert (pm_id m) seen) ms)"

definition mergeMessagesById ::
  "'a page_message_scheme list \<Rightarrow> 'a page_message_scheme list \<Rightarrow> 'a page_message_scheme list" where
  "mergeMessagesById first second = unseen {} (first @ second)"

definition first_step :: "int option \<Rightarrow> 'a page_message_scheme \<Rightarrow> int option" where
  "first_step first m =
     (if \<not> isDurableMessage (pm_id m) then first
      else case pm_seq m of None \<Rightarrow> first
        | Some q \<Rightarrow> Some (min (case first of None \<Rightarrow> q | Some f \<Rightarrow> f) q))"

definition first_seq :: "'a page_message_scheme list \<Rightarrow> int option" where
  "first_seq recent = foldl first_step None recent"

definition mergeMessagePages ::
  "'a page_message_scheme list \<Rightarrow> 'a page_message_scheme list \<Rightarrow> 'a page_message_scheme list" where
  "mergeMessagePages previous recent =
     (let retained = (case first_seq recent of
          None \<Rightarrow> []
        | Some firstRecentSeq \<Rightarrow> filter (\<lambda>m. isDurableMessage (pm_id m) \<and>
            (case pm_seq m of None \<Rightarrow> False | Some q \<Rightarrow> q < firstRecentSeq)) previous)
      in mergeMessagesById retained recent)"

definition mergeThreadHistory ::
  "'a page_message_scheme history option \<Rightarrow> 'a page_message_scheme history \<Rightarrow> bool \<Rightarrow>
   'a page_message_scheme history" where
  "mergeThreadHistory previous recent preserveLoadedHistory = (case previous of
     None \<Rightarrow> recent
   | Some p \<Rightarrow> if hi_threadId p \<noteq> hi_threadId recent \<or> \<not> preserveLoadedHistory then recent
       else recent\<lparr>hi_messages := mergeMessagePages (hi_messages p) (hi_messages recent),
              hi_olderCursor := hi_olderCursor p\<rparr>)"

definition prependThreadHistoryPage ::
  "'a page_message_scheme history option \<Rightarrow> 'a page_message_scheme history \<Rightarrow>
   'a page_message_scheme history option" where
  "prependThreadHistoryPage previous page = (case previous of
     None \<Rightarrow> None
   | Some p \<Rightarrow> if hi_threadId p \<noteq> hi_threadId page \<or> hi_olderCursor p = None then previous
       else Some (p\<lparr>hi_messages := mergeMessagesById (hi_messages page) (hi_messages p),
              hi_olderCursor := hi_olderCursor page\<rparr>))"

section \<open>Windows of the log\<close>

text \<open>
  The server's history is a log of messages with increasing numbers; a page is a window of it,
  and the live messages of running work come behind.
\<close>

definition history_log :: "'a page_message_scheme list \<Rightarrow> bool" where
  "history_log log \<longleftrightarrow> distinct (map pm_id log) \<and>
     (\<forall>m \<in> set log. isDurableMessage (pm_id m) \<and> pm_seq m \<noteq> None) \<and>
     sorted_wrt (\<lambda>m m'. the (pm_seq m) < the (pm_seq m')) log"

definition live_part :: "'a page_message_scheme list \<Rightarrow> bool" where
  "live_part ms \<longleftrightarrow> distinct (map pm_id ms) \<and> (\<forall>m \<in> set ms. \<not> isDurableMessage (pm_id m))"

lemma unseen_distinct:
  "distinct (map pm_id ms) \<Longrightarrow> (\<forall>m \<in> set ms. pm_id m \<notin> seen) \<Longrightarrow> unseen seen ms = ms"
proof (induction ms arbitrary: seen)
  case (Cons m ms)
  have "pm_id x \<notin> insert (pm_id m) seen" if "x \<in> set ms" for x
  proof -
    have "pm_id m \<notin> pm_id ` set ms" and "pm_id x \<notin> seen" using Cons.prems that by simp_all
    with that show ?thesis by (metis imageI insertE)
  qed
  with Cons.IH [of "insert (pm_id m) seen"] Cons.prems show ?case by simp
qed simp

lemma first_seq_snoc: "first_seq (xs @ [x]) = first_step (first_seq xs) x"
  by (simp add: first_seq_def)

lemma first_seq_live: "\<forall>m \<in> set ms. \<not> isDurableMessage (pm_id m) \<Longrightarrow> first_seq (xs @ ms) = first_seq xs"
proof (induction ms rule: rev_induct)
  case (snoc m ms)
  then show ?case using first_seq_snoc [of "xs @ ms" m] by (simp add: first_step_def)
qed simp

lemma first_seq_log:
  assumes "history_log (m # ms)"
  shows "first_seq (m # ms) = pm_seq m"
  using assms
proof (induction ms rule: rev_induct)
  case Nil
  then show ?case by (auto simp: first_seq_def first_step_def history_log_def)
next
  case (snoc x xs)
  then have "history_log (m # xs)" by (auto simp: history_log_def sorted_wrt_append)
  with snoc.IH have ih: "first_seq (m # xs) = pm_seq m" by simp
  have "first_seq (m # xs @ [x]) = first_step (pm_seq m) x"
    using first_seq_snoc [of "m # xs" x] ih by simp
  moreover obtain q r where "pm_seq m = Some q" "pm_seq x = Some r" "q < r" "isDurableMessage (pm_id x)"
    using snoc.prems by (auto simp: history_log_def)
  ultimately show ?case by (simp add: first_step_def)
qed

lemma merge_distinct:
  assumes "history_log (us @ vs)" and "live_part live"
  shows "mergeMessagesById us (vs @ live) = us @ vs @ live"
proof -
  have "pm_id x \<noteq> pm_id y" if "x \<in> set (us @ vs)" "y \<in> set live" for x y
  proof -
    have "isDurableMessage (pm_id x)" using assms(1) that(1) unfolding history_log_def by blast
    moreover have "\<not> isDurableMessage (pm_id y)" using assms(2) that(2) unfolding live_part_def by blast
    ultimately show ?thesis by metis
  qed
  then have "pm_id ` set (us @ vs) \<inter> pm_id ` set live = {}" by blast
  moreover have "distinct (map pm_id (us @ vs))" and "distinct (map pm_id live)"
    using assms by (simp_all add: history_log_def live_part_def)
  ultimately have "distinct (map pm_id ((us @ vs) @ live))"
    by (simp only: map_append [of pm_id "us @ vs" live] distinct_append set_map)
  then show ?thesis unfolding mergeMessagesById_def by (subst unseen_distinct) simp_all
qed

text \<open>
  Refreshing and paging never lose, repeat or reorder a message: if the loaded history is a
  window of the server's log that reaches the refreshed page, the merge is the whole window
  from the first loaded message to the newest, followed by the current live messages; and an
  older page that ends where the window begins extends it to the front.
\<close>

theorem history_windows:
  assumes log: "history_log (hs @ us @ m # ws)"
    and live: "live_part live" "live_part live'"
  shows "mergeMessagePages (us @ take k (m # ws) @ live) ((m # ws) @ live') = us @ (m # ws) @ live' \<and>
    mergeMessagesById hs ((us @ m # ws) @ live') = hs @ (us @ m # ws) @ live'"
proof
  have sub: "history_log (us @ m # ws)" "history_log (m # ws)"
    using log by (simp_all add: history_log_def sorted_wrt_append)
  obtain q where q: "pm_seq m = Some q" using log by (auto simp: history_log_def)
  have f: "first_seq ((m # ws) @ live') = Some q"
    using live(2) first_seq_live [of live' "m # ws"] first_seq_log [OF sub(2)] q
    by (simp add: live_part_def)
  let ?p = "\<lambda>x. isDurableMessage (pm_id x) \<and> (case pm_seq x of None \<Rightarrow> False | Some r \<Rightarrow> r < q)"
  have old: "filter ?p us = us"
  proof (rule filter_True, rule ballI)
    fix x assume x: "x \<in> set us"
    with sub(1) have "the (pm_seq x) < the (pm_seq m)" and "isDurableMessage (pm_id x)" and "pm_seq x \<noteq> None"
      by (auto simp: history_log_def sorted_wrt_append)
    with q show "?p x" by auto
  qed
  have "\<not> ?p x" if "x \<in> set (m # ws)" for x
    using sub(2) q that by (fastforce simp: history_log_def split: option.splits)
  then have new: "filter ?p (take k (m # ws)) = []"
    unfolding filter_empty_conv using in_set_takeD by fast
  have none: "filter ?p live = []" using live(1) by (auto simp: live_part_def filter_empty_conv)
  have m: "mergeMessagesById us ((m # ws) @ live') = us @ (m # ws) @ live'"
    using sub(1) live(2) by (intro merge_distinct)
  show "mergeMessagePages (us @ take k (m # ws) @ live) ((m # ws) @ live') = us @ (m # ws) @ live'"
    unfolding mergeMessagePages_def f using old new none m by (simp only: Let_def option.case filter_append append_Nil2)
  show "mergeMessagesById hs ((us @ m # ws) @ live') = hs @ (us @ m # ws) @ live'"
    using log live(2) by (intro merge_distinct)
qed

theorem history_windows_witness:
  "mergeMessagePages [\<lparr>pm_id = ''a'', pm_seq = Some 1\<rparr>, \<lparr>pm_id = ''b'', pm_seq = Some 2\<rparr>, \<lparr>pm_id = ''progress:r'', pm_seq = Some 2\<rparr>]
     [\<lparr>pm_id = ''b'', pm_seq = Some 2\<rparr>, \<lparr>pm_id = ''c'', pm_seq = Some 3\<rparr>]
   = [\<lparr>pm_id = ''a'', pm_seq = Some 1\<rparr>, \<lparr>pm_id = ''b'', pm_seq = Some 2\<rparr>, \<lparr>pm_id = ''c'', pm_seq = Some 3\<rparr>]"
proof -
  have d: "isDurableMessage ''a''" "isDurableMessage ''b''" "isDurableMessage ''c''" "\<not> isDurableMessage ''progress:r''"
    by code_simp+
  have "history_log ([] @ [\<lparr>pm_id = ''a'', pm_seq = Some 1\<rparr>] @ \<lparr>pm_id = ''b'', pm_seq = Some 2\<rparr> # [\<lparr>pm_id = ''c'', pm_seq = Some 3\<rparr>])"
    by (simp add: history_log_def d)
  moreover have "live_part [\<lparr>pm_id = ''progress:r'', pm_seq = Some 2\<rparr>]" "live_part ([] :: page_message list)"
    by (simp_all add: live_part_def d)
  ultimately show ?thesis
    using history_windows [of "[]" "[\<lparr>pm_id = ''a'', pm_seq = Some 1\<rparr>]" "\<lparr>pm_id = ''b'', pm_seq = Some 2\<rparr>"
      "[\<lparr>pm_id = ''c'', pm_seq = Some 3\<rparr>]" "[\<lparr>pm_id = ''progress:r'', pm_seq = Some 2\<rparr>]" "[]" 1] by simp
qed

end
