(* ===== verification/EffectKey.thy ===== *)
theory EffectKey
  imports JsonText WorkspacePaths "HOL-Library.List_Lexorder" "HOL-Library.Char_ord"
begin

text \<open>
  The key under which an approval is asked for and found again
  (packages/core/src/approval-effect-key.ts): run, tool and a digest of the arguments in a
  serialization that does not depend on the order of object members. The digest is SHA-256 of
  the standard library, a parameter here.
\<close>

text \<open>
  A value as the code may meet it: \<open>VHole\<close> is a missing array element, \<open>VInstance\<close> an object
  with another prototype, \<open>VAncestor\<close> a reference to an enclosing object, \<open>VOther\<close> a value of
  any other type (\<open>undefined\<close>, a function, a symbol, a big integer).
\<close>

datatype js_value = VNull | VBool bool | VNum int | VNotFinite | VStr string
  | VArr "js_value list" | VHole | VObj "(string \<times> js_value) list" | VInstance | VAncestor | VOther

definition invalidJsonValue :: db_error where
  "invalidJsonValue = Thrown ''Approval arguments must contain only JSON values''"

fun sequence_results :: "(db_error + 'a) list \<Rightarrow> db_error + 'a list" where
  "sequence_results [] = Inr []"
| "sequence_results (r # rs) = result_bind r (\<lambda>x. result_bind (sequence_results rs) (\<lambda>xs. Inr (x # xs)))"

fun serialize_value :: "js_value \<Rightarrow> db_error + string" where
  "serialize_value VNull = Inr ''null''"
| "serialize_value (VBool b) = Inr (if b then ''true'' else ''false'')"
| "serialize_value (VNum i) = Inr (int_string i)"
| "serialize_value (VStr s) = Inr (json_quote s)"
| "serialize_value (VArr xs) = result_bind (sequence_results (map serialize_value xs))
     (\<lambda>items. Inr (''['' @ js_join '','' items @ '']''))"
| "serialize_value (VObj ms) = result_bind (sequence_results
       (map (\<lambda>m. result_bind (snd m) (\<lambda>t. Inr (json_quote (fst m) @ '':'' @ t)))
         (sort_key fst (map (\<lambda>m. (fst m, serialize_value (snd m))) ms))))
     (\<lambda>entries. Inr (''{'' @ js_join '','' entries @ ''}''))"
| "serialize_value _ = Inl invalidJsonValue"

definition stableJsonValue :: "js_value \<Rightarrow> db_error + string" where
  "stableJsonValue v = serialize_value v"

definition approvalEffectKey ::
  "(string \<Rightarrow> string) \<Rightarrow> string \<Rightarrow> string \<Rightarrow> js_value \<Rightarrow> db_error + string" where
  "approvalEffectKey sha256 runId toolName args = result_bind (stableJsonValue args)
     (\<lambda>t. Inr (runId @ '':'' @ toolName @ '':'' @ sha256 t))"

section \<open>The canonical value\<close>

text \<open>The JSON value of the arguments with the members of every object in the order of their keys.\<close>

fun canonical :: "js_value \<Rightarrow> db_error + json" where
  "canonical VNull = Inr JNull"
| "canonical (VBool b) = Inr (JBool b)"
| "canonical (VNum i) = Inr (JNum i)"
| "canonical (VStr s) = Inr (JStr s)"
| "canonical (VArr xs) = result_bind (sequence_results (map canonical xs)) (\<lambda>js. Inr (JArr js))"
| "canonical (VObj ms) = result_bind (sequence_results
       (map (\<lambda>m. result_bind (snd m) (\<lambda>j. Inr (fst m, j)))
         (sort_key fst (map (\<lambda>m. (fst m, canonical (snd m))) ms)))) (\<lambda>js. Inr (JObj js))"
| "canonical _ = Inl invalidJsonValue"

definition result_map :: "('a \<Rightarrow> 'b) \<Rightarrow> db_error + 'a \<Rightarrow> db_error + 'b" where
  "result_map f r = result_bind r (\<lambda>x. Inr (f x))"

lemma result_map_simps [simp]:
  "result_map f (Inl e) = Inl e" "result_map f (Inr x) = Inr (f x)"
  by (simp_all add: result_map_def result_bind_def)

lemma result_bind_simps [simp]:
  "result_bind (Inl e) f = Inl e" "result_bind (Inr x) f = f x"
  by (simp_all add: result_bind_def)

lemma sequence_results_map:
  "sequence_results (map (\<lambda>x. result_map g (f x)) xs) = result_map (map g) (sequence_results (map f xs))"
proof (induction xs)
  case (Cons x xs)
  then show ?case by (cases "f x"; cases "sequence_results (map f xs)") simp_all
qed simp

lemma sort_key_map_snd: "sort_key fst (map (\<lambda>m. (fst m, f (snd m))) ms) = map (\<lambda>m. (fst m, f (snd m))) (sort_key fst ms)"
proof (induction ms)
  case (Cons m ms)
  have "insort_key fst (fst m, f (snd m)) (map (\<lambda>m. (fst m, f (snd m))) xs)
      = map (\<lambda>m. (fst m, f (snd m))) (insort_key fst m xs)" for xs
    by (induction xs) auto
  with Cons show ?case by simp
qed simp

lemma serialize_canonical: "serialize_value v = result_map json_stringify (canonical v)"
proof (induction v rule: canonical.induct)
  case (5 xs)
  then have "map serialize_value xs = map (\<lambda>x. result_map json_stringify (canonical x)) xs" by simp
  then have "sequence_results (map serialize_value xs)
      = result_map (map json_stringify) (sequence_results (map canonical xs))"
    by (simp only: sequence_results_map)
  then show ?case by (cases "sequence_results (map canonical xs)") simp_all
next
  case (6 ms)
  let ?ms = "sort_key fst ms" and ?g = "\<lambda>m. json_quote (fst m) @ '':'' @ json_stringify (snd m)"
  have ih: "serialize_value (snd m) = result_map json_stringify (canonical (snd m))" if "m \<in> set ?ms" for m
    using 6 that by simp
  have "map (\<lambda>m. result_bind (serialize_value (snd m)) (\<lambda>t. Inr (json_quote (fst m) @ '':'' @ t))) ?ms
      = map (\<lambda>m. result_map ?g (result_bind (canonical (snd m)) (\<lambda>j. Inr (fst m, j)))) ?ms"
  proof (rule map_cong [OF refl])
    fix m assume "m \<in> set ?ms"
    from ih [OF this] show "result_bind (serialize_value (snd m)) (\<lambda>t. Inr (json_quote (fst m) @ '':'' @ t))
        = result_map ?g (result_bind (canonical (snd m)) (\<lambda>j. Inr (fst m, j)))"
      by (cases "canonical (snd m)") simp_all
  qed
  then have "sequence_results (map (\<lambda>m. result_bind (serialize_value (snd m)) (\<lambda>t. Inr (json_quote (fst m) @ '':'' @ t))) ?ms)
      = result_map (map ?g) (sequence_results (map (\<lambda>m. result_bind (canonical (snd m)) (\<lambda>j. Inr (fst m, j))) ?ms))"
    by (simp only: sequence_results_map)
  then show ?case
    by (cases "sequence_results (map (\<lambda>m. result_bind (canonical (snd m)) (\<lambda>j. Inr (fst m, j))) ?ms)")
      (simp_all add: sort_key_map_snd comp_def)
qed simp_all

section \<open>The serialization determines the value\<close>

definition closes :: "char \<Rightarrow> bool" where
  "closes c \<longleftrightarrow> c = CHR '','' \<or> c = CHR '']'' \<or> c = CHR ''}''"

definition at_end :: "string \<Rightarrow> bool" where
  "at_end r \<longleftrightarrow> (case r of [] \<Rightarrow> True | c # _ \<Rightarrow> closes c)"

text \<open>A printer of items whose output ends where the item ends.\<close>

definition self_delimiting :: "('a \<Rightarrow> string) \<Rightarrow> 'a \<Rightarrow> bool" where
  "self_delimiting f x \<longleftrightarrow> (\<forall>y r s. f x @ r = f y @ s \<longrightarrow> at_end r \<longrightarrow> at_end s \<longrightarrow> x = y \<and> r = s)"

definition opens :: "('a \<Rightarrow> string) \<Rightarrow> bool" where
  "opens f \<longleftrightarrow> (\<forall>x. f x \<noteq> [] \<and> \<not> closes (hd (f x)))"

lemma js_join_Cons: "js_join sep (x # xs) = x @ concat (map (\<lambda>y. sep @ y) xs)"
  by (induction xs arbitrary: x) auto

lemma at_end_items: "closes c \<Longrightarrow> at_end (concat (map (\<lambda>x. '','' @ f x) xs) @ c # r)"
  by (cases xs) (simp_all add: at_end_def closes_def)

lemma rest_items:
  assumes "\<forall>x \<in> set xs. self_delimiting f x" and c: "closes c" "c \<noteq> CHR '',''"
    and "concat (map (\<lambda>x. '','' @ f x) xs) @ c # r = concat (map (\<lambda>x. '','' @ f x) ys) @ c # s"
  shows "xs = ys \<and> r = s"
  using assms(1,4)
proof (induction xs arbitrary: ys)
  case Nil
  with c show ?case by (cases ys) auto
next
  case (Cons x xs)
  show ?case
  proof (cases ys)
    case Nil
    with Cons c show ?thesis by auto
  next
    case (Cons y ys')
    let ?t = "concat (map (\<lambda>x. '','' @ f x) xs) @ c # r" and ?u = "concat (map (\<lambda>x. '','' @ f x) ys') @ c # s"
    have "at_end ?t" "at_end ?u"
      using c(1) by (rule at_end_items)+
    moreover have "f x @ ?t = f y @ ?u" using Cons.prems(2) Cons by simp
    ultimately have "x = y" "?t = ?u"
      using Cons.prems(1) unfolding self_delimiting_def by auto
    with Cons.IH [of ys'] Cons.prems(1) Cons show ?thesis by simp
  qed
qed

lemma join_items:
  assumes "\<forall>x \<in> set xs. self_delimiting f x" and f: "opens f" and c: "closes c" "c \<noteq> CHR '',''"
    and "js_join '','' (map f xs) @ c # r = js_join '','' (map f ys) @ c # s"
  shows "xs = ys \<and> r = s"
proof (cases xs)
  case Nil
  then show ?thesis using assms f c
    by (cases ys) (auto simp: js_join_Cons opens_def hd_append2 dest!: arg_cong [of _ _ hd])
next
  case (Cons x xs')
  show ?thesis
  proof (cases ys)
    case Nil
    with Cons assms(5) have "hd (f x) = c"
      using f by (auto simp: js_join_Cons opens_def dest!: arg_cong [of _ _ hd])
    then show ?thesis using f c by (auto simp: opens_def)
  next
    case (Cons y ys')
    let ?g = "\<lambda>x. '','' @ f x"
    have eq: "f x @ concat (map ?g xs') @ c # r = f y @ concat (map ?g ys') @ c # s"
      using assms(5) \<open>xs = x # xs'\<close> Cons by (simp add: js_join_Cons comp_def)
    have "at_end (concat (map ?g xs') @ c # r)" "at_end (concat (map ?g ys') @ c # s)"
      using c(1) by (rule at_end_items)+
    with eq assms(1) \<open>xs = x # xs'\<close> have "x = y" "concat (map ?g xs') @ c # r = concat (map ?g ys') @ c # s"
      unfolding self_delimiting_def by auto
    with rest_items [of xs' f c r ys' s] assms(1) c \<open>xs = x # xs'\<close> Cons show ?thesis by simp
  qed
qed

text \<open>The escape of a character can be read back, whatever follows it.\<close>

definition unhex :: "char \<Rightarrow> nat" where
  "unhex c = (let n = of_char c :: nat in if n < 58 then n - 48 else n - 87)"

fun unescape :: "string \<Rightarrow> (char \<times> string) option" where
  "unescape [] = None"
| "unescape (c # cs) =
     (if c = CHR 0x22 then None
      else if c \<noteq> CHR 0x5C then Some (c, cs)
      else case cs of
          d # ds \<Rightarrow>
            if d = CHR ''b'' then Some (char_of (8 :: nat), ds)
            else if d = CHR ''t'' then Some (char_of (9 :: nat), ds)
            else if d = CHR ''n'' then Some (char_of (10 :: nat), ds)
            else if d = CHR ''f'' then Some (char_of (12 :: nat), ds)
            else if d = CHR ''r'' then Some (char_of (13 :: nat), ds)
            else if d = CHR ''u'' then
              Some (char_of (16 * unhex (ds ! 2) + unhex (ds ! 3)), drop 4 ds)
            else Some (d, ds)
        | [] \<Rightarrow> None)"

lemma unescape_escape: "unescape (json_escape c @ s) = Some (c, s)"
proof (cases "(of_char c :: nat) < 32")
  case True
  define n where "n = (of_char c :: nat)"
  have c: "c = char_of n" by (simp add: n_def)
  from True have "n \<in> set [0..<32]" by (simp add: n_def)
  then have "\<forall>s. unescape (json_escape (char_of n) @ s) = Some (char_of n, s)"
    by (simp add: upt_rec del: upt.simps)
      (elim disjE; simp add: json_escape_def hex_digit_def unhex_def Let_def)
  then show ?thesis unfolding c by blast
next
  case False
  have "(of_char (CHR 0x22) :: nat) = 34" "(of_char (CHR 0x5C) :: nat) = 92" by simp_all
  then have "of_char c = (34 :: nat) \<longleftrightarrow> c = CHR 0x22" "of_char c = (92 :: nat) \<longleftrightarrow> c = CHR 0x5C"
    by (metis of_char_eq_iff)+
  with False show ?thesis by (auto simp: json_escape_def Let_def)
qed

fun unquote :: "nat \<Rightarrow> string \<Rightarrow> string \<times> string" where
  "unquote 0 t = ([], t)"
| "unquote (Suc n) t = (case unescape t of
     None \<Rightarrow> ([], tl t)
   | Some (c, r) \<Rightarrow> (let q = unquote n r in (c # fst q, snd q)))"

lemma unquote_quote:
  "length s < n \<Longrightarrow> unquote n (concat (map json_escape s) @ CHR 0x22 # r) = (s, r)"
proof (induction s arbitrary: n)
  case Nil
  then show ?case by (cases n) simp_all
next
  case (Cons c s)
  then obtain m where "n = Suc m" "length s < m" by (cases n) auto
  with Cons.IH [of m] show ?case by (simp add: unescape_escape Let_def)
qed

lemma json_quote_append: "json_quote s @ r = json_quote t @ u \<Longrightarrow> s = t \<and> r = u"
proof -
  assume "json_quote s @ r = json_quote t @ u"
  then have "concat (map json_escape s) @ CHR 0x22 # r = concat (map json_escape t) @ CHR 0x22 # u"
    by (simp add: json_quote_def)
  with unquote_quote [of s "Suc (max (length s) (length t))" r]
    unquote_quote [of t "Suc (max (length s) (length t))" u] show ?thesis by simp
qed

text \<open>The first character of a value tells its kind.\<close>

fun json_head :: "json \<Rightarrow> nat" where
  "json_head JNull = 0"
| "json_head (JBool b) = (if b then 1 else 2)"
| "json_head (JNum _) = 3"
| "json_head (JStr _) = 4"
| "json_head (JArr _) = 5"
| "json_head (JObj _) = 6"

definition head_class :: "char \<Rightarrow> nat" where
  "head_class c = (if c = CHR ''n'' then 0 else if c = CHR ''t'' then 1 else if c = CHR ''f'' then 2
     else if c = CHR 0x22 then 4 else if c = CHR ''['' then 5 else if c = CHR ''{'' then 6 else 3)"

lemma digit_open: "is_digit c \<Longrightarrow> head_class c = 3 \<and> \<not> closes c"
proof -
  have "\<not> is_digit CHR ''n''" "\<not> is_digit CHR ''t''" "\<not> is_digit CHR ''f''" "\<not> is_digit CHR 0x22"
    "\<not> is_digit CHR ''[''" "\<not> is_digit CHR ''{''" "\<not> is_digit CHR '',''" "\<not> is_digit CHR '']''" "\<not> is_digit CHR ''}''"
    by code_simp+
  moreover assume "is_digit c"
  ultimately show ?thesis by (auto simp: head_class_def closes_def)
qed

lemma nat_string_chars: "c \<in> set (nat_string n) \<Longrightarrow> head_class c = 3 \<and> \<not> closes c"
  using nat_string_digits [of n] digit_open by blast

lemma int_string_chars: "c \<in> set (int_string i) \<Longrightarrow> head_class c = 3 \<and> \<not> closes c"
proof (cases "i < 0")
  case True
  assume "c \<in> set (int_string i)"
  with True consider "c = CHR ''-''" | "c \<in> set (nat_string (nat (- i)))" by (auto simp: int_string_def)
  then show ?thesis
  proof cases
    case 2
    then show ?thesis by (rule nat_string_chars)
  qed (simp add: head_class_def closes_def)
qed (simp add: int_string_def nat_string_chars)

lemma int_string_not_Nil [simp]: "int_string i \<noteq> []"
  by (simp add: int_string_def)

lemma int_string_hd: "head_class (hd (int_string i)) = 3 \<and> \<not> closes (hd (int_string i))"
  by (rule int_string_chars) (rule hd_in_set, simp)

lemma stringify_opens: "opens json_stringify"
  unfolding opens_def
proof
  fix j show "json_stringify j \<noteq> [] \<and> \<not> closes (hd (json_stringify j))"
    by (cases j) (auto simp: json_quote_def closes_def int_string_hd [unfolded closes_def])
qed

lemma stringify_head: "head_class (hd (json_stringify j)) = json_head j"
  by (cases j) (auto simp: json_quote_def head_class_def int_string_hd [unfolded head_class_def])

lemma head_eq:
  assumes "json_stringify j @ r = json_stringify k @ s"
  shows "json_head j = json_head k"
proof -
  have "json_stringify j \<noteq> []" "json_stringify k \<noteq> []" using stringify_opens by (auto simp: opens_def)
  with arg_cong [OF assms, of hd] have "hd (json_stringify j) = hd (json_stringify k)" by simp
  then show ?thesis by (metis stringify_head)
qed

lemma int_string_inj: "int_string i = int_string j \<Longrightarrow> i = j"
proof -
  have d: "CHR ''-'' \<notin> set (nat_string n)" for n
    using nat_string_digits [of n] by (auto simp: is_digit_def Let_def)
  have n: "nat_string m \<noteq> CHR ''-'' # u" for m u using d [of m] by auto
  assume "int_string i = int_string j"
  then show ?thesis
    using n n [symmetric] by (auto simp: int_string_def nat_string_inj split: if_splits)
qed

lemma takeWhile_open:
  assumes "\<forall>c \<in> set s. \<not> closes c" and "at_end r"
  shows "takeWhile (\<lambda>c. \<not> closes c) (s @ r) = s"
proof -
  have "takeWhile (\<lambda>c. \<not> closes c) r = []" using assms(2) by (cases r) (auto simp: at_end_def)
  with assms(1) show ?thesis by (simp add: takeWhile_append2)
qed

lemma int_string_delimited: "self_delimiting int_string i"
  unfolding self_delimiting_def
proof (intro allI impI)
  fix j r s assume eq: "int_string i @ r = int_string j @ s" and e: "at_end r" "at_end s"
  have "int_string i = takeWhile (\<lambda>c. \<not> closes c) (int_string i @ r)"
    using e(1) int_string_chars by (intro takeWhile_open [symmetric]) auto
  also have "\<dots> = int_string j"
    unfolding eq using e(2) int_string_chars by (intro takeWhile_open) auto
  finally show "i = j \<and> r = s" using eq int_string_inj by auto
qed

lemma stringify_delimited: "self_delimiting json_stringify j"
proof (induction j rule: json_stringify.induct)
  case (5 xs)
  show ?case unfolding self_delimiting_def
  proof (intro allI impI)
    fix k r s assume eq: "json_stringify (JArr xs) @ r = json_stringify k @ s" and e: "at_end r" "at_end s"
    then have "json_head k = 5" using head_eq [OF eq] by simp
    then obtain ys where k: "k = JArr ys" by (cases k) (auto split: if_splits)
    have "xs = ys \<and> r = s"
      by (rule join_items [OF _ stringify_opens, of xs "CHR '']''"]) (use 5 eq k in \<open>auto simp: closes_def\<close>)
    with k show "JArr xs = k \<and> r = s" by simp
  qed
next
  case (6 ms)
  let ?g = "\<lambda>m. json_quote (fst m) @ '':'' @ json_stringify (snd m)"
  have o: "opens ?g" by (auto simp: opens_def json_quote_def closes_def)
  have d: "\<forall>m \<in> set ms. self_delimiting ?g m"
  proof
    fix m assume m: "m \<in> set ms"
    show "self_delimiting ?g m" unfolding self_delimiting_def
    proof (intro allI impI)
      fix n r s assume "?g m @ r = ?g n @ s" and e: "at_end r" "at_end s"
      then have "json_quote (fst m) @ CHR '':'' # json_stringify (snd m) @ r
          = json_quote (fst n) @ CHR '':'' # json_stringify (snd n) @ s" by simp
      from json_quote_append [OF this] have "fst m = fst n"
        and "json_stringify (snd m) @ r = json_stringify (snd n) @ s" by simp_all
      with 6 [of m] m e show "m = n \<and> r = s"
        unfolding self_delimiting_def by (auto intro: prod_eqI)
    qed
  qed
  show ?case unfolding self_delimiting_def
  proof (intro allI impI)
    fix k r s assume eq: "json_stringify (JObj ms) @ r = json_stringify k @ s" and e: "at_end r" "at_end s"
    then have "json_head k = 6" using head_eq [OF eq] by simp
    then obtain ns where k: "k = JObj ns" by (cases k) (auto split: if_splits)
    have "ms = ns \<and> r = s"
      by (rule join_items [OF d o, of "CHR ''}''"]) (use eq k in \<open>auto simp: closes_def\<close>)
    with k show "JObj ms = k \<and> r = s" by simp
  qed
next
  case 1
  show ?case unfolding self_delimiting_def
  proof (intro allI impI)
    fix k r s assume eq: "json_stringify JNull @ r = json_stringify k @ s"
    from head_eq [OF eq] have "k = JNull" by (cases k) (auto split: if_splits)
    with eq show "JNull = k \<and> r = s" by simp
  qed
next
  case (2 b)
  show ?case unfolding self_delimiting_def
  proof (intro allI impI)
    fix k r s assume eq: "json_stringify (JBool b) @ r = json_stringify k @ s"
    from head_eq [OF eq] have "k = JBool b" by (cases k) (auto split: if_splits)
    with eq show "JBool b = k \<and> r = s" by simp
  qed
next
  case (3 i)
  show ?case unfolding self_delimiting_def
  proof (intro allI impI)
    fix k r s assume eq: "json_stringify (JNum i) @ r = json_stringify k @ s" and e: "at_end r" "at_end s"
    from head_eq [OF eq] obtain n where k: "k = JNum n" by (cases k) (auto split: if_splits)
    with eq e int_string_delimited [of i] show "JNum i = k \<and> r = s"
      unfolding self_delimiting_def by auto
  qed
next
  case (4 s)
  show ?case unfolding self_delimiting_def
  proof (intro allI impI)
    fix k r u assume eq: "json_stringify (JStr s) @ r = json_stringify k @ u"
    from head_eq [OF eq] obtain t where k: "k = JStr t" by (cases k) (auto split: if_splits)
    with eq json_quote_append [of s r t u] show "JStr s = k \<and> r = u" by simp
  qed
qed

lemma json_stringify_inj: "json_stringify j = json_stringify k \<longleftrightarrow> j = k"
proof
  assume "json_stringify j = json_stringify k"
  with stringify_delimited [of j] show "j = k"
    unfolding self_delimiting_def by (elim allE [of _ k] allE [of _ "[]"]) (simp add: at_end_def)
qed simp

section \<open>The key\<close>

lemma last_colon:
  assumes "u @ CHR '':'' # v = u' @ CHR '':'' # v'" and "CHR '':'' \<notin> set v" and "CHR '':'' \<notin> set v'"
  shows "u = u' \<and> v = v'"
proof -
  have "rev v = takeWhile (\<lambda>c. c \<noteq> CHR '':'') (rev (u @ CHR '':'' # v))"
    and "rev v' = takeWhile (\<lambda>c. c \<noteq> CHR '':'') (rev (u' @ CHR '':'' # v'))"
    using assms(2,3) by (auto simp: takeWhile_append)
  with assms(1) have "v = v'" by (metis rev_rev_ident)
  with assms(1) show ?thesis by simp
qed

lemma first_colon:
  assumes "u @ CHR '':'' # v = u' @ CHR '':'' # v'" and "CHR '':'' \<notin> set u" and "CHR '':'' \<notin> set u'"
  shows "u = u' \<and> v = v'"
proof -
  have "u = takeWhile (\<lambda>c. c \<noteq> CHR '':'') (u @ CHR '':'' # v)"
    and "u' = takeWhile (\<lambda>c. c \<noteq> CHR '':'') (u' @ CHR '':'' # v')"
    using assms(2,3) by (auto simp: takeWhile_append)
  with assms(1) have "u = u'" by metis
  with assms(1) show ?thesis by simp
qed

text \<open>
  An approval is for one call: provided the digest does not collide on the two argument
  texts, two calls get the same key exactly when they belong to the same run, name the same
  tool and have the same arguments up to the order of object members. (Identifiers of runs and
  hexadecimal digests hold no colon.)
\<close>

theorem effect_key_identifies:
  assumes "approvalEffectKey sha r t v = Inr k" and "approvalEffectKey sha r' t' v' = Inr k'"
    and "\<And>a b. sha a = sha b \<Longrightarrow> stableJsonValue v = Inr a \<Longrightarrow> stableJsonValue v' = Inr b \<Longrightarrow> a = b"
    and "\<And>a. CHR '':'' \<notin> set (sha a)" and "CHR '':'' \<notin> set r" and "CHR '':'' \<notin> set r'"
  shows "k = k' \<longleftrightarrow> r = r' \<and> t = t' \<and> canonical v = canonical v'"
proof -
  obtain j where j: "canonical v = Inr j" "stableJsonValue v = Inr (json_stringify j)"
      "k = r @ CHR '':'' # t @ CHR '':'' # sha (json_stringify j)"
    using assms(1) by (cases "canonical v") (auto simp: approvalEffectKey_def stableJsonValue_def serialize_canonical)
  obtain j' where j': "canonical v' = Inr j'" "stableJsonValue v' = Inr (json_stringify j')"
      "k' = r' @ CHR '':'' # t' @ CHR '':'' # sha (json_stringify j')"
    using assms(2) by (cases "canonical v'") (auto simp: approvalEffectKey_def stableJsonValue_def serialize_canonical)
  show ?thesis
  proof
    assume "k = k'"
    then have "(r @ CHR '':'' # t) @ CHR '':'' # sha (json_stringify j)
        = (r' @ CHR '':'' # t') @ CHR '':'' # sha (json_stringify j')" using j(3) j'(3) by simp
    from last_colon [OF this assms(4) assms(4)]
    have rt: "r @ CHR '':'' # t = r' @ CHR '':'' # t'" and d: "sha (json_stringify j) = sha (json_stringify j')"
      by simp_all
    from assms(3) [OF d j(2) j'(2)] have "j = j'" by (simp add: json_stringify_inj)
    with first_colon [OF rt assms(5,6)] j(1) j'(1) show "r = r' \<and> t = t' \<and> canonical v = canonical v'" by simp
  next
    assume "r = r' \<and> t = t' \<and> canonical v = canonical v'"
    with j j' show "k = k'" by simp
  qed
qed

theorem effect_key_identifies_witness:
  "approvalEffectKey (filter (\<lambda>c. c \<noteq> CHR '':'')) ''r'' ''send'' (VObj [(''to'', VStr ''a''), (''n'', VNum 2)]) =
   approvalEffectKey (filter (\<lambda>c. c \<noteq> CHR '':'')) ''r'' ''send'' (VObj [(''n'', VNum 2), (''to'', VStr ''a'')])"
proof -
  let ?sha = "filter (\<lambda>c. c \<noteq> CHR '':'')"
  let ?v = "VObj [(''to'', VStr ''a''), (''n'', VNum 2)]" and ?w = "VObj [(''n'', VNum 2), (''to'', VStr ''a'')]"
  have s: "stableJsonValue ?v = stableJsonValue ?w" "canonical ?v = canonical ?w" by code_simp+
  obtain k where k: "approvalEffectKey ?sha ''r'' ''send'' ?v = Inr k"
    by (cases "stableJsonValue ?v") (auto simp: approvalEffectKey_def stableJsonValue_def result_bind_def sort_key_def)
  obtain k' where k': "approvalEffectKey ?sha ''r'' ''send'' ?w = Inr k'"
    using k s(1) by (simp add: approvalEffectKey_def)
  have "k = k'" using effect_key_identifies [OF k k'] s by auto
  with k k' show ?thesis by simp
qed

end
