(* ===== verification/GroupMentions.thy ===== *)
theory GroupMentions
  imports JsonText "HOL-Library.Sublist"
begin

text \<open>
  Who a message in a group chat wakes (packages/core/src/group-mentions.ts). The regular
  expressions are matchers on strings; the classes \<open>\p{L}\<close> and \<open>\p{N}\<close> are those of the
  characters of this model, and the flag \<open>i\<close> compares lower case.
\<close>

definition letter_or_number :: "char \<Rightarrow> bool" where
  "letter_or_number c = (let n = of_char c :: nat in
     (48 \<le> n \<and> n \<le> 57) \<or> (65 \<le> n \<and> n \<le> 90) \<or> (97 \<le> n \<and> n \<le> 122)
     \<or> n \<in> set [170, 178, 179, 181, 185, 186, 188, 189, 190]
     \<or> (192 \<le> n \<and> n \<noteq> 215 \<and> n \<noteq> 247))"

definition mention_char :: "char \<Rightarrow> bool" where
  "mention_char c \<longleftrightarrow> letter_or_number c \<or> c = CHR ''_'' \<or> c = CHR ''-''"

definition ascii_alnum :: "char \<Rightarrow> bool" where
  "ascii_alnum c = (let n = of_char c :: nat in
     (48 \<le> n \<and> n \<le> 57) \<or> (65 \<le> n \<and> n \<le> 90) \<or> (97 \<le> n \<and> n \<le> 122))"

text \<open>\<open>\w\<close>, and the characters that may follow the first of a mention.\<close>

definition word_char :: "char \<Rightarrow> bool" where
  "word_char c \<longleftrightarrow> ascii_alnum c \<or> c = CHR ''_''"

definition name_char :: "char \<Rightarrow> bool" where
  "name_char c \<longleftrightarrow> word_char c \<or> c = CHR ''-''"

definition ci_prefix :: "string \<Rightarrow> string \<Rightarrow> bool" where
  "ci_prefix p s \<longleftrightarrow> prefix (js_lower p) (js_lower s)"

definition ends_mention :: "string \<Rightarrow> bool" where
  "ends_mention s \<longleftrightarrow> (case s of [] \<Rightarrow> True | c # _ \<Rightarrow> \<not> mention_char c)"

text \<open>\<open>(?:^|[^\p{L}\p{N}_-])@name(?![\p{L}\p{N}_-])\<close>; \<open>free\<close>: a mention may start here.\<close>

fun mention_at :: "string \<Rightarrow> bool \<Rightarrow> string \<Rightarrow> bool" where
  "mention_at name free [] = False"
| "mention_at name free (c # cs) =
     ((free \<and> c = CHR ''@'' \<and> ci_prefix name cs \<and> ends_mention (drop (length name) cs))
      \<or> mention_at name (\<not> mention_char c) cs)"

definition hasMentionToken :: "string \<Rightarrow> string \<Rightarrow> bool" where
  "hasMentionToken text name = (let normalized = js_trim name in
     if normalized = [] then False else mention_at normalized True text)"

text \<open>\<open>[A-Za-z0-9][A-Za-z0-9_-]{0,39}\<close> at the start of a string, as long as possible.\<close>

definition name_run :: "string \<Rightarrow> string" where
  "name_run s = (case s of [] \<Rightarrow> []
     | c # cs \<Rightarrow> if ascii_alnum c then c # take 39 (takeWhile name_char cs) else [])"

text \<open>The names after \<open>@\<close>, from left to right; a match goes on behind the previous one.\<close>

fun mention_names :: "nat \<Rightarrow> string \<Rightarrow> string list" where
  "mention_names skip [] = []"
| "mention_names skip (c # cs) =
     (if skip > 0 then mention_names (skip - 1) cs
      else if c = CHR ''@'' \<and> name_run cs \<noteq> [] then js_lower (name_run cs) # mention_names (length (name_run cs)) cs
      else mention_names 0 cs)"

text \<open>A \<open>Set\<close> lists its members in the order in which they were first added.\<close>

definition js_set_add :: "'a list \<Rightarrow> 'a \<Rightarrow> 'a list" where
  "js_set_add xs x = (if x \<in> set xs then xs else xs @ [x])"

definition parseMentionNames :: "string \<Rightarrow> string list" where
  "parseMentionNames text = foldl js_set_add [] (mention_names 0 text)"

record group_ref =
  gr_id :: string
  gr_name :: string

definition resolveGroupTargetBotIds :: "string \<Rightarrow> group_ref list \<Rightarrow> string list \<Rightarrow> string list" where
  "resolveGroupTargetBotIds text members explicitMentions =
     (let explicit = foldl js_set_add [] (filter (\<lambda>i. i \<in> gr_id ` set members) explicitMentions);
          targets = foldl js_set_add explicit (map gr_id
            (if hasMentionToken text ''everyone'' then members
             else filter (\<lambda>m. hasMentionToken text (gr_name m)) members))
      in if targets = [] then (case members of [] \<Rightarrow> [] | m # _ \<Rightarrow> [gr_id m]) else targets)"

text \<open>\<open>\s+\<close> and a fixed word, ignoring case; what follows, if it matches.\<close>

definition skip_spaces :: "string \<Rightarrow> string option" where
  "skip_spaces s = (case s of [] \<Rightarrow> None | c # _ \<Rightarrow> if js_space c then Some (dropWhile js_space s) else None)"

definition skip_word :: "string \<Rightarrow> string \<Rightarrow> string option" where
  "skip_word w s = (if ci_prefix w s then Some (drop (length w) s) else None)"

definition skip_at :: "string \<Rightarrow> string" where
  "skip_at s = (case s of [] \<Rightarrow> [] | c # cs \<Rightarrow> if c = CHR ''@'' then cs else s)"

definition name_here :: "string \<Rightarrow> string option" where
  "name_here s = (if name_run s = [] then None else Some (name_run s))"

text \<open>\<open>\s+to\s+@?name\<close>, and \<open>hand(?:\s+this|\s+off|\s+it)?\s+to\s+@?name\<close>, at the start of a string.\<close>

definition to_name :: "string \<Rightarrow> string option" where
  "to_name s = Option.bind (skip_spaces s) (\<lambda>a. Option.bind (skip_word ''to'' a) (\<lambda>b.
     Option.bind (skip_spaces b) (\<lambda>d. name_here (skip_at d))))"

definition first_some :: "'a option list \<Rightarrow> 'a option" where
  "first_some xs = (case filter (\<lambda>x. x \<noteq> None) xs of [] \<Rightarrow> None | x # _ \<Rightarrow> x)"

definition hand_to_name :: "string \<Rightarrow> string option" where
  "hand_to_name s = Option.bind (skip_word ''hand'' s) (\<lambda>r.
     first_some (map (\<lambda>w. Option.bind (skip_spaces r) (\<lambda>a. Option.bind (skip_word w a) to_name))
       [''this'', ''off'', ''it''] @ [to_name r]))"

text \<open>\<open>@(name)\s+take\<close>: the name ends where the space begins.\<close>

definition name_takes :: "string \<Rightarrow> string option" where
  "name_takes s = (case s of [] \<Rightarrow> None | c # cs \<Rightarrow>
     if c \<noteq> CHR ''@'' then None
     else Option.bind (name_here cs) (\<lambda>n. Option.bind (skip_spaces (drop (length n) cs))
       (\<lambda>a. map_option (\<lambda>_. n) (skip_word ''take'' a))))"

definition first_match :: "(string \<Rightarrow> 'a option) \<Rightarrow> string \<Rightarrow> 'a option" where
  "first_match f s = first_some (map (\<lambda>i. f (drop i s)) [0..<length s + 1])"

definition inferHandoffTargetName :: "string \<Rightarrow> string option" where
  "inferHandoffTargetName prompt = first_some [first_match hand_to_name prompt, first_match name_takes prompt]"

text \<open>\<open>\bto\s+@?name(?![\p{L}\p{N}_-])\<close>.\<close>

definition to_member :: "string \<Rightarrow> string \<Rightarrow> bool" where
  "to_member name s = (case Option.bind (skip_word ''to'' s) skip_spaces of
       None \<Rightarrow> False
     | Some a \<Rightarrow> list_ex (\<lambda>b. ci_prefix name b \<and> ends_mention (drop (length name) b)) [a, skip_at a])"

definition handed_to :: "string \<Rightarrow> string \<Rightarrow> bool" where
  "handed_to prompt name = list_ex (\<lambda>i. (i = 0 \<or> \<not> word_char (prompt ! (i - 1))) \<and> to_member name (drop i prompt))
     [0..<length prompt]"

definition inferHandoffTargetBotId :: "string \<Rightarrow> group_ref list \<Rightarrow> string option" where
  "inferHandoffTargetBotId prompt members =
     (case find (\<lambda>m. js_trim (gr_name m) \<noteq> [] \<and> handed_to prompt (js_trim (gr_name m))) members of
        Some m \<Rightarrow> Some (gr_id m)
      | None \<Rightarrow> (case find (\<lambda>m. hasMentionToken prompt (gr_name m)) members of
            Some m \<Rightarrow> Some (gr_id m)
          | None \<Rightarrow> (case inferHandoffTargetName prompt of
                None \<Rightarrow> None
              | Some n \<Rightarrow> map_option gr_id (find (\<lambda>m. js_lower (gr_name m) = js_lower n) members))))"

section \<open>Who is woken\<close>

lemma set_foldl_add [simp]: "set (foldl js_set_add xs ys) = set xs \<union> set ys"
  by (induction ys arbitrary: xs) (auto simp: js_set_add_def)

lemma distinct_foldl_add: "distinct xs \<Longrightarrow> distinct (foldl js_set_add xs ys)"
  by (induction ys arbitrary: xs) (auto simp: js_set_add_def)

lemma mentioned_set:
  "set (foldl js_set_add (foldl js_set_add [] (filter (\<lambda>i. i \<in> gr_id ` set members) explicit))
       (map gr_id (if all then members else filter named members))) =
   {gr_id m | m. m \<in> set members \<and> (gr_id m \<in> set explicit \<or> all \<or> named m)}"
proof -
  have "\<And>b. set (map gr_id (if b then members else filter named members))
      = {gr_id m | m. m \<in> set members \<and> (b \<or> named m)}" by auto
  moreover have "set (filter (\<lambda>i. i \<in> gr_id ` set members) explicit)
      = {gr_id m | m. m \<in> set members \<and> gr_id m \<in> set explicit}" by auto
  ultimately show ?thesis unfolding set_foldl_add list.set(1) by blast
qed

text \<open>
  A group message wakes members only, each at most once, and never nobody: everyone when it
  says \<open>@everyone\<close>, otherwise exactly the members that are mentioned by chip or by name, and
  the first member when there is no mention at all.
\<close>

theorem group_targets:
  "distinct (resolveGroupTargetBotIds text members explicitMentions) \<and>
   set (resolveGroupTargetBotIds text members explicitMentions) =
     (let mentioned = {gr_id m | m. m \<in> set members \<and> (gr_id m \<in> set explicitMentions
          \<or> hasMentionToken text ''everyone'' \<or> hasMentionToken text (gr_name m))}
      in if mentioned = {} then set (map gr_id (take 1 members)) else mentioned)"
proof -
  let ?explicit = "foldl js_set_add [] (filter (\<lambda>i. i \<in> gr_id ` set members) explicitMentions)"
  let ?targets = "foldl js_set_add ?explicit (map gr_id (if hasMentionToken text ''everyone'' then members
             else filter (\<lambda>m. hasMentionToken text (gr_name m)) members))"
  let ?M = "{gr_id m | m. m \<in> set members \<and> (gr_id m \<in> set explicitMentions
          \<or> hasMentionToken text ''everyone'' \<or> hasMentionToken text (gr_name m))}"
  have d: "distinct ?targets" by (intro distinct_foldl_add) simp
  have s: "set ?targets = ?M" by (rule mentioned_set)
  then have n: "?targets = [] \<longleftrightarrow> ?M = {}" by (simp only: set_empty [symmetric])
  have r: "resolveGroupTargetBotIds text members explicitMentions =
      (if ?targets = [] then (case members of [] \<Rightarrow> [] | m # _ \<Rightarrow> [gr_id m]) else ?targets)"
    by (simp only: resolveGroupTargetBotIds_def Let_def)
  show ?thesis
  proof (cases "?M = {}")
    case True
    with n r have "resolveGroupTargetBotIds text members explicitMentions = map gr_id (take 1 members)"
      by (simp split: list.split)
    with True show ?thesis by (cases members) (auto simp: Let_def)
  next
    case False
    with n r s d show ?thesis by (simp only: Let_def if_False simp_thms)
  qed
qed

end
