(* ===== verification/BotDelivery.thy ===== *)
theory BotDelivery
  imports ThreadGuarantees BotMessages
begin

text \<open>
  Bots that write to each other: a message from one bot's run into another bot's chat
  (packages/adapters/src/bot-messages.ts) and the hand-over of a stage in a group chat
  (packages/adapters/src/group-handoff.ts). Both create a message, a task and a queued run
  for the recipient in one transaction and then wake it.
\<close>

record run_ctx =
  rc_id :: string
  rc_workspaceId :: string
  rc_threadId :: string
  rc_botId :: string
  rc_userId :: string
  rc_sourceMessageId :: "string option"

definition source_active :: "run_ctx \<Rightarrow> run \<Rightarrow> bool" where
  "source_active run r \<longleftrightarrow> r_id r = rc_id run \<and> r_workspaceId r = rc_workspaceId run
     \<and> r_threadId r = rc_threadId run \<and> r_botId r = rc_botId run \<and> r_userId r = rc_userId run
     \<and> r_status r = Running"

definition queued_run ::
  "time \<Rightarrow> string \<Rightarrow> string \<Rightarrow> run_ctx \<Rightarrow> string \<Rightarrow> string \<Rightarrow> run_trigger \<Rightarrow> string \<Rightarrow> run" where
  "queued_run now i taskId run botId threadId trigger sourceId =
     \<lparr>r_id = i, r_workspaceId = rc_workspaceId run, r_botId = botId, r_threadId = threadId,
      r_taskId = taskId, r_userId = rc_userId run, r_serviceIdentityId = None, r_status = Queued,
      r_trigger = trigger, r_error = None, r_leaseOwner = None, r_leaseFence = 0,
      r_leaseExpiresAt = None, r_checkpoint = None, r_clientNonce = None,
      r_sourceMessageId = Some sourceId, r_routineId = None, r_startedAt = None,
      r_completedAt = None, r_createdAt = now, r_updatedAt = now\<rparr>"

definition queued_task :: "time \<Rightarrow> string \<Rightarrow> run_ctx \<Rightarrow> string \<Rightarrow> string \<Rightarrow> string \<Rightarrow> task" where
  "queued_task now i run botId threadId prompt =
     \<lparr>t_id = i, t_workspaceId = rc_workspaceId run, t_botId = botId, t_threadId = threadId,
      t_userId = rc_userId run, t_prompt = prompt, t_status = Queued, t_updatedAt = now\<rparr>"

section \<open>messageBot\<close>

fun first_hop :: "message_block list \<Rightarrow> nat" where
  "first_hop [] = 0"
| "first_hop (b # bs) = (case b of BotMessageReceivedBlock _ _ _ (Some hop) \<Rightarrow> hop | _ \<Rightarrow> first_hop bs)"

definition currentBotMessageHop :: "string option \<Rightarrow> db \<Rightarrow> nat" where
  "currentBotMessageHop sourceMessageId s =
     (if \<not> truthy sourceMessageId then 0
      else case find (\<lambda>m. m_id m = the sourceMessageId) (db_messages s) of
        None \<Rightarrow> 0
      | Some source \<Rightarrow> (case m_blocks source of None \<Rightarrow> 0 | Some blocks \<Rightarrow> first_hop blocks))"

record deliver_input =
  dv_botId :: "string option"
  dv_confirmName :: "string option"
  dv_message :: string
  dv_deliveryKey :: "string option"

record deliver_ids =
  dl_inbound :: string
  dl_outbound :: string
  dl_task :: string
  dl_run :: string
  dl_inEvent :: string
  dl_outEvent :: string

definition bot_candidates :: "run_ctx \<Rightarrow> db \<Rightarrow> bot list" where
  "bot_candidates run s = filter (\<lambda>b. b_workspaceId b = rc_workspaceId run
     \<and> b_userId b = rc_userId run \<and> b_archivedAt b = None) (db_bots s)"

definition bot_address_of :: "bot \<Rightarrow> bot_address" where
  "bot_address_of b = \<lparr>ad_id = b_id b, ad_name = b_name b, ad_title = Some (b_title b), ad_description = None\<rparr>"

datatype commit_result = CommitReplayed | CommitRefused string | CommitDelivered string nat nat

definition delivery_key :: "deliver_input \<Rightarrow> string option" where
  "delivery_key input = (if truthy (dv_deliveryKey input) then Some (''bot-message:'' @ the (dv_deliveryKey input)) else None)"

definition delivered_under :: "string \<Rightarrow> string option \<Rightarrow> message \<Rightarrow> bool" where
  "delivered_under threadId key m \<longleftrightarrow> m_threadId m = threadId \<and> m_clientNonce m = key"

text \<open>Everything of the transaction behind its guards.\<close>

definition deliver_write ::
  "time \<Rightarrow> deliver_ids \<Rightarrow> run_ctx \<Rightarrow> bot_address \<Rightarrow> bot \<Rightarrow> string \<Rightarrow> string \<Rightarrow> int \<Rightarrow> string option \<Rightarrow>
   commit_result dbtx" where
  "deliver_write now ids run sender target threadId message hop key =
     (let inboundBlock = BotMessageReceivedBlock (ad_id sender) (ad_name sender) message (Some (nat hop));
          outboundBlock = BotMessageSentBlock (b_id target) (b_name target) message
      in
      tx_bind (createThreadMessageInTransaction now (dl_inbound ids)
        \<lparr>mi_threadId = threadId, mi_role = RoleUser, mi_blocks = [inboundBlock], mi_botId = None,
         mi_replyToMessageId = None, mi_runId = None, mi_clientNonce = key\<rparr>) (\<lambda>inbound.
      tx_bind (createThreadMessageInTransaction now (dl_outbound ids)
        \<lparr>mi_threadId = rc_threadId run, mi_role = RoleBot, mi_blocks = [outboundBlock],
         mi_botId = Some (rc_botId run), mi_replyToMessageId = None, mi_runId = Some (rc_id run),
         mi_clientNonce = None\<rparr>) (\<lambda>outbound.
      tx_bind (task_create (queued_task now (dl_task ids) run (b_id target) threadId
        (buildBotMessageWakePrompt sender message))) (\<lambda>task.
      tx_bind (run_create (queued_run now (dl_run ids) (t_id task) run (b_id target) threadId
        TrigBotMessage (m_id inbound))) (\<lambda>nextRun.
      tx_bind (message_update (\<lambda>m. m_id m = m_id inbound) (\<lambda>m. m\<lparr>m_runId := Some (r_id nextRun)\<rparr>)) (\<lambda>_.
      tx_bind (appendEventInTransaction now (dl_inEvent ids)
        \<lparr>ei_workspaceId = rc_workspaceId run, ei_threadId = threadId, ei_botId = b_id target,
         ei_type = ThreadMessageCreated, ei_payload = message_payload (m_id inbound) RoleUser [inboundBlock],
         ei_runId = Some (r_id nextRun)\<rparr>) (\<lambda>inboundEvent.
      tx_bind (appendEventInTransaction now (dl_outEvent ids)
        \<lparr>ei_workspaceId = rc_workspaceId run, ei_threadId = rc_threadId run, ei_botId = rc_botId run,
         ei_type = ThreadMessageCreated, ei_payload = message_payload (m_id outbound) RoleBot [outboundBlock],
         ei_runId = Some (rc_id run)\<rparr>) (\<lambda>outboundEvent.
      tx_return (CommitDelivered (r_id nextRun) (e_seq inboundEvent) (e_seq outboundEvent))))))))))"

definition deliver_tx ::
  "time \<Rightarrow> deliver_ids \<Rightarrow> run_ctx \<Rightarrow> bot_address \<Rightarrow> bot \<Rightarrow> string \<Rightarrow> string \<Rightarrow> int \<Rightarrow> string option \<Rightarrow>
   commit_result dbtx" where
  "deliver_tx now ids run sender target threadId message hop key =
     tx_bind (if key = None then tx_return None
              else find_first db_messages (delivered_under threadId key)) (\<lambda>already.
     if already \<noteq> None then tx_return CommitReplayed
     else
       tx_bind (find_first db_runs (source_active run)) (\<lambda>senderStillRunning.
       if senderStillRunning = None then tx_return (CommitRefused ''source run is no longer active'')
       else
         tx_bind (find_first db_bots (\<lambda>b. b_id b = b_id target \<and> b_workspaceId b = rc_workspaceId run
             \<and> b_userId b = rc_userId run \<and> b_archivedAt b = None)) (\<lambda>stillAddressable.
         if stillAddressable = None
         then tx_return (CommitRefused (b_name target @ '' is no longer available''))
         else deliver_write now ids run sender target threadId message hop key)))"

datatype delivery =
    DeliveryRefused string
  | DeliveryReplayed string string string     \<comment> \<open>bot, its name, the message\<close>
  | DeliverySent string string string

text \<open>The three notifications behind the commit fail silently.\<close>

definition deliver_wake ::
  "bool \<Rightarrow> run_ctx \<Rightarrow> bot \<Rightarrow> string \<Rightarrow> string \<Rightarrow> string \<Rightarrow> nat \<Rightarrow> nat \<Rightarrow> (delivery \<times> notification list) dbprog" where
  "deliver_wake enqueueFails run target threadId message runId targetSeq senderSeq =
     prog_bind (prog_catch (enqueue enqueueFails (runContinueJob runId)) (\<lambda>_. prog_return ())) (\<lambda>_.
     prog_return (DeliverySent (b_id target) (b_name target) message,
       notifyRealtime threadId targetSeq @ notifyRealtime (rc_threadId run) senderSeq))"

definition deliver_to ::
  "(nat \<Rightarrow> db \<Rightarrow> db) \<Rightarrow> bool \<Rightarrow> time \<Rightarrow> deliver_ids \<Rightarrow> run_ctx \<Rightarrow> bot_address \<Rightarrow> bot \<Rightarrow> string \<Rightarrow> string \<Rightarrow> int \<Rightarrow>
   string option \<Rightarrow> (delivery \<times> notification list) dbprog" where
  "deliver_to env enqueueFails now ids run sender target threadId message hop key =
     (let replayed = prog_return (DeliveryReplayed (b_id target) (b_name target) message, []) in
      prog_bind (prog_env (env 2)) (\<lambda>_.
      prog_bind (prog_catch
        (prog_bind (prog_tx (deliver_tx now ids run sender target threadId message hop key))
          (\<lambda>c. prog_return (Some c)))
        (\<lambda>error. if key \<noteq> None \<and> error = UniqueViolation
           then prog_bind (prog_env (env 3)) (\<lambda>_.
             prog_bind (prog_gets (\<lambda>s. find (delivered_under threadId key) (db_messages s))) (\<lambda>winner.
             if winner \<noteq> None then prog_return None else prog_throw error))
           else prog_throw error)) (\<lambda>committed.
      case committed of
        None \<Rightarrow> replayed
      | Some CommitReplayed \<Rightarrow> replayed
      | Some (CommitRefused e) \<Rightarrow> prog_return (DeliveryRefused e, [])
      | Some (CommitDelivered runId targetSeq senderSeq) \<Rightarrow>
          prog_bind (prog_env (env 4)) (\<lambda>_.
          deliver_wake enqueueFails run target threadId message runId targetSeq senderSeq))))"

definition messageBot ::
  "(nat \<Rightarrow> db \<Rightarrow> db) \<Rightarrow> bool \<Rightarrow> time \<Rightarrow> deliver_ids \<Rightarrow> run_ctx \<Rightarrow> bot_address \<Rightarrow> deliver_input \<Rightarrow>
   (delivery \<times> notification list) dbprog" where
  "messageBot env enqueueFails now ids run sender input =
     (let message = clampBotMessage (dv_message input);
          refuse = (\<lambda>e. prog_return (DeliveryRefused e, [])) in
      if message = [] then refuse ''message is required''
      else
        prog_bind (prog_gets (currentBotMessageHop (rc_sourceMessageId run))) (\<lambda>current.
        let hop = nextBotMessageHop (Some (int current)) in
        if botMessageHopExhausted hop
        then refuse ''bot-to-bot message limit reached for this chain; report back to the user instead of messaging another bot''
        else
          prog_bind (prog_env (env 0)) (\<lambda>_.
          prog_bind (prog_gets (\<lambda>s. (bot_candidates run s,
              \<lambda>b. map_option th_id (primary_thread s b)))) (\<lambda>(candidates, thread_of).
          case resolveBotAddress (map bot_address_of candidates) (dv_botId input) (dv_confirmName input) of
            None \<Rightarrow> refuse ''no bot found with that id or name''
          | Some address \<Rightarrow>
              (case find (\<lambda>b. b_id b = ad_id address) candidates of
                 None \<Rightarrow> refuse ''no bot found with that id or name''
               | Some target \<Rightarrow>
                   if b_id target = ad_id sender then refuse ''a bot cannot message itself''
                   else (case thread_of target of
                       None \<Rightarrow> refuse (b_name target @ '' has no chat to deliver to'')
                     | Some threadId \<Rightarrow>
                         deliver_to env enqueueFails now ids run sender target threadId message hop
                           (delivery_key input)))))))"

section \<open>handoffToGroupBot\<close>

record handoff_input =
  ho_botId :: "string option"
  ho_confirmName :: "string option"
  ho_message :: string

record handoff_ids =
  hf_message :: string
  hf_task :: string
  hf_run :: string
  hf_event :: string

definition lockOwnedGroup :: "string \<Rightarrow> string \<Rightarrow> string \<Rightarrow> unit dbtx" where
  "lockOwnedGroup workspaceId userId groupId =
     tx_bind (find_many db_groups (\<lambda>g. g_id g = groupId \<and> g_workspaceId g = workspaceId \<and> g_userId g = userId)) (\<lambda>locked.
     if length locked \<noteq> 1 then tx_throw IsolationError else tx_return ())"

definition touchGroupUpdatedAt :: "time \<Rightarrow> string \<Rightarrow> unit dbtx" where
  "touchGroupUpdatedAt now groupId =
     tx_bind (update_one db_groups db_groups_update (\<lambda>g. g_id g = groupId) (\<lambda>g. g\<lparr>g_updatedAt := now\<rparr>)) (\<lambda>_.
     tx_return ())"

text \<open>The active members of a group, in the order they joined.\<close>

definition group_bots :: "string \<Rightarrow> db \<Rightarrow> bot list" where
  "group_bots groupId s = concat (map (\<lambda>m. filter (\<lambda>b. b_id b = gm_botId m \<and> b_archivedAt b = None) (db_bots s))
     (sort_key gm_createdAt (filter (\<lambda>m. gm_groupId m = groupId) (db_members s))))"

definition group_in_thread :: "string \<Rightarrow> string \<Rightarrow> db \<Rightarrow> bool" where
  "group_in_thread groupId threadId s \<longleftrightarrow> (\<exists>g \<in> set (db_groups s). g_id g = groupId) \<and>
     (\<exists>t \<in> set (db_threads s). th_id t = threadId \<and> th_groupId t = Some groupId)"

definition handoff_target :: "bot list \<Rightarrow> handoff_input \<Rightarrow> string option" where
  "handoff_target members input =
     (let byId = map_option js_trim (ho_botId input);
          name = map_option js_trim (ho_confirmName input)
      in if truthy byId then byId
         else if truthy name
           then map_option b_id (find (\<lambda>b. js_lower (b_name b) = js_lower (the name)) members)
         else byId)"

definition handoff_write ::
  "time \<Rightarrow> handoff_ids \<Rightarrow> run_ctx \<Rightarrow> string \<Rightarrow> string \<Rightarrow> string \<Rightarrow> (string \<times> string \<times> nat) dbtx" where
  "handoff_write now ids run groupId targetId message =
     tx_bind (createThreadMessageInTransaction now (hf_message ids)
       \<lparr>mi_threadId = rc_threadId run, mi_role = RoleBot,
        mi_blocks = [HandoffBlock (rc_botId run) targetId message], mi_botId = Some (rc_botId run),
        mi_replyToMessageId = None, mi_runId = Some (rc_id run), mi_clientNonce = None\<rparr>) (\<lambda>msg.
     tx_bind (task_create (queued_task now (hf_task ids) run targetId (rc_threadId run) message)) (\<lambda>task.
     tx_bind (run_create (queued_run now (hf_run ids) (t_id task) run targetId (rc_threadId run) TrigUser (m_id msg))) (\<lambda>nextRun.
     tx_bind (appendEventInTransaction now (hf_event ids)
       \<lparr>ei_workspaceId = rc_workspaceId run, ei_threadId = rc_threadId run, ei_botId = rc_botId run,
        ei_type = GroupHandoff,
        ei_payload = [(''messageId'', PJson (JStr (m_id msg))), (''fromBotId'', PJson (JStr (rc_botId run))),
          (''toBotId'', PJson (JStr targetId)), (''text'', PJson (JStr message))],
        ei_runId = Some (rc_id run)\<rparr>) (\<lambda>event.
     tx_bind (touchGroupUpdatedAt now groupId) (\<lambda>_.
     tx_return (targetId, r_id nextRun, e_seq event))))))"

definition handoff_tx ::
  "time \<Rightarrow> handoff_ids \<Rightarrow> run_ctx \<Rightarrow> string \<Rightarrow> handoff_input \<Rightarrow> (string + string \<times> string \<times> nat) dbtx" where
  "handoff_tx now ids run groupId input =
     tx_bind (tx_catch (tx_bind (lockOwnedGroup (rc_workspaceId run) (rc_userId run) groupId) (\<lambda>_. tx_return True))
       (\<lambda>error. if error = IsolationError then tx_return False else tx_throw error)) (\<lambda>locked.
     if \<not> locked then tx_return (Inl ''group is no longer available'')
     else
       tx_bind (tx_gets (\<lambda>s. (group_in_thread groupId (rc_threadId run) s, group_bots groupId s))) (\<lambda>(present, members).
       tx_bind (find_first db_runs (source_active run)) (\<lambda>activeSource.
       if \<not> present \<or> activeSource = None then tx_return (Inl ''source run is no longer active'')
       else if \<not> (\<exists>b \<in> set members. b_id b = rc_botId run)
         then tx_return (Inl ''source bot is no longer a group member'')
       else (case handoff_target members input of
           None \<Rightarrow> tx_return (Inl ''handoff target bot is required'')
         | Some targetId \<Rightarrow>
             if targetId = [] then tx_return (Inl ''handoff target bot is required'')
             else if targetId = rc_botId run then tx_return (Inl ''cannot hand off to yourself'')
             else if \<not> (\<exists>b \<in> set members. b_id b = targetId)
               then tx_return (Inl ''handoff target is not a group member'')
             else tx_bind (handoff_write now ids run groupId targetId (ho_message input)) (\<lambda>r. tx_return (Inr r))))))"

definition handoffToGroupBot ::
  "(db \<Rightarrow> db) \<Rightarrow> bool \<Rightarrow> time \<Rightarrow> handoff_ids \<Rightarrow> run_ctx \<Rightarrow> string \<Rightarrow> handoff_input \<Rightarrow>
   ((string + string \<times> string) \<times> notification list) dbprog" where
  "handoffToGroupBot env enqueueFails now ids run groupId input =
     prog_bind (prog_tx (handoff_tx now ids run groupId input)) (\<lambda>committed.
     case committed of
       Inl e \<Rightarrow> prog_return (Inl e, [])
     | Inr (botId, runId, eventSeq) \<Rightarrow>
         prog_bind (prog_env env) (\<lambda>_.
         prog_bind (prog_catch (enqueue enqueueFails (runContinueJob runId)) (\<lambda>_. prog_return ())) (\<lambda>_.
         prog_return (Inr (botId, runId), notifyRealtime (rc_threadId run) eventSeq))))"

definition loadGroupContext :: "string \<Rightarrow> db \<Rightarrow> string option" where
  "loadGroupContext groupId s = (case find (\<lambda>g. g_id g = groupId) (db_groups s) of
     None \<Rightarrow> None
   | Some g \<Rightarrow> Some (renderGroupMembersContext (g_name g)
       (map (\<lambda>b. (bot_address_of b)\<lparr>ad_description := Some (b_description b)\<rparr>) (group_bots groupId s))))"

section \<open>Contracts\<close>

lemma rel_case_sum [tx_rules]:
  "(\<And>e. prog_rel R (f e)) \<Longrightarrow> (\<And>r. prog_rel R (g r)) \<Longrightarrow> prog_rel R (case v of Inl e \<Rightarrow> f e | Inr r \<Rightarrow> g r)"
  by (cases v) simp_all

lemma queued_run_init [simp]: "run_init (queued_run now i k run b t tr src)"
  by (simp add: run_init_def queued_run_def)

lemma deliver_tx_step: "tx_rel (db_step del) (deliver_tx now ids run sender target threadId message hop key)"
  unfolding deliver_tx_def deliver_write_def Let_def by (intro tx_rules queued_run_init) simp_all

lemma handoff_tx_step: "tx_rel (db_step del) (handoff_tx now ids run groupId input)"
  unfolding handoff_tx_def handoff_write_def lockOwnedGroup_def touchGroupUpdatedAt_def
  by (intro tx_rules queued_run_init)

lemma rel_case_commit [tx_rules]:
  "prog_rel R a \<Longrightarrow> prog_rel R b \<Longrightarrow> (\<And>e. prog_rel R (f e)) \<Longrightarrow> (\<And>x y z. prog_rel R (g x y z)) \<Longrightarrow>
   prog_rel R (case v of None \<Rightarrow> a | Some CommitReplayed \<Rightarrow> b | Some (CommitRefused e) \<Rightarrow> f e
     | Some (CommitDelivered x y z) \<Rightarrow> g x y z)"
  by (simp split: option.split commit_result.split)

lemma deliver_wake_step [tx_rules]:
  "prog_rel (db_step del) (deliver_wake f run target threadId message runId a b)"
  unfolding deliver_wake_def by (intro tx_rules)

lemma deliver_to_step:
  assumes "\<And>i. env_ok del (env i)"
  shows "prog_rel (db_step del) (deliver_to env f now ids run sender target threadId message hop key)"
  unfolding deliver_to_def Let_def by (intro tx_rules deliver_tx_step assms)

lemma messageBot_step:
  assumes "\<And>i. env_ok del (env i)"
  shows "prog_rel (db_step del) (messageBot env f now ids run sender input)"
  unfolding messageBot_def Let_def by (intro tx_rules deliver_to_step assms)

lemma handoffToGroupBot_step:
  "env_ok del env \<Longrightarrow> prog_rel (db_step del) (handoffToGroupBot env f now ids run groupId input)"
  unfolding handoffToGroupBot_def by (intro tx_rules handoff_tx_step)

section \<open>Chains end\<close>

text \<open>What a delivery leaves behind in the database it was committed to.\<close>

lemma deliver_write_frame:
  assumes "deliver_write now ids run sender target threadId message hop key s = Inr (c, s')"
  shows "\<forall>q \<in> set (db_messages s). m_id q \<noteq> dl_inbound ids"
    and "map (\<lambda>m. (m_id m, m_blocks m)) (db_messages s') = map (\<lambda>m. (m_id m, m_blocks m)) (db_messages s) @
      [(dl_inbound ids, Some [BotMessageReceivedBlock (ad_id sender) (ad_name sender) message (Some (nat hop))]),
       (dl_outbound ids, Some [BotMessageSentBlock (b_id target) (b_name target) message])]"
    and "db_runs s' = db_runs s @ [queued_run now (dl_run ids) (dl_task ids) run (b_id target) threadId
           TrigBotMessage (dl_inbound ids)]"
    and "\<exists>m \<in> set (db_messages s'). delivered_under threadId key m"
proof -
  let ?in = "BotMessageReceivedBlock (ad_id sender) (ad_name sender) message (Some (nat hop))"
  let ?out = "BotMessageSentBlock (b_id target) (b_name target) message"
  obtain a s1 b s2 k s3 r s4 u s5 e1 s6 e2 where
    1: "createThreadMessageInTransaction now (dl_inbound ids)
        \<lparr>mi_threadId = threadId, mi_role = RoleUser, mi_blocks = [?in], mi_botId = None,
         mi_replyToMessageId = None, mi_runId = None, mi_clientNonce = key\<rparr> s = Inr (a, s1)"
    and 2: "createThreadMessageInTransaction now (dl_outbound ids)
        \<lparr>mi_threadId = rc_threadId run, mi_role = RoleBot, mi_blocks = [?out],
         mi_botId = Some (rc_botId run), mi_replyToMessageId = None, mi_runId = Some (rc_id run),
         mi_clientNonce = None\<rparr> s1 = Inr (b, s2)"
    and 3: "task_create (queued_task now (dl_task ids) run (b_id target) threadId
        (buildBotMessageWakePrompt sender message)) s2 = Inr (k, s3)"
    and 4: "run_create (queued_run now (dl_run ids) (t_id k) run (b_id target) threadId TrigBotMessage (m_id a)) s3
        = Inr (r, s4)"
    and 5: "message_update (\<lambda>m. m_id m = m_id a) (\<lambda>m. m\<lparr>m_runId := Some (r_id r)\<rparr>) s4 = Inr (u, s5)"
    and 6: "appendEventInTransaction now (dl_inEvent ids)
        \<lparr>ei_workspaceId = rc_workspaceId run, ei_threadId = threadId, ei_botId = b_id target,
         ei_type = ThreadMessageCreated, ei_payload = message_payload (m_id a) RoleUser [?in],
         ei_runId = Some (r_id r)\<rparr> s5 = Inr (e1, s6)"
    and 7: "appendEventInTransaction now (dl_outEvent ids)
        \<lparr>ei_workspaceId = rc_workspaceId run, ei_threadId = rc_threadId run, ei_botId = rc_botId run,
         ei_type = ThreadMessageCreated, ei_payload = message_payload (m_id b) RoleBot [?out],
         ei_runId = Some (rc_id run)\<rparr> s6 = Inr (e2, s')"
    using assms unfolding deliver_write_def Let_def by (auto simp: tx_bind_Inr)
  note f1 = createThreadMessage_frame [OF 1] and f2 = createThreadMessage_frame [OF 2]
  note f6 = appendEvent_frame [OF 6] and f7 = appendEvent_frame [OF 7]
  have s3: "db_messages s3 = db_messages s2" "db_runs s3 = db_runs s2" and k: "t_id k = dl_task ids"
    using 3 by (auto simp: create_row_Inr queued_task_def)
  have s4: "db_messages s4 = db_messages s3" "db_runs s4 = db_runs s3 @ [r]"
    and r: "r = queued_run now (dl_run ids) (t_id k) run (b_id target) threadId TrigBotMessage (m_id a)"
    using 4 by (auto simp: create_row_Inr)
  have s5: "db_messages s5 = updateMany (\<lambda>m. m_id m = m_id a) (\<lambda>m. m\<lparr>m_runId := Some (r_id r)\<rparr>) (db_messages s4)"
    "db_runs s5 = db_runs s4"
    using 5 by (auto simp: update_one_Inr)
  have no: "\<not> message_clash q a" if "q \<in> set (db_messages s)" for q
    using that by (rule_tac createThreadMessage_Inr [OF 1]) auto
  then show "\<forall>q \<in> set (db_messages s). m_id q \<noteq> dl_inbound ids"
    using f1(12) by (auto simp: message_clash_def)
  have kept: "map f (db_messages s') = map f (db_messages s) @ [f a, f b]"
    if "\<And>m x. f (m\<lparr>m_runId := x\<rparr>) = f m" for f :: "message \<Rightarrow> 'z"
    by (simp add: f7(7) f6(7) s5(1) map_updateMany that s4(1) s3(1) f2(7) f1(7))
  show "map (\<lambda>m. (m_id m, m_blocks m)) (db_messages s') = map (\<lambda>m. (m_id m, m_blocks m)) (db_messages s) @
      [(dl_inbound ids, Some [?in]), (dl_outbound ids, Some [?out])]"
    by (subst kept) (simp_all add: f1(12,14) f2(12,14))
  have "map (delivered_under threadId key) (db_messages s') =
      map (delivered_under threadId key) (db_messages s) @ [delivered_under threadId key a, delivered_under threadId key b]"
    by (rule kept) (simp add: delivered_under_def)
  moreover have "delivered_under threadId key a" using f1(13,17) by (simp add: delivered_under_def)
  ultimately have "True \<in> set (map (delivered_under threadId key) (db_messages s'))" by simp
  then show "\<exists>m \<in> set (db_messages s'). delivered_under threadId key m" by auto
  show "db_runs s' = db_runs s @ [queued_run now (dl_run ids) (dl_task ids) run (b_id target) threadId
           TrigBotMessage (dl_inbound ids)]"
    by (simp add: f7(1) f6(1) s5(2) s4(2) s3(2) f2(1) f1(1) r k f1(12))
qed

lemma deliver_tx_DeliveredD:
  assumes "deliver_tx now ids run sender target threadId message hop key s = Inr (CommitDelivered r a b, s')"
  shows "\<exists>c. deliver_write now ids run sender target threadId message hop key s = Inr (c, s')"
  using assms unfolding deliver_tx_def by (auto simp: tx_bind_Inr split: if_splits)

lemma deliver_to_SentD:
  assumes "deliver_to env f now ids run sender target threadId message hop key s =
      (Inr (DeliverySent i n msg, ns), s')"
  shows "i = b_id target \<and> (\<exists>c s2. deliver_write now ids run sender target threadId message hop key (env 2 s) = Inr (c, s2) \<and>
    db_messages s' = db_messages (env 4 s2) \<and> db_runs s' = db_runs (env 4 s2))"
proof (cases "deliver_tx now ids run sender target threadId message hop key (env 2 s)")
  case (Inl e)
  then show ?thesis using assms
    by (auto simp: deliver_to_def Let_def prog_bind_run prog_catch_def prog_tx_run split: if_splits)
next
  case (Inr v)
  obtain c s2 where v: "v = (c, s2)" by (cases v)
  show ?thesis
  proof (cases c)
    case (CommitDelivered r a b)
    with Inr v have "\<exists>c. deliver_write now ids run sender target threadId message hop key (env 2 s) = Inr (c, s2)"
      by (intro deliver_tx_DeliveredD) simp
    moreover have "i = b_id target \<and> db_messages s' = db_messages (env 4 s2) \<and> db_runs s' = db_runs (env 4 s2)"
      using assms Inr v CommitDelivered
      by (auto simp: deliver_to_def deliver_wake_def enqueue_def Let_def prog_bind_run prog_catch_def prog_tx_run
          split: if_splits)
    ultimately show ?thesis by blast
  qed (use assms Inr v in \<open>auto simp: deliver_to_def Let_def prog_bind_run prog_catch_def prog_tx_run\<close>)
qed

lemma messageBot_SentD:
  assumes "messageBot env f now ids run sender input s = (Inr (DeliverySent i n msg, ns), s')"
  obtains target threadId message where
    "\<not> botMessageHopExhausted (nextBotMessageHop (Some (int (currentBotMessageHop (rc_sourceMessageId run) s))))"
    and "deliver_to env f now ids run sender target threadId message
      (nextBotMessageHop (Some (int (currentBotMessageHop (rc_sourceMessageId run) s)))) (delivery_key input) (env 0 s)
      = (Inr (DeliverySent i n msg, ns), s')"
  using assms unfolding messageBot_def Let_def
  by (auto simp: prog_bind_run split: if_splits option.splits)

lemma nextHop_nat: "nextBotMessageHop (Some (int n)) = int (Suc n)"
  by (simp add: nextBotMessageHop_def)

text \<open>
  C25. A chain of deliveries between bots ends: the message a delivery writes carries exactly the
  hop of the message that started the sending run plus one, this number never exceeds the limit,
  and the run that answers it is queued for the recipient with that message as its source. So a
  run at the limit can deliver to nobody.
\<close>

theorem bot_chain_bounded:
  assumes sent: "messageBot env fails now ids run sender input s = (Inr (DeliverySent i n msg, ns), s')"
    and quiet: "env 4 = (\<lambda>x. x)" and id: "dl_inbound ids \<noteq> []"
  shows "currentBotMessageHop (Some (dl_inbound ids)) s' = Suc (currentBotMessageHop (rc_sourceMessageId run) s) \<and>
    Suc (currentBotMessageHop (rc_sourceMessageId run) s) \<le> BOT_MESSAGE_MAX_HOPS \<and>
    (\<exists>r \<in> set (db_runs s'). r_id r = dl_run ids \<and> r_botId r = i \<and> r_status r = Queued
       \<and> r_sourceMessageId r = Some (dl_inbound ids))"
proof -
  define hop where "hop = currentBotMessageHop (rc_sourceMessageId run) s"
  obtain target threadId message where ok: "\<not> botMessageHopExhausted (int (Suc hop))"
    and del: "deliver_to env fails now ids run sender target threadId message (int (Suc hop)) (delivery_key input)
      (env 0 s) = (Inr (DeliverySent i n msg, ns), s')"
    using messageBot_SentD [OF sent] unfolding hop_def nextHop_nat by blast
  obtain c s2 where i: "i = b_id target"
    and w: "deliver_write now ids run sender target threadId message (int (Suc hop)) (delivery_key input) (env 2 (env 0 s)) = Inr (c, s2)"
    and eq: "db_messages s' = db_messages s2" "db_runs s' = db_runs s2"
    using deliver_to_SentD [OF del] quiet by auto
  note fr = deliver_write_frame [OF w]
  let ?k = "\<lambda>m. (m_id m, m_blocks m)" and ?p = "\<lambda>(j :: string, b :: message_block list option). j = dl_inbound ids"
  have key: "map_option ?k (find (\<lambda>m. m_id m = dl_inbound ids) xs) = find ?p (map ?k xs)" for xs
    by (induction xs) auto
  have "find ?p (map ?k (db_messages (env 2 (env 0 s)))) = None"
    using fr(1) by (auto simp: find_None_ball)
  then have "map_option ?k (find (\<lambda>m. m_id m = dl_inbound ids) (db_messages s')) =
      Some (dl_inbound ids, Some [BotMessageReceivedBlock (ad_id sender) (ad_name sender) message (Some (Suc hop))])"
    unfolding eq key fr(2) find_append by simp
  then have "currentBotMessageHop (Some (dl_inbound ids)) s' = Suc hop"
    using id by (auto simp: currentBotMessageHop_def truthy_def)
  moreover have "Suc hop \<le> BOT_MESSAGE_MAX_HOPS" using ok by (simp add: botMessageHopExhausted_def)
  moreover have "queued_run now (dl_run ids) (dl_task ids) run i threadId TrigBotMessage (dl_inbound ids) \<in> set (db_runs s')"
    using fr(3) i eq(2) by simp
  ultimately show ?thesis unfolding hop_def [symmetric]
    by (auto simp: queued_run_def intro!: bexI)
qed

text \<open>
  A delivery is made once under its key: after it was sent, delivering to the same chat under
  the same key again, whatever the message, answers that it was replayed and changes nothing.
\<close>

theorem delivery_once:
  assumes sent: "deliver_to env fails now ids run sender target threadId message hop (Some key) s =
      (Inr (DeliverySent i n msg, ns), s')"
    and quiet: "env 4 = (\<lambda>x. x)"
  shows "deliver_to (\<lambda>_ x. x) fails' now' ids' run' sender' target' threadId message' hop' (Some key) s' =
      (Inr (DeliveryReplayed (b_id target') (b_name target') message', []), s')"
proof -
  obtain c s2 where w: "deliver_write now ids run sender target threadId message hop (Some key) (env 2 s) = Inr (c, s2)"
    and eq: "db_messages s' = db_messages s2"
    using deliver_to_SentD [OF sent] quiet by auto
  from deliver_write_frame(4) [OF w] have "find (delivered_under threadId (Some key)) (db_messages s') \<noteq> None"
    unfolding eq find_None_ball by blast
  then have "deliver_tx now' ids' run' sender' target' threadId message' hop' (Some key) s' = Inr (CommitReplayed, s')"
    by (simp add: deliver_tx_def tx_bind_run)
  then show ?thesis by (simp add: deliver_to_def Let_def prog_bind_run prog_catch_def prog_tx_run)
qed

text \<open>Ada, at the third hop of a chain, writes to Bob.\<close>

definition sample_two_bots :: db where
  "sample_two_bots = sample_db\<lparr>db_bots := [sample_bot, sample_bot\<lparr>b_id := ''b2'', b_name := ''Bob'', b_primaryThreadId := Some ''t2''\<rparr>],
     db_threads := [sample_thread\<lparr>th_nextMessageSeq := 1\<rparr>, sample_thread\<lparr>th_id := ''t2'', th_botId := Some ''b2''\<rparr>],
     db_messages := [sample_message\<lparr>m_id := ''m3'', m_blocks := Some [BotMessageReceivedBlock ''b2'' ''Bob'' ''hi'' (Some 3)]\<rparr>]\<rparr>"

definition sample_ctx :: run_ctx where
  "sample_ctx = \<lparr>rc_id = ''r'', rc_workspaceId = ''w'', rc_threadId = ''t'', rc_botId = ''b'', rc_userId = ''u'',
     rc_sourceMessageId = Some ''m3''\<rparr>"

definition sample_sender :: bot_address where
  "sample_sender = \<lparr>ad_id = ''b'', ad_name = ''Ada'', ad_title = None, ad_description = None\<rparr>"

definition sample_deliver_ids :: deliver_ids where
  "sample_deliver_ids = \<lparr>dl_inbound = ''n1'', dl_outbound = ''n2'', dl_task = ''k2'', dl_run = ''r2'',
     dl_inEvent = ''e1'', dl_outEvent = ''e2''\<rparr>"

definition sample_delivery :: deliver_input where
  "sample_delivery = \<lparr>dv_botId = None, dv_confirmName = Some ''Bob'', dv_message = ''done'', dv_deliveryKey = Some ''k''\<rparr>"

definition sample_delivered :: db where
  "sample_delivered = snd (messageBot (\<lambda>_ x. x) False 5 sample_deliver_ids sample_ctx sample_sender sample_delivery sample_two_bots)"

definition sample_bob :: bot where
  "sample_bob = sample_bot\<lparr>b_id := ''b2'', b_name := ''Bob'', b_primaryThreadId := Some ''t2''\<rparr>"

lemma sample_message_run:
  "messageBot (\<lambda>_ x. x) False 5 sample_deliver_ids sample_ctx sample_sender sample_delivery sample_two_bots =
     (Inr (DeliverySent ''b2'' ''Bob'' ''done'', [(''thread:t2'', 0), (''thread:t'', 0)]), sample_delivered)"
  by code_simp

definition sample_once :: db where
  "sample_once = snd (deliver_to (\<lambda>_ x. x) False 5 sample_deliver_ids sample_ctx sample_sender sample_bob ''t2'' ''done'' 4
     (Some ''k'') sample_two_bots)"

lemma sample_deliver_run:
  "deliver_to (\<lambda>_ x. x) False 5 sample_deliver_ids sample_ctx sample_sender sample_bob ''t2'' ''done'' 4
     (Some ''k'') sample_two_bots = (Inr (DeliverySent ''b2'' ''Bob'' ''done'', [(''thread:t2'', 0), (''thread:t'', 0)]), sample_once)"
  by code_simp

theorem bot_chain_bounded_witness:
  "currentBotMessageHop (Some ''n1'') sample_delivered = Suc (currentBotMessageHop (Some ''m3'') sample_two_bots)"
  using bot_chain_bounded [OF sample_message_run] by (simp add: sample_deliver_ids_def sample_ctx_def)

theorem delivery_once_witness:
  "deliver_to (\<lambda>_ x. x) False 9 sample_deliver_ids sample_ctx sample_sender sample_bob ''t2'' ''again'' 4 (Some ''k'') sample_once
     = (Inr (DeliveryReplayed (b_id sample_bob) (b_name sample_bob) ''again'', []), sample_once)"
  by (rule delivery_once [OF sample_deliver_run refl])

end
