(* ===== verification/ComputerSleep.thy ===== *)
theory ComputerSleep
  imports ThreadEvents WorkspacePaths
begin

text \<open>
  Computers and their sandbox provider, first part: the calls to the provider, the expiry of a
  person's control (packages/adapters/src/computer-control.ts), the portable workspace
  (computer-workspace.ts) and the idle sleep (computer-idle.ts). The provider is outside the
  program: \<open>sandbox\<close> says what it answers, and every call that reaches it is appended to
  \<open>db_calls\<close> before the answer. A provider that does not implement an optional call answers it
  without an error. \<open>env\<close> arguments are what other clients do between two statements.
\<close>

section \<open>The provider\<close>

record sandbox =
  sb_provision :: "string \<Rightarrow> string option \<Rightarrow> string \<Rightarrow> db_error + computer_ref"
  sb_answer :: "sandbox_call \<Rightarrow> db_error option"
  sb_export :: "string \<Rightarrow> computer_ref \<Rightarrow> db_error + string"
  sb_localHome :: bool

definition log_call :: "sandbox_call \<Rightarrow> unit dbprog" where
  "log_call c = prog_env (\<lambda>s. s\<lparr>db_calls := db_calls s @ [c]\<rparr>)"

definition prog_lift :: "db_error + 'a \<Rightarrow> 'a dbprog" where
  "prog_lift r = (case r of Inl e \<Rightarrow> prog_throw e | Inr v \<Rightarrow> prog_return v)"

definition call :: "sandbox \<Rightarrow> sandbox_call \<Rightarrow> unit dbprog" where
  "call sb c = prog_bind (log_call c) (\<lambda>_.
     case sb_answer sb c of Some e \<Rightarrow> prog_throw e | None \<Rightarrow> prog_return ())"

text \<open>\<open>.catch(() => undefined)\<close>\<close>

definition ignore_error :: "unit dbprog \<Rightarrow> unit dbprog" where
  "ignore_error m = prog_catch m (\<lambda>_. prog_return ())"

definition toComputerRef :: "computer \<Rightarrow> db_error + computer_ref" where
  "toComputerRef computer =
     (if \<not> truthy (c_providerRef computer) then Inl (Thrown ''computer provider reference is missing'')
      else Inr \<lparr>cr_id = the (c_providerRef computer), cr_botId = c_homeKey computer,
        cr_kind = c_kind computer, cr_providerRef = the (c_providerRef computer), cr_fresh = False\<rparr>)"

section \<open>Expiry of control\<close>

definition enqueueTakeoverContinuation :: "bool \<Rightarrow> string option \<Rightarrow> unit dbprog" where
  "enqueueTakeoverContinuation fails runId =
     (if \<not> truthy runId then prog_return ()
      else ignore_error (enqueue fails (runContinueJob (the runId))))"

definition expire_release ::
  "(nat \<Rightarrow> db \<Rightarrow> db) \<Rightarrow> bool \<Rightarrow> time \<Rightarrow> string \<Rightarrow> computer \<Rightarrow> string \<Rightarrow> string \<Rightarrow> (bool \<times> notification list) dbprog" where
  "expire_release env fails now eid computer botId leaseId =
     prog_bind (prog_env (env 2)) (\<lambda>_.
     prog_bind (prog_tx (finalizeComputerControlRelease now eid
       \<lparr>rl_workspaceId = c_workspaceId computer, rl_computerId = c_id computer, rl_botId = botId,
        rl_runId = c_controlRunId computer, rl_leaseId = leaseId, rl_holder = HolderNone,
        rl_reason = ReasonExpired\<rparr>)) (\<lambda>(released, ns).
     prog_bind (prog_env (env 3)) (\<lambda>_.
     prog_bind (enqueueTakeoverContinuation fails (case released of None \<Rightarrow> None | Some runId \<Rightarrow> runId)) (\<lambda>_.
     prog_return (released \<noteq> None, ns)))))"

definition expireComputerControl ::
  "sandbox \<Rightarrow> (nat \<Rightarrow> db \<Rightarrow> db) \<Rightarrow> bool \<Rightarrow> time \<Rightarrow> string \<Rightarrow> string \<Rightarrow> string \<Rightarrow>
   (bool \<times> notification list) dbprog" where
  "expireComputerControl sb env fails now eid computerId leaseId =
     prog_bind (prog_gets (\<lambda>s. find (\<lambda>c. c_id c = computerId) (db_computers s))) (\<lambda>computer.
     case computer of
       None \<Rightarrow> prog_return (False, [])
     | Some c \<Rightarrow>
         if c_controlLeaseId c \<noteq> Some leaseId \<or> \<not> truthy (c_controlBotId c) then prog_return (False, [])
         else if (case c_controlLeaseExpiresAt c of None \<Rightarrow> False | Some t \<Rightarrow> t > now)
         then prog_bind (prog_env (env 0)) (\<lambda>_.
           prog_bind (scheduleComputerControlExpiry fails (c_id c) leaseId (the (c_controlLeaseExpiresAt c))) (\<lambda>_.
           prog_return (False, [])))
         else
           prog_bind (prog_env (env 0)) (\<lambda>_.
           prog_bind (prog_tx (computer_updateMany now (\<lambda>d. c_id d = c_id c \<and> c_controlLeaseId d = Some leaseId)
             (\<lambda>d. d\<lparr>c_controlHolder := HolderNone\<rparr>))) (\<lambda>claimed.
           if claimed \<noteq> 1 then prog_return (False, [])
           else
             prog_bind (prog_env (env 1)) (\<lambda>_.
             prog_bind (if truthy (c_providerRef c)
               then prog_bind (prog_lift (toComputerRef c)) (\<lambda>ref. call sb (CallScreenControl ref False leaseId))
               else prog_return ()) (\<lambda>_.
             expire_release env fails now eid c (the (c_controlBotId c)) leaseId)))))"

section \<open>The portable workspace\<close>

definition skipped_profile_directories :: "string list" where
  "skipped_profile_directories = [''Cache'', ''Code Cache'', ''GPUCache'', ''GrShaderCache'', ''ShaderCache'',
     ''DawnGraphiteCache'', ''DawnWebGPUCache'', ''Crashpad'']"

definition skipped_profile_files :: "string list" where
  "skipped_profile_files = [''BrowserMetrics'', ''DevToolsActivePort'', ''SingletonCookie'', ''SingletonLock'',
     ''SingletonSocket'', ''.parentlock'', ''lock'']"

definition shouldSkipPortableWorkspaceFile :: "string \<Rightarrow> bool" where
  "shouldSkipPortableWorkspaceFile relative =
     (if take 18 relative \<noteq> ''.browser-profiles/'' then False
      else let segments = js_split CHR ''/'' relative; name = last segments in
        list_ex (\<lambda>s. s \<in> set skipped_profile_directories) segments \<or> name \<in> set skipped_profile_files)"

text \<open>The local home keeps the files of docker computers in place.\<close>

definition restoreComputerWorkspace :: "sandbox \<Rightarrow> string \<Rightarrow> computer_ref \<Rightarrow> unit dbprog" where
  "restoreComputerWorkspace sb homeKey ref =
     (if cr_kind ref = ''docker'' \<and> sb_localHome sb then prog_return ()
      else call sb (CallImport ref homeKey))"

text \<open>The answer to \<open>CallLayout\<close> is the error of a command that did not exit with 0.\<close>

definition ensureComputerWorkspaceLayout ::
  "sandbox \<Rightarrow> computer_ref \<Rightarrow> computer_mode \<Rightarrow> string option \<Rightarrow> unit dbprog" where
  "ensureComputerWorkspaceLayout sb ref scope botId =
     (if scope \<noteq> Team \<or> \<not> truthy botId then prog_return ()
      else prog_bind (prog_lift (teamBotWorkspaceDirectory (the botId))) (\<lambda>dir. call sb (CallLayout ref dir)))"

definition checkpointComputerWorkspace :: "sandbox \<Rightarrow> string \<Rightarrow> computer_ref \<Rightarrow> string dbprog" where
  "checkpointComputerWorkspace sb homeKey ref =
     (if cr_kind ref = ''docker'' \<and> sb_localHome sb then prog_lift (sb_export sb homeKey ref)
      else prog_bind (log_call (CallExport ref homeKey)) (\<lambda>_. prog_lift (sb_export sb homeKey ref)))"

definition checkpointAndRecordComputerWorkspace ::
  "sandbox \<Rightarrow> (db \<Rightarrow> db) \<Rightarrow> time \<Rightarrow> string \<Rightarrow> string \<Rightarrow> computer_ref \<Rightarrow> string dbprog" where
  "checkpointAndRecordComputerWorkspace sb env now computerId homeKey ref =
     prog_bind (checkpointComputerWorkspace sb homeKey ref) (\<lambda>revision.
     prog_bind (prog_env env) (\<lambda>_.
     prog_bind (prog_tx (computer_updateMany now (\<lambda>c. c_id c = computerId)
       (\<lambda>c. c\<lparr>c_homeRevision := revision\<rparr>))) (\<lambda>_.
     prog_return revision)))"

section \<open>Sleeping\<close>

definition DEFAULT_SANDBOX_IDLE_MS :: time where
  "DEFAULT_SANDBOX_IDLE_MS = 10 * 60 * 1000"

definition sandboxIdleMs :: "string option \<Rightarrow> time" where
  "sandboxIdleMs configured =
     (case configured of None \<Rightarrow> DEFAULT_SANDBOX_IDLE_MS
      | Some v \<Rightarrow> (case js_floor (js_Number v) of
            None \<Rightarrow> DEFAULT_SANDBOX_IDLE_MS
          | Some raw \<Rightarrow> if raw \<ge> 30000 then raw else DEFAULT_SANDBOX_IDLE_MS))"

definition scheduleComputerSleep :: "bool \<Rightarrow> string option \<Rightarrow> time \<Rightarrow> string \<Rightarrow> unit dbprog" where
  "scheduleComputerSleep fails configured now computerId =
     (if computerId = [] then prog_return ()
      else ignore_error (enqueue fails (computerSleepJob computerId (now + sandboxIdleMs configured))))"

definition touchRunningComputer ::
  "sandbox \<Rightarrow> bool \<Rightarrow> string option \<Rightarrow> time \<Rightarrow> computer \<Rightarrow> unit dbprog" where
  "touchRunningComputer sb fails configured now computer =
     prog_bind (scheduleComputerSleep fails configured now (c_id computer)) (\<lambda>_.
     prog_bind (prog_lift (toComputerRef computer)) (\<lambda>ref. call sb (CallKeepAlive ref)))"

definition run_on_computer :: "db \<Rightarrow> string \<Rightarrow> run \<Rightarrow> bool" where
  "run_on_computer s computerId r \<longleftrightarrow>
     (\<exists>b \<in> set (db_bots s). b_id b = r_botId r \<and> b_computerId b = Some computerId)"

definition findActiveRun :: "string \<Rightarrow> run_status list \<Rightarrow> db \<Rightarrow> run option" where
  "findActiveRun computerId statuses s =
     find (\<lambda>r. run_on_computer s computerId r \<and> r_status r \<in> set statuses) (db_runs s)"

definition live_lease :: "string \<Rightarrow> time \<Rightarrow> exec_lease \<Rightarrow> bool" where
  "live_lease computerId now l \<longleftrightarrow> l_computerId l = computerId \<and> l_expiresAt l > now"

definition sleep_claim :: "computer \<Rightarrow> time \<Rightarrow> string \<Rightarrow> nat dbtx" where
  "sleep_claim computer checkpointedAt revision =
     tx_bind (find_many db_leases (live_lease (c_id computer) checkpointedAt)) (\<lambda>live.
     computer_updateMany checkpointedAt (\<lambda>c. c_id c = c_id computer \<and> c_state c = CompRunning
         \<and> c_providerRef c = c_providerRef computer \<and> c_updatedAt c = c_updatedAt computer
         \<and> c_executionRunId c = None \<and> live = [])
       (\<lambda>c. c\<lparr>c_state := Suspending, c_homeRevision := revision\<rparr>))"

definition wake_again :: "time \<Rightarrow> string \<Rightarrow> unit dbprog" where
  "wake_again now computerId =
     prog_bind (prog_tx (computer_updateMany now (\<lambda>c. c_id c = computerId \<and> c_state c = Suspending)
       (\<lambda>c. c\<lparr>c_state := CompRunning\<rparr>))) (\<lambda>_. prog_return ())"

fun sleep_events :: "time \<Rightarrow> string \<Rightarrow> string \<Rightarrow> bot list \<Rightarrow> nat \<Rightarrow> notification list dbprog" where
  "sleep_events now eids workspaceId [] n = prog_return []"
| "sleep_events now eids workspaceId (b # bs) n =
     prog_bind (prog_gets (\<lambda>s. primary_thread s b)) (\<lambda>thread.
     case thread of
       None \<Rightarrow> sleep_events now eids workspaceId bs n
     | Some t \<Rightarrow>
         prog_bind (prog_tx (appendEvent now (eids @ nat_string n)
           \<lparr>ei_workspaceId = workspaceId, ei_threadId = th_id t, ei_botId = b_id b,
            ei_type = ComputerStatus, ei_payload = [(''status'', PJson (JStr ''suspended''))],
            ei_runId = None\<rparr>)) (\<lambda>(e, ns).
         prog_bind (sleep_events now eids workspaceId bs (Suc n)) (\<lambda>rest. prog_return (ns @ rest))))"

definition sleep_stop ::
  "sandbox \<Rightarrow> (nat \<Rightarrow> db \<Rightarrow> db) \<Rightarrow> time \<Rightarrow> string \<Rightarrow> computer \<Rightarrow> computer_ref \<Rightarrow> notification list dbprog" where
  "sleep_stop sb env now eids computer ref =
     prog_bind (prog_catch (call sb (CallStop ref))
       (\<lambda>error. prog_bind (wake_again now (c_id computer)) (\<lambda>_. prog_throw error))) (\<lambda>_.
     prog_bind (prog_env (env 6)) (\<lambda>_.
     prog_bind (prog_tx (update_one db_computers db_computers_update (\<lambda>c. c_id c = c_id computer)
       (\<lambda>c. c\<lparr>c_state := Suspended, c_controlHolder := HolderNone, c_controlLeaseId := None,
              c_controlLeaseExpiresAt := None, c_controlBotId := None, c_controlRunId := None,
              c_updatedAt := now\<rparr>))) (\<lambda>_.
     prog_bind (prog_env (env 7)) (\<lambda>_.
     prog_bind (prog_gets (\<lambda>s. filter (\<lambda>b. b_computerId b = Some (c_id computer)) (db_bots s))) (\<lambda>bots.
     sleep_events now eids (c_workspaceId computer) bots 0)))))"

definition sleep_confirm ::
  "sandbox \<Rightarrow> (nat \<Rightarrow> db \<Rightarrow> db) \<Rightarrow> bool \<Rightarrow> string option \<Rightarrow> (nat \<Rightarrow> time) \<Rightarrow> string \<Rightarrow> run_status list \<Rightarrow>
   computer \<Rightarrow> computer_ref \<Rightarrow> notification list dbprog" where
  "sleep_confirm sb env fails configured clock eids statuses computer ref =
     prog_bind (prog_gets (\<lambda>s. (find (\<lambda>c. c_id c = c_id computer) (db_computers s),
         findActiveRun (c_id computer) statuses s))) (\<lambda>(current, activeAfterCheckpoint).
     if activeAfterCheckpoint \<noteq> None
       \<or> (case current of None \<Rightarrow> True
          | Some c \<Rightarrow> c_state c \<noteq> Suspending \<or> c_providerRef c \<noteq> c_providerRef computer \<or> c_updatedAt c \<noteq> clock 2)
     then prog_bind (prog_env (env 5)) (\<lambda>_.
       prog_bind (wake_again (clock 3) (c_id computer)) (\<lambda>_.
       prog_bind (scheduleComputerSleep fails configured (clock 3) (c_id computer)) (\<lambda>_. prog_return [])))
     else prog_bind (prog_env (env 5)) (\<lambda>_. sleep_stop sb env (clock 3) eids computer ref))"

definition sleep_checkpoint ::
  "sandbox \<Rightarrow> (nat \<Rightarrow> db \<Rightarrow> db) \<Rightarrow> bool \<Rightarrow> string option \<Rightarrow> (nat \<Rightarrow> time) \<Rightarrow> string \<Rightarrow> computer \<Rightarrow>
   notification list dbprog" where
  "sleep_checkpoint sb env fails configured clock eids computer =
     (let statuses = (if hasActiveComputerControl (clock 1) (Some computer) then ACTIVE_RUN_STATUSES
        else filter (\<lambda>st. st \<noteq> WaitingTakeover) ACTIVE_RUN_STATUSES) in
      prog_bind (prog_gets (findActiveRun (c_id computer) statuses)) (\<lambda>active.
      if active \<noteq> None
      then prog_bind (scheduleComputerSleep fails configured (clock 1) (c_id computer)) (\<lambda>_. prog_return [])
      else
        prog_bind (prog_lift (toComputerRef computer)) (\<lambda>ref.
        prog_bind (prog_env (env 2)) (\<lambda>_.
        prog_bind (checkpointComputerWorkspace sb (c_homeKey computer) ref) (\<lambda>revision.
        prog_bind (prog_env (env 3)) (\<lambda>_.
        prog_bind (prog_tx (sleep_claim computer (clock 2) revision)) (\<lambda>recorded.
        if recorded \<noteq> 1
        then prog_bind (scheduleComputerSleep fails configured (clock 2) (c_id computer)) (\<lambda>_. prog_return [])
        else prog_bind (prog_env (env 4)) (\<lambda>_.
          sleep_confirm sb env fails configured clock eids statuses computer ref))))))))"

definition awake_computer :: "string \<Rightarrow> db \<Rightarrow> computer option" where
  "awake_computer computerId s = (case find (\<lambda>c. c_id c = computerId) (db_computers s) of
     None \<Rightarrow> None
   | Some c \<Rightarrow> if \<not> truthy (c_providerRef c) \<or> c_state c \<noteq> CompRunning then None else Some c)"

text \<open>The computer is loaded again after an expired control has been released.\<close>

definition sleep_reloaded ::
  "sandbox \<Rightarrow> (nat \<Rightarrow> db \<Rightarrow> db) \<Rightarrow> bool \<Rightarrow> string option \<Rightarrow> (nat \<Rightarrow> time) \<Rightarrow> string \<Rightarrow> string \<Rightarrow>
   notification list \<Rightarrow> notification list dbprog" where
  "sleep_reloaded sb env fails configured clock eids computerId ns =
     prog_bind (prog_env (env 1)) (\<lambda>_.
     prog_bind (prog_gets (awake_computer computerId)) (\<lambda>again.
     case again of
       None \<Rightarrow> prog_return ns
     | Some c2 \<Rightarrow> prog_bind (sleep_checkpoint sb env fails configured clock eids c2) (\<lambda>rest.
         prog_return (ns @ rest))))"

definition sleepComputerIfIdle ::
  "sandbox \<Rightarrow> (nat \<Rightarrow> db \<Rightarrow> db) \<Rightarrow> (nat \<Rightarrow> db \<Rightarrow> db) \<Rightarrow> bool \<Rightarrow> string option \<Rightarrow> (nat \<Rightarrow> time) \<Rightarrow> string \<Rightarrow>
   string \<Rightarrow> string \<Rightarrow> notification list dbprog" where
  "sleepComputerIfIdle sb env xenv fails configured clock eid eids computerId =
     prog_bind (prog_gets (awake_computer computerId)) (\<lambda>loaded.
     case loaded of
       None \<Rightarrow> prog_return []
     | Some c \<Rightarrow>
         prog_bind (prog_env (env 0)) (\<lambda>_.
         if truthy (c_controlBotId c) \<and> truthy (c_controlLeaseId c) \<and> \<not> hasActiveComputerControl (clock 0) (Some c)
         then
           prog_bind (expireComputerControl sb xenv fails (clock 0) eid (c_id c) (the (c_controlLeaseId c))) (\<lambda>(expired, ns).
           sleep_reloaded sb env fails configured clock eids computerId ns)
         else sleep_checkpoint sb env fails configured clock eids c))"

section \<open>Contracts\<close>

lemma log_call_step [tx_rules]: "prog_rel (db_step del) (log_call c)"
  by (auto simp: log_call_def prog_rel_def intro!: db_step_frame)

lemma prog_lift_step [tx_rules]: "prog_rel (db_step del) (prog_lift r)"
  unfolding prog_lift_def by (cases r) (auto intro!: tx_rules)

lemma call_step [tx_rules]: "prog_rel (db_step del) (call sb c)"
  unfolding call_def by (intro tx_rules)

lemma ignore_error_step [tx_rules]: "prog_rel (db_step del) m \<Longrightarrow> prog_rel (db_step del) (ignore_error m)"
  unfolding ignore_error_def by (intro tx_rules)

lemma control_steps [tx_rules]:
  "prog_rel (db_step del) (scheduleComputerControlExpiry f i l t)"
  "prog_rel (db_step del) (enqueueTakeoverContinuation f k)"
  "prog_rel (db_step del) (scheduleComputerSleep f cfg now i)"
  unfolding scheduleComputerControlExpiry_def enqueueTakeoverContinuation_def scheduleComputerSleep_def
  by (intro tx_rules)+

lemma expireComputerControl_step:
  assumes "\<And>i. env_ok del (env i)"
  shows "prog_rel (db_step del) (expireComputerControl sb env fails now eid computerId leaseId)"
  unfolding expireComputerControl_def expire_release_def by (intro tx_rules assms finalizeComputerControlRelease_step)

lemma workspace_steps [tx_rules]:
  "prog_rel (db_step del) (restoreComputerWorkspace sb h ref)"
  "prog_rel (db_step del) (ensureComputerWorkspaceLayout sb ref scope b)"
  "prog_rel (db_step del) (checkpointComputerWorkspace sb h ref)"
  unfolding restoreComputerWorkspace_def ensureComputerWorkspaceLayout_def checkpointComputerWorkspace_def
  by (intro tx_rules)+

lemma sleep_events_step [tx_rules]: "prog_rel (db_step del) (sleep_events now eids w bs n)"
proof (induction bs arbitrary: n)
  case (Cons b bs)
  show ?case unfolding sleep_events.simps appendEvent_def by (intro tx_rules Cons.IH)
qed (simp only: sleep_events.simps tx_rules)

lemma sleepComputerIfIdle_step:
  assumes "\<And>i. env_ok del (env i)" and "\<And>i. env_ok del (xenv i)"
  shows "prog_rel (db_step del) (sleepComputerIfIdle sb env xenv fails configured clock eid eids computerId)"
  unfolding sleepComputerIfIdle_def sleep_reloaded_def sleep_checkpoint_def sleep_confirm_def sleep_stop_def sleep_claim_def
    wake_again_def Let_def
  by (intro tx_rules assms expireComputerControl_step)

end
