(* ===== verification/ComputerProvision.thy ===== *)
theory ComputerProvision
  imports ComputerSleep "HOL-Library.Sublist"
begin

text \<open>
  Computers and their sandbox provider, second part: provisioning, reconnecting and replacing a
  computer (packages/adapters/src/computer-lifecycle.ts) and the fence that stops a managed
  computer (managed-computer-lifecycle.ts). The directory on the local disk that
  \<open>provisionComputer\<close> creates is not part of the state.
\<close>

definition isUnrecoverableSandboxError :: "db_error \<Rightarrow> bool" where
  "isUnrecoverableSandboxError error = (case error of
     Thrown m \<Rightarrow> list_ex (\<lambda>w. sublist w (js_lower m))
       [''not found'', ''does not exist'', ''404'', ''not_found'', ''killed'', ''doesn'' @ [CHR 0x27] @ ''t exist'', ''sandbox not found'']
   | _ \<Rightarrow> False)"

definition BOOT_WAIT_ATTEMPTS :: nat where "BOOT_WAIT_ATTEMPTS = 40"

record adapter_context =
  ax_botId :: "string option"
  ax_aborted :: "nat \<Rightarrow> bool"   \<comment> \<open>the signal, at each attempt\<close>

definition control_lapsed :: "time \<Rightarrow> computer \<Rightarrow> bool" where
  "control_lapsed now c \<longleftrightarrow> truthy (c_controlLeaseId c) \<and> \<not> hasActiveComputerControl now (Some c)"

text \<open>Both entry points first settle a control that has lapsed.\<close>

definition settle_control ::
  "sandbox \<Rightarrow> (nat \<Rightarrow> db \<Rightarrow> db) \<Rightarrow> bool \<Rightarrow> time \<Rightarrow> string \<Rightarrow> string \<Rightarrow> computer dbprog" where
  "settle_control sb xenv fails now eid computerId =
     prog_bind (find_computer computerId) (\<lambda>existing.
     if \<not> control_lapsed now existing then prog_return existing
     else
       prog_bind (expireComputerControl sb xenv fails now eid (c_id existing) (the (c_controlLeaseId existing))) (\<lambda>_.
       prog_bind (find_computer computerId) (\<lambda>again.
       if control_lapsed now again then prog_throw (Thrown ''computer control revocation is still in progress'')
       else prog_return again)))"

definition reconnectComputer :: "sandbox \<Rightarrow> computer \<Rightarrow> adapter_context \<Rightarrow> computer_ref dbprog" where
  "reconnectComputer sb computer context =
     prog_bind (log_call (CallProvision (c_homeKey computer) (c_providerRef computer) (c_kind computer))) (\<lambda>_.
     prog_bind (prog_lift (sb_provision sb (c_homeKey computer) (c_providerRef computer) (c_kind computer))) (\<lambda>ref.
     prog_bind (call sb (CallPrepare ref)) (\<lambda>_.
     prog_bind (prog_lift (parseComputerMode (c_scope computer))) (\<lambda>scope.
     prog_bind (ensureComputerWorkspaceLayout sb ref scope (ax_botId context)) (\<lambda>_.
     prog_return ref)))))"

text \<open>The poll: \<open>n\<close> attempts are left; \<open>env i\<close> is the wait after attempt \<open>i\<close>.\<close>

fun wait_ready :: "nat \<Rightarrow> (nat \<Rightarrow> db \<Rightarrow> db) \<Rightarrow> string \<Rightarrow> adapter_context \<Rightarrow> computer dbprog" where
  "wait_ready 0 env computerId context = find_computer computerId"
| "wait_ready (Suc n) env computerId context =
     prog_bind (find_computer computerId) (\<lambda>current.
     if c_state current = CompRunning \<and> truthy (c_providerRef current) then prog_return current
     else if c_state current \<noteq> Booting \<and> c_state current \<noteq> Suspending then prog_return current
     else prog_bind (prog_env (env n)) (\<lambda>_.
       if ax_aborted context n then prog_throw (Thrown ''computer boot aborted'')
       else wait_ready n env computerId context))"

definition waitForComputerReady :: "(nat \<Rightarrow> db \<Rightarrow> db) \<Rightarrow> string \<Rightarrow> adapter_context \<Rightarrow> computer dbprog" where
  "waitForComputerReady = wait_ready BOOT_WAIT_ATTEMPTS"

definition rollback_calls :: "sandbox \<Rightarrow> computer_ref \<Rightarrow> db_error \<Rightarrow> unit dbprog" where
  "rollback_calls sb computer cause =
     prog_bind (ignore_error (call sb (CallReleaseScreen computer))) (\<lambda>_.
     if cr_fresh computer then call sb (CallDestroy computer)
     else if cause = ComputerBusyError
       then prog_catch (call sb (CallStop computer)) (\<lambda>_. call sb (CallDestroy computer))
     else call sb (CallStop computer))"

definition rollbackProvisionedComputer :: "sandbox \<Rightarrow> computer_ref \<Rightarrow> db_error \<Rightarrow> db_error option dbprog" where
  "rollbackProvisionedComputer sb computer cause =
     prog_catch (prog_bind (rollback_calls sb computer cause) (\<lambda>_. prog_return None)) (\<lambda>error. prog_return (Some error))"

text \<open>The filter on the bots of the computer, applied when the context names a bot.\<close>

definition bot_may_use :: "db \<Rightarrow> string \<Rightarrow> string option \<Rightarrow> bool" where
  "bot_may_use s computerId botId \<longleftrightarrow> (case botId of
     None \<Rightarrow> True
   | Some i \<Rightarrow> i = [] \<or> (\<exists>b \<in> set (db_bots s). b_id b = i \<and> b_computerId b = Some computerId
       \<and> b_archivedAt b = None \<and> (\<not> b_managedByBrandWell b \<or> b_managedStatus b = ''active'')))"

definition boot_claim :: "time \<Rightarrow> string \<Rightarrow> string option \<Rightarrow> nat dbtx" where
  "boot_claim now computerId botId =
     tx_bind (tx_gets (\<lambda>s. bot_may_use s computerId botId)) (\<lambda>may.
     computer_updateMany now (\<lambda>c. c_id c = computerId \<and> c_state c \<in> {Stopped, Suspended, CompError} \<and> may)
       (\<lambda>c. c\<lparr>c_state := Booting\<rparr>))"

definition boot_activate ::
  "time \<Rightarrow> string \<Rightarrow> string option \<Rightarrow> bool \<Rightarrow> control_holder \<Rightarrow> computer_ref \<Rightarrow> nat dbtx" where
  "boot_activate now computerId botId activeControl holder ref =
     tx_bind (tx_gets (\<lambda>s. bot_may_use s computerId botId)) (\<lambda>may.
     computer_updateMany now (\<lambda>c. c_id c = computerId \<and> c_state c = Booting \<and> may)
       (\<lambda>c. let d = c\<lparr>c_state := CompRunning, c_providerRef := Some (cr_providerRef ref), c_kind := cr_kind ref,
               c_controlHolder := (if activeControl then HolderUser else holder)\<rparr>
            in if activeControl then d
               else d\<lparr>c_controlLeaseId := None, c_controlLeaseExpiresAt := None, c_controlBotId := None,
                      c_controlRunId := None\<rparr>))"

text \<open>From the provider's answer to the activation: what the \<open>try\<close> block does after \<open>provisioned\<close> is set.\<close>

definition boot_finish ::
  "sandbox \<Rightarrow> (nat \<Rightarrow> db \<Rightarrow> db) \<Rightarrow> (nat \<Rightarrow> time) \<Rightarrow> computer \<Rightarrow> adapter_context \<Rightarrow> control_holder \<Rightarrow>
   computer_ref \<Rightarrow> computer_ref dbprog" where
  "boot_finish sb env clock existing context holder ref =
     prog_bind (call sb (CallPrepare ref)) (\<lambda>_.
     prog_bind (if cr_fresh ref \<or> \<not> truthy (c_providerRef existing)
           \<or> c_providerRef existing \<noteq> Some (cr_providerRef ref) \<or> c_kind existing \<noteq> cr_kind ref
         then restoreComputerWorkspace sb (c_homeKey existing) ref
         else prog_return ()) (\<lambda>_.
     prog_bind (prog_lift (parseComputerMode (c_scope existing))) (\<lambda>scope.
     prog_bind (ensureComputerWorkspaceLayout sb ref scope (ax_botId context)) (\<lambda>_.
     prog_bind (prog_env (env 4)) (\<lambda>_.
     prog_bind (prog_tx (boot_activate (clock 2) (c_id existing) (ax_botId context)
         (hasActiveComputerControl (clock 2) (Some existing)) holder ref)) (\<lambda>activated.
     if activated \<noteq> 1 then prog_throw ComputerBusyError else prog_return ref))))))"

text \<open>The \<open>catch\<close> block. The write that records the failure cannot fail here.\<close>

definition record_boot_failure ::
  "(nat \<Rightarrow> db \<Rightarrow> db) \<Rightarrow> (nat \<Rightarrow> time) \<Rightarrow> string \<Rightarrow> computer_ref option \<Rightarrow> db_error \<Rightarrow> db_error option \<Rightarrow>
   computer_ref dbprog" where
  "record_boot_failure env clock computerId provisioned error rollbackError =
     prog_bind (prog_env (env 5)) (\<lambda>_.
     prog_bind (prog_tx (computer_updateMany (clock 3) (\<lambda>c. c_id c = computerId \<and> c_state c = Booting)
       (\<lambda>c. let d = c\<lparr>c_state := CompError\<rparr> in
          case (rollbackError, provisioned) of
            (Some _, Some ref) \<Rightarrow> d\<lparr>c_providerRef := Some (cr_providerRef ref), c_kind := cr_kind ref\<rparr>
          | _ \<Rightarrow> d))) (\<lambda>_.
     if rollbackError \<noteq> None
     then prog_throw (Thrown ''Computer provisioning failed and its sandbox could not be rolled back'')
     else prog_throw error))"

definition boot_failed ::
  "sandbox \<Rightarrow> (nat \<Rightarrow> db \<Rightarrow> db) \<Rightarrow> (nat \<Rightarrow> time) \<Rightarrow> string \<Rightarrow> computer_ref option \<Rightarrow> db_error \<Rightarrow> computer_ref dbprog" where
  "boot_failed sb env clock computerId provisioned error =
     prog_bind (case provisioned of
         None \<Rightarrow> prog_return None
       | Some ref \<Rightarrow> rollbackProvisionedComputer sb ref error)
     (record_boot_failure env clock computerId provisioned error)"

definition boot ::
  "sandbox \<Rightarrow> (nat \<Rightarrow> db \<Rightarrow> db) \<Rightarrow> (nat \<Rightarrow> time) \<Rightarrow> computer \<Rightarrow> adapter_context \<Rightarrow> control_holder \<Rightarrow>
   computer_ref dbprog" where
  "boot sb env clock existing context holder =
     prog_bind (prog_tx (boot_claim (clock 1) (c_id existing) (ax_botId context))) (\<lambda>claimed.
     if claimed \<noteq> 1 then prog_throw ComputerBusyError
     else
       prog_bind (prog_env (env 3)) (\<lambda>_.
       prog_bind (log_call (CallProvision (c_homeKey existing) (c_providerRef existing) (c_kind existing))) (\<lambda>_.
       case sb_provision sb (c_homeKey existing) (c_providerRef existing) (c_kind existing) of
         Inl error \<Rightarrow> boot_failed sb env clock (c_id existing) None error
       | Inr ref \<Rightarrow> prog_catch (boot_finish sb env clock existing context holder ref)
           (boot_failed sb env clock (c_id existing) (Some ref)))))"

text \<open>After the wait for another worker that boots or stops the computer.\<close>

definition provision_waited ::
  "sandbox \<Rightarrow> (nat \<Rightarrow> db \<Rightarrow> db) \<Rightarrow> (nat \<Rightarrow> time) \<Rightarrow> string \<Rightarrow> adapter_context \<Rightarrow> control_holder \<Rightarrow> computer \<Rightarrow>
   computer_ref dbprog" where
  "provision_waited sb env clock computerId context holder ready =
     prog_bind (prog_env (env 1)) (\<lambda>_.
     if c_state ready = CompRunning \<and> truthy (c_providerRef ready)
     then reconnectComputer sb ready context
     else
       prog_bind (find_computer computerId) (\<lambda>again.
       prog_bind (prog_env (env 2)) (\<lambda>_. boot sb env clock again context holder)))"

definition provisionComputer ::
  "sandbox \<Rightarrow> (nat \<Rightarrow> db \<Rightarrow> db) \<Rightarrow> (nat \<Rightarrow> db \<Rightarrow> db) \<Rightarrow> (nat \<Rightarrow> db \<Rightarrow> db) \<Rightarrow> bool \<Rightarrow> (nat \<Rightarrow> time) \<Rightarrow> string \<Rightarrow>
   string \<Rightarrow> adapter_context \<Rightarrow> control_holder \<Rightarrow> computer_ref dbprog" where
  "provisionComputer sb env xenv wenv fails clock eid computerId context holder =
     prog_bind (settle_control sb xenv fails (clock 0) eid computerId) (\<lambda>existing.
     prog_bind (prog_env (env 0)) (\<lambda>_.
     if c_state existing = CompRunning \<and> truthy (c_providerRef existing)
     then reconnectComputer sb existing context
     else if c_state existing = Booting \<or> c_state existing = Suspending
     then
       prog_bind (waitForComputerReady wenv computerId context)
         (provision_waited sb env clock computerId context holder)
     else boot sb env clock existing context holder))"

section \<open>Replacing a computer\<close>

datatype replace_mode = ReplaceRecover | ReplaceReset | ReplaceUpdate

definition computerSupportsUpdate :: "string \<Rightarrow> bool" where
  "computerSupportsUpdate kind \<longleftrightarrow> kind \<noteq> ''desktop''"

definition no_user_control :: "time \<Rightarrow> computer \<Rightarrow> bool" where
  "no_user_control now c \<longleftrightarrow> c_controlHolder c \<noteq> HolderUser \<or> c_controlLeaseId c = None
     \<or> (case c_controlLeaseExpiresAt c of None \<Rightarrow> True | Some t \<Rightarrow> t \<le> now)"

definition replace_claim :: "time \<Rightarrow> string \<Rightarrow> string \<Rightarrow> comp_state \<Rightarrow> nat dbtx" where
  "replace_claim now computerId botId previous =
     tx_bind (find_many db_leases (\<lambda>l. live_lease computerId now l \<and> l_botId l \<noteq> botId)) (\<lambda>others.
     computer_updateMany now (\<lambda>c. c_id c = computerId \<and> c_state c = previous \<and> others = [] \<and> no_user_control now c)
       (\<lambda>c. c\<lparr>c_state := Suspending\<rparr>))"

text \<open>An error that the mode or the provider allows to pass.\<close>

definition tolerated :: "replace_mode \<Rightarrow> db_error \<Rightarrow> bool" where
  "tolerated mode error \<longleftrightarrow> mode = ReplaceRecover \<or> isUnrecoverableSandboxError error"

definition tolerate :: "replace_mode \<Rightarrow> unit dbprog \<Rightarrow> unit dbprog" where
  "tolerate mode m = prog_catch m (\<lambda>error. if tolerated mode error then prog_return () else prog_throw error)"

definition replace_old ::
  "sandbox \<Rightarrow> (nat \<Rightarrow> db \<Rightarrow> db) \<Rightarrow> (nat \<Rightarrow> time) \<Rightarrow> computer \<Rightarrow> replace_mode \<Rightarrow> computer_ref option \<Rightarrow> unit dbprog" where
  "replace_old sb env clock existing mode oldRef =
     prog_bind (case oldRef of
         None \<Rightarrow> prog_return ()
       | Some ref \<Rightarrow>
           prog_bind (if c_state existing = CompRunning \<and> mode \<noteq> ReplaceReset
             then tolerate mode (prog_bind (checkpointAndRecordComputerWorkspace sb (env 3) (clock 2) (c_id existing)
               (c_homeKey existing) ref) (\<lambda>_. prog_return ()))
             else prog_return ()) (\<lambda>_.
           prog_bind (ignore_error (call sb (CallReleaseScreen ref))) (\<lambda>_.
           tolerate mode (call sb (CallDestroy ref))))) (\<lambda>_.
     prog_bind (prog_env (env 4)) (\<lambda>_.
     prog_bind (prog_tx (update_one db_computers db_computers_update (\<lambda>c. c_id c = c_id existing)
       (\<lambda>c. c\<lparr>c_state := Stopped, c_providerRef := None, c_controlHolder := HolderNone, c_controlLeaseId := None,
              c_controlLeaseExpiresAt := None, c_controlBotId := None, c_controlRunId := None,
              c_updatedAt := clock 3\<rparr>))) (\<lambda>_. prog_return ())))"

text \<open>
  The call of \<open>provisionComputer\<close> is returned, not awaited, inside the \<open>try\<close>: its failure does not
  reach the \<open>catch\<close> block, which therefore covers \<open>replace_old\<close> only.
\<close>

definition replaceComputer ::
  "sandbox \<Rightarrow> (nat \<Rightarrow> db \<Rightarrow> db) \<Rightarrow> (nat \<Rightarrow> db \<Rightarrow> db) \<Rightarrow> computer_ref dbprog \<Rightarrow> bool \<Rightarrow> (nat \<Rightarrow> time) \<Rightarrow> string \<Rightarrow>
   string \<Rightarrow> replace_mode \<Rightarrow> adapter_context \<Rightarrow> computer_ref dbprog" where
  "replaceComputer sb env xenv provision fails clock eid computerId mode context =
     prog_bind (settle_control sb xenv fails (clock 0) eid computerId) (\<lambda>existing.
     if \<not> truthy (ax_botId context) then prog_throw (Thrown ''computer replacement requires a bot id'')
     else if hasActiveComputerControl (clock 0) (Some existing) then prog_throw ComputerBusyError
     else if c_state existing = Booting \<or> c_state existing = Suspending then prog_throw ComputerBusyError
     else
       prog_bind (prog_env (env 0)) (\<lambda>_.
       prog_bind (prog_tx (replace_claim (clock 1) computerId (the (ax_botId context)) (c_state existing))) (\<lambda>claimed.
       if claimed \<noteq> 1 then prog_throw ComputerBusyError
       else
         prog_bind (prog_env (env 1)) (\<lambda>_.
         prog_bind (prog_gets (findActiveRun computerId ACTIVE_RUN_STATUSES)) (\<lambda>activeRun.
         if activeRun \<noteq> None
         then prog_bind (prog_env (env 2)) (\<lambda>_.
           prog_bind (prog_tx (computer_updateMany (clock 2) (\<lambda>c. c_id c = computerId \<and> c_state c = Suspending)
             (\<lambda>c. c\<lparr>c_state := c_state existing\<rparr>))) (\<lambda>_.
           prog_throw ComputerBusyError))
         else
           prog_bind (if truthy (c_providerRef existing)
             then prog_bind (prog_lift (toComputerRef existing)) (\<lambda>ref. prog_return (Some ref))
             else prog_return None) (\<lambda>oldRef.
           prog_bind (prog_catch (replace_old sb env clock existing mode oldRef) (\<lambda>error.
             prog_bind (prog_tx (computer_updateMany (clock 3) (\<lambda>c. c_id c = computerId)
               (\<lambda>c. c\<lparr>c_state := CompError\<rparr>))) (\<lambda>_. prog_throw error))) (\<lambda>_.
           provision)))))))"

section \<open>Managed computers\<close>

record fence_input =
  fi_computerId :: string
  fi_botId :: string
  fi_reason :: string

definition fence_fields :: "time \<Rightarrow> computer \<Rightarrow> computer \<Rightarrow> computer" where
  "fence_fields now computer c = c\<lparr>
     c_state := (if truthy (c_providerRef computer) then Suspending else Stopped), c_screenUrl := None,
     c_controlHolder := HolderNone, c_controlLeaseId := None, c_controlLeaseExpiresAt := None,
     c_controlBotId := None, c_controlRunId := None, c_controlUserId := None, c_controlActorType := None,
     c_controlActorName := None, c_controlStartedAt := None, c_controlFence := c_controlFence c + 1,
     c_executionRunId := None, c_executionBotId := None, c_executionLeaseExpiresAt := None,
     c_executionFence := c_executionFence c + 1, c_lastComputerState := Some (c_state computer),
     c_lastComputerActivityAt := Some now\<rparr>"

definition fence_runs :: "time \<Rightarrow> string \<Rightarrow> string list \<Rightarrow> string list \<Rightarrow> unit dbtx" where
  "fence_runs now reason runIds taskIds =
     tx_bind (if runIds = [] then tx_return 0
       else run_updateMany now (\<lambda>r. r_id r \<in> set runIds \<and> isActive (r_status r))
         (\<lambda>r. r\<lparr>r_status := Cancelled, r_completedAt := Some now, r_error := Some (take 500 reason),
                r_leaseOwner := None, r_leaseExpiresAt := None\<rparr>)) (\<lambda>_.
     tx_bind (if taskIds = [] then tx_return 0
       else task_updateMany now (\<lambda>t. t_id t \<in> set taskIds) (\<lambda>t. t\<lparr>t_status := Cancelled\<rparr>)) (\<lambda>_.
     tx_return ()))"

definition fenceManagedComputerForLifecycleInTransaction ::
  "time \<Rightarrow> fence_input \<Rightarrow> (computer \<times> string list) dbtx" where
  "fenceManagedComputerForLifecycleInTransaction now input =
     tx_bind (tx_gets (\<lambda>s. find (\<lambda>c. c_id c = fi_computerId input \<and> c_scope c = ''dedicated''
       \<and> (\<exists>b \<in> set (db_bots s). b_id b = fi_botId input \<and> b_computerId b = Some (c_id c))) (db_computers s))) (\<lambda>found.
     case found of
       None \<Rightarrow> tx_throw ManagedComputerStopPendingError
     | Some computer \<Rightarrow>
         tx_bind (find_many db_runs (\<lambda>r. r_botId r = fi_botId input \<and> isActive (r_status r))) (\<lambda>activeRuns.
         let runIds = map r_id activeRuns; taskIds = remdups (map r_taskId activeRuns) in
         tx_bind (fence_runs now (fi_reason input) runIds taskIds) (\<lambda>_.
         tx_bind (lease_deleteMany (\<lambda>l. l_computerId l = c_id computer)) (\<lambda>_.
         tx_bind (computer_updateMany now (\<lambda>c. c_id c = c_id computer \<and> c_state c = c_state computer
             \<and> c_providerRef c = c_providerRef computer) (fence_fields now computer)) (\<lambda>claimed.
         if claimed \<noteq> 1 then tx_throw ManagedComputerStopPendingError
         else tx_return (computer, runIds))))))"

fun cancel_jobs :: "(string \<Rightarrow> bool) \<Rightarrow> string list \<Rightarrow> unit dbprog" where
  "cancel_jobs fails [] = prog_return ()"
| "cancel_jobs fails (i # is) =
     prog_bind (ignore_error (job_cancel (fails i) (runJobKey i))) (\<lambda>_. cancel_jobs fails is)"

definition stop_fenced ::
  "sandbox \<Rightarrow> (nat \<Rightarrow> db \<Rightarrow> db) \<Rightarrow> (nat \<Rightarrow> time) \<Rightarrow> computer \<Rightarrow> computer_ref \<Rightarrow> unit dbprog" where
  "stop_fenced sb env clock fenced ref =
     prog_bind (ignore_error (call sb (CallReleaseScreen ref))) (\<lambda>_.
     prog_bind (call sb (CallStop ref)) (\<lambda>_.
     prog_bind (prog_env (env 2)) (\<lambda>_.
     prog_bind (prog_tx (computer_updateMany (clock 2) (\<lambda>c. c_id c = c_id fenced \<and> c_state c = Suspending
         \<and> c_providerRef c = c_providerRef fenced)
       (\<lambda>c. c\<lparr>c_state := Stopped, c_screenUrl := None, c_lastComputerState := Some (c_state fenced),
              c_lastComputerActivityAt := Some (clock 2)\<rparr>))) (\<lambda>stopped.
     if stopped = 1 then prog_return ()
     else
       prog_bind (prog_env (env 3)) (\<lambda>_.
       prog_bind (prog_gets (\<lambda>s. find (\<lambda>c. c_id c = c_id fenced) (db_computers s))) (\<lambda>current.
       if (case current of None \<Rightarrow> False
           | Some c \<Rightarrow> c_state c = Stopped \<and> c_providerRef c = c_providerRef fenced)
       then prog_return () else prog_throw ManagedComputerStopPendingError))))))"

definition stopManagedComputerForLifecycle ::
  "sandbox \<Rightarrow> (nat \<Rightarrow> db \<Rightarrow> db) \<Rightarrow> unit dbprog \<Rightarrow> (string \<Rightarrow> bool) \<Rightarrow> (nat \<Rightarrow> time) \<Rightarrow> fence_input \<Rightarrow> bool \<Rightarrow>
   unit dbprog" where
  "stopManagedComputerForLifecycle sb env markCheckpointed fails clock input checkpointRequired =
     prog_bind (prog_tx (fenceManagedComputerForLifecycleInTransaction (clock 0) input)) (\<lambda>(fenced, runIds).
     prog_bind (cancel_jobs fails runIds) (\<lambda>_.
     if \<not> truthy (c_providerRef fenced) then prog_return ()
     else
       prog_bind (prog_lift (toComputerRef fenced)) (\<lambda>ref.
       prog_bind (prog_env (env 0)) (\<lambda>_.
       prog_bind (if checkpointRequired \<and> (c_state fenced = CompRunning \<or> c_state fenced = Suspending)
         then prog_bind (checkpointAndRecordComputerWorkspace sb (env 1) (clock 1) (c_id fenced) (c_homeKey fenced) ref) (\<lambda>_.
           markCheckpointed)
         else prog_return ()) (\<lambda>_.
       stop_fenced sb env clock fenced ref)))))"

section \<open>Contracts\<close>

lemma checkpointAndRecord_step [tx_rules]:
  "env_ok del env \<Longrightarrow> prog_rel (db_step del) (checkpointAndRecordComputerWorkspace sb env now i h ref)"
  unfolding checkpointAndRecordComputerWorkspace_def by (intro tx_rules)

lemma settle_control_step:
  assumes "\<And>i. env_ok del (env i)"
  shows "prog_rel (db_step del) (settle_control sb env fails now eid i)"
  unfolding settle_control_def by (intro tx_rules find_computer_step expireComputerControl_step assms)

lemma wait_ready_step:
  assumes "\<And>i. env_ok del (env i)"
  shows "prog_rel (db_step del) (wait_ready n env i context)"
proof (induction n)
  case (Suc n)
  show ?case unfolding wait_ready.simps by (intro tx_rules assms Suc.IH)
qed (simp only: wait_ready.simps tx_rules)

lemma boot_failed_step:
  assumes "\<And>i. env_ok del (env i)"
  shows "prog_rel (db_step del) (boot_failed sb env clock i provisioned error)"
  unfolding boot_failed_def record_boot_failure_def rollbackProvisionedComputer_def rollback_calls_def by (intro tx_rules assms)

lemma boot_step:
  assumes "\<And>i. env_ok del (env i)"
  shows "prog_rel (db_step del) (boot sb env clock existing context holder)"
  unfolding boot_def boot_claim_def boot_finish_def boot_activate_def
  by (cases "sb_provision sb (c_homeKey existing) (c_providerRef existing) (c_kind existing)")
    (simp_all only: sum.case, (intro tx_rules assms boot_failed_step)+)

lemma provisionComputer_step:
  assumes "\<And>i. env_ok del (env i)" and "\<And>i. env_ok del (xenv i)" and "\<And>i. env_ok del (wenv i)"
  shows "prog_rel (db_step del) (provisionComputer sb env xenv wenv fails clock eid computerId context holder)"
  unfolding provisionComputer_def provision_waited_def reconnectComputer_def waitForComputerReady_def
  by (intro tx_rules assms settle_control_step wait_ready_step boot_step)

end
