(* ===== verification/Triples.thy ===== *)
theory Triples
  imports Prelude
begin

text \<open>
  Weakest preconditions of programs of several steps: \<open>wp m Q s\<close> says that running \<open>m\<close> in \<open>s\<close>
  ends with an answer or error and a state that satisfy \<open>Q\<close>. Every program of this development
  ends, so there is no difference between partial and total correctness.
\<close>

named_theorems wp_simps \<open>weakest preconditions of the program constructs\<close>

definition wp :: "('s, 'e, 'a) prog \<Rightarrow> ('e + 'a \<Rightarrow> 's \<Rightarrow> bool) \<Rightarrow> 's \<Rightarrow> bool" where
  "wp m Q s \<longleftrightarrow> (case m s of (r, s') \<Rightarrow> Q r s')"

definition after :: "('e + 'b \<Rightarrow> 's \<Rightarrow> bool) \<Rightarrow> ('a \<Rightarrow> 's \<Rightarrow> bool) \<Rightarrow> 'e + 'a \<Rightarrow> 's \<Rightarrow> bool" where
  "after Q P r s \<longleftrightarrow> (case r of Inl e \<Rightarrow> Q (Inl e) s | Inr a \<Rightarrow> P a s)"

lemma after_simps [simp, wp_simps]: "after Q P (Inl e) s = Q (Inl e) s" "after Q P (Inr a) s = P a s"
  by (simp_all add: after_def)

lemma wp_run: "m s = (r, s') \<Longrightarrow> wp m Q s \<longleftrightarrow> Q r s'"
  by (simp add: wp_def)

lemma wp_return [wp_simps]: "wp (prog_return a) Q s = Q (Inr a) s"
  by (simp add: wp_def)

lemma wp_throw [wp_simps]: "wp (prog_throw e) Q s = Q (Inl e) s"
  by (simp add: wp_def)

lemma wp_gets [wp_simps]: "wp (prog_gets g) Q s = Q (Inr (g s)) s"
  by (simp add: wp_def)

lemma wp_env [wp_simps]: "wp (prog_env env) Q s = Q (Inr ()) (env s)"
  by (simp add: wp_def)

lemma wp_bind [wp_simps]: "wp (prog_bind m f) Q s = wp m (after Q (\<lambda>a. wp (f a) Q)) s"
  by (simp add: wp_def prog_bind_run after_def split: prod.split sum.split)

lemma wp_catch [wp_simps]:
  "wp (prog_catch m h) Q s = wp m (\<lambda>r s'. case r of Inl e \<Rightarrow> wp (h e) Q s' | Inr a \<Rightarrow> Q (Inr a) s') s"
  by (simp add: wp_def prog_catch_def split: prod.split sum.split)

lemma wp_tx [wp_simps]:
  "wp (prog_tx m) Q s = (case m s of Inl e \<Rightarrow> Q (Inl e) s | Inr v \<Rightarrow> Q (Inr (fst v)) (snd v))"
  by (simp add: wp_def prog_tx_run split: sum.split)

lemma wp_if [wp_simps]: "wp (if b then m else n) Q s = (if b then wp m Q s else wp n Q s)"
  by simp

lemma wp_mono: "wp m Q s \<Longrightarrow> (\<And>r s'. Q r s' \<Longrightarrow> Q' r s') \<Longrightarrow> wp m Q' s"
  by (simp add: wp_def split: prod.splits)

text \<open>A contract between the states gives a postcondition.\<close>

lemma wp_rel: "prog_rel R m \<Longrightarrow> (\<And>r s'. R s s' \<Longrightarrow> Q r s') \<Longrightarrow> wp m Q s"
  by (simp add: wp_def prog_rel_def split: prod.split) (metis snd_conv)

end
