(* ===== verification/ComputerGuarantees.thy ===== *)
theory ComputerGuarantees
  imports ComputerProvision Samples Triples
begin

text \<open>
  What the computer handlers guarantee: a computer is never left between two states, never put to
  sleep under a live lease, and a sandbox that could not be activated is stopped, destroyed or
  still recorded.
\<close>

lemma fence_tx_step: "tx_rel (db_step del) (fenceManagedComputerForLifecycleInTransaction now input)"
  unfolding fenceManagedComputerForLifecycleInTransaction_def fence_runs_def Let_def
  by (intro tx_rules) (auto simp: run_step_intro core_step.cancel)

lemma cancel_jobs_step: "prog_rel (db_step del) (cancel_jobs fails is)"
proof (induction "is")
  case (Cons i "is")
  show ?case unfolding cancel_jobs.simps by (intro tx_rules Cons.IH)
qed (simp only: cancel_jobs.simps tx_rules)

lemma stopManaged_step:
  assumes "\<And>i. env_ok del (env i)" and "prog_rel (db_step del) mark"
  shows "prog_rel (db_step del) (stopManagedComputerForLifecycle sb env mark fails clock input req)"
  unfolding stopManagedComputerForLifecycle_def stop_fenced_def
  by (intro tx_rules assms fence_tx_step cancel_jobs_step)

lemma replaceComputer_step:
  assumes "\<And>i. env_ok del (env i)" and "\<And>i. env_ok del (xenv i)" and "prog_rel (db_step del) prov"
  shows "prog_rel (db_step del) (replaceComputer sb env xenv prov fails clock eid i mode context)"
  unfolding replaceComputer_def replace_old_def replace_claim_def tolerate_def
  by (intro tx_rules assms settle_control_step)

section \<open>State and sandbox of a computer\<close>

definition comp_key :: "computer \<Rightarrow> string \<times> comp_state \<times> string option" where
  "comp_key c = (c_id c, c_state c, c_providerRef c)"

definition look :: "string \<Rightarrow> db \<Rightarrow> (comp_state \<times> string option) option" where
  "look i s = map_of (map comp_key (db_computers s)) i"

definition comp_ids :: "db \<Rightarrow> bool" where
  "comp_ids s \<longleftrightarrow> distinct (map c_id (db_computers s))"

text \<open>A step that leaves the state of every computer alone and forgets no job and no call.\<close>

definition calm :: "db \<Rightarrow> db \<Rightarrow> bool" where
  "calm s s' \<longleftrightarrow> map comp_key (db_computers s') = map comp_key (db_computers s) \<and>
     set (db_jobs s) \<subseteq> set (db_jobs s') \<and> set (db_calls s) \<subseteq> set (db_calls s')"

interpretation calm: state_preorder calm
  by unfold_locales (auto simp: calm_def)

named_theorems calm_rules

lemmas [calm_rules] = calm.rel_rules calm.prel_rules

lemma calm_ids: "calm s s' \<Longrightarrow> comp_ids s' = comp_ids s"
proof -
  assume "calm s s'"
  then have "map fst (map comp_key (db_computers s')) = map fst (map comp_key (db_computers s))"
    by (simp only: calm_def)
  then show ?thesis by (simp add: comp_ids_def comp_key_def comp_def)
qed

lemma calm_look: "calm s s' \<Longrightarrow> look i s' = look i s"
  by (simp only: calm_def look_def)

lemma calm_computers [calm_rules]:
  assumes "\<And>c. comp_key (f c) = comp_key c"
  shows "tx_rel calm (update_many db_computers db_computers_update p f)"
    and "tx_rel calm (update_one db_computers db_computers_update p f)"
  using assms by (auto intro!: tx_relI simp: calm_def update_one_Inr map_updateMany)

lemma calm_other [calm_rules]:
  "tx_rel calm (update_many db_runs db_runs_update p1 f1)"
  "tx_rel calm (update_one db_threads db_threads_update p2 f2)"
  "tx_rel calm (create_row db_events db_events_update k3 c3 r3)"
  "tx_rel calm (find_first g4 p4)" "tx_rel calm (find_many g5 p5)"
  "tx_rel calm (assertRunCanWriteHistory k)"
  by (auto intro!: tx_relI simp: calm_def update_one_Inr create_row_Inr assertRun_run split: if_splits)

lemma calm_log_call [calm_rules]: "prog_rel calm (log_call c)"
  by (auto simp: prog_rel_def log_call_def calm_def)

lemma calm_lift [calm_rules]: "prog_rel calm (prog_lift r)"
  unfolding prog_lift_def by (cases r) (auto intro!: calm_rules)

lemma calm_call [calm_rules]: "prog_rel calm (call sb c)"
  unfolding call_def by (intro calm_rules)

lemma calm_enqueue [calm_rules]: "prog_rel calm (enqueue f j)"
  by (auto simp: enqueue_def prog_rel_def calm_def calm.refl_state)

lemma calm_append [calm_rules]: "tx_rel calm (appendEventInTransaction now eid input)"
  unfolding appendEventInTransaction_def by (intro calm_rules)

lemma calm_case_prod [calm_rules]: "(\<And>a b. tx_rel R (f a b)) \<Longrightarrow> tx_rel R (case v of (a, b) \<Rightarrow> f a b)"
  by (cases v) simp

definition calm_env :: "(nat \<Rightarrow> db \<Rightarrow> db) \<Rightarrow> bool" where
  "calm_env env \<longleftrightarrow> (\<forall>i s. calm s (env i s))"

lemma calm_env_rule [calm_rules]: "calm_env env \<Longrightarrow> prog_rel calm (prog_env (env i))"
  by (simp add: calm_env_def prog_rel_def)

lemma calm_schedule [calm_rules]:
  "prog_rel calm (scheduleComputerSleep f cfg now i)"
  "prog_rel calm (enqueueTakeoverContinuation f k)"
  "prog_rel calm (scheduleComputerControlExpiry f i l t)"
  unfolding scheduleComputerSleep_def enqueueTakeoverContinuation_def scheduleComputerControlExpiry_def ignore_error_def
  by (intro calm_rules)+

lemma calm_release [calm_rules]: "tx_rel calm (finalizeComputerControlRelease now eid input)"
  unfolding finalizeComputerControlRelease_def finalizeComputerControlRelease_tx_def Let_def
  by (intro calm_rules) (simp_all add: clear_control_def comp_key_def)

lemma calm_expire [calm_rules]:
  "calm_env env \<Longrightarrow> prog_rel calm (expireComputerControl sb env fails now eid i l)"
  unfolding expireComputerControl_def expire_release_def
  by (intro calm_rules) (simp_all add: comp_key_def)

lemma calm_checkpoint [calm_rules]: "prog_rel calm (checkpointComputerWorkspace sb h ref)"
  unfolding checkpointComputerWorkspace_def by (intro calm_rules)

lemma calm_sleep_events [calm_rules]: "prog_rel calm (sleep_events now eids w bs n)"
proof (induction bs arbitrary: n)
  case (Cons b bs)
  show ?case unfolding sleep_events.simps appendEvent_def by (intro calm_rules Cons.IH)
qed (simp only: sleep_events.simps calm_rules)

section \<open>Sleeping never strands a computer\<close>

lemma look_find: "look i s = (case find (\<lambda>c. c_id c = i) (db_computers s) of
    None \<Rightarrow> None | Some c \<Rightarrow> Some (c_state c, c_providerRef c))"
proof -
  have "map_of (map comp_key cs) i = (case find (\<lambda>c. c_id c = i) cs of
      None \<Rightarrow> None | Some c \<Rightarrow> Some (c_state c, c_providerRef c))" for cs
    by (induction cs) (auto simp: comp_key_def)
  then show ?thesis by (simp add: look_def)
qed

text \<open>An update of the computer \<open>i\<close>, seen through \<open>look\<close>, and its count.\<close>

interpretation computer_table: keyed_table c_id .

lemmas find_updateMany_key = computer_table.find_update
lemmas find_id_unique = computer_table.find_unique
lemmas count_id = computer_table.count_found

lemma look_update:
  assumes "\<And>c. c_id (f c) = c_id c"
  shows "look i (db_computers_update (updateMany p f) s) =
    (case find (\<lambda>c. c_id c = i) (db_computers s) of None \<Rightarrow> None
     | Some c \<Rightarrow> Some (if p c then (c_state (f c), c_providerRef (f c)) else (c_state c, c_providerRef c)))"
  by (simp add: look_find find_updateMany_key [OF assms] split: option.split)

lemma ids_update: "(\<And>c. c_id (f c) = c_id c) \<Longrightarrow> comp_ids (db_computers_update (updateMany p f) s) = comp_ids s"
  by (simp add: comp_ids_def map_updateMany)

definition rested :: "string \<Rightarrow> db_error + 'a \<Rightarrow> db \<Rightarrow> bool" where
  "rested i r s' \<longleftrightarrow>
     (\<exists>ref. look i s' = Some (CompRunning, ref)) \<and>
       ((\<exists>e. r = Inl e) \<or> (\<exists>at. computerSleepJob i at \<in> set (db_jobs s'))) \<or>
     (\<exists>ref q. look i s' = Some (Suspended, ref) \<and> CallStop q \<in> set (db_calls s'))"

lemma schedule_run:
  "i \<noteq> [] \<Longrightarrow> scheduleComputerSleep False cfg now i s =
     (Inr (), s\<lparr>db_jobs := db_jobs s @ [computerSleepJob i (now + sandboxIdleMs cfg)]\<rparr>)"
  by (simp add: scheduleComputerSleep_def ignore_error_def enqueue_def prog_catch_def)

lemma rested_scheduled:
  assumes "i \<noteq> []" and "look i s = Some (CompRunning, ref)"
  shows "wp (prog_bind (scheduleComputerSleep False cfg now i) (\<lambda>_. prog_return a)) (rested i) s"
proof -
  have "look i (s\<lparr>db_jobs := js\<rparr>) = look i s" for js by (simp add: look_def)
  then show ?thesis using assms
    by (auto simp: wp_simps wp_run [OF schedule_run] rested_def)
qed

lemma wake_again_run:
  assumes "look i s = Some (Suspending, ref)"
  shows "\<exists>s'. wake_again now i s = (Inr (), s') \<and> look i s' = Some (CompRunning, ref)"
proof -
  obtain c where "find (\<lambda>c. c_id c = i) (db_computers s) = Some c" "c_state c = Suspending" "c_providerRef c = ref"
    using assms by (auto simp: look_find split: option.splits)
  moreover from this(1) have "c_id c = i" by (auto dest: find_SomeD)
  ultimately show ?thesis by (simp add: wake_again_def prog_bind_run prog_tx_run look_update)
qed

lemma rested_error: "look i s = Some (CompRunning, ref) \<Longrightarrow> rested i (Inl e) s"
  by (auto simp: rested_def)

lemma sleep_stop_rested:
  assumes env: "calm_env env" and l: "look (c_id c) s = Some (Suspending, ref)"
  shows "wp (sleep_stop sb env now eids c q) (rested (c_id c)) s"
proof -
  let ?s = "s\<lparr>db_calls := db_calls s @ [CallStop q]\<rparr>"
  have l1: "look (c_id c) ?s = Some (Suspending, ref)" using l by (simp add: look_def)
  have call: "wp (call sb (CallStop q)) Q s \<longleftrightarrow>
      (case sb_answer sb (CallStop q) of Some e \<Rightarrow> Q (Inl e) ?s | None \<Rightarrow> Q (Inr ()) ?s)" for Q
    by (simp add: call_def log_call_def wp_simps split: option.split)
  have stopped: "wp (prog_bind (prog_env (env 7)) g) (rested (c_id c)) s1"
    if "look (c_id c) s1 = Some (Suspended, ref)" and "CallStop q \<in> set (db_calls s1)" and "\<And>x. prog_rel calm (g x)"
    for s1 g
  proof -
    have "prog_rel calm (prog_bind (prog_env (env 7)) g)" by (intro calm_rules env that)
    then show ?thesis
      by (rule wp_rel) (use that(1,2) in \<open>auto simp: rested_def calm_look calm_def\<close>)
  qed
  have mid: "look (c_id c) (env 6 ?s) = Some (Suspending, ref) \<and> CallStop q \<in> set (db_calls (env 6 ?s))"
  proof -
    have "calm ?s (env 6 ?s)" using env by (simp add: calm_env_def)
    from calm_look [OF this, of "c_id c"] this show ?thesis using l1 by (auto simp: calm_def)
  qed
  obtain w where w: "wake_again now (c_id c) ?s = (Inr (), w)" "look (c_id c) w = Some (CompRunning, ref)"
    using wake_again_run [OF l1] by blast
  have wq: "wp (wake_again now (c_id c)) Q ?s = Q (Inr ()) w" for Q using w(1) by (simp add: wp_def)
  obtain d where d: "find (\<lambda>d. c_id d = c_id c) (db_computers (env 6 ?s)) = Some d" "c_providerRef d = ref"
    using mid by (auto simp: look_find split: option.splits)
  then have "c_id d = c_id c" by (auto dest: find_SomeD)
  then show ?thesis
    unfolding sleep_stop_def
    by (auto simp: wp_simps call wq update_one_def d split: option.split
        intro!: rested_error [OF w(2)] stopped [unfolded wp_simps] calm_rules)
      (auto simp: look_update d mid)
qed

lemma sleep_confirm_rested:
  assumes env: "calm_env env" and l: "look (c_id c) s = Some (Suspending, ref)" and i: "c_id c \<noteq> []"
  shows "wp (sleep_confirm sb env False cfg clock eids sts c q) (rested (c_id c)) s"
proof -
  have l5: "look (c_id c) (env 5 s) = Some (Suspending, ref)"
    using env l calm_look [of s "env 5 s" "c_id c"] by (simp add: calm_env_def)
  obtain w where w: "wake_again (clock 3) (c_id c) (env 5 s) = (Inr (), w)" "look (c_id c) w = Some (CompRunning, ref)"
    using wake_again_run [OF l5] by blast
  have wq: "wp (wake_again (clock 3) (c_id c)) Q (env 5 s) = Q (Inr ()) w" for Q using w(1) by (simp add: wp_def)
  show ?thesis
    unfolding sleep_confirm_def
    by (simp add: wp_simps wq sleep_stop_rested [OF env l5] rested_scheduled [OF i w(2), unfolded wp_bind])
qed

lemma sleep_claim_run:
  assumes ids: "comp_ids s" and l: "look (c_id c) s = Some (CompRunning, ref)"
  obtains n s' where "sleep_claim c t rv s = Inr (n, s')" and "comp_ids s'"
    and "n = 1 \<Longrightarrow> look (c_id c) s' = Some (Suspending, ref)" and "n \<noteq> 1 \<Longrightarrow> look (c_id c) s' = Some (CompRunning, ref)"
proof -
  let ?live = "filter (live_lease (c_id c) t) (db_leases s)"
  let ?p = "\<lambda>d. c_id d = c_id c \<and> c_state d = CompRunning \<and> c_providerRef d = c_providerRef c
    \<and> c_updatedAt d = c_updatedAt c \<and> c_executionRunId d = None \<and> ?live = []"
  let ?f = "\<lambda>d. d\<lparr>c_state := Suspending, c_homeRevision := rv, c_updatedAt := t\<rparr>"
  obtain d where d: "find (\<lambda>d. c_id d = c_id c) (db_computers s) = Some d" "c_state d = CompRunning" "c_providerRef d = ref"
    using l by (auto simp: look_find split: option.splits)
  have run: "sleep_claim c t rv s = Inr (countMany ?p (db_computers s), db_computers_update (updateMany ?p ?f) s)"
    by (simp add: sleep_claim_def tx_bind_run)
  define P where "P \<longleftrightarrow> ?p d"
  have cnt: "countMany ?p (db_computers s) = (if P then 1 else 0)"
    unfolding P_def
    using ids d(1) by (intro count_id [where k = "c_id c"]) (auto simp: comp_ids_def)
  have lk: "look (c_id c) (db_computers_update (updateMany ?p ?f) s) =
      (if P then Some (Suspending, ref) else Some (CompRunning, ref))"
    unfolding P_def by (subst look_update) (use d in auto)
  have ids': "comp_ids (db_computers_update (updateMany ?p ?f) s)" using ids by (simp add: ids_update)
  show thesis by (rule that [OF run ids']) (simp_all add: cnt lk split: if_splits)
qed

lemma sleep_checkpoint_rested:
  assumes env: "calm_env env" and ids: "comp_ids s" and l: "look (c_id c) s = Some (CompRunning, ref)"
    and i: "c_id c \<noteq> []"
  shows "wp (sleep_checkpoint sb env False cfg clock eids c) (rested (c_id c)) s"
proof -
  have calm: "look (c_id c) s' = Some (CompRunning, ref) \<and> comp_ids s'" if "calm s s'" for s'
    using that l ids by (simp add: calm_look calm_ids)
  have late: "wp (prog_bind (prog_env (env 3)) (\<lambda>_.
        prog_bind (prog_tx (sleep_claim c (clock 2) rv)) (\<lambda>recorded.
        if recorded \<noteq> 1
        then prog_bind (scheduleComputerSleep False cfg (clock 2) (c_id c)) (\<lambda>_. prog_return [])
        else prog_bind (prog_env (env 4)) (\<lambda>_. sleep_confirm sb env False cfg clock eids sts c q))))
      (rested (c_id c)) s2" if "calm s s2" for rv sts q s2
  proof -
    have "calm s (env 3 s2)" using that env by (auto simp: calm_env_def intro: calm.trans_state)
    note c3 = calm [OF this]
    obtain n s4 where claim: "sleep_claim c (clock 2) rv (env 3 s2) = Inr (n, s4)"
      and n: "n = 1 \<Longrightarrow> look (c_id c) s4 = Some (Suspending, ref)" "n \<noteq> 1 \<Longrightarrow> look (c_id c) s4 = Some (CompRunning, ref)"
      using sleep_claim_run [OF conjunct2 [OF c3] conjunct1 [OF c3]] by metis
    have "look (c_id c) (env 4 s4) = look (c_id c) s4"
      using env by (intro calm_look) (simp add: calm_env_def)
    then have "wp (sleep_confirm sb env False cfg clock eids sts c q) (rested (c_id c)) (env 4 s4)" if "n = 1"
      using n(1) [OF that] by (intro sleep_confirm_rested [OF env _ i]) simp
    moreover have "wp (prog_bind (scheduleComputerSleep False cfg (clock 2) (c_id c)) (\<lambda>_. prog_return ([] :: notification list))) (rested (c_id c)) s4"
      if "n \<noteq> 1" by (rule rested_scheduled [OF i n(2) [OF that]])
    ultimately show ?thesis by (simp add: wp_bind wp_env wp_tx claim)
  qed
  have chk: "wp (checkpointComputerWorkspace sb (c_homeKey c) q) (after (rested (c_id c)) P) (env 2 s)"
    if "\<And>rv s2. calm s s2 \<Longrightarrow> P rv s2" for P q
  proof (rule wp_rel [OF calm_checkpoint])
    fix r s2 assume "calm (env 2 s) s2"
    then have c: "calm s s2" using env by (auto simp: calm_env_def intro: calm.trans_state)
    show "after (rested (c_id c)) P r s2"
      using that [OF c] rested_error [OF conjunct1 [OF calm [OF c]]] by (cases r) simp_all
  qed
  have late': "wp (checkpointComputerWorkspace sb (c_homeKey c) q) (after (rested (c_id c)) (\<lambda>rv.
      wp (prog_bind (prog_env (env 3)) (\<lambda>_.
        prog_bind (prog_tx (sleep_claim c (clock 2) rv)) (\<lambda>recorded.
        if recorded \<noteq> 1
        then prog_bind (scheduleComputerSleep False cfg (clock 2) (c_id c)) (\<lambda>_. prog_return [])
        else prog_bind (prog_env (env 4)) (\<lambda>_. sleep_confirm sb env False cfg clock eids sts c q)))) (rested (c_id c)))) (env 2 s)"
    for sts q by (intro chk late)
  show ?thesis
    unfolding sleep_checkpoint_def Let_def prog_lift_def
    by (simp add: late' rested_scheduled [OF i l, unfolded wp_bind] rested_error [OF l]
        wp_bind wp_gets wp_env wp_return wp_throw del: One_nat_def split: sum.split)
qed

lemma awake_look:
  "awake_computer i s = Some c \<longleftrightarrow> find (\<lambda>c. c_id c = i) (db_computers s) = Some c
     \<and> truthy (c_providerRef c) \<and> c_state c = CompRunning"
  by (auto simp: awake_computer_def split: option.splits)

text \<open>A running computer that rests calmly is found, and rests after its second look.\<close>

lemma calm_awake:
  assumes "calm s t" and "comp_ids s" and "look i s = Some (CompRunning, Some ref)" and "ref \<noteq> []"
  shows "look i t = Some (CompRunning, Some ref)" and "comp_ids t" and "\<exists>c. awake_computer i t = Some c \<and> c_id c = i"
proof -
  show l: "look i t = Some (CompRunning, Some ref)" "comp_ids t" using assms(1-3) by (simp_all add: calm_look calm_ids)
  show "\<exists>c. awake_computer i t = Some c \<and> c_id c = i"
    using l(1) assms(4) by (auto simp: look_find awake_look truthy_def split: option.splits dest: find_SomeD)
qed

lemma sleep_reloaded_rested:
  assumes env: "calm_env env" and c: "calm s t" and s: "comp_ids s" "i \<noteq> []" "look i s = Some (CompRunning, Some ref)" "ref \<noteq> []"
  shows "wp (sleep_reloaded sb env False cfg clock eids i ns) (rested i) t"
proof -
  have c1: "calm s (env 1 t)" using c env by (auto simp: calm_env_def intro: calm.trans_state)
  note a = calm_awake [OF c1 s(1,3,4)]
  obtain d where d: "awake_computer i (env 1 t) = Some d" "c_id d = i" using a(3) by blast
  have "wp (sleep_checkpoint sb env False cfg clock eids d) (rested i) (env 1 t)"
    using sleep_checkpoint_rested [OF env, of "env 1 t" d "Some ref"] a(1,2) d(2) s(2) by simp
  then have "wp (prog_bind (sleep_checkpoint sb env False cfg clock eids d) (\<lambda>rest. prog_return (ns @ rest))) (rested i) (env 1 t)"
    unfolding wp_bind by (rule wp_mono) (auto simp: after_def rested_def wp_return split: sum.splits)
  then show ?thesis using d(1) by (simp add: sleep_reloaded_def wp_bind wp_env wp_gets)
qed


text \<open>The sleep job finds an active run and comes back later.\<close>

definition sample_sandbox :: sandbox where
  "sample_sandbox = \<lparr>sb_provision = (\<lambda>h r k. Inr \<lparr>cr_id = ''p2'', cr_botId = h, cr_kind = ''docker'',
       cr_providerRef = ''p2'', cr_fresh = True\<rparr>),
     sb_answer = (\<lambda>c. None), sb_export = (\<lambda>h r. Inr ''rev1''), sb_localHome = True\<rparr>"

definition sample_office :: "comp_state \<Rightarrow> db" where
  "sample_office st = sample_db\<lparr>db_bots := [sample_bot\<lparr>b_computerId := Some ''c''\<rparr>],
     db_computers := [sample_computer st], db_runs := []\<rparr>"

definition sample_asleep :: "(db_error + notification list) \<times> db" where
  "sample_asleep = sleepComputerIfIdle sample_sandbox (\<lambda>_ x. x) (\<lambda>_ x. x) False None (\<lambda>n. 100 + int n) ''e'' ''e''
     ''c'' (sample_office CompRunning)"


section \<open>Sleeping and leases exclude each other\<close>

lemma validate_state:
  assumes "validateAcquiredComputerLease env lease s = (Inr v, s')"
  shows "look (lh_computerId lease) s' \<noteq> Some (Suspending, ref)"
proof -
  have "prog_tx (releaseComputerExecutionLease (Some lease)) t =
      (Inr (), db_leases_update (deleteMany (holds_handle lease)) t)" for t
    by (simp add: releaseComputerExecutionLease_def prog_tx_run tx_bind_run)
  then show ?thesis
    using assms by (auto simp: validateAcquiredComputerLease_def find_computer_def prog_bind_run look_find
        split: option.splits if_splits)
qed

lemma acquire_validated:
  assumes a: "acquireComputerExecutionLease env now input s = (Inr (Some h), s')"
  obtains s2 fence where "validateAcquiredComputerLease (env 3) (acquired input fence) (env 2 s2) = (Inr (Some h), s')"
    and "\<exists>l \<in> set (db_leases s2). l_computerId l = aq_computerId input \<and> l_botId l = aq_botId input
       \<and> l_expiresAt l = now + EXECUTION_LEASE_MS"
proof -
  obtain v s1 where rc: "lease_reclaim now input (env 0 s) = Inr (v, s1)"
    by (simp add: lease_reclaim_def tx_bind_run)
  have unfold: "(case v of
         Some fence \<Rightarrow> validateAcquiredComputerLease (env 3) (acquired input fence) (env 2 s1)
       | None \<Rightarrow> prog_bind (prog_catch (prog_tx (lease_insert now input))
             (\<lambda>error. if error = UniqueViolation then prog_throw ComputerBusyError
                      else prog_throw error)) (\<lambda>fence. prog_bind (prog_env (env 2)) (\<lambda>_.
           validateAcquiredComputerLease (env 3) (acquired input fence))) (env 1 s1)) = (Inr (Some h), s')"
    using a rc unfolding acquireComputerExecutionLease_def
    by (auto simp: prog_bind_run find_computer_def prog_tx_run split: option.splits if_splits)
  show thesis
  proof (cases v)
    case (Some fence)
    obtain l where f: "find (reclaimable now input) (db_leases (env 0 s)) = Some l"
      and s1: "s1 = db_leases_update (updateMany (reclaimable now input)
        (\<lambda>l. l\<lparr>l_runId := aq_runId input, l_expiresAt := now + EXECUTION_LEASE_MS, l_fence := l_fence l + 1\<rparr>)) (env 0 s)"
      using rc Some by (auto simp: lease_reclaim_def tx_bind_run)
    have "\<exists>l \<in> set (db_leases s1). l_computerId l = aq_computerId input \<and> l_botId l = aq_botId input
        \<and> l_expiresAt l = now + EXECUTION_LEASE_MS"
      using find_SomeD [OF f] unfolding s1 by (intro bexI [where x = "l\<lparr>l_runId := aq_runId input,
        l_expiresAt := now + EXECUTION_LEASE_MS, l_fence := l_fence l + 1\<rparr>"])
        (auto simp: updateMany_def reclaimable_def image_iff intro!: bexI [of _ l])
    with unfold Some show thesis by (intro that) simp_all
  next
    case None
    show thesis
    proof (cases "lease_insert now input (env 1 s1)")
      case (Inl e)
      with unfold None show thesis by (auto simp: prog_bind_run prog_catch_def prog_tx_run split: if_splits)
    next
      case (Inr r)
      then obtain fence s2 where ins: "lease_insert now input (env 1 s1) = Inr (fence, s2)" by (cases r) auto
      have "\<exists>l \<in> set (db_leases s2). l_computerId l = aq_computerId input \<and> l_botId l = aq_botId input
          \<and> l_expiresAt l = now + EXECUTION_LEASE_MS"
        using ins by (auto simp: lease_insert_def tx_bind_Inr create_row_Inr)
      moreover have "validateAcquiredComputerLease (env 3) (acquired input fence) (env 2 s2) = (Inr (Some h), s')"
        using unfold None ins by (simp add: prog_bind_run prog_catch_def prog_tx_run)
      ultimately show thesis by (intro that)
    qed
  qed
qed



section \<open>Provisioning\<close>

lemma wp_call [wp_simps]:
  "wp (call sb k) Q s \<longleftrightarrow> (case sb_answer sb k of
     Some e \<Rightarrow> Q (Inl e) (s\<lparr>db_calls := db_calls s @ [k]\<rparr>)
   | None \<Rightarrow> Q (Inr ()) (s\<lparr>db_calls := db_calls s @ [k]\<rparr>))"
  by (simp add: call_def log_call_def wp_bind wp_env wp_return wp_throw split: option.split)

definition let_go :: "sandbox \<Rightarrow> computer_ref \<Rightarrow> db \<Rightarrow> bool" where
  "let_go sb q s \<longleftrightarrow> (\<exists>k \<in> {CallStop q, CallDestroy q}. k \<in> set (db_calls s) \<and> sb_answer sb k = None)"

lemma let_go_calm: "calm s s' \<Longrightarrow> let_go sb q s \<Longrightarrow> let_go sb q s'"
  by (auto simp: calm_def let_go_def)

lemma rollback_lets_go:
  "wp (rollbackProvisionedComputer sb q cause)
     (\<lambda>r s'. calm s s' \<and> (\<exists>v. r = Inr v \<and> (v = None \<longrightarrow> let_go sb q s'))) s"
  unfolding rollbackProvisionedComputer_def rollback_calls_def ignore_error_def
  by (auto simp: wp_simps calm_def let_go_def split: option.split)

definition boot_outcome :: "sandbox \<Rightarrow> string \<Rightarrow> computer_ref option \<Rightarrow> db_error + 'a \<Rightarrow> db \<Rightarrow> bool" where
  "boot_outcome sb i provisioned r s \<longleftrightarrow> (\<exists>e rf. r = Inl e \<and> look i s = Some (CompError, rf) \<and>
     (case provisioned of None \<Rightarrow> True | Some q \<Rightarrow> let_go sb q s \<or> rf = Some (cr_providerRef q)))"

lemma record_failure:
  assumes "look i s = Some (Booting, rf)"
  shows "look i (db_computers_update (updateMany (\<lambda>c. c_id c = i \<and> c_state c = Booting)
     (\<lambda>c. (let d = c\<lparr>c_state := CompError\<rparr> in
          case (re, prov) of
            (Some _, Some ref) \<Rightarrow> d\<lparr>c_providerRef := Some (cr_providerRef ref), c_kind := cr_kind ref\<rparr>
          | _ \<Rightarrow> d)\<lparr>c_updatedAt := t\<rparr>)) s) =
    Some (CompError, case (re, prov) of (Some _, Some q) \<Rightarrow> Some (cr_providerRef q) | _ \<Rightarrow> rf)"
proof -
  obtain c where "find (\<lambda>c. c_id c = i) (db_computers s) = Some c" "c_state c = Booting" "c_providerRef c = rf" "c_id c = i"
    using assms by (auto simp: look_find split: option.splits dest: find_SomeD)
  then show ?thesis by (subst look_update) (auto simp: Let_def split: option.splits)
qed

lemma boot_failed_outcome:
  assumes env: "calm_env env" and l: "look i s = Some (Booting, rf)"
  shows "wp (boot_failed sb env clock i prov error) (\<lambda>r s'. boot_outcome sb i prov r s' \<and> set (db_calls s) \<subseteq> set (db_calls s')) s"
proof -
  have e: "calm t (env 5 t)" for t using env by (simp add: calm_env_def)
  have "wp (case prov of None \<Rightarrow> prog_return None | Some ref \<Rightarrow> rollbackProvisionedComputer sb ref error)
      (\<lambda>r s'. calm s s' \<and> (\<exists>v. r = Inr v \<and> (v = None \<longrightarrow> (\<forall>q. prov = Some q \<longrightarrow> let_go sb q s')) \<and> (prov = None \<longrightarrow> v = None))) s"
    by (cases prov) (simp_all add: wp_simps calm.refl_state wp_mono [OF rollback_lets_go])
  then show ?thesis unfolding boot_failed_def wp_bind
  proof (rule wp_mono)
    fix r :: "db_error + db_error option" and s1
    assume "calm s s1 \<and> (\<exists>v. r = Inr v \<and> (v = None \<longrightarrow> (\<forall>q. prov = Some q \<longrightarrow> let_go sb q s1)) \<and> (prov = None \<longrightarrow> v = None))"
    then obtain v where c: "calm s s1" and r: "r = Inr v" and v: "v = None \<Longrightarrow> \<forall>q. prov = Some q \<longrightarrow> let_go sb q s1"
      and p: "prov = None \<Longrightarrow> v = None" by blast
    have l5: "look i (env 5 s1) = Some (Booting, rf)" using l c e [of s1] by (simp add: calm_look)
    have g: "v = None \<Longrightarrow> prov = Some q \<Longrightarrow> let_go sb q (db_computers_update f (env 5 s1))" for q f
      using v let_go_calm [OF e [of s1]] by (simp add: let_go_def)
    note rec = record_failure [OF l5, where re = v and prov = prov and t = "clock 3"]
    have mono: "set (db_calls s) \<subseteq> set (db_calls (env 5 s1))"
      using c e [of s1] by (auto simp: calm_def)
    let ?Q = "\<lambda>r s'. boot_outcome sb i prov r s' \<and> set (db_calls s) \<subseteq> set (db_calls s')"
    show "after ?Q (\<lambda>a. wp (record_boot_failure env clock i prov error a) ?Q) r s1"
      using rec g p mono unfolding r record_boot_failure_def
      by (cases v; cases prov) (auto simp: wp_bind wp_env wp_tx wp_throw boot_outcome_def)
  qed
qed

lemma calm_layout [calm_rules]: "prog_rel calm (ensureComputerWorkspaceLayout sb ref scope b)"
  unfolding ensureComputerWorkspaceLayout_def by (intro calm_rules)

lemma calm_restore [calm_rules]: "prog_rel calm (restoreComputerWorkspace sb h ref)"
  unfolding restoreComputerWorkspace_def by (intro calm_rules)

lemma boot_claim_run:
  assumes ids: "comp_ids s" and l: "look i s = Some L"
  obtains n s' where "boot_claim t i b s = Inr (n, s')" and "comp_ids s'"
    and "n = 1 \<Longrightarrow> look i s' = Some (Booting, snd L)" and "n \<noteq> 1 \<Longrightarrow> look i s' = Some L"
proof -
  let ?p = "\<lambda>c. c_id c = i \<and> c_state c \<in> {Stopped, Suspended, CompError} \<and> bot_may_use s i b"
  let ?f = "\<lambda>c. c\<lparr>c_state := Booting, c_updatedAt := t\<rparr>"
  obtain d where d: "find (\<lambda>d. c_id d = i) (db_computers s) = Some d" "c_state d = fst L" "c_providerRef d = snd L"
    using l by (auto simp: look_find split: option.splits)
  have run: "boot_claim t i b s = Inr (countMany ?p (db_computers s), db_computers_update (updateMany ?p ?f) s)"
    by (simp add: boot_claim_def tx_bind_run)
  define P where "P \<longleftrightarrow> ?p d"
  have cnt: "countMany ?p (db_computers s) = (if P then 1 else 0)"
    unfolding P_def using ids d(1) by (intro count_id [where k = i]) (auto simp: comp_ids_def)
  have lk: "look i (db_computers_update (updateMany ?p ?f) s) = (if P then Some (Booting, snd L) else Some L)"
    unfolding P_def by (subst look_update) (use d in auto)
  have ids': "comp_ids (db_computers_update (updateMany ?p ?f) s)" using ids by (simp add: ids_update)
  show thesis by (rule that [OF run ids'], unfold cnt lk) (simp_all split: if_splits)
qed

lemma boot_activate_run:
  assumes ids: "comp_ids s" and l: "look i s = Some (Booting, rf)"
  obtains n s' where "boot_activate t i b act holder q s = Inr (n, s')"
    and "n = 1 \<Longrightarrow> look i s' = Some (CompRunning, Some (cr_providerRef q))" and "n \<noteq> 1 \<Longrightarrow> look i s' = Some (Booting, rf)"
proof -
  let ?p = "\<lambda>c. c_id c = i \<and> c_state c = Booting \<and> bot_may_use s i b"
  let ?f = "\<lambda>c. (let d = c\<lparr>c_state := CompRunning, c_providerRef := Some (cr_providerRef q), c_kind := cr_kind q,
               c_controlHolder := (if act then HolderUser else holder)\<rparr>
            in if act then d
               else d\<lparr>c_controlLeaseId := None, c_controlLeaseExpiresAt := None, c_controlBotId := None,
                      c_controlRunId := None\<rparr>)\<lparr>c_updatedAt := t\<rparr>"
  obtain d where d: "find (\<lambda>d. c_id d = i) (db_computers s) = Some d" "c_state d = Booting" "c_providerRef d = rf"
    using l by (auto simp: look_find split: option.splits)
  have run: "boot_activate t i b act holder q s = Inr (countMany ?p (db_computers s), db_computers_update (updateMany ?p ?f) s)"
    by (simp add: boot_activate_def tx_bind_run)
  define P where "P \<longleftrightarrow> ?p d"
  have cnt: "countMany ?p (db_computers s) = (if P then 1 else 0)"
    unfolding P_def using ids d(1) by (intro count_id [where k = i]) (auto simp: comp_ids_def)
  have lk: "look i (db_computers_update (updateMany ?p ?f) s) =
      (if P then Some (CompRunning, Some (cr_providerRef q)) else Some (Booting, rf))"
    unfolding P_def by (subst look_update) (use d in \<open>auto simp: Let_def\<close>)
  show thesis by (rule that [OF run], unfold cnt lk) (simp_all split: if_splits)
qed

text \<open>What provisioning may end in, for a computer that was in state \<open>L\<close>.\<close>

definition boot_post ::
  "sandbox \<Rightarrow> string \<Rightarrow> (comp_state \<times> string option) option \<Rightarrow> db_error + computer_ref \<Rightarrow> db \<Rightarrow> bool" where
  "boot_post sb i L r s \<longleftrightarrow> look i s = L \<or>
     (\<exists>q. r = Inr q \<and> look i s = Some (CompRunning, Some (cr_providerRef q))) \<or>
     (\<exists>h rf k. CallProvision h rf k \<in> set (db_calls s) \<and>
        boot_outcome sb i (case sb_provision sb h rf k of Inl _ \<Rightarrow> None | Inr q \<Rightarrow> Some q) r s)"

lemma boot_postI:
  "CallProvision h rf k \<in> set (db_calls s) \<Longrightarrow>
   boot_outcome sb i (case sb_provision sb h rf k of Inl _ \<Rightarrow> None | Inr q \<Rightarrow> Some q) r s \<Longrightarrow> boot_post sb i L r s"
  by (auto simp: boot_post_def)

lemma boot_finish_run:
  assumes env: "calm_env env" and ids: "comp_ids s" and l: "look (c_id c) s = Some (Booting, rf)"
  shows "wp (boot_finish sb env clock c context holder q) (\<lambda>r s'. set (db_calls s) \<subseteq> set (db_calls s') \<and>
    (case r of Inl _ \<Rightarrow> look (c_id c) s' = Some (Booting, rf)
     | Inr v \<Rightarrow> v = q \<and> look (c_id c) s' = Some (CompRunning, Some (cr_providerRef q)))) s"
proof -
  let ?Q = "\<lambda>r s'. set (db_calls s) \<subseteq> set (db_calls s') \<and>
    (case r of Inl _ \<Rightarrow> look (c_id c) s' = Some (Booting, rf)
     | Inr v \<Rightarrow> v = q \<and> look (c_id c) s' = Some (CompRunning, Some (cr_providerRef q)))"
  have calm: "look (c_id c) t = Some (Booting, rf) \<and> comp_ids t \<and> set (db_calls s) \<subseteq> set (db_calls t)" if "calm s t" for t
    using that l ids calm_look [OF that] calm_ids [OF that] by (simp add: calm_def)
  have seq: "wp (prog_bind m f) ?Q t" if "calm s t" "prog_rel calm m" "\<And>a t'. calm s t' \<Longrightarrow> wp (f a) ?Q t'"
    for m :: "'x dbprog" and f t
    unfolding wp_bind
  proof (rule wp_rel [OF that(2)])
    fix r t' assume "calm t t'"
    then have "calm s t'" using that(1) by (blast intro: calm.trans_state)
    then show "after ?Q (\<lambda>a. wp (f a) ?Q) r t'" using that(3) calm by (cases r) simp_all
  qed
  have last: "wp (prog_bind (prog_tx (boot_activate (clock 2) (c_id c) (ax_botId context)
         (hasActiveComputerControl (clock 2) (Some c)) holder q)) (\<lambda>activated.
     if activated \<noteq> 1 then prog_throw ComputerBusyError else prog_return q)) ?Q t" if "calm s t" for t
  proof -
    note k = calm [OF that]
    obtain n s' where a: "boot_activate (clock 2) (c_id c) (ax_botId context)
         (hasActiveComputerControl (clock 2) (Some c)) holder q t = Inr (n, s')"
      "n = 1 \<Longrightarrow> look (c_id c) s' = Some (CompRunning, Some (cr_providerRef q))"
      "n \<noteq> 1 \<Longrightarrow> look (c_id c) s' = Some (Booting, rf)"
      using boot_activate_run [OF conjunct1 [OF conjunct2 [OF k]] conjunct1 [OF k]] by metis
    have "db_calls s' = db_calls t"
      using a(1) by (auto simp: boot_activate_def tx_bind_run)
    then show ?thesis using a k by (simp add: wp_bind wp_tx wp_throw wp_return)
  qed
  show ?thesis
    unfolding boot_finish_def by (intro seq last calm_rules env calm.refl_state)
qed

lemma boot_result:
  assumes env: "calm_env env" and ids: "comp_ids s" and l: "look (c_id c) s = Some L"
  shows "wp (boot sb env clock c context holder) (boot_post sb (c_id c) (Some L)) s"
proof -
  obtain n s1 where claim: "boot_claim (clock 1) (c_id c) (ax_botId context) s = Inr (n, s1)" and ids1: "comp_ids s1"
    and n: "n = 1 \<Longrightarrow> look (c_id c) s1 = Some (Booting, snd L)" "n \<noteq> 1 \<Longrightarrow> look (c_id c) s1 = Some L"
    using boot_claim_run [OF ids l] by metis
  let ?k = "CallProvision (c_homeKey c) (c_providerRef c) (c_kind c)"
  let ?s = "(env 3 s1)\<lparr>db_calls := db_calls (env 3 s1) @ [?k]\<rparr>"
  show ?thesis
  proof (cases "n = 1")
    case False
    then show ?thesis using n(2) claim
      by (simp add: boot_def wp_bind wp_tx wp_throw boot_post_def)
  next
    case True
    have "calm s1 (env 3 s1)" using env by (simp add: calm_env_def)
    then have l3: "look (c_id c) ?s = Some (Booting, snd L)" and ids3: "comp_ids ?s"
      using n(1) [OF True] ids1 calm_look [of s1 "env 3 s1"] calm_ids [of s1 "env 3 s1"]
      by (simp_all add: look_def comp_ids_def)
    have k: "?k \<in> set (db_calls ?s)" by simp
    show ?thesis
    proof (cases "sb_provision sb (c_homeKey c) (c_providerRef c) (c_kind c)")
      case (Inl e)
      have "wp (boot_failed sb env clock (c_id c) None e) (boot_post sb (c_id c) (Some L)) ?s"
        by (rule wp_mono [OF boot_failed_outcome [OF env l3]])
          (rule boot_postI [of "c_homeKey c" "c_providerRef c" "c_kind c"], use Inl k in auto)
      then show ?thesis using True claim Inl
        by (simp add: boot_def wp_bind wp_tx wp_env log_call_def)
    next
      case (Inr q)
      have "wp (prog_catch (boot_finish sb env clock c context holder q) (boot_failed sb env clock (c_id c) (Some q)))
          (boot_post sb (c_id c) (Some L)) ?s"
        unfolding wp_catch
      proof (rule wp_mono [OF boot_finish_run [OF env ids3 l3]])
        fix r :: "db_error + computer_ref" and t
        assume f: "set (db_calls ?s) \<subseteq> set (db_calls t) \<and> (case r of Inl _ \<Rightarrow> look (c_id c) t = Some (Booting, snd L)
          | Inr v \<Rightarrow> v = q \<and> look (c_id c) t = Some (CompRunning, Some (cr_providerRef q)))"
        show "case r of Inl e \<Rightarrow> wp (boot_failed sb env clock (c_id c) (Some q) e) (boot_post sb (c_id c) (Some L)) t
          | Inr a \<Rightarrow> boot_post sb (c_id c) (Some L) (Inr a) t"
        proof (cases r)
          case (Inl e)
          with f have lt: "look (c_id c) t = Some (Booting, snd L)" and kt: "?k \<in> set (db_calls t)" using k by auto
          have "wp (boot_failed sb env clock (c_id c) (Some q) e) (boot_post sb (c_id c) (Some L)) t"
            by (rule wp_mono [OF boot_failed_outcome [OF env lt]])
              (rule boot_postI [of "c_homeKey c" "c_providerRef c" "c_kind c"],
                use \<open>sb_provision sb (c_homeKey c) (c_providerRef c) (c_kind c) = Inr q\<close> kt in auto)
          with Inl show ?thesis by simp
        next
          case (Inr v)
          with f show ?thesis by (simp add: boot_post_def)
        qed
      qed
      then show ?thesis using True claim Inr
        by (simp add: boot_def wp_bind wp_tx wp_env log_call_def)
    qed
  qed
qed

lemma calm_reconnect: "prog_rel calm (reconnectComputer sb c context)"
  unfolding reconnectComputer_def by (intro calm_rules)

lemma calm_find: "prog_rel calm (find_computer i)"
  unfolding find_computer_def by (intro calm_rules)

lemma wp_find [wp_simps]:
  "wp (find_computer i) Q s = (case find (\<lambda>c. c_id c = i) (db_computers s) of
     None \<Rightarrow> Q (Inl RecordNotFound) s | Some c \<Rightarrow> Q (Inr c) s)"
  by (simp add: find_computer_def wp_bind wp_gets wp_return wp_throw split: option.split)

lemma find_computer_id: "find_computer i s = (Inr c, s') \<Longrightarrow> c_id c = i"
  by (auto simp: find_computer_def prog_bind_run split: option.splits dest: find_SomeD)

lemma settle_control_found:
  "calm_env xenv \<Longrightarrow> wp (settle_control sb xenv fails now eid i) (\<lambda>r s'. calm s s' \<and> (\<forall>c. r = Inr c \<longrightarrow> c_id c = i)) s"
proof -
  assume x: "calm_env xenv"
  have "prog_rel calm (settle_control sb xenv fails now eid i)"
    unfolding settle_control_def by (intro calm_rules calm_find x)
  moreover have "c_id c = i" if "settle_control sb xenv fails now eid i s = (Inr c, s')" for c s'
    using that by (auto simp: settle_control_def prog_bind_run dest!: find_computer_id split: prod.splits sum.splits if_splits)
  ultimately show ?thesis
    by (cases "settle_control sb xenv fails now eid i s") (auto simp: wp_def dest: prog_relD)
qed

lemma wait_ready_found:
  "calm_env wenv \<Longrightarrow> wp (wait_ready n wenv i context) (\<lambda>r s'. calm s s' \<and> (\<forall>c. r = Inr c \<longrightarrow> c_id c = i)) s"
proof (induction n arbitrary: s)
  case 0
  have "calm s (snd (find_computer i s))" using calm_find by (simp add: prog_rel_def)
  then show ?case by (auto simp: wp_def split: prod.splits dest: find_computer_id)
next
  case (Suc n)
  have w: "wp (wait_ready n wenv i context) (\<lambda>r s'. calm s s' \<and> (\<forall>c. r = Inr c \<longrightarrow> c_id c = i)) (wenv n s)"
  proof (rule wp_mono [OF Suc.IH [OF Suc.prems]])
    fix r s' assume "calm (wenv n s) s' \<and> (\<forall>c. r = Inr c \<longrightarrow> c_id c = i)"
    moreover have "calm s (wenv n s)" using Suc.prems by (simp add: calm_env_def)
    ultimately show "calm s s' \<and> (\<forall>c. r = Inr c \<longrightarrow> c_id c = i)" by (blast intro: calm.trans_state)
  qed
  moreover have "calm s (wenv n s)" using Suc.prems by (simp add: calm_env_def)
  ultimately show ?case
    by (auto simp: wp_bind wp_env wp_return wp_throw wp_find calm.refl_state
        dest: find_SomeD split: option.split)
qed

text \<open>The three ways on from a calm state: boot, reconnect, and what follows the wait.\<close>

lemma calm_boot:
  assumes "calm_env env" and "calm s t" and "comp_ids s" and "look i s = Some L" and "c_id c = i"
  shows "wp (boot sb env clock c context holder) (boot_post sb i (Some L)) t"
  using boot_result [OF assms(1), of t c L] assms by (simp add: calm_look calm_ids)

lemma calm_post: "calm s t \<Longrightarrow> look i s = Some L \<Longrightarrow> boot_post sb i (Some L) q t"
  by (simp add: calm_look boot_post_def)

lemma calm_reconnected:
  assumes "calm s t" and "look i s = Some L"
  shows "wp (reconnectComputer sb c context) (boot_post sb i (Some L)) t"
  by (rule wp_rel [OF calm_reconnect]) (use assms calm_post in \<open>blast intro: calm.trans_state\<close>)

lemma provision_waited_post:
  assumes env: "calm_env env" and c: "calm s t" and s: "comp_ids s" "look i s = Some L"
  shows "wp (provision_waited sb env clock i context holder ready) (boot_post sb i (Some L)) t"
proof -
  have e: "calm u (env k u)" for k u using env by (simp add: calm_env_def)
  have c1: "calm s (env 1 t)" using c e by (blast intro: calm.trans_state)
  then have c2: "calm s (env 2 (env 1 t))" using e by (blast intro: calm.trans_state)
  have "wp (prog_bind (find_computer i) (\<lambda>c. prog_bind (prog_env (env 2)) (\<lambda>_. boot sb env clock c context holder)))
      (boot_post sb i (Some L)) (env 1 t)"
    using calm_boot [OF env c2 s] calm_post [OF c1 s(2)]
    by (auto simp: wp_bind wp_find wp_env split: option.split dest: find_SomeD)
  then show ?thesis using calm_reconnected [OF c1 s(2)]
    by (simp add: provision_waited_def wp_bind [where m = "prog_env (env 1)"] wp_env wp_if del: One_nat_def)
qed


text \<open>The provider creates a sandbox and cannot prepare it; it is destroyed again.\<close>

definition sample_flaky :: sandbox where
  "sample_flaky = sample_sandbox\<lparr>sb_answer := (\<lambda>c. case c of CallPrepare _ \<Rightarrow> Some (Thrown ''boom'') | _ \<Rightarrow> None)\<rparr>"

definition sample_boot :: "(db_error + computer_ref) \<times> db" where
  "sample_boot = provisionComputer sample_flaky (\<lambda>_ x. x) (\<lambda>_ x. x) (\<lambda>_ x. x) False (\<lambda>n. 100) ''e'' ''c''
     \<lparr>ax_botId = Some ''b'', ax_aborted = (\<lambda>_. False)\<rparr> HolderBot (sample_office Suspended)"


section \<open>The fence of a managed computer\<close>

lemma fence_runs_frame:
  assumes "fence_runs now reason ids tids s = Inr (u, s')"
  shows "db_computers s' = db_computers s" and "db_leases s' = db_leases s" and "db_bots s' = db_bots s"
    and "\<forall>r' \<in> set (db_runs s'). (\<exists>r \<in> set (db_runs s). r_id r \<in> set ids \<and> isActive (r_status r) \<and> r_id r' = r_id r
       \<and> r_botId r' = r_botId r \<and> r_status r' = Cancelled \<and> r_leaseOwner r' = None)
       \<or> (r' \<in> set (db_runs s) \<and> \<not> (r_id r' \<in> set ids \<and> isActive (r_status r')))"
  using assms by (auto simp: fence_runs_def tx_bind_run updateMany_def split: if_splits)

text \<open>
  Stopping a managed computer fences everything off in one step: when the fence is committed
  the bot has no active run any more, nobody holds a lease on the computer, no person controls
  it, both of its fences have moved on, and it is stopped, or suspending until its provider
  confirms.
\<close>

theorem managed_fence_stops_all:
  assumes f: "fenceManagedComputerForLifecycleInTransaction now input s = Inr ((computer, runIds), s')"
    and ids: "comp_ids s"
  shows "(\<forall>r \<in> set (db_runs s'). r_botId r = fi_botId input \<longrightarrow> \<not> isActive (r_status r)) \<and>
    (\<forall>l \<in> set (db_leases s'). l_computerId l \<noteq> c_id computer) \<and>
    fence_fields now computer computer\<lparr>c_updatedAt := now\<rparr> \<in> set (db_computers s') \<and>
    look (c_id computer) s' = Some (if truthy (c_providerRef computer) then Suspending else Stopped, c_providerRef computer)"
proof -
  let ?runs = "filter (\<lambda>r. r_botId r = fi_botId input \<and> isActive (r_status r)) (db_runs s)"
  let ?p = "\<lambda>c. c_id c = c_id computer \<and> c_state c = c_state computer \<and> c_providerRef c = c_providerRef computer"
  let ?f = "\<lambda>c. fence_fields now computer c\<lparr>c_updatedAt := now\<rparr>"
  obtain s1 where found: "find (\<lambda>c. c_id c = fi_computerId input \<and> c_scope c = ''dedicated''
       \<and> (\<exists>b \<in> set (db_bots s). b_id b = fi_botId input \<and> b_computerId b = Some (c_id c))) (db_computers s) = Some computer"
    and runs: "fence_runs now (fi_reason input) (map r_id ?runs) (remdups (map r_taskId ?runs)) s = Inr ((), s1)"
    and s': "s' = db_computers_update (updateMany ?p ?f) (db_leases_update (deleteMany (\<lambda>l. l_computerId l = c_id computer)) s1)"
    using f unfolding fenceManagedComputerForLifecycleInTransaction_def Let_def
    by (auto simp: tx_bind_Inr split: option.splits if_splits)
  note fr = fence_runs_frame [OF runs]
  have c: "computer \<in> set (db_computers s)" using find_SomeD [OF found] by auto
  have first: "find (\<lambda>c. c_id c = c_id computer) (db_computers s) = Some computer"
  proof (cases "find (\<lambda>c. c_id c = c_id computer) (db_computers s)")
    case None
    with c show ?thesis by (auto simp: find_None_ball)
  next
    case (Some d)
    have "distinct (map c_id (db_computers s))" using ids by (simp add: comp_ids_def)
    from find_id_unique [OF this Some, of computer] c have "computer = d" by simp
    with Some show ?thesis by simp
  qed
  have "\<not> isActive (r_status r)" if r: "r \<in> set (db_runs s')" "r_botId r = fi_botId input" for r
  proof
    assume act: "isActive (r_status r)"
    have "r \<in> set (db_runs s1)" using r(1) by (simp add: s')
    with fr(4) act have "r \<in> set (db_runs s)" "r_id r \<notin> set (map r_id ?runs)"
      by (auto simp: active_iff_not_terminal)
    with act r(2) show False by auto
  qed
  moreover have "l_computerId l \<noteq> c_id computer" if "l \<in> set (db_leases s')" for l
    using that by (auto simp: s' set_deleteMany)
  moreover have "?f computer \<in> set (db_computers s')"
    using c by (auto simp: s' fr(1) updateMany_def image_iff intro!: bexI [of _ computer])
  moreover have "look (c_id computer) s' = Some (if truthy (c_providerRef computer) then Suspending else Stopped, c_providerRef computer)"
  proof -
    have "c_id (?f c) = c_id c" for c by (simp add: fence_fields_def)
    from look_update [of ?f, OF this] show ?thesis
      unfolding s' by (simp add: fr(1) first fence_fields_def)
  qed
  ultimately show ?thesis by blast
qed

definition sample_fence :: fence_input where
  "sample_fence = \<lparr>fi_computerId = ''c'', fi_botId = ''b'', fi_reason = ''Client offboarded''\<rparr>"

definition sample_managed :: db where
  "sample_managed = (sample_office CompRunning)\<lparr>db_runs := [sample_run ''r'' Running (Some ''w1'') 2],
     db_computers := [(sample_computer CompRunning)\<lparr>c_scope := ''dedicated''\<rparr>]\<rparr>"

definition sample_fenced :: db where
  "sample_fenced = (case fenceManagedComputerForLifecycleInTransaction 9 sample_fence sample_managed of
     Inl _ \<Rightarrow> empty_db | Inr v \<Rightarrow> snd v)"

lemma sample_fence_run:
  "fenceManagedComputerForLifecycleInTransaction 9 sample_fence sample_managed =
     Inr (((sample_computer CompRunning)\<lparr>c_scope := ''dedicated''\<rparr>, [''r'']), sample_fenced)"
  by code_simp

theorem managed_fence_stops_all_witness:
  "look ''c'' sample_fenced = Some (Suspending, Some ''p'')"
  using managed_fence_stops_all [OF sample_fence_run]
  by (simp add: comp_ids_def sample_managed_def sample_computer_def truthy_def)

end
