(* ===== verification/RunExecutor.thy ===== *)
theory RunExecutor
  imports ComputerGuarantees EffectGate
begin

text \<open>
  The worker that executes a run (packages/adapters/src/executor.ts), first part: the lease a
  worker takes on a run, how it is renewed, given back or handed on, and \<open>continueRun\<close>
  around the session with the agent. A worker is given by \<open>worker\<close>: its identifier, what its
  clock reads and what other clients do at each of its steps, and whether the job publisher is
  down. The session is an argument here; \<open>RunSession\<close> provides it.
\<close>

record worker =
  wk_id :: string
  wk_clock :: "nat \<Rightarrow> time"
  wk_env :: "nat \<Rightarrow> db \<Rightarrow> db"
  wk_seat_env :: "nat \<Rightarrow> db \<Rightarrow> db"   \<comment> \<open>while it takes the execution lease\<close>
  wk_down :: bool
  wk_attempt :: string             \<comment> \<open>the identifier of the attempt it creates\<close>
  wk_event :: string

section \<open>The lease of a run\<close>

definition RUN_LEASE_MS :: time where
  "RUN_LEASE_MS = 5 * 60000"

record run_handle =
  rh_runId :: string
  rh_owner :: string
  rh_fence :: nat

definition works :: "run_status \<Rightarrow> run_handle \<Rightarrow> run \<Rightarrow> bool" where
  "works st h r \<longleftrightarrow> r_id r = rh_runId h \<and> r_status r = st \<and> r_leaseOwner r = Some (rh_owner h)
     \<and> r_leaseFence r = rh_fence h"

definition renewRunLease :: "time \<Rightarrow> run_handle \<Rightarrow> bool dbtx" where
  "renewRunLease now h =
     tx_bind (run_updateMany now (works Running h)
       (\<lambda>r. r\<lparr>r_leaseExpiresAt := Some (now + RUN_LEASE_MS)\<rparr>)) (\<lambda>renewed.
     tx_return (renewed = 1))"

definition computerRetryDelay :: "nat \<Rightarrow> time" where
  "computerRetryDelay fence = min 10000 (250 * 2 ^ nat (min (max (int fence - 1) 0) 5))"

definition computerRunRequeueData :: "resume_checkpoint option \<Rightarrow> string option \<Rightarrow> run \<Rightarrow> run" where
  "computerRunRequeueData resumeCheckpoint error r =
     r\<lparr>r_status := Queued, r_error := error, r_leaseOwner := None, r_leaseExpiresAt := None,
       r_checkpoint := map_option checkpoint_string resumeCheckpoint\<rparr>"

definition requeue_tx :: "time \<Rightarrow> run_handle \<Rightarrow> resume_checkpoint option \<Rightarrow> string option \<Rightarrow> nat dbtx" where
  "requeue_tx now h resumeCheckpoint error =
     run_updateMany now (works Running h) (computerRunRequeueData resumeCheckpoint error)"

definition delayed_continue :: "string \<Rightarrow> time \<Rightarrow> job" where
  "delayed_continue runId at = (runContinueJob runId)\<lparr>j_availableAt := Some at\<rparr>"

definition requeueComputerRun :: "worker \<Rightarrow> nat \<Rightarrow> run_handle \<Rightarrow> resume_checkpoint option \<Rightarrow> unit dbprog" where
  "requeueComputerRun w i h resumeCheckpoint =
     prog_bind (prog_tx (requeue_tx (wk_clock w i) h resumeCheckpoint None)) (\<lambda>released.
     if released \<noteq> 1 then prog_return ()
     else prog_bind (prog_env (wk_env w (i + 1))) (\<lambda>_.
       enqueue (wk_down w) (delayed_continue (rh_runId h)
         (wk_clock w (i + 1) + computerRetryDelay (rh_fence h)))))"

definition failBlocked_tx :: "time \<Rightarrow> string \<Rightarrow> run \<Rightarrow> run_handle \<Rightarrow> string \<Rightarrow> event option dbtx" where
  "failBlocked_tx now eid run h error =
     tx_bind (run_updateMany now (\<lambda>r. works Leased h r \<and> r_workspaceId r = r_workspaceId run)
       (\<lambda>r. r\<lparr>r_status := Failed, r_error := Some error, r_completedAt := Some now,
              r_leaseOwner := None, r_leaseExpiresAt := None\<rparr>)) (\<lambda>terminal.
     if terminal \<noteq> 1 then tx_return None
     else
     tx_bind (task_updateMany now (\<lambda>t. t_id t = r_taskId run \<and> t_workspaceId t = r_workspaceId run
         \<and> t_threadId t = r_threadId run \<and> t_botId t = r_botId run)
       (\<lambda>t. t\<lparr>t_status := Failed\<rparr>)) (\<lambda>_.
     tx_bind (appendEventInTransaction now eid
       \<lparr>ei_workspaceId = r_workspaceId run, ei_threadId = r_threadId run, ei_botId = r_botId run,
        ei_type = RunFailed, ei_payload = [(''error'', PJson (JStr error))],
        ei_runId = Some (r_id run)\<rparr>) (\<lambda>event. tx_return (Some event))))"

definition failBlockedManagedRun :: "time \<Rightarrow> string \<Rightarrow> run \<Rightarrow> run_handle \<Rightarrow> string \<Rightarrow> notification list dbprog" where
  "failBlockedManagedRun now eid run h error =
     prog_bind (prog_tx (failBlocked_tx now eid run h error)) (\<lambda>committed.
     prog_return (case committed of None \<Rightarrow> [] | Some event \<Rightarrow> notifyRealtime (r_threadId run) (e_seq event)))"

definition releaseManagedModelPreflightLease :: "time \<Rightarrow> run_handle \<Rightarrow> nat dbtx" where
  "releaseManagedModelPreflightLease now h =
     run_updateMany now (works Leased h)
       (\<lambda>r. r\<lparr>r_status := Queued, r_error := Some ''Managed model resolution failed; retrying'',
              r_leaseOwner := None, r_leaseExpiresAt := None\<rparr>)"

section \<open>Taking a run\<close>

text \<open>\<open>resumeCheckpoint\<close>: only the two checkpoints a released takeover leaves count.\<close>

definition resume_checkpoint_of :: "run \<Rightarrow> resume_checkpoint option" where
  "resume_checkpoint_of run =
     (if r_checkpoint run = Some (checkpoint_string CheckTakeover) then Some CheckTakeover
      else if r_checkpoint run = Some (checkpoint_string CheckTakeoverSkipped) then Some CheckTakeoverSkipped
      else None)"

definition resume_from_takeover :: "run \<Rightarrow> bool" where
  "resume_from_takeover run \<longleftrightarrow> r_status run = WaitingTakeover \<or> resume_checkpoint_of run \<noteq> None"

definition takeover_resume :: "run \<Rightarrow> (resume_checkpoint \<times> string) option" where
  "takeover_resume run =
     (if resume_from_takeover run
      then Some (takeoverResumeFromRelease (if resume_checkpoint_of run = Some CheckTakeoverSkipped
        then JStr ''skipped'' else JStr ''done''))
      else None)"

definition claimable :: "time \<Rightarrow> string \<Rightarrow> run \<Rightarrow> bool" where
  "claimable now runId r \<longleftrightarrow> r_id r = runId \<and>
     (r_status r \<in> {Queued, WaitingInput, WaitingTakeover} \<or>
      (r_status r \<in> {Leased, Running} \<and>
       (case r_leaseExpiresAt r of None \<Rightarrow> False | Some t \<Rightarrow> t \<le> now)))"

definition claim_run :: "time \<Rightarrow> time \<Rightarrow> run_handle \<Rightarrow> nat dbtx" where
  "claim_run now now' h =
     run_updateMany now' (claimable now (rh_runId h))
       (\<lambda>r. r\<lparr>r_status := Leased, r_leaseOwner := Some (rh_owner h), r_leaseFence := rh_fence h,
              r_leaseExpiresAt := Some (now' + RUN_LEASE_MS), r_error := None, r_checkpoint := None\<rparr>)"

definition start_run :: "time \<Rightarrow> run_handle \<Rightarrow> run \<Rightarrow> nat dbtx" where
  "start_run now h current =
     run_updateMany now (works Leased h)
       (\<lambda>r. r\<lparr>r_status := Running,
              r_startedAt := Some (case r_startedAt current of None \<Rightarrow> now | Some t \<Rightarrow> t)\<rparr>)"

text \<open>What the managed model resolver answers; the blocked error carries its message.\<close>

datatype resolution = Unmanaged | Managed string | ResolveBlocked string | ResolveFailed db_error

section \<open>Around the session\<close>

text \<open>
  The session ends with a pause that keeps the computer, or with the screen it used, and with
  the error that reached the outer handler, if one did.
\<close>

record session_end =
  se_retain :: bool
  se_screen :: "computer_ref option"
  se_error :: "db_error option"

record session_input =
  sn_run :: run                         \<comment> \<open>as read before the claim\<close>
  sn_handle :: run_handle
  sn_attempt :: string
  sn_lease :: "lease_handle option"
  sn_managed :: "string option"         \<comment> \<open>the service identity of a managed model\<close>
  sn_resume :: "(resume_checkpoint \<times> string) option"

type_synonym session = "session_input \<Rightarrow> db \<Rightarrow> session_end \<times> db"

definition prog_finally :: "unit dbprog \<Rightarrow> unit dbprog \<Rightarrow> unit dbprog" where
  "prog_finally m c =
     prog_bind (prog_catch (prog_bind m (\<lambda>_. prog_return None)) (\<lambda>error. prog_return (Some error))) (\<lambda>thrown.
     prog_bind c (\<lambda>_. case thrown of None \<Rightarrow> prog_return () | Some error \<Rightarrow> prog_throw error))"

definition SETUP_FAILED :: string where
  "SETUP_FAILED = ''Run setup failed; retrying''"

definition setup_failed ::
  "worker \<Rightarrow> run_handle \<Rightarrow> string \<Rightarrow> resume_checkpoint option \<Rightarrow> db_error \<Rightarrow> unit dbprog" where
  "setup_failed w h attemptId resumeCheckpoint setupError =
     prog_bind (prog_tx (requeue_tx (wk_clock w 20) h resumeCheckpoint
       (if setupError = ComputerBusyError then None else Some SETUP_FAILED))) (\<lambda>released.
     if released \<noteq> 1 then prog_return ()
     else
       prog_bind (prog_env (wk_env w 21)) (\<lambda>_.
       prog_bind (prog_tx (update_one db_attempts db_attempts_update (\<lambda>a. a_id a = attemptId)
         (\<lambda>a. a\<lparr>a_status := AttSetupFailed, a_error := Some SETUP_FAILED,
                a_finishedAt := Some (wk_clock w 21)\<rparr>))) (\<lambda>_.
       prog_bind (prog_env (wk_env w 22)) (\<lambda>_.
       if setupError = ComputerBusyError
       then enqueue (wk_down w) (delayed_continue (rh_runId h)
         (wk_clock w 22 + computerRetryDelay (rh_fence h)))
       else prog_throw (Thrown SETUP_FAILED)))))"

definition release_computer :: "sandbox \<Rightarrow> worker \<Rightarrow> session_end \<Rightarrow> lease_handle option \<Rightarrow> unit dbprog" where
  "release_computer sb w en lease =
     (if se_retain en then prog_return ()
      else prog_bind (case se_screen en of None \<Rightarrow> prog_return ()
          | Some ref \<Rightarrow> ignore_error (call sb (CallReleaseScreen ref))) (\<lambda>_.
        prog_bind (prog_env (wk_env w 23)) (\<lambda>_.
        ignore_error (prog_tx (releaseComputerExecutionLease lease)))))"

definition interrupt_attempt :: "time \<Rightarrow> string \<Rightarrow> unit dbtx" where
  "interrupt_attempt now attemptId =
     tx_bind (attempt_updateMany (\<lambda>a. a_id a = attemptId \<and> a_status a = AttRunning)
       (\<lambda>a. a\<lparr>a_status := AttInterrupted, a_finishedAt := Some now\<rparr>)) (\<lambda>_. tx_return ())"

definition clean_up :: "sandbox \<Rightarrow> worker \<Rightarrow> session_end \<Rightarrow> lease_handle option \<Rightarrow> string \<Rightarrow> unit dbprog" where
  "clean_up sb w en lease attemptId =
     prog_bind (release_computer sb w en lease) (\<lambda>_.
     prog_bind (prog_env (wk_env w 24)) (\<lambda>_.
     ignore_error (prog_tx (interrupt_attempt (wk_clock w 24) attemptId))))"

definition end_session ::
  "sandbox \<Rightarrow> worker \<Rightarrow> session_input \<Rightarrow> session_end \<Rightarrow> unit dbprog" where
  "end_session sb w sn en =
     prog_finally
       (case se_error en of None \<Rightarrow> prog_return ()
        | Some error \<Rightarrow> setup_failed w (sn_handle sn) (sn_attempt sn) (resume_checkpoint_of (sn_run sn)) error)
       (clean_up sb w en (sn_lease sn) (sn_attempt sn))"

definition run_session :: "session \<Rightarrow> session_input \<Rightarrow> session_end dbprog" where
  "run_session session sn = (\<lambda>s. (case session sn s of (en, s') \<Rightarrow> (Inr en, s')))"

definition open_session ::
  "sandbox \<Rightarrow> worker \<Rightarrow> session \<Rightarrow> session_input \<Rightarrow> unit dbprog" where
  "open_session sb w session sn =
     prog_bind (prog_catch
       (prog_tx (attempt_create \<lparr>a_id = sn_attempt sn, a_runId = rh_runId (sn_handle sn),
         a_fence = rh_fence (sn_handle sn), a_status = AttRunning, a_error = None,
         a_startedAt = wk_clock w 8, a_finishedAt = None\<rparr>))
       (\<lambda>error. prog_bind (prog_env (wk_env w 9)) (\<lambda>_.
          prog_bind (ignore_error (prog_tx (releaseComputerExecutionLease (sn_lease sn)))) (\<lambda>_.
          prog_throw error)))) (\<lambda>_.
     prog_bind (prog_env (wk_env w 10)) (\<lambda>_.
     prog_bind (run_session session sn) (\<lambda>en.
     prog_bind (prog_env (wk_env w 20)) (\<lambda>_.
     end_session sb w sn en))))"

definition seat_and_run ::
  "sandbox \<Rightarrow> worker \<Rightarrow> session \<Rightarrow> run \<Rightarrow> run_handle \<Rightarrow> string option \<Rightarrow> unit dbprog" where
  "seat_and_run sb w session run h managed =
     prog_bind (prog_gets (\<lambda>s. find (\<lambda>b. b_id b = r_botId run) (db_bots s))) (\<lambda>bot.
     case bot of None \<Rightarrow> prog_throw RecordNotFound
     | Some leaseTarget \<Rightarrow>
       if \<not> truthy (b_computerId leaseTarget) then prog_throw (Thrown ''Bot has no computer'')
       else prog_bind (prog_env (wk_env w 6)) (\<lambda>_.
       if b_computerSwitching leaseTarget then requeueComputerRun w 6 h (resume_checkpoint_of run)
       else
         prog_bind (prog_catch
           (prog_bind (acquireComputerExecutionLease (wk_seat_env w) (wk_clock w 6)
             \<lparr>aq_computerId = the (b_computerId leaseTarget), aq_runId = rh_runId h,
              aq_botId = r_botId run, aq_resumeHeldLease = resume_from_takeover run\<rparr>)
             (\<lambda>lease. prog_return (Some lease)))
           (\<lambda>error. if error = ComputerBusyError then prog_return None else prog_throw error)) (\<lambda>seat.
         case seat of
           None \<Rightarrow> requeueComputerRun w 7 h (resume_checkpoint_of run)
         | Some lease \<Rightarrow>
             prog_bind (prog_env (wk_env w 8)) (\<lambda>_.
             open_session sb w session \<lparr>sn_run = run, sn_handle = h, sn_attempt = wk_attempt w,
               sn_lease = lease, sn_managed = managed, sn_resume = takeover_resume run\<rparr>))))"

definition start_and_run ::
  "sandbox \<Rightarrow> worker \<Rightarrow> session \<Rightarrow> run \<Rightarrow> run \<Rightarrow> run_handle \<Rightarrow> string option \<Rightarrow> unit dbprog" where
  "start_and_run sb w session run current h managed =
     prog_bind (if r_status current \<in> {Queued, Leased, WaitingInput, WaitingTakeover}
       then (case assertTransition (r_status current) Running of
           Inl _ \<Rightarrow> prog_throw (Thrown ''Illegal run transition'') | Inr _ \<Rightarrow> prog_return ())
       else prog_return ()) (\<lambda>_.
     prog_bind (prog_tx (start_run (wk_clock w 4) h current)) (\<lambda>started.
     if started \<noteq> 1 then prog_return ()
     else prog_bind (prog_env (wk_env w 5)) (\<lambda>_. seat_and_run sb w session run h managed)))"

definition continueRun ::
  "sandbox \<Rightarrow> worker \<Rightarrow> (run \<Rightarrow> resolution) \<Rightarrow> session \<Rightarrow> string \<Rightarrow> notification list dbprog" where
  "continueRun sb w resolver session runId =
     prog_bind (prog_gets (\<lambda>s. find (\<lambda>r. r_id r = runId) (db_runs s))) (\<lambda>found.
     case found of None \<Rightarrow> prog_return []
     | Some run \<Rightarrow>
       if isTerminal (r_status run) then prog_return []
       else let h = \<lparr>rh_runId = runId, rh_owner = wk_id w, rh_fence = nextFence (r_leaseFence run)\<rparr> in
         prog_bind (prog_env (wk_env w 0)) (\<lambda>_.
         prog_bind (prog_tx (claim_run (wk_clock w 0) (wk_clock w 1) h)) (\<lambda>leased.
         if leased \<noteq> 1 then prog_return []
         else
           prog_bind (prog_env (wk_env w 1)) (\<lambda>_.
           prog_bind (prog_gets (\<lambda>s. find (\<lambda>r. r_id r = runId) (db_runs s))) (\<lambda>current.
           case current of None \<Rightarrow> prog_throw RecordNotFound
           | Some current \<Rightarrow>
               prog_bind (prog_env (wk_env w 2)) (\<lambda>_.
               case resolver run of
                 ResolveBlocked error \<Rightarrow> failBlockedManagedRun (wk_clock w 3) (wk_event w) current h error
               | ResolveFailed error \<Rightarrow>
                   prog_bind (prog_tx (releaseManagedModelPreflightLease (wk_clock w 3) h)) (\<lambda>_.
                   prog_throw error)
               | Unmanaged \<Rightarrow>
                   prog_bind (start_and_run sb w session run current h None) (\<lambda>_. prog_return [])
               | Managed serviceIdentityId \<Rightarrow>
                   prog_bind (start_and_run sb w session run current h (Some serviceIdentityId))
                     (\<lambda>_. prog_return [])))))))"

section \<open>Contracts\<close>

lemma run_handle_steps [tx_rules]:
  "tx_rel (db_step del) (renewRunLease now h)" "tx_rel (db_step del) (requeue_tx now h c e)"
  "tx_rel (db_step del) (failBlocked_tx now eid run h msg)"
  "tx_rel (db_step del) (releaseManagedModelPreflightLease now h)"
  "tx_rel (db_step del) (claim_run now now' h)" "tx_rel (db_step del) (start_run now h current)"
  "tx_rel (db_step del) (interrupt_attempt now k)"
  unfolding renewRunLease_def requeue_tx_def failBlocked_tx_def releaseManagedModelPreflightLease_def
    claim_run_def start_run_def interrupt_attempt_def
  by (intro tx_rules; auto simp: run_step_intro works_def claimable_def computerRunRequeueData_def
      intro: core_step.intros split: option.splits)+

lemma requeueComputerRun_step:
  assumes "\<And>i. env_ok del (wk_env w i)"
  shows "prog_rel (db_step del) (requeueComputerRun w i h c)"
  unfolding requeueComputerRun_def by (intro tx_rules assms)

lemma prel_finally:
  "prog_rel (db_step del) m \<Longrightarrow> prog_rel (db_step del) c \<Longrightarrow> prog_rel (db_step del) (prog_finally m c)"
  unfolding prog_finally_def by (intro tx_rules)

lemma end_session_step:
  assumes "\<And>i. env_ok del (wk_env w i)"
  shows "prog_rel (db_step del) (end_session sb w sn en)"
  unfolding end_session_def setup_failed_def clean_up_def release_computer_def ignore_error_def
  by (intro prel_finally tx_rules assms)

definition session_ok :: "(effect \<Rightarrow> bool) \<Rightarrow> session \<Rightarrow> bool" where
  "session_ok del session \<longleftrightarrow> (\<forall>sn s. db_step del s (snd (session sn s)))"

lemma run_session_step: "session_ok del session \<Longrightarrow> prog_rel (db_step del) (run_session session sn)"
  by (simp add: prog_rel_def run_session_def session_ok_def case_prod_beta)

lemma prel_sum [tx_rules]:
  "(\<And>x. prog_rel R (f x)) \<Longrightarrow> (\<And>y. prog_rel R (g y)) \<Longrightarrow>
   prog_rel R (case v of Inl x \<Rightarrow> f x | Inr y \<Rightarrow> g y)"
  by (cases v) simp_all

lemma prel_resolution [tx_rules]:
  "prog_rel R a \<Longrightarrow> (\<And>i. prog_rel R (b i)) \<Longrightarrow> (\<And>m. prog_rel R (c m)) \<Longrightarrow> (\<And>e. prog_rel R (d e)) \<Longrightarrow>
   prog_rel R (case v of Unmanaged \<Rightarrow> a | Managed i \<Rightarrow> b i | ResolveBlocked m \<Rightarrow> c m | ResolveFailed e \<Rightarrow> d e)"
  by (cases v) simp_all

lemma continueRun_step:
  assumes "\<And>i. env_ok del (wk_env w i)" and "\<And>i. env_ok del (wk_seat_env w i)" and "session_ok del session"
  shows "prog_rel (db_step del) (continueRun sb w resolver session runId)"
  unfolding continueRun_def start_and_run_def seat_and_run_def open_session_def
    failBlockedManagedRun_def ignore_error_def
  by (intro tx_rules requeueComputerRun_step end_session_step run_session_step acquire_step assms)

section \<open>Leases on runs are fenced\<close>

definition run_held :: "run_handle \<Rightarrow> db \<Rightarrow> bool" where
  "run_held h s \<longleftrightarrow> (\<exists>r \<in> set (db_runs s). works Running h r)"

interpretation run_table: keyed_table r_id .

lemma works_count:
  assumes "run_ids_distinct s"
  shows "countMany (\<lambda>r. works st h r \<and> p r) (db_runs s) =
    (if \<exists>r \<in> set (db_runs s). works st h r \<and> p r then 1 else 0)"
proof -
  have "(\<lambda>r. works st h r \<and> p r) = (\<lambda>r. r_id r = rh_runId h \<and> (works st h r \<and> p r))"
    by (auto simp: works_def)
  then have "countMany (\<lambda>r. works st h r \<and> p r) (db_runs s) \<le> 1"
    using run_table.count_by_key assms unfolding run_ids_distinct_def by (simp only:)
  moreover have "countMany (\<lambda>r. works st h r \<and> p r) (db_runs s) = 0 \<longleftrightarrow>
      \<not> (\<exists>r \<in> set (db_runs s). works st h r \<and> p r)" by simp
  ultimately show ?thesis by (auto simp del: countMany_0)
qed

lemmas works_count_one = works_count [where p = "\<lambda>_. True", simplified]

lemma works_none: "\<not> (\<exists>r \<in> set (db_runs s). works st h r) \<Longrightarrow> updateMany (works st h) f (db_runs s) = db_runs s"
  by (auto intro!: updateMany_none)

lemma run_ids_update:
  "(\<And>r. r_id (f r) = r_id r) \<Longrightarrow> run_ids_distinct (db_runs_update (updateMany p f) s) = run_ids_distinct s"
  by (simp add: run_ids_distinct_def map_updateMany)

definition give_back :: "time \<Rightarrow> run_handle \<Rightarrow> unit dbtx" where
  "give_back now h = tx_bind (requeue_tx now h None None) (\<lambda>_. tx_return ())"

interpretation run_lease: fenced_lease run_ids_distinct run_held rh_runId renewRunLease give_back
proof
  fix s h h' assume d: "run_ids_distinct s" and "run_held h s" "run_held h' s" "rh_runId h = rh_runId h'"
  then obtain r r' where r: "r \<in> set (db_runs s)" "r' \<in> set (db_runs s)" "works Running h r" "works Running h' r'"
    by (auto simp: run_held_def)
  then have "r = r'" using run_table.row_unique [of "db_runs s" r r'] d \<open>rh_runId h = rh_runId h'\<close>
    by (simp add: run_ids_distinct_def works_def)
  with r show "h = h'" by (cases h; cases h') (simp add: works_def)
next
  fix s h now assume d: "run_ids_distinct s" and h: "run_held h s"
  let ?f = "\<lambda>r. r\<lparr>r_leaseExpiresAt := Some (now + RUN_LEASE_MS), r_updatedAt := now\<rparr>"
  let ?s = "db_runs_update (updateMany (works Running h) ?f) s"
  have "renewRunLease now h s = Inr (True, ?s)"
    using works_count_one [OF d, of Running h] h by (simp add: renewRunLease_def tx_bind_run run_held_def del: countMany_0)
  moreover have "run_ids_distinct ?s" using d by (simp add: run_ids_update)
  moreover have "run_held g ?s \<longleftrightarrow> run_held g s" for g
    by (simp add: run_held_def bex_updateMany works_def)
  ultimately show "\<exists>s'. renewRunLease now h s = Inr (True, s') \<and> run_ids_distinct s' \<and>
      (\<forall>g. run_held g s' \<longleftrightarrow> run_held g s)" by blast
next
  fix h s now assume "\<not> run_held h s"
  then show "renewRunLease now h s = Inr (False, s)"
    by (auto simp: renewRunLease_def tx_bind_run works_none run_held_def countMany_def filter_empty_conv)
next
  fix s h now assume d: "run_ids_distinct s" and h: "run_held h s"
  let ?f = "\<lambda>r. (computerRunRequeueData None None r)\<lparr>r_updatedAt := now\<rparr>"
  let ?s = "db_runs_update (updateMany (works Running h) ?f) s"
  have "give_back now h s = Inr ((), ?s)" by (simp add: give_back_def requeue_tx_def tx_bind_run)
  moreover have "run_ids_distinct ?s" using d by (simp add: run_ids_update computerRunRequeueData_def)
  moreover have "\<not> run_held h ?s"
    by (auto simp: run_held_def set_updateMany works_def computerRunRequeueData_def split: if_splits)
  moreover have "run_held g ?s = run_held g s" if "rh_runId g \<noteq> rh_runId h" for g
    using that by (force simp: run_held_def set_updateMany works_def computerRunRequeueData_def split: if_splits)
  ultimately show "\<exists>s'. give_back now h s = Inr ((), s') \<and> run_ids_distinct s' \<and> \<not> run_held h s' \<and>
      (\<forall>g. rh_runId g \<noteq> rh_runId h \<longrightarrow> run_held g s' = run_held g s)" by blast
next
  fix h s now assume "\<not> run_held h s"
  then show "give_back now h s = Inr ((), s)"
    by (simp add: give_back_def requeue_tx_def tx_bind_run works_none run_held_def)
qed

end
