(* ===== verification/RunSession.thy ===== *)
theory RunSession
  imports RunExecutor LiveProjection Redactor
begin

text \<open>
  The session of a run with the agent (the inner part of \<open>continueRun\<close> in
  packages/adapters/src/executor.ts): how the events of the agent become progress, messages,
  pauses and the final answer. The runtime, the tools and the other clients are outside; what
  reaches the session is a list of steps in the order it happens. The runtime that replays a
  canned script is not modelled, nor are the push notifications, which keep no state here.
\<close>

section \<open>Text of the final message\<close>

definition completionMessageSegments :: "message_block list \<Rightarrow> bool \<Rightarrow> message_block list" where
  "completionMessageSegments segments allowSilentEmpty =
     (if length segments > 0 then segments else if allowSilentEmpty then [] else [TextBlock ''done.''])"

definition completionNotificationBody :: "string \<Rightarrow> message_block list \<Rightarrow> string" where
  "completionNotificationBody assembled blocks =
     (if assembled \<noteq> [] then assembled
      else concat (map (\<lambda>b. case b of TextBlock t \<Rightarrow> t | _ \<Rightarrow> []) blocks))"

definition redactBlocks :: "message_block list \<Rightarrow> string list \<Rightarrow> message_block list" where
  "redactBlocks blocks secrets = map (\<lambda>b. case b of
       TextBlock t \<Rightarrow> TextBlock (redactSecrets t secrets)
     | BotMessageSentBlock i n t \<Rightarrow> BotMessageSentBlock i n (redactSecrets t secrets)
     | BotMessageReceivedBlock i n t h \<Rightarrow> BotMessageReceivedBlock i n (redactSecrets t secrets) h
     | _ \<Rightarrow> b) blocks"

definition HISTORY_WINDOW_SIZE :: nat where "HISTORY_WINDOW_SIZE = 50"
definition COMPACTION_BATCH_SIZE :: nat where "COMPACTION_BATCH_SIZE = 50"

definition shouldEnqueueCompaction :: "nat \<Rightarrow> int option \<Rightarrow> nat \<Rightarrow> nat \<Rightarrow> bool" where
  "shouldEnqueueCompaction nextMessageSeq historyCompactedUpToSeq windowSize batchSize \<longleftrightarrow>
     (let compactedUpTo = (case historyCompactedUpToSeq of None \<Rightarrow> -1 | Some q \<Rightarrow> q) in
      int nextMessageSeq - compactedUpTo - 1 \<ge> int (windowSize + batchSize))"

section \<open>What reaches a session\<close>

datatype agent_event =
    EvText string
  | EvProgress string
  | EvTool string json string                    \<comment> \<open>name, arguments, execution\<close>
  | EvAsk string "string option"
  | EvTakeover string
  | EvUsage nat nat int string string "string option"
  | EvCheckpoint string
  | EvSubagent subagent_block
  | EvDone "string option"

text \<open>
  Between the events of the agent: time passes, a tool of the session reads a secret, consumes an
  approved request or pauses the run, the heartbeat fails, and others change the database.
\<close>

datatype session_step =
    Agent agent_event
  | Tick time
  | LearnSecret string
  | TakeReplay string
  | ToolPaused
  | HeartbeatLost
  | Others "db \<Rightarrow> db"

record session_params =
  sp_sandbox :: sandbox
  sp_down :: bool
  sp_idle :: "string option"
  sp_secrets :: "string list"
  sp_env :: "nat \<Rightarrow> db \<Rightarrow> db"        \<comment> \<open>other clients, between two statements\<close>
  sp_start :: time
  sp_clock :: "nat \<Rightarrow> time"          \<comment> \<open>while the computer is provisioned\<close>
  sp_boot_env :: "nat \<Rightarrow> nat \<Rightarrow> db \<Rightarrow> db"
  sp_aborted :: "nat \<Rightarrow> bool"
  sp_eid :: "db \<Rightarrow> string"         \<comment> \<open>new identifiers of events and messages\<close>
  sp_mid :: "db \<Rightarrow> string"
  sp_fails :: "nat \<Rightarrow> db_error option"  \<comment> \<open>errors of the services a session prepares with\<close>
  sp_message :: "db_error \<Rightarrow> string"
  sp_steps :: "session_step list"
  sp_crash :: "db_error option"    \<comment> \<open>the error the stream of the agent ends with\<close>

text \<open>The variables of a session.\<close>

record local =
  lo_assembled :: string
  lo_segment :: string                    \<comment> \<open>\<open>currentTextSegment\<close>\<close>
  lo_segments :: "message_block list"
  lo_tools :: "string list"               \<comment> \<open>\<open>pendingToolNames\<close>\<close>
  lo_progress :: string
  lo_lastProgressAt :: time
  lo_streamed :: bool
  lo_streak :: streak
  lo_values :: "string list"              \<comment> \<open>the redactor: its secrets and its buffer\<close>
  lo_buffer :: string
  lo_secrets :: "string list"
  lo_replays :: "replay list"
  lo_paused :: bool
  lo_leaseValid :: bool
  lo_lastLeaseCheckAt :: time
  lo_now :: time

text \<open>What is fixed for a session.\<close>

record frame =
  fr_params :: session_params
  fr_input :: session_input
  fr_bot :: bot
  fr_thread :: thread
  fr_computer :: computer
  fr_ref :: computer_ref

definition fr_run :: "frame \<Rightarrow> run" where
  "fr_run fr = sn_run (fr_input fr)"

definition fr_lease :: "frame \<Rightarrow> lease_input" where
  "fr_lease fr = (let run = fr_run fr; h = sn_handle (fr_input fr) in
     \<lparr>li_workspaceId = r_workspaceId run, li_threadId = th_id (fr_thread fr), li_botId = b_id (fr_bot fr),
      li_runId = rh_runId h, li_attemptId = sn_attempt (fr_input fr), li_leaseOwner = rh_owner h,
      li_leaseFence = rh_fence h\<rparr>)"

section \<open>Segments\<close>

definition flushPendingTools :: "local \<Rightarrow> local" where
  "flushPendingTools lo = lo\<lparr>
     lo_segments := foldl appendToolCallSegment
       (if lo_segment lo \<noteq> [] then appendTextSegment (lo_segments lo) (lo_segment lo) else lo_segments lo)
       (lo_tools lo),
     lo_segment := [], lo_tools := []\<rparr>"

definition tryFlushPendingTools :: "local \<Rightarrow> local" where
  "tryFlushPendingTools lo =
     (if length (lo_tools lo) > 0 \<and> endsSentence (lo_segment lo) then flushPendingTools lo else lo)"

definition no_streak :: streak where
  "no_streak = (None, 0)"

text \<open>The variables after a text event, before the flush it may cause.\<close>

definition take_text :: "string \<Rightarrow> local \<Rightarrow> local" where
  "take_text text lo =
     (let lo1 = tryFlushPendingTools (lo\<lparr>lo_assembled := lo_assembled lo @ text,
            lo_segment := lo_segment lo @ text, lo_streak := no_streak\<rparr>);
          r = redactor_push (lo_values lo1) (lo_buffer lo1) text
      in lo1\<lparr>lo_progress := lo_progress lo1 @ fst r, lo_buffer := snd r\<rparr>)"

definition take_tool :: "string \<Rightarrow> local \<Rightarrow> local" where
  "take_tool name lo = tryFlushPendingTools (lo\<lparr>lo_tools := lo_tools lo @ [name]\<rparr>)"

definition take_done :: "string option \<Rightarrow> local \<Rightarrow> local" where
  "take_done text lo =
     (if lo_assembled lo = [] \<and> truthy text
      then lo\<lparr>lo_assembled := the text, lo_segment := lo_segment lo @ the text\<rparr> else lo)"

text \<open>A secret the session learns: the old redactor gives up its buffer, a new one starts.\<close>

definition learn_secret :: "string \<Rightarrow> local \<Rightarrow> local" where
  "learn_secret plaintext lo =
     (let r = redactor_finish (lo_values lo) (lo_buffer lo);
          secrets = lo_secrets lo @ [plaintext]
      in lo\<lparr>lo_secrets := secrets, lo_progress := lo_progress lo @ fst r,
           lo_values := redactor_values secrets, lo_buffer := []\<rparr>)"

section \<open>Writing\<close>

definition persistMessageInTransaction ::
  "time \<Rightarrow> string \<Rightarrow> string \<Rightarrow> run \<Rightarrow> role \<Rightarrow> message_block list \<Rightarrow> (message \<times> nat) dbtx" where
  "persistMessageInTransaction now mid eid run rl blocks =
     tx_bind (createThreadMessageInTransaction now mid \<lparr>mi_threadId = r_threadId run, mi_role = rl,
       mi_blocks = blocks, mi_botId = Some (r_botId run), mi_replyToMessageId = None,
       mi_runId = Some (r_id run), mi_clientNonce = None\<rparr>) (\<lambda>message.
     tx_bind (appendEventInTransaction now eid \<lparr>ei_workspaceId = r_workspaceId run,
       ei_threadId = r_threadId run, ei_botId = r_botId run, ei_type = ThreadMessageCreated,
       ei_payload = message_payload (m_id message) rl blocks, ei_runId = Some (r_id run)\<rparr>) (\<lambda>event.
     tx_return (message, e_seq event)))"

text \<open>The realtime notification of a message may fail without effect.\<close>

definition publishMessage ::
  "session_params \<Rightarrow> time \<Rightarrow> run \<Rightarrow> role \<Rightarrow> message_block list \<Rightarrow> message dbprog" where
  "publishMessage p now run rl blocks =
     prog_bind (prog_gets (\<lambda>s. (sp_mid p s, sp_eid p s))) (\<lambda>(mid, eid).
     prog_bind (prog_tx (persistMessageInTransaction now mid eid run rl blocks)) (\<lambda>committed.
     prog_return (fst committed)))"

definition append_run_event :: "frame \<Rightarrow> time \<Rightarrow> event_type \<Rightarrow> payload \<Rightarrow> unit dbprog" where
  "append_run_event fr now ty payload =
     prog_bind (prog_gets (sp_eid (fr_params fr))) (\<lambda>eid.
     prog_bind (prog_tx (appendEvent now eid (run_event (fr_lease fr) ty payload))) (\<lambda>_.
     prog_return ()))"

definition flushProgress :: "frame \<Rightarrow> local \<Rightarrow> local dbprog" where
  "flushProgress fr lo =
     (if lo_progress lo = [] then prog_return lo
      else prog_bind (append_run_event fr (lo_now lo) ThreadProgress
          [(if lo_streamed lo then ''delta'' else ''text'', PJson (JStr (lo_progress lo))),
           (''streaming'', PJson (JBool True))]) (\<lambda>_.
        prog_return (lo\<lparr>lo_streamed := True, lo_progress := [], lo_lastProgressAt := lo_now lo\<rparr>)))"

definition checkpoint :: "frame \<Rightarrow> nat \<Rightarrow> time \<Rightarrow> unit dbprog" where
  "checkpoint fr i now =
     prog_bind (checkpointAndRecordComputerWorkspace (sp_sandbox (fr_params fr)) (sp_env (fr_params fr) i) now
       (c_id (fr_computer fr)) (c_homeKey (fr_computer fr)) (fr_ref fr)) (\<lambda>_. prog_return ())"

definition pause_input :: "frame \<Rightarrow> time \<Rightarrow> message_block list \<Rightarrow> bool dbprog" where
  "pause_input fr now blocks =
     prog_bind (prog_gets (\<lambda>s. (sp_mid (fr_params fr) s, sp_eid (fr_params fr) s))) (\<lambda>(mid, eid).
     prog_bind (prog_tx (pauseRunForInput now mid eid (''w'' @ eid) (fr_lease fr) blocks)) (\<lambda>(paused, _).
     prog_return paused))"

definition pause_takeover :: "frame \<Rightarrow> time \<Rightarrow> string \<Rightarrow> bool dbprog" where
  "pause_takeover fr now reason =
     prog_bind (prog_gets (sp_eid (fr_params fr))) (\<lambda>eid.
     prog_bind (prog_tx (pauseRunForTakeover now eid (fr_lease fr) reason)) (\<lambda>(paused, _).
     prog_return paused))"

definition finalize :: "frame \<Rightarrow> time \<Rightarrow> outcome \<Rightarrow> bool dbprog" where
  "finalize fr now oc =
     prog_bind (prog_gets (\<lambda>s. (sp_mid (fr_params fr) s, sp_eid (fr_params fr) s))) (\<lambda>(mid, eid).
     prog_bind (prog_tx (finalizeRun now mid eid (''w'' @ eid) (fr_lease fr) (r_taskId (fr_run fr)) oc)) (\<lambda>(completed, _).
     prog_return completed))"

definition others :: "frame \<Rightarrow> nat \<Rightarrow> unit dbprog" where
  "others fr i = prog_env (sp_env (fr_params fr) i)"

section \<open>The events of the agent\<close>

text \<open>
  After an event the loop goes on, or the session returns, retaining the computer or not, or an
  error goes to the handler of the session; the flag of \<open>Fail\<close> is \<open>terminalCheckpointComplete\<close>.
\<close>

datatype flow = Go | Stop bool | Fail db_error bool

definition fails_after_checkpoint :: "flow dbprog \<Rightarrow> flow dbprog" where
  "fails_after_checkpoint m = prog_catch m (\<lambda>error. prog_return (Fail error True))"

definition still_mine :: "frame \<Rightarrow> db \<Rightarrow> bool" where
  "still_mine fr s = (case find (\<lambda>r. r_id r = rh_runId (sn_handle (fr_input fr))) (db_runs s) of
     None \<Rightarrow> False
   | Some r \<Rightarrow> r_status r \<noteq> Cancelled \<and> r_leaseOwner r = Some (rh_owner (sn_handle (fr_input fr)))
       \<and> r_leaseFence r = rh_fence (sn_handle (fr_input fr)))"

definition redact_opt :: "string list \<Rightarrow> string option \<Rightarrow> string option" where
  "redact_opt secrets v = (if truthy v then Some (redactSecrets (the v) secrets) else v)"

definition redact_or_drop :: "string list \<Rightarrow> string option \<Rightarrow> string option" where
  "redact_or_drop secrets v = (if truthy v then Some (redactSecrets (the v) secrets) else None)"

definition on_text :: "frame \<Rightarrow> string \<Rightarrow> local \<Rightarrow> local dbprog" where
  "on_text fr text lo =
     (let lo1 = take_text text lo in
      if lo_progress lo1 \<noteq> [] \<and> lo_now lo1 - lo_lastProgressAt lo1 \<ge> 250 then flushProgress fr lo1
      else prog_return lo1)"

text \<open>A line of activity comes after the text that was streamed before it.\<close>

definition on_progress :: "frame \<Rightarrow> string \<Rightarrow> local \<Rightarrow> local dbprog" where
  "on_progress fr text lo =
     prog_bind (if lo_progress lo \<noteq> []
       then prog_bind (append_run_event fr (lo_now lo) ThreadProgress
           [(''delta'', PJson (JStr (lo_progress lo))), (''streaming'', PJson (JBool True))]) (\<lambda>_.
         prog_return (lo\<lparr>lo_streak := no_streak, lo_progress := [], lo_lastProgressAt := lo_now lo\<rparr>))
       else prog_return (lo\<lparr>lo_streak := no_streak\<rparr>)) (\<lambda>lo1.
     prog_bind (others fr 0) (\<lambda>_.
     prog_bind (append_run_event fr (lo_now lo) ThreadProgress
       [(''text'', PJson (JStr (redactSecrets text (lo_secrets lo))))]) (\<lambda>_.
     prog_return lo1)))"

definition on_ask :: "frame \<Rightarrow> string \<Rightarrow> string option \<Rightarrow> local \<Rightarrow> flow dbprog" where
  "on_ask fr text detail lo =
     prog_bind (prog_tx (renewRunLease (lo_now lo) (sn_handle (fr_input fr)))) (\<lambda>renewed.
     if \<not> renewed then prog_return (Stop False)
     else
       prog_bind (others fr 1) (\<lambda>_.
       prog_bind (checkpoint fr 2 (lo_now lo)) (\<lambda>_.
       prog_bind (others fr 3) (\<lambda>_.
       prog_bind (pause_input fr (lo_now lo) [AskBlock \<lparr>ask_text = redactSecrets text (lo_secrets lo),
           ask_approvalEffectId = None, ask_detail = redact_opt (lo_secrets lo) detail, ask_input = None,
           ask_status = Some AskPending, ask_answer = None, ask_actions = None\<rparr>]) (\<lambda>_.
       prog_return (Stop False))))))"

definition on_takeover :: "frame \<Rightarrow> string \<Rightarrow> local \<Rightarrow> flow dbprog" where
  "on_takeover fr reason lo =
     prog_bind (prog_tx (renewRunLease (lo_now lo) (sn_handle (fr_input fr)))) (\<lambda>renewed.
     if \<not> renewed then prog_return (Stop False)
     else
       let p = fr_params fr; safeReason = redactSecrets reason (lo_secrets lo) in
       prog_bind (others fr 4) (\<lambda>_.
       prog_bind (if js_trim (lo_assembled lo) \<noteq> []
         then prog_bind (publishMessage p (lo_now lo) (fr_run fr) RoleBot
             [TextBlock (redactSecrets (lo_assembled lo) (lo_secrets lo))]) (\<lambda>_. prog_return ())
         else prog_return ()) (\<lambda>_.
       prog_bind (others fr 5) (\<lambda>_.
       prog_bind (publishMessage p (lo_now lo) (fr_run fr) RoleBot [ComputerBlock ''Ready'' safeReason]) (\<lambda>_.
       prog_bind (others fr 6) (\<lambda>_.
       prog_bind (prog_tx (computer_updateMany (lo_now lo) (\<lambda>c. c_id c = c_id (fr_computer fr))
         (\<lambda>c. c\<lparr>c_state := CompRunning, c_controlHolder := HolderNone, c_controlLeaseId := None,
                c_controlLeaseExpiresAt := None, c_controlBotId := None, c_controlRunId := None\<rparr>))) (\<lambda>_.
       prog_bind (others fr 7) (\<lambda>_.
       prog_bind (checkpoint fr 8 (lo_now lo)) (\<lambda>_.
       prog_bind (others fr 9) (\<lambda>_.
       prog_bind (prog_tx (holdComputerExecutionLeaseForTakeover (lo_now lo) (sn_lease (fr_input fr)))) (\<lambda>held.
       if \<not> held then prog_throw (Thrown ''Computer lease expired before takeover'')
       else
         prog_bind (others fr 10) (\<lambda>_.
         prog_bind (pause_takeover fr (lo_now lo) safeReason) (\<lambda>paused.
         prog_return (Stop paused))))))))))))))"

text \<open>A run that repeats the same call ends with a message that says so.\<close>

definition stuck_text :: "string \<Rightarrow> nat \<Rightarrow> string" where
  "stuck_text name n = ''I got stuck calling '' @ humanizeToolName name @ '' with the same input '' @
     nat_string n @ '' times in a row without making progress, so I stopped early. Try rephrasing this, or ask me to try a different approach.''"

definition on_stuck :: "frame \<Rightarrow> string \<Rightarrow> local \<Rightarrow> flow dbprog" where
  "on_stuck fr name lo0 =
     prog_bind (prog_lift (assertDrained (lo_replays lo0))) (\<lambda>_.
     let lo = flushPendingTools lo0 in
     prog_bind (prog_tx (renewRunLease (lo_now lo) (sn_handle (fr_input fr)))) (\<lambda>renewed.
     if \<not> renewed then prog_return (Stop False)
     else
       prog_bind (others fr 11) (\<lambda>_.
       prog_bind (if length (lo_segments lo) > 0
         then prog_bind (publishMessage (fr_params fr) (lo_now lo) (fr_run fr) RoleBot
             (redactBlocks (lo_segments lo) (lo_secrets lo))) (\<lambda>_. prog_return ())
         else prog_return ()) (\<lambda>_.
       prog_bind (others fr 12) (\<lambda>_.
       prog_bind (checkpoint fr 13 (lo_now lo)) (\<lambda>_.
       fails_after_checkpoint
         (prog_bind (others fr 14) (\<lambda>_.
          prog_bind (finalize fr (lo_now lo)
            (OutcomeCompleted [TextBlock (stuck_text name (snd (lo_streak lo)))])) (\<lambda>_.
          prog_return (Stop False))))))))))"

definition on_tool :: "frame \<Rightarrow> string \<Rightarrow> json \<Rightarrow> string \<Rightarrow> local \<Rightarrow> (flow \<times> local) dbprog" where
  "on_tool fr name args executionId lo =
     prog_bind (flushProgress fr lo) (\<lambda>lo1.
     prog_bind (others fr 15) (\<lambda>_.
     prog_bind (append_run_event fr (lo_now lo1) AgentToolCalled
       [(''name'', PJson (JStr name)), (''executionId'', PJson (JStr executionId))]) (\<lambda>_.
     let lo2 = take_tool name lo1;
         guard = advanceToolCallLoopGuard (lo_streak lo2) name (Some args);
         lo3 = lo2\<lparr>lo_streak := fst guard\<rparr>
     in if snd guard then prog_bind (others fr 16) (\<lambda>_. prog_bind (on_stuck fr name lo3) (\<lambda>fl. prog_return (fl, lo3)))
        else prog_return (Go, lo3))))"

definition subagent_status_string :: "subagent_status \<Rightarrow> string" where
  "subagent_status_string st = (case st of SubRunning \<Rightarrow> ''running'' | SubCompleted \<Rightarrow> ''completed''
     | SubFailed \<Rightarrow> ''failed'')"

definition optional_member :: "string \<Rightarrow> string option \<Rightarrow> payload" where
  "optional_member k v = (case v of None \<Rightarrow> [] | Some t \<Rightarrow> [(k, PJson (JStr t))])"

definition safe_subagent :: "string list \<Rightarrow> subagent_block \<Rightarrow> subagent_block" where
  "safe_subagent secrets b = b\<lparr>sub_task := redactSecrets (sub_task b) secrets,
     sub_progress := redact_or_drop secrets (sub_progress b), sub_result := redact_or_drop secrets (sub_result b)\<rparr>"

definition on_subagent :: "frame \<Rightarrow> subagent_block \<Rightarrow> local \<Rightarrow> unit dbprog" where
  "on_subagent fr event lo =
     (let b = safe_subagent (lo_secrets lo) event in
      prog_bind (append_run_event fr (lo_now lo) ThreadSubagent
        ([(''agentId'', PJson (JStr (sub_agentId b))), (''name'', PJson (JStr (sub_name b))),
          (''task'', PJson (JStr (sub_task b))), (''status'', PJson (JStr (subagent_status_string (sub_status b))))]
         @ optional_member ''progress'' (sub_progress b) @ optional_member ''result'' (sub_result b))) (\<lambda>_.
      if sub_status b = SubCompleted \<or> sub_status b = SubFailed
      then prog_bind (others fr 17) (\<lambda>_.
        prog_bind (publishMessage (fr_params fr) (lo_now lo) (fr_run fr) RoleBot [SubagentBlock b]) (\<lambda>_.
        prog_return ()))
      else prog_return ()))"

definition service_identity :: "frame \<Rightarrow> string option" where
  "service_identity fr = (case sn_managed (fr_input fr) of Some i \<Rightarrow> Some i
     | None \<Rightarrow> r_serviceIdentityId (fr_run fr))"

definition on_usage ::
  "frame \<Rightarrow> time \<Rightarrow> nat \<Rightarrow> nat \<Rightarrow> int \<Rightarrow> string \<Rightarrow> string \<Rightarrow> string option \<Rightarrow> unit dbprog" where
  "on_usage fr now inputTokens outputTokens costMicros provider model workloadType =
     prog_bind (prog_tx (create_row db_usage db_usage_update (\<lambda>_ _. False) no_refs
       \<lparr>us_workspaceId = r_workspaceId (fr_run fr), us_botId = Some (b_id (fr_bot fr)),
        us_userId = r_userId (fr_run fr), us_runId = Some (rh_runId (sn_handle (fr_input fr))),
        us_serviceIdentityId = service_identity fr, us_provider = provider, us_model = model,
        us_inputTokens = inputTokens, us_outputTokens = outputTokens, us_costMicros = costMicros,
        us_workloadType = (case workloadType of None \<Rightarrow> ''general'' | Some t \<Rightarrow> t),
        us_createdAt = now\<rparr>)) (\<lambda>_.
     prog_return ())"

definition on_event :: "frame \<Rightarrow> agent_event \<Rightarrow> local \<Rightarrow> (flow \<times> local) dbprog" where
  "on_event fr event lo = (case event of
       EvText text \<Rightarrow> prog_bind (on_text fr text lo) (\<lambda>lo1. prog_return (Go, lo1))
     | EvProgress text \<Rightarrow> prog_bind (on_progress fr text lo) (\<lambda>lo1. prog_return (Go, lo1))
     | EvAsk text detail \<Rightarrow> prog_bind (on_ask fr text detail lo) (\<lambda>fl. prog_return (fl, lo))
     | EvTakeover reason \<Rightarrow> prog_bind (on_takeover fr reason lo) (\<lambda>fl. prog_return (fl, lo))
     | EvTool name args executionId \<Rightarrow> on_tool fr name args executionId lo
     | EvSubagent b \<Rightarrow> prog_bind (on_subagent fr b lo) (\<lambda>_. prog_return (Go, lo))
     | EvUsage i out cost provider model workload \<Rightarrow>
         prog_bind (on_usage fr (lo_now lo) i out cost provider model workload) (\<lambda>_. prog_return (Go, lo))
     | EvCheckpoint _ \<Rightarrow> prog_return (Go, lo)
     | EvDone text \<Rightarrow> prog_return (Go, take_done text lo))"

text \<open>Before an event: a pause of a tool, a lost lease, and the check of the run once a second.\<close>

definition before_event :: "frame \<Rightarrow> local \<Rightarrow> (bool \<times> local) dbprog" where
  "before_event fr lo =
     (if lo_paused lo then prog_return (False, lo)
      else if \<not> lo_leaseValid lo then prog_return (False, lo)
      else if lo_now lo - lo_lastLeaseCheckAt lo \<ge> 1000
      then prog_bind (prog_gets (still_mine fr)) (\<lambda>mine.
        prog_return (mine, lo\<lparr>lo_lastLeaseCheckAt := lo_now lo, lo_leaseValid := mine\<rparr>))
      else prog_return (True, lo))"

text \<open>An error of a handler is caught by the handler of the session.\<close>

definition agent_step :: "frame \<Rightarrow> agent_event \<Rightarrow> local \<Rightarrow> (flow \<times> local) dbprog" where
  "agent_step fr event lo =
     prog_bind (before_event fr lo) (\<lambda>(goes, lo1).
     if \<not> goes then prog_return (Stop False, lo1)
     else prog_bind (others fr 18) (\<lambda>_.
       prog_catch (on_event fr event lo1) (\<lambda>error. prog_return (Fail error False, lo1))))"

fun session_loop :: "frame \<Rightarrow> session_step list \<Rightarrow> local \<Rightarrow> (flow \<times> local) dbprog" where
  "session_loop fr [] lo = prog_return (Go, lo)"
| "session_loop fr (Agent event # steps) lo =
     prog_bind (agent_step fr event lo) (\<lambda>(fl, lo1).
     if fl = Go then session_loop fr steps lo1 else prog_return (fl, lo1))"
| "session_loop fr (Tick now # steps) lo = session_loop fr steps (lo\<lparr>lo_now := now\<rparr>)"
| "session_loop fr (LearnSecret secret # steps) lo = session_loop fr steps (learn_secret secret lo)"
| "session_loop fr (TakeReplay name # steps) lo =
     session_loop fr steps (lo\<lparr>lo_replays := snd (take_replay name (lo_replays lo))\<rparr>)"
| "session_loop fr (ToolPaused # steps) lo = session_loop fr steps (lo\<lparr>lo_paused := True\<rparr>)"
| "session_loop fr (HeartbeatLost # steps) lo = session_loop fr steps (lo\<lparr>lo_leaseValid := False\<rparr>)"
| "session_loop fr (Others env # steps) lo =
     prog_bind (prog_env env) (\<lambda>_. session_loop fr steps lo)"

section \<open>The end of the stream\<close>

definition enqueue_compaction :: "frame \<Rightarrow> unit dbprog" where
  "enqueue_compaction fr =
     ignore_error (prog_bind (prog_gets (\<lambda>s. find (\<lambda>t. th_id t = th_id (fr_thread fr)) (db_threads s))) (\<lambda>t.
       case t of None \<Rightarrow> prog_throw RecordNotFound
       | Some t \<Rightarrow>
           if shouldEnqueueCompaction (th_nextMessageSeq t) (th_historyCompactedUpToSeq t)
                HISTORY_WINDOW_SIZE COMPACTION_BATCH_SIZE
           then enqueue (sp_down (fr_params fr)) (historyCompactJob (th_id t))
           else prog_return ()))"

definition final_blocks :: "frame \<Rightarrow> local \<Rightarrow> message_block list" where
  "final_blocks fr lo =
     (let lo1 = flushPendingTools lo in
      redactBlocks (if lo_assembled lo1 = []
        then completionMessageSegments (lo_segments lo1) (r_trigger (fr_run fr) = TrigBotMessage)
        else lo_segments lo1) (lo_secrets lo1))"

definition complete_run :: "frame \<Rightarrow> local \<Rightarrow> flow dbprog" where
  "complete_run fr lo =
     (let blocks = final_blocks fr lo;
          text = redactSecrets (completionNotificationBody (lo_assembled lo) blocks) (lo_secrets lo) in
      if containsSecret (Some (JStr text)) (lo_secrets lo)
      then prog_throw (Thrown ''refusing to persist a secret in the thread'')
      else prog_bind (prog_tx (renewRunLease (lo_now lo) (sn_handle (fr_input fr)))) (\<lambda>renewed.
        if \<not> renewed then prog_return (Stop False)
        else
          prog_bind (others fr 21) (\<lambda>_.
          prog_bind (finalize fr (lo_now lo) (OutcomeCompleted blocks)) (\<lambda>completed.
          if \<not> completed then prog_return (Stop False)
          else prog_bind (others fr 22) (\<lambda>_.
            prog_bind (enqueue_compaction fr) (\<lambda>_. prog_return (Stop False)))))))"

text \<open>The rest of the redactor's buffer is published before the checkpoint.\<close>

definition finish_stream :: "frame \<Rightarrow> local \<Rightarrow> flow dbprog" where
  "finish_stream fr lo =
     (if lo_paused lo then prog_return (Stop False)
      else prog_bind (prog_lift (assertDrained (lo_replays lo))) (\<lambda>_.
        let r = redactor_finish (lo_values lo) (lo_buffer lo) in
        prog_bind (flushProgress fr (lo\<lparr>lo_progress := lo_progress lo @ fst r, lo_buffer := snd r\<rparr>)) (\<lambda>lo1.
        prog_bind (others fr 19) (\<lambda>_.
        prog_bind (checkpoint fr 20 (lo_now lo1)) (\<lambda>_.
        fails_after_checkpoint (complete_run fr lo1))))))"

definition run_stream :: "frame \<Rightarrow> local \<Rightarrow> (flow \<times> local) dbprog" where
  "run_stream fr lo =
     prog_bind (session_loop fr (sp_steps (fr_params fr)) lo) (\<lambda>(fl, lo1).
     if fl \<noteq> Go then prog_return (fl, lo1)
     else (case sp_crash (fr_params fr) of
         Some error \<Rightarrow> prog_return (Fail error False, lo1)
       | None \<Rightarrow>
           prog_catch (prog_bind (finish_stream fr lo1) (\<lambda>fl. prog_return (fl, lo1)))
             (\<lambda>error. prog_return (Fail error False, lo1))))"

text \<open>The handler of the session's errors: the run fails with the redacted message.\<close>

definition fail_run :: "frame \<Rightarrow> local \<Rightarrow> db_error \<Rightarrow> bool \<Rightarrow> bool dbprog" where
  "fail_run fr lo error checkpointed =
     prog_bind (if checkpointed then prog_return () else ignore_error (checkpoint fr 23 (lo_now lo))) (\<lambda>_.
     prog_bind (others fr 24) (\<lambda>_.
     finalize fr (lo_now lo) (OutcomeFailed (redactSecrets (sp_message (fr_params fr) error) (lo_secrets lo)))))"

text \<open>Whether the computer is retained.\<close>

definition talk :: "frame \<Rightarrow> local \<Rightarrow> bool dbprog" where
  "talk fr lo =
     prog_bind (run_stream fr lo) (\<lambda>(fl, lo1). case fl of
       Go \<Rightarrow> prog_return False
     | Stop retain \<Rightarrow> prog_return retain
     | Fail error checkpointed \<Rightarrow>
         prog_bind (fail_run fr lo1 error checkpointed) (\<lambda>_. prog_return False))"

section \<open>The session\<close>

definition trigger_string :: "run_trigger \<Rightarrow> string" where
  "trigger_string t = (case t of TrigUser \<Rightarrow> ''user'' | TrigRoutine \<Rightarrow> ''routine'' | TrigResume \<Rightarrow> ''resume''
     | TrigFollowUp \<Rightarrow> ''follow_up'' | TrigSpawn \<Rightarrow> ''spawn'' | TrigSkill \<Rightarrow> ''skill''
     | TrigBotMessage \<Rightarrow> ''bot_message'' | TrigSupport \<Rightarrow> ''brandwell_support''
     | TrigLinkBuilderReview \<Rightarrow> ''brandwell_link_builder_review''
     | TrigSocialStreamsReview \<Rightarrow> ''brandwell_socialstreams_review''
     | TrigOutreachAction \<Rightarrow> ''brandwell_outreach_action''
     | TrigOutreachReview \<Rightarrow> ''brandwell_outreach_review'')"

text \<open>Services the session prepares with (connectors, memory, credentials, attachments) may fail.\<close>

definition service :: "session_params \<Rightarrow> nat \<Rightarrow> unit dbprog" where
  "service p i = (case sp_fails p i of None \<Rightarrow> prog_return () | Some e \<Rightarrow> prog_throw e)"

definition started_payload :: "run \<Rightarrow> payload" where
  "started_payload run = [(''trigger'', PJson (JStr (trigger_string (r_trigger run)))),
     (''routineId'', PJson (case r_routineId run of None \<Rightarrow> JNull | Some i \<Rightarrow> JStr i))]"

text \<open>The rows a session starts from; the first missing one fails the preparation.\<close>

definition session_rows :: "run \<Rightarrow> db \<Rightarrow> (bot \<times> thread \<times> task \<times> computer option) option" where
  "session_rows run s =
     (case (find (\<lambda>b. b_id b = r_botId run) (db_bots s), find (\<lambda>t. th_id t = r_threadId run) (db_threads s),
            find (\<lambda>k. t_id k = r_taskId run) (db_tasks s)) of
       (Some b, Some t, Some k) \<Rightarrow>
         Some (b, t, k, find (\<lambda>c. Some (c_id c) = b_computerId b) (db_computers s))
     | _ \<Rightarrow> None)"

definition record_model :: "time \<Rightarrow> session_input \<Rightarrow> unit dbtx" where
  "record_model now sn =
     tx_bind (run_updateMany now (works Running (sn_handle sn))
       (\<lambda>r. r\<lparr>r_serviceIdentityId := (case sn_managed sn of Some i \<Rightarrow> Some i
               | None \<Rightarrow> r_serviceIdentityId (sn_run sn))\<rparr>)) (\<lambda>_. tx_return ())"

definition prepare_session :: "session_params \<Rightarrow> session_input \<Rightarrow> frame dbprog" where
  "prepare_session p sn =
     (let run = sn_run sn in
      prog_bind (prog_gets (session_rows run)) (\<lambda>rows.
      case rows of None \<Rightarrow> prog_throw RecordNotFound
      | Some (theBot, thread, _, stored) \<Rightarrow>
          prog_bind (service p 0) (\<lambda>_.
          prog_bind (prog_env (sp_env p 30)) (\<lambda>_.
          prog_bind (prog_gets (sp_eid p)) (\<lambda>eid.
          prog_bind (prog_tx (appendEvent (sp_start p) eid \<lparr>ei_workspaceId = r_workspaceId run,
            ei_threadId = th_id thread, ei_botId = b_id theBot, ei_type = RunStarted,
            ei_payload = started_payload run, ei_runId = Some (rh_runId (sn_handle sn))\<rparr>)) (\<lambda>_.
          prog_bind (prog_env (sp_env p 31)) (\<lambda>_.
          prog_bind (service p 1) (\<lambda>_.
          prog_bind (prog_tx (record_model (sp_start p) sn)) (\<lambda>_.
          case stored of None \<Rightarrow> prog_throw (Thrown ''Bot has no computer'')
          | Some storedComputer \<Rightarrow>
              prog_bind (prog_lift (parseComputerMode (c_scope storedComputer))) (\<lambda>_.
              prog_bind (prog_env (sp_env p 32)) (\<lambda>_.
              prog_bind (prog_gets (sp_eid p)) (\<lambda>eid2.
              prog_bind (provisionComputer (sp_sandbox p) (sp_boot_env p 0) (sp_boot_env p 1) (sp_boot_env p 2)
                (sp_down p) (sp_clock p) eid2 (c_id storedComputer)
                \<lparr>ax_botId = Some (b_id theBot), ax_aborted = sp_aborted p\<rparr> HolderBot) (\<lambda>ref.
              prog_return \<lparr>fr_params = p, fr_input = sn, fr_bot = theBot, fr_thread = thread,
                fr_computer = storedComputer, fr_ref = ref\<rparr>)))))))))))))"

definition approved_replays :: "string \<Rightarrow> db \<Rightarrow> replay list" where
  "approved_replays runId s = map (\<lambda>x. (x_kind x, x_request x))
     (filter (\<lambda>x. x_runId x = runId \<and> x_status x = Approved) (db_effects s))"

definition initial_local :: "session_params \<Rightarrow> replay list \<Rightarrow> local" where
  "initial_local p replays = \<lparr>lo_assembled = [], lo_segment = [], lo_segments = [], lo_tools = [],
     lo_progress = [], lo_lastProgressAt = 0, lo_streamed = False, lo_streak = no_streak,
     lo_values = redactor_values (sp_secrets p), lo_buffer = [], lo_secrets = sp_secrets p,
     lo_replays = replays, lo_paused = False, lo_leaseValid = True, lo_lastLeaseCheckAt = 0,
     lo_now = sp_start p\<rparr>"

definition converse :: "frame \<Rightarrow> bool dbprog" where
  "converse fr =
     (let p = fr_params fr in
      prog_bind (prog_env (sp_env p 33)) (\<lambda>_.
      prog_bind (scheduleComputerSleep (sp_down p) (sp_idle p) (sp_start p) (c_id (fr_computer fr))) (\<lambda>_.
      prog_bind (service p 2) (\<lambda>_.
      prog_bind (prog_env (sp_env p 34)) (\<lambda>_.
      prog_bind (prog_gets (approved_replays (rh_runId (sn_handle (fr_input fr))))) (\<lambda>replays.
      talk fr (initial_local p replays)))))))"

definition agent_session :: "session_params \<Rightarrow> session" where
  "agent_session p sn s = (case prepare_session p sn s of
       (Inl error, s') \<Rightarrow> (\<lparr>se_retain = False, se_screen = None, se_error = Some error\<rparr>, s')
     | (Inr fr, s') \<Rightarrow>
         (case converse fr s' of
            (Inl error, s'') \<Rightarrow> (\<lparr>se_retain = False, se_screen = Some (fr_ref fr), se_error = Some error\<rparr>, s'')
          | (Inr retain, s'') \<Rightarrow>
              (\<lparr>se_retain = retain, se_screen = Some (fr_ref fr), se_error = None\<rparr>, s'')))"

section \<open>The session keeps the contract of the database\<close>

lemma persistMessage_step [tx_rules]:
  "tx_rel (db_step del) (persistMessageInTransaction now mid eid run rl blocks)"
  unfolding persistMessageInTransaction_def by (intro tx_rules)

lemmas handler_steps = appendEvent_step pauseRunForInput_step pauseRunForTakeover_step finalizeRun_step

lemma writing_steps [tx_rules]:
  "prog_rel (db_step del) (publishMessage p now run rl blocks)"
  "prog_rel (db_step del) (append_run_event fr now ty payload)"
  "prog_rel (db_step del) (pause_input fr now blocks)"
  "prog_rel (db_step del) (pause_takeover fr now reason)"
  "prog_rel (db_step del) (finalize fr now oc)"
  unfolding publishMessage_def append_run_event_def pause_input_def pause_takeover_def finalize_def
  by (intro tx_rules handler_steps)+

lemma flushProgress_step [tx_rules]: "prog_rel (db_step del) (flushProgress fr lo)"
  unfolding flushProgress_def by (intro tx_rules)

definition frame_ok :: "(effect \<Rightarrow> bool) \<Rightarrow> frame \<Rightarrow> bool" where
  "frame_ok del fr \<longleftrightarrow> (\<forall>i. env_ok del (sp_env (fr_params fr) i))"

lemma others_step [tx_rules]: "frame_ok del fr \<Longrightarrow> prog_rel (db_step del) (others fr i)"
  unfolding others_def frame_ok_def by (intro tx_rules) blast

lemma checkpoint_step [tx_rules]: "frame_ok del fr \<Longrightarrow> prog_rel (db_step del) (checkpoint fr i now)"
  unfolding checkpoint_def frame_ok_def by (intro tx_rules) blast

lemma event_steps [tx_rules]:
  assumes "frame_ok del fr"
  shows "prog_rel (db_step del) (on_text fr text lo)" "prog_rel (db_step del) (on_progress fr text lo)"
    "prog_rel (db_step del) (on_ask fr text detail lo)" "prog_rel (db_step del) (on_takeover fr text lo)"
    "prog_rel (db_step del) (on_stuck fr text lo)" "prog_rel (db_step del) (on_subagent fr b lo)"
    "prog_rel (db_step del) (on_usage fr now i out cost text model w)"
  unfolding on_text_def on_progress_def on_ask_def on_takeover_def on_stuck_def on_subagent_def
    on_usage_def fails_after_checkpoint_def
  by (intro tx_rules assms)+

lemma on_tool_step [tx_rules]:
  "frame_ok del fr \<Longrightarrow> prog_rel (db_step del) (on_tool fr name args e lo)"
  unfolding on_tool_def by (intro tx_rules)

lemma on_event_step [tx_rules]:
  "frame_ok del fr \<Longrightarrow> prog_rel (db_step del) (on_event fr event lo)"
  unfolding on_event_def by (cases event; simp; intro tx_rules)

lemma agent_step_step [tx_rules]:
  "frame_ok del fr \<Longrightarrow> prog_rel (db_step del) (agent_step fr event lo)"
  unfolding agent_step_def before_event_def by (intro tx_rules)

definition step_ok :: "(effect \<Rightarrow> bool) \<Rightarrow> session_step \<Rightarrow> bool" where
  "step_ok del st \<longleftrightarrow> (case st of Others env \<Rightarrow> env_ok del env | _ \<Rightarrow> True)"

lemma session_loop_step:
  "frame_ok del fr \<Longrightarrow> \<forall>st \<in> set steps. step_ok del st \<Longrightarrow> prog_rel (db_step del) (session_loop fr steps lo)"
proof (induction fr steps lo rule: session_loop.induct)
  case (2 fr event steps lo)
  then show ?case unfolding session_loop.simps by (intro tx_rules) simp_all
next
  case (8 fr env steps lo)
  then show ?case unfolding session_loop.simps by (intro tx_rules) (simp_all add: step_ok_def)
qed (simp_all add: tx_rules)

lemma prel_flow [tx_rules]:
  "prog_rel R a \<Longrightarrow> (\<And>b. prog_rel R (f b)) \<Longrightarrow> (\<And>e c. prog_rel R (g e c)) \<Longrightarrow>
   prog_rel R (case fl of Go \<Rightarrow> a | Stop b \<Rightarrow> f b | Fail e c \<Rightarrow> g e c)"
  by (cases fl) simp_all

lemma talk_step:
  assumes "frame_ok del fr" and "\<forall>st \<in> set (sp_steps (fr_params fr)). step_ok del st"
  shows "prog_rel (db_step del) (talk fr lo)"
  unfolding talk_def run_stream_def finish_stream_def complete_run_def enqueue_compaction_def
    fail_run_def fails_after_checkpoint_def
  by (intro tx_rules session_loop_step assms)

definition params_ok :: "(effect \<Rightarrow> bool) \<Rightarrow> session_params \<Rightarrow> bool" where
  "params_ok del p \<longleftrightarrow> (\<forall>i. env_ok del (sp_env p i)) \<and> (\<forall>i j. env_ok del (sp_boot_env p i j)) \<and>
     (\<forall>st \<in> set (sp_steps p). step_ok del st)"

lemma record_model_step [tx_rules]: "tx_rel (db_step del) (record_model now sn)"
  unfolding record_model_def
  by (intro tx_rules) (simp_all add: run_step_intro core_step.touch)

lemma prepare_session_step:
  assumes "params_ok del p"
  shows "prog_rel (db_step del) (prepare_session p sn)"
  using assms unfolding prepare_session_def service_def params_ok_def
  by (intro tx_rules handler_steps provisionComputer_step) auto

lemma prepare_session_frame:
  "prepare_session p sn s = (Inr fr, s') \<Longrightarrow> fr_params fr = p \<and> fr_input fr = sn"
  by (auto simp: prepare_session_def Let_def prog_bind_Inr split: option.splits prod.splits)

lemma agent_session_ok:
  assumes ok: "params_ok del p"
  shows "session_ok del (agent_session p)"
  unfolding session_ok_def
proof (intro allI)
  fix sn s
  obtain q s1 where q: "prepare_session p sn s = (q, s1)" by fastforce
  have s1: "db_step del s s1" using prog_relD [OF prepare_session_step [OF ok] q] .
  show "db_step del s (snd (agent_session p sn s))"
  proof (cases q)
    case (Inl e)
    with s1 q show ?thesis by (simp add: agent_session_def)
  next
    case (Inr fr)
    then have fr: "fr_params fr = p" using prepare_session_frame q by blast
    obtain v s2 where v: "converse fr s1 = (v, s2)" by fastforce
    have "prog_rel (db_step del) (converse fr)"
      using ok unfolding converse_def Let_def scheduleComputerSleep_def service_def
      by (intro tx_rules talk_step) (auto simp: params_ok_def frame_ok_def fr)
    from db_step.trans_state [OF s1 prog_relD [OF this v]] show ?thesis
      using q Inr v by (cases v) (simp_all add: agent_session_def)
  qed
qed

end
