(* ===== verification/RunGuarantees.thy ===== *)
theory RunGuarantees
  imports RunExecutor
begin

text \<open>
  What the worker of \<open>RunExecutor\<close> guarantees: a run is worked on by one worker at a time, a
  worker that lost its run can only stop, a failed setup hands the run on, and every attempt
  ends closed.
\<close>

section \<open>One worker at a time\<close>

definition run_row :: "string \<Rightarrow> db \<Rightarrow> run option" where
  "run_row i s = find (\<lambda>r. r_id r = i) (db_runs s)"

lemma run_row_hit:
  assumes d: "run_ids_distinct s" and q: "run_row i s = Some q"
    and p: "\<And>r. p r \<Longrightarrow> r_id r = i" and id: "\<And>r. r_id (f r) = r_id r"
  shows "countMany p (db_runs s) = (if p q then 1 else 0)"
    and "run_row i (db_runs_update (updateMany p f) s) = Some (if p q then f q else q)"
    and "run_ids_distinct (db_runs_update (updateMany p f) s)"
  using d q p id run_table.count_found [of "db_runs s" i q p]
  by (auto simp: run_row_def run_ids_distinct_def map_updateMany run_table.find_update)

lemma run_row_held:
  "run_row i s = Some r \<Longrightarrow> works Running h r \<Longrightarrow> run_held h s"
  by (auto simp: run_row_def run_held_def dest: find_SomeD)

text \<open>The row as a claim and as a start leave it.\<close>

definition claimed_row :: "time \<Rightarrow> run_handle \<Rightarrow> run \<Rightarrow> run" where
  "claimed_row t h r = r\<lparr>r_status := Leased, r_leaseOwner := Some (rh_owner h), r_leaseFence := rh_fence h,
      r_leaseExpiresAt := Some (t + RUN_LEASE_MS), r_error := None, r_checkpoint := None, r_updatedAt := t\<rparr>"

lemma claim_run_hit:
  assumes "run_ids_distinct s" and "run_row (rh_runId h) s = Some r" and "claimable now (rh_runId h) r"
  obtains s' where "claim_run now t h s = Inr (1, s')" and "run_ids_distinct s'"
    and "run_row (rh_runId h) s' = Some (claimed_row t h r)"
proof -
  have f: "claimed_row t h = (\<lambda>r. r\<lparr>r_status := Leased, r_leaseOwner := Some (rh_owner h), r_leaseFence := rh_fence h,
      r_leaseExpiresAt := Some (t + RUN_LEASE_MS), r_error := None, r_checkpoint := None, r_updatedAt := t\<rparr>)"
    by (simp add: claimed_row_def fun_eq_iff)
  let ?s = "db_runs_update (updateMany (claimable now (rh_runId h)) (claimed_row t h)) s"
  have "countMany (claimable now (rh_runId h)) (db_runs s) = 1 \<and> run_ids_distinct ?s \<and>
      run_row (rh_runId h) ?s = Some (claimed_row t h r)"
    using run_row_hit [OF assms(1,2), of "claimable now (rh_runId h)" "claimed_row t h"] assms(3)
    by (simp add: claimable_def claimed_row_def)
  then show thesis by (intro that [of ?s]) (simp_all add: claim_run_def f)
qed

definition started_row :: "time \<Rightarrow> run \<Rightarrow> run \<Rightarrow> run" where
  "started_row t current r = r\<lparr>r_status := Running,
      r_startedAt := Some (case r_startedAt current of None \<Rightarrow> t | Some t' \<Rightarrow> t'), r_updatedAt := t\<rparr>"

lemma start_run_hit:
  assumes "run_ids_distinct s" and "run_row (rh_runId h) s = Some r" and "works Leased h r"
  obtains s' where "start_run t h current s = Inr (1, s')" and "run_ids_distinct s'"
    and "run_row (rh_runId h) s' = Some (started_row t current r)"
proof -
  have f: "started_row t current = (\<lambda>r. r\<lparr>r_status := Running,
      r_startedAt := Some (case r_startedAt current of None \<Rightarrow> t | Some t' \<Rightarrow> t'), r_updatedAt := t\<rparr>)"
    by (simp add: started_row_def fun_eq_iff)
  let ?s = "db_runs_update (updateMany (works Leased h) (started_row t current)) s"
  have "countMany (works Leased h) (db_runs s) = 1 \<and> run_ids_distinct ?s \<and>
      run_row (rh_runId h) ?s = Some (started_row t current r)"
    using run_row_hit [OF assms(1,2), of "works Leased h" "started_row t current"] assms(3)
    by (simp add: works_def started_row_def)
  then show thesis by (intro that [of ?s]) (simp_all add: start_run_def f)
qed

lemma claim_run_row:
  assumes d: "run_ids_distinct s" and c: "claim_run now t h s = Inr (1, s')"
  obtains r where "run_row (rh_runId h) s' = Some (claimed_row t h r)"
proof -
  have "countMany (claimable now (rh_runId h)) (db_runs s) = 1" using c by (simp add: claim_run_def)
  then obtain q where "q \<in> set (db_runs s)" "claimable now (rh_runId h) q"
    using countMany_pos [of "claimable now (rh_runId h)" "db_runs s" 0] by auto
  moreover from this have "run_row (rh_runId h) s = Some q"
    using run_table.find_by_key [of "db_runs s" q] d
    by (simp add: run_row_def run_ids_distinct_def claimable_def)
  ultimately show thesis using claim_run_hit [OF d, of h q now t] c that by auto
qed

lemma runs_update_none:
  "(\<And>r. r \<in> set (db_runs s) \<Longrightarrow> \<not> p r) \<Longrightarrow> db_runs_update (updateMany p f) s = s"
  by (cases s) (simp add: updateMany_none)

lemma claim_refused:
  assumes "run_ids_distinct s" and "run_row i s = Some r" and "r_status r \<in> {Leased, Running}"
    and "r_leaseExpiresAt r = Some t" and "now < t" and "rh_runId h = i"
  shows "claim_run now now' h s = Inr (0, s)"
proof -
  have "countMany (claimable now i) (db_runs s) = 0"
    using run_row_hit(1) [OF assms(1,2), of "claimable now i" id] assms(3-5)
    by (auto simp: claimable_def simp del: countMany_0 split: if_splits)
  then show ?thesis using assms(6) by (simp add: claim_run_def updateMany_count0 del: countMany_0)
qed


section \<open>A worker that lost its run\<close>

text \<open>
  A worker whose run another handle holds has no way back: its heartbeat answers false, and
  neither the requeue, the report of a failed setup, the block of a managed run nor the release
  of the preflight lease writes anything or publishes a job.
\<close>

theorem superseded_worker_stops:
  assumes d: "run_ids_distinct s" and h': "run_held h' s" and id: "rh_runId h = rh_runId h'" and ne: "h \<noteq> h'"
  shows "renewRunLease now h s = Inr (False, s) \<and>
    requeueComputerRun w i h c s = (Inr (), s) \<and>
    setup_failed w h attempt c error s = (Inr (), s) \<and>
    failBlockedManagedRun now eid run h msg s = (Inr [], s) \<and>
    releaseManagedModelPreflightLease now h s = Inr (0, s)"
proof -
  have lost: "\<not> run_held h s" using run_lease.exclusive [OF d _ h' id] ne by blast
  have "\<not> works Leased h r" if "r \<in> set (db_runs s)" for r
    using that h' id run_table.row_unique [of "db_runs s" r] d
    by (force simp: run_held_def works_def run_ids_distinct_def)
  then have leased: "\<not> (\<exists>r \<in> set (db_runs s). works Leased h r)" by blast
  have "countMany (works Running h) (db_runs s) = 0" using lost by (simp add: run_held_def)
  then have q: "requeue_tx t h c e s = Inr (0, s)" for t c e
    using lost by (simp add: requeue_tx_def works_none run_held_def)
  have b: "failBlocked_tx t eid run h msg s = Inr (None, s)" for t
    using leased by (auto simp: failBlocked_tx_def tx_bind_run countMany_def filter_empty_conv intro!: runs_update_none)
  have "countMany (works Leased h) (db_runs s) = 0" using leased by simp
  then have p: "releaseManagedModelPreflightLease now h s = Inr (0, s)"
    using leased by (simp add: releaseManagedModelPreflightLease_def works_none)
  show ?thesis using run_lease.renew_lost [OF lost] p
    by (simp add: requeueComputerRun_def setup_failed_def failBlockedManagedRun_def prog_bind_run prog_tx_run q b)
qed

text \<open>
  The fence does not always tell two claims apart: it is computed from the row read at the
  start, which the claim does not compare. A worker that stalls between the two ends up with
  the very handle of the worker it supersedes when both carry the same worker identifier.
\<close>

lemma fence_can_repeat:
  assumes d: "run_ids_distinct s" and r: "run_row i s = Some r" and "r_status r = Queued"
    and h: "h = \<lparr>rh_runId = i, rh_owner = worker, rh_fence = nextFence (r_leaseFence r)\<rparr>"
    and "t + RUN_LEASE_MS \<le> t'"
  obtains s1 s2 s3 s4 where "claim_run t t h s = Inr (1, s1)" and "start_run t h r s1 = Inr (1, s2)"
    and "run_held h s2" and "claim_run t' t' h s2 = Inr (1, s3)" and "start_run t' h r s3 = Inr (1, s4)"
    and "run_held h s4"
proof -
  have i: "rh_runId h = i" "r_id r = i" using h r by (auto simp: run_row_def dest: find_SomeD)
  have cl: "claimable t (rh_runId h) r" using assms(3) i by (simp add: claimable_def)
  obtain s1 where s1: "claim_run t t h s = Inr (1, s1)" "run_ids_distinct s1"
      "run_row (rh_runId h) s1 = Some (claimed_row t h r)"
    using claim_run_hit [OF d _ cl] r i by blast
  have w1: "works Leased h (claimed_row t h r)" using i by (simp add: works_def claimed_row_def)
  let ?q = "started_row t r (claimed_row t h r)"
  obtain s2 where s2: "start_run t h r s1 = Inr (1, s2)" "run_ids_distinct s2" "run_row (rh_runId h) s2 = Some ?q"
    using start_run_hit [OF s1(2,3) w1] by blast
  have q: "works Running h ?q" using w1 by (simp add: works_def started_row_def)
  have c2: "claimable t' (rh_runId h) ?q"
    using q assms(5) by (simp add: claimable_def works_def started_row_def claimed_row_def)
  obtain s3 where s3: "claim_run t' t' h s2 = Inr (1, s3)" "run_ids_distinct s3"
      "run_row (rh_runId h) s3 = Some (claimed_row t' h ?q)"
    using claim_run_hit [OF s2(2,3) c2] by blast
  have w3: "works Leased h (claimed_row t' h ?q)" using q by (simp add: works_def claimed_row_def)
  obtain s4 where s4: "start_run t' h r s3 = Inr (1, s4)"
      "run_row (rh_runId h) s4 = Some (started_row t' r (claimed_row t' h ?q))"
    using start_run_hit [OF s3(2,3) w3] by blast
  have q4: "works Running h (started_row t' r (claimed_row t' h ?q))"
    using w3 by (simp add: works_def started_row_def)
  show thesis
    by (rule that [OF s1(1) s2(1) run_row_held [OF s2(3) q] s3(1) s4(1) run_row_held [OF s4(2) q4]])
qed

lemma updateMany_all:
  assumes "\<And>a. \<not> p a \<Longrightarrow> Q a" and "\<And>a. p a \<Longrightarrow> Q (f a)"
  shows "\<forall>x \<in> set (updateMany p f xs). Q x"
  by (induction xs) (simp_all add: updateMany_def assms)

section \<open>A failed setup\<close>

text \<open>
  When the preparation of a session fails, a worker that still holds the run hands it on:
  the run is queued again with its resume checkpoint, its lease given up, and the attempt is
  recorded as failed in setup. If the computer was merely busy the worker ends normally after
  publishing the next try; otherwise it throws, so that the queue retries the job.
\<close>

theorem setup_failure_hands_on:
  assumes "run_ids_distinct s" and "run_held h s" and "\<exists>a \<in> set (db_attempts s). a_id a = attempt"
    and "wk_env w 21 = id" and "wk_env w 22 = id" and "\<not> wk_down w"
    and "setup_failed w h attempt c error s = (r, s')"
  shows "replaced_one (works Running h)
      (\<lambda>q. q\<lparr>r_status := Queued, r_error := (if error = ComputerBusyError then None else Some SETUP_FAILED),
        r_leaseOwner := None, r_leaseExpiresAt := None, r_checkpoint := map_option checkpoint_string c,
        r_updatedAt := wk_clock w 20\<rparr>) (db_runs s) (db_runs s') \<and>
    (\<forall>a \<in> set (db_attempts s'). a_id a = attempt \<longrightarrow> a_status a = AttSetupFailed) \<and>
    (if error = ComputerBusyError
     then r = Inr () \<and> db_jobs s' = db_jobs s @
       [delayed_continue (rh_runId h) (wk_clock w 22 + computerRetryDelay (rh_fence h))]
     else r = Inl (Thrown SETUP_FAILED) \<and> db_jobs s' = db_jobs s)"
proof -
  let ?f = "\<lambda>q. q\<lparr>r_status := Queued, r_error := (if error = ComputerBusyError then None else Some SETUP_FAILED),
        r_leaseOwner := None, r_leaseExpiresAt := None, r_checkpoint := map_option checkpoint_string c,
        r_updatedAt := wk_clock w 20\<rparr>"
  have n: "countMany (works Running h) (db_runs s) = 1"
    using works_count_one [OF assms(1), of Running h] assms(2) by (simp add: run_held_def del: countMany_0)
  let ?s1 = "db_runs_update (updateMany (works Running h) ?f) s"
  have q: "requeue_tx (wk_clock w 20) h c (if error = ComputerBusyError then None else Some SETUP_FAILED) s = Inr (1, ?s1)"
    using n by (simp add: requeue_tx_def computerRunRequeueData_def)
  let ?g = "\<lambda>a. a\<lparr>a_status := AttSetupFailed, a_error := Some SETUP_FAILED, a_finishedAt := Some (wk_clock w 21)\<rparr>"
  obtain a where a: "find (\<lambda>a. a_id a = attempt) (db_attempts s) = Some a"
    using assms(3) by (cases "find (\<lambda>a. a_id a = attempt) (db_attempts s)") (auto simp: find_None_ball)
  then have u: "update_one db_attempts db_attempts_update (\<lambda>a. a_id a = attempt) ?g ?s1 =
      Inr (?g a, db_attempts_update (updateMany (\<lambda>a. a_id a = attempt) ?g) ?s1)"
    by (simp add: update_one_def)
  let ?s2 = "db_attempts_update (updateMany (\<lambda>a. a_id a = attempt) ?g) ?s1"
  have run: "setup_failed w h attempt c error s =
    (if error = ComputerBusyError
     then (Inr (), ?s2\<lparr>db_jobs := db_jobs s @
       [delayed_continue (rh_runId h) (wk_clock w 22 + computerRetryDelay (rh_fence h))]\<rparr>)
     else (Inl (Thrown SETUP_FAILED), ?s2))"
    unfolding setup_failed_def by (simp add: prog_bind_run prog_tx_run q u assms(4-6) enqueue_def)
  have at: "\<forall>a \<in> set (updateMany (\<lambda>a. a_id a = attempt) ?g (db_attempts s)).
      a_id a = attempt \<longrightarrow> a_status a = AttSetupFailed"
    by (rule updateMany_all) simp_all
  have "db_runs s' = updateMany (works Running h) ?f (db_runs s) \<and>
      db_attempts s' = updateMany (\<lambda>a. a_id a = attempt) ?g (db_attempts s) \<and>
      (if error = ComputerBusyError
       then r = Inr () \<and> db_jobs s' = db_jobs s @
         [delayed_continue (rh_runId h) (wk_clock w 22 + computerRetryDelay (rh_fence h))]
       else r = Inl (Thrown SETUP_FAILED) \<and> db_jobs s' = db_jobs s)"
  proof (cases "error = ComputerBusyError")
    case True
    then have "s' = ?s2\<lparr>db_jobs := db_jobs s @
        [delayed_continue (rh_runId h) (wk_clock w 22 + computerRetryDelay (rh_fence h))]\<rparr>" and "r = Inr ()"
      using assms(7) unfolding run by simp_all
    then show ?thesis using True by simp
  next
    case False
    then have "s' = ?s2" and "r = Inl (Thrown SETUP_FAILED)" using assms(7) unfolding run by simp_all
    then show ?thesis using False by simp
  qed
  with updateMany_one [OF n, of ?f] at show ?thesis by simp
qed

section \<open>The end of a session\<close>

lemma finally_run:
  assumes "prog_finally m c s = (r, s')"
  obtains v s1 q where "m s = (v, s1)" and "c s1 = (q, s')"
proof -
  obtain v s1 where m: "m s = (v, s1)" by fastforce
  obtain q s2 where c: "c s1 = (q, s2)" by fastforce
  have "s2 = s'"
    using assms m c by (cases v; cases q; simp add: prog_finally_def prog_bind_run prog_catch_def)
  with m c show thesis by (intro that) simp_all
qed

lemma release_lease_run:
  "releaseComputerExecutionLease lease s = Inr ((), (case lease of None \<Rightarrow> s
     | Some l \<Rightarrow> db_leases_update (deleteMany (holds_handle l)) s))"
  by (simp add: releaseComputerExecutionLease_def tx_bind_run split: option.split)

lemma ignore_error_run: "ignore_error m s = (Inr (), snd (m s))"
  by (simp add: ignore_error_def prog_catch_def split: prod.split sum.split)

lemma release_computer_run:
  "release_computer sb w en lease s = (Inr (), if se_retain en then s else
     (let t = wk_env w 23 (case se_screen en of None \<Rightarrow> s | Some ref \<Rightarrow> snd (call sb (CallReleaseScreen ref) s))
      in case lease of None \<Rightarrow> t | Some l \<Rightarrow> db_leases_update (deleteMany (holds_handle l)) t))"
  by (cases "se_screen en") (simp_all add: release_computer_def prog_bind_run prog_tx_run ignore_error_run
      release_lease_run Let_def)

lemma interrupt_attempt_run:
  "interrupt_attempt now k s = Inr ((), db_attempts_update (updateMany (\<lambda>a. a_id a = k \<and> a_status a = AttRunning)
     (\<lambda>a. a\<lparr>a_status := AttInterrupted, a_finishedAt := Some now\<rparr>)) s)"
  by (simp add: interrupt_attempt_def tx_bind_run)

lemma interrupted:
  "\<forall>x \<in> set (updateMany (\<lambda>a. a_id a = k \<and> a_status a = AttRunning)
     (\<lambda>a. a\<lparr>a_status := AttInterrupted, a_finishedAt := Some now\<rparr>) xs). a_id x = k \<longrightarrow> a_status x \<noteq> AttRunning"
  by (rule updateMany_all) simp_all

text \<open>
  However a session ends - an answer, a pause, an error of the preparation, a requeue that
  fails - its attempt is not left running, and unless the session retained the computer for a
  takeover the execution lease it took is given back.
\<close>

theorem session_end_cleans_up:
  assumes "end_session sb w sn en s = (r, s')" and "\<And>t. db_leases (wk_env w 24 t) = db_leases t"
  shows "(\<forall>a \<in> set (db_attempts s'). a_id a = sn_attempt sn \<longrightarrow> a_status a \<noteq> AttRunning) \<and>
    (\<not> se_retain en \<longrightarrow> (\<forall>l. sn_lease sn = Some l \<longrightarrow> \<not> lease_held l s'))"
proof -
  obtain s1 q where c: "clean_up sb w en (sn_lease sn) (sn_attempt sn) s1 = (q, s')"
    using finally_run [OF assms(1) [unfolded end_session_def]] by blast
  obtain s2 where p: "release_computer sb w en (sn_lease sn) s1 = (Inr (), s2)"
    and l: "\<And>l. \<not> se_retain en \<Longrightarrow> sn_lease sn = Some l \<Longrightarrow> \<not> lease_held l s2"
    by (simp add: release_computer_run Let_def lease_held_def set_deleteMany)
  let ?u = "updateMany (\<lambda>a. a_id a = sn_attempt sn \<and> a_status a = AttRunning)
     (\<lambda>a. a\<lparr>a_status := AttInterrupted, a_finishedAt := Some (wk_clock w 24)\<rparr>)"
  have s': "s' = db_attempts_update ?u (wk_env w 24 s2)"
    using c by (simp add: clean_up_def prog_bind_run p ignore_error_run prog_tx_run interrupt_attempt_run)
  have "\<not> lease_held l s'" if "\<not> se_retain en" "sn_lease sn = Some l" for l
    using l [OF that] by (simp add: s' lease_held_def assms(2))
  with interrupted show ?thesis by (simp add: s')
qed

text \<open>
  The delays of repeated tries: they start at a quarter of a second, double with the fence and
  end at eight seconds; the limit of ten seconds in the code is never reached.
\<close>

lemma retry_delay: "computerRetryDelay fence = 250 * 2 ^ min (fence - 1) 5"
proof -
  have e: "nat (min (max (int fence - 1) 0) 5) = min (fence - 1) 5" by linarith
  have "(2::int) ^ min (fence - 1) 5 \<le> 2 ^ 5" by (intro power_increasing) simp_all
  then show ?thesis unfolding computerRetryDelay_def e by simp
qed

lemma retry_delay_bounds:
  "250 \<le> computerRetryDelay fence \<and> computerRetryDelay fence \<le> 8000 \<and>
   computerRetryDelay fence \<le> computerRetryDelay (fence + 1)"
proof -
  have "(2::int) ^ min (fence - 1) 5 \<le> 2 ^ 5" by (intro power_increasing) simp_all
  moreover have "(1::int) \<le> 2 ^ min (fence - 1) 5" by simp
  moreover have "(2::int) ^ min (fence - 1) 5 \<le> 2 ^ min fence 5" by (intro power_increasing) auto
  ultimately show ?thesis unfolding retry_delay by simp
qed

section \<open>Witnesses\<close>

text \<open>A worker whose clock stands still and that nobody disturbs.\<close>

definition sample_worker :: "string \<Rightarrow> time \<Rightarrow> worker" where
  "sample_worker i t = \<lparr>wk_id = i, wk_clock = (\<lambda>_. t), wk_env = (\<lambda>_ s. s), wk_seat_env = (\<lambda>_ s. s),
     wk_down = False, wk_attempt = ''a2'', wk_event = ''e''\<rparr>"

definition sample_handle :: "string \<Rightarrow> nat \<Rightarrow> run_handle" where
  "sample_handle w f = \<lparr>rh_runId = ''r'', rh_owner = w, rh_fence = f\<rparr>"

definition sample_queued :: db where
  "sample_queued = sample_db\<lparr>db_runs := [sample_run ''r'' Queued None 2]\<rparr>"

definition sample_claimed :: db where
  "sample_claimed = (case claim_run 5 5 (sample_handle ''w2'' 3) sample_queued of Inr v \<Rightarrow> snd v | Inl _ \<Rightarrow> empty_db)"

definition no_session :: session where
  "no_session sn s = (\<lparr>se_retain = False, se_screen = None, se_error = Some ComputerBusyError\<rparr>, s)"

definition quiet_sandbox :: sandbox where
  "quiet_sandbox = \<lparr>sb_provision = (\<lambda>_ _ _. Inl (Thrown ''none'')), sb_answer = (\<lambda>_. None),
     sb_export = (\<lambda>_ _. Inr ''rev''), sb_localHome = False\<rparr>"

lemma sample_claimed_run: "claim_run 5 5 (sample_handle ''w2'' 3) sample_queued = Inr (1, sample_claimed)"
  by code_simp


theorem superseded_worker_stops_witness:
  "renewRunLease 7 (sample_handle ''w1'' 1) sample_db = Inr (False, sample_db)"
proof -
  have "run_ids_distinct sample_db" "run_held (sample_handle ''w1'' 2) sample_db" by code_simp+
  then show ?thesis
    using superseded_worker_stops [of sample_db "sample_handle ''w1'' 2" "sample_handle ''w1'' 1" 7]
    by (simp add: sample_handle_def)
qed

theorem setup_failure_hands_on_witness:
  "map r_status (db_runs (snd (setup_failed (sample_worker ''w1'' 7) (sample_handle ''w1'' 2) ''a'' None
     ComputerBusyError sample_db))) = [Queued]"
proof -
  have "run_ids_distinct sample_db" "run_held (sample_handle ''w1'' 2) sample_db" by code_simp+
  moreover have "\<exists>a \<in> set (db_attempts sample_db). a_id a = ''a''" by code_simp
  moreover obtain r s' where "setup_failed (sample_worker ''w1'' 7) (sample_handle ''w1'' 2) ''a'' None
     ComputerBusyError sample_db = (r, s')" by fastforce
  ultimately show ?thesis
    using setup_failure_hands_on [of sample_db "sample_handle ''w1'' 2" "''a''" "sample_worker ''w1'' 7" None
        ComputerBusyError r s']
    by (auto simp: sample_worker_def id_def replaced_one_def sample_defs Cons_eq_append_conv)
qed

definition sample_session :: session_input where
  "sample_session = \<lparr>sn_run = sample_run ''r'' Queued None 1, sn_handle = sample_handle ''w1'' 2,
     sn_attempt = ''a'', sn_lease = None, sn_managed = None, sn_resume = None\<rparr>"

definition sample_end :: session_end where
  "sample_end = \<lparr>se_retain = False, se_screen = None, se_error = None\<rparr>"

theorem session_end_cleans_up_witness:
  "map a_status (db_attempts (snd (end_session quiet_sandbox (sample_worker ''w1'' 7) sample_session
     sample_end sample_db))) \<noteq> [AttRunning]"
proof -
  obtain r s' where e: "end_session quiet_sandbox (sample_worker ''w1'' 7) sample_session sample_end sample_db = (r, s')"
    by fastforce
  have "map a_id (db_attempts (snd (end_session quiet_sandbox (sample_worker ''w1'' 7) sample_session
     sample_end sample_db))) = [''a'']" by code_simp
  with session_end_cleans_up [OF e] e show ?thesis
    by (auto simp: sample_worker_def sample_session_def)
qed

end
