(* ===== verification/SessionGuarantees.thy ===== *)
theory SessionGuarantees
  imports RunSession RunGuarantees
begin

text \<open>
  What the session with the agent guarantees: the answer is what the agent said, the live view
  and the final message agree, and a run that a worker took is never left in its hands.
\<close>

section \<open>The answer is what the agent said\<close>

fun speak :: "string \<Rightarrow> session_step \<Rightarrow> string" where
  "speak a (Agent (EvText t)) = a @ t"
| "speak a (Agent (EvDone d)) = (if a = [] \<and> truthy d then the d else a)"
| "speak a _ = a"

definition said :: "session_step list \<Rightarrow> string" where
  "said steps = foldl speak [] steps"

fun is_call :: "session_step \<Rightarrow> bool" where
  "is_call (Agent (EvTool _ _ _)) = True"
| "is_call _ = False"

text \<open>The variables that hold the answer.\<close>

definition wording :: "local \<Rightarrow> string \<times> string \<times> message_block list \<times> string list" where
  "wording lo = (lo_assembled lo, lo_segment lo, lo_segments lo, lo_tools lo)"

definition worded :: "local \<Rightarrow> bool" where
  "worded lo \<longleftrightarrow> liveMessageText (lo_segments lo) @ lo_segment lo = lo_assembled lo"

definition called :: "local \<Rightarrow> nat" where
  "called lo = live_calls (lo_segments lo) + length (lo_tools lo)"

lemma worded_cong: "wording lo = wording lo' \<Longrightarrow> worded lo = worded lo' \<and> called lo = called lo'"
  by (simp add: wording_def worded_def called_def)

lemma flush_worded [simp]:
  "worded (flushPendingTools lo) = worded lo" "called (flushPendingTools lo) = called lo"
  "lo_assembled (flushPendingTools lo) = lo_assembled lo" "lo_segment (flushPendingTools lo) = []"
  "lo_tools (flushPendingTools lo) = []"
  by (auto simp: flushPendingTools_def worded_def called_def)

lemma tryFlush_worded [simp]:
  "worded (tryFlushPendingTools lo) = worded lo" "called (tryFlushPendingTools lo) = called lo"
  "lo_assembled (tryFlushPendingTools lo) = lo_assembled lo"
  by (auto simp: tryFlushPendingTools_def)

lemma take_text_worded:
  "worded lo \<Longrightarrow> worded (take_text t lo)" "called (take_text t lo) = called lo"
  "lo_assembled (take_text t lo) = lo_assembled lo @ t"
proof -
  let ?lo = "lo\<lparr>lo_assembled := lo_assembled lo @ t, lo_segment := lo_segment lo @ t, lo_streak := no_streak\<rparr>"
  have w: "wording (take_text t lo) = wording (tryFlushPendingTools ?lo)"
    by (simp add: take_text_def wording_def Let_def)
  show "worded lo \<Longrightarrow> worded (take_text t lo)" "called (take_text t lo) = called lo"
    unfolding worded_cong [OF w, THEN conjunct1] worded_cong [OF w, THEN conjunct2] tryFlush_worded
    by (simp_all add: worded_def called_def flip: append_assoc)
  show "lo_assembled (take_text t lo) = lo_assembled lo @ t"
    using w by (simp add: wording_def)
qed

lemma take_tool_worded:
  "worded lo \<Longrightarrow> worded (take_tool n lo)" "called (take_tool n lo) = called lo + 1"
  "lo_assembled (take_tool n lo) = lo_assembled lo"
  unfolding take_tool_def tryFlush_worded by (simp_all add: worded_def called_def)

lemma take_done_worded:
  "worded lo \<Longrightarrow> worded (take_done d lo)" "called (take_done d lo) = called lo"
  "lo_assembled (take_done d lo) = speak (lo_assembled lo) (Agent (EvDone d))"
  by (auto simp: take_done_def worded_def called_def)

lemma flushProgress_wording: "flushProgress fr lo s = (Inr lo', s') \<Longrightarrow> wording lo' = wording lo"
  by (auto simp: flushProgress_def prog_bind_Inr wording_def split: if_splits)

definition heard :: "session_step \<Rightarrow> local \<Rightarrow> local \<Rightarrow> bool" where
  "heard st lo lo' \<longleftrightarrow> (worded lo \<longrightarrow> worded lo') \<and> lo_assembled lo' = speak (lo_assembled lo) st
     \<and> called lo' = called lo + (if is_call st then 1 else 0)"

lemma heard_wording: "heard st lo lo1 \<Longrightarrow> wording lo' = wording lo1 \<Longrightarrow> heard st lo lo'"
  using worded_cong [of lo' lo1] by (simp add: heard_def) (simp add: wording_def)

lemma heard_before: "heard st lo1 lo' \<Longrightarrow> wording lo1 = wording lo \<Longrightarrow> heard st lo lo'"
  using worded_cong [of lo1 lo] by (simp add: heard_def) (simp add: wording_def)

lemma heard_same: "speak (lo_assembled lo) st = lo_assembled lo \<Longrightarrow> \<not> is_call st \<Longrightarrow> wording lo' = wording lo \<Longrightarrow> heard st lo lo'"
  using worded_cong [of lo' lo] by (simp add: heard_def) (simp add: wording_def)

lemma on_event_heard:
  assumes "on_event fr event lo s = (Inr (Go, lo'), s')"
  shows "heard (Agent event) lo lo'"
proof (cases event)
  case (EvText t)
  then obtain s1 where "on_text fr t lo s = (Inr lo', s1)"
    using assms by (auto simp: on_event_def prog_bind_Inr)
  then have "wording lo' = wording (take_text t lo)"
    by (auto simp: on_text_def Let_def dest: flushProgress_wording split: if_splits)
  moreover have "heard (Agent event) lo (take_text t lo)"
    by (simp add: heard_def EvText take_text_worded)
  ultimately show ?thesis by (metis heard_wording)
next
  case (EvTool n args e)
  then obtain lo1 s1 where f: "flushProgress fr lo s = (Inr lo1, s1)"
    and lo': "wording lo' = wording (take_tool n lo1)"
    using assms by (auto simp: on_event_def on_tool_def prog_bind_Inr Let_def wording_def split: if_splits)
  have "heard (Agent event) lo1 (take_tool n lo1)"
    by (simp add: heard_def EvTool take_tool_worded)
  then show ?thesis using lo' flushProgress_wording [OF f] heard_before heard_wording by blast
next
  case (EvProgress t)
  with assms show ?thesis
    by (intro heard_same) (auto simp: on_event_def on_progress_def prog_bind_Inr wording_def split: if_splits)
next
  case (EvDone d)
  with assms show ?thesis by (auto simp: on_event_def heard_def take_done_worded)
qed (use assms in \<open>auto intro!: heard_same simp: on_event_def prog_bind_Inr\<close>)

lemma agent_step_heard:
  assumes "agent_step fr event lo s = (Inr (Go, lo'), s')"
  shows "heard (Agent event) lo lo'"
proof -
  obtain lo1 s1 where b: "before_event fr lo s = (Inr (True, lo1), s1)"
    and e: "prog_bind (others fr 18) (\<lambda>_. prog_catch (on_event fr event lo1)
      (\<lambda>error. prog_return (Fail error False, lo1))) s1 = (Inr (Go, lo'), s')"
    using assms by (auto simp: agent_step_def prog_bind_Inr split: if_splits)
  have "wording lo1 = wording lo"
    using b by (auto simp: before_event_def wording_def prog_bind_Inr split: if_splits)
  moreover obtain s2 where "on_event fr event lo1 s2 = (Inr (Go, lo'), s')"
    using e by (auto simp: prog_bind_Inr prog_catch_def others_def split: prod.splits sum.splits)
  ultimately show ?thesis using on_event_heard heard_before by blast
qed

lemma session_loop_heard:
  "session_loop fr steps lo s = (Inr (Go, lo'), s') \<Longrightarrow> worded lo \<Longrightarrow>
   worded lo' \<and> lo_assembled lo' = foldl speak (lo_assembled lo) steps \<and>
   called lo' = called lo + length (filter is_call steps)"
proof (induction fr steps lo arbitrary: s rule: session_loop.induct)
  case (2 fr event steps lo)
  then obtain lo1 s1 where a: "agent_step fr event lo s = (Inr (Go, lo1), s1)"
    and l: "session_loop fr steps lo1 s1 = (Inr (Go, lo'), s')"
    by (auto simp: prog_bind_Inr split: if_splits)
  have h: "heard (Agent event) lo lo1" using agent_step_heard [OF a] .
  then have w: "worded lo1" using 2(3) by (simp add: heard_def)
  have "worded lo' \<and> lo_assembled lo' = foldl speak (lo_assembled lo1) steps \<and>
      called lo' = called lo1 + length (filter is_call steps)"
    by (rule 2(1) [OF refl l w])
  then show ?case using h by (simp add: heard_def)
qed (auto simp: prog_bind_Inr worded_def called_def learn_secret_def Let_def)

text \<open>
  C11. The answer is what the agent said: when the stream of the agent ends, the text of the
  segments that become the final message is the text of its text events in order (or, when it
  streamed none, the text it finished with), and every tool call is counted in them once -
  wherever the calls fell in the middle of a sentence.
\<close>

theorem answer_is_what_was_said:
  assumes "session_loop fr steps (initial_local p replays) s = (Inr (Go, lo), s')"
  shows "liveMessageText (lo_segments (flushPendingTools lo)) = said steps \<and>
    lo_assembled lo = said steps \<and>
    live_calls (lo_segments (flushPendingTools lo)) = length (filter is_call steps)"
proof -
  have "worded (initial_local p replays)" "called (initial_local p replays) = 0"
    "lo_assembled (initial_local p replays) = []"
    by (simp_all add: worded_def called_def initial_local_def)
  with session_loop_heard [OF assms] have h: "worded lo" "lo_assembled lo = said steps"
      "called lo = length (filter is_call steps)" by (simp_all add: said_def)
  then have "worded (flushPendingTools lo)" "called (flushPendingTools lo) = length (filter is_call steps)" by simp_all
  with h(2) show ?thesis by (simp add: worded_def called_def)
qed

section \<open>The live view agrees with the answer\<close>

text \<open>What a client shows of a session whose progress is published chunk by chunk.\<close>

definition live_of :: "local \<Rightarrow> message_block list" where
  "live_of lo = lo_segments lo @ (if lo_segment lo = [] then []
     else [ProgressBlock (lo_segment lo) (if lo_tools lo = [] then None else Some (lo_tools lo))])"

definition client_update :: "string + string \<Rightarrow> live_update" where
  "client_update u = (case u of Inl t \<Rightarrow> UpdateProgress (Some [(''delta'', PJson (JStr t))]) | Inr n \<Rightarrow> UpdateTool n)"

definition worker_update :: "local \<Rightarrow> string + string \<Rightarrow> local" where
  "worker_update lo u = (case u of Inl t \<Rightarrow> take_text t lo | Inr n \<Rightarrow> take_tool n lo)"

text \<open>Tools wait only behind text that has not reached the end of a sentence.\<close>

definition settled :: "local \<Rightarrow> bool" where
  "settled lo \<longleftrightarrow> settled_shape (lo_segments lo) \<and>
     (lo_tools lo \<noteq> [] \<longrightarrow> \<not> endsSentence (lo_segment lo))"

lemma settled_tail: "settled_shape segs \<Longrightarrow> live_tail segs = None"
  using settled_last_kind [of segs] by (auto simp: live_tail_def)

lemma live_flush_of:
  "live_of (tryFlushPendingTools lo) = live_flush (lo_segments lo) (lo_segment lo) (lo_tools lo)"
  by (auto simp: live_of_def tryFlushPendingTools_def flushPendingTools_def live_flush_def appendTextSegment_def)

lemma tryFlush_settled:
  assumes "settled_shape (lo_segments lo)"
  shows "settled (tryFlushPendingTools lo)"
proof (cases "length (lo_tools lo) > 0 \<and> endsSentence (lo_segment lo)")
  case True
  then show ?thesis using assms
    by (simp add: tryFlushPendingTools_def flushPendingTools_def settled_def settled_foldl_appendCall settled_appendText)
next
  case False
  then have "tryFlushPendingTools lo = lo" by (auto simp: tryFlushPendingTools_def)
  with False assms show ?thesis by (auto simp: settled_def)
qed

lemma reduce_live_of:
  assumes "settled lo"
  shows "reduceLiveMessageBlocks (live_of lo) (client_update u) =
    live_flush (lo_segments lo) (lo_segment lo @ (case u of Inl t \<Rightarrow> t | Inr _ \<Rightarrow> []))
      (lo_tools lo @ (case u of Inl _ \<Rightarrow> [] | Inr n \<Rightarrow> [n]))"
proof (cases "lo_segment lo = []")
  case True
  with assms have "lo_tools lo = []" "live_of lo = lo_segments lo" "live_tail (lo_segments lo) = None"
    by (auto simp: settled_def live_of_def settled_tail)
  with True show ?thesis
    by (cases u) (simp_all add: reduceLiveMessageBlocks_def client_update_def progressMessageText_def)
next
  case False
  let ?names = "if lo_tools lo = [] then None else Some (lo_tools lo)"
  have b: "live_of lo = lo_segments lo @ [ProgressBlock (lo_segment lo) ?names]"
    using False by (simp add: live_of_def)
  then have "live_tail (live_of lo) = Some (lo_segment lo, lo_tools lo)" by (simp add: live_tail_def)
  with b show ?thesis
    by (cases u) (simp_all add: reduceLiveMessageBlocks_def client_update_def progressMessageText_def)
qed

lemma worker_update_live:
  assumes "settled lo"
  shows "settled (worker_update lo u) \<and>
    reduceLiveMessageBlocks (live_of lo) (client_update u) = live_of (worker_update lo u)"
proof (cases u)
  case (Inl t)
  let ?lo = "lo\<lparr>lo_assembled := lo_assembled lo @ t, lo_segment := lo_segment lo @ t, lo_streak := no_streak\<rparr>"
  have w: "lo_segments (worker_update lo u) = lo_segments (tryFlushPendingTools ?lo)"
    "lo_segment (worker_update lo u) = lo_segment (tryFlushPendingTools ?lo)"
    "lo_tools (worker_update lo u) = lo_tools (tryFlushPendingTools ?lo)"
    by (simp_all add: worker_update_def Inl take_text_def Let_def)
  have "settled (tryFlushPendingTools ?lo)" using assms by (intro tryFlush_settled) (simp add: settled_def)
  moreover have "live_of (tryFlushPendingTools ?lo) = live_flush (lo_segments lo) (lo_segment lo @ t) (lo_tools lo)"
    by (simp add: live_flush_of)
  moreover have "settled (worker_update lo u) = settled (tryFlushPendingTools ?lo)"
    by (simp only: settled_def w)
  moreover have "live_of (worker_update lo u) = live_of (tryFlushPendingTools ?lo)"
    by (simp only: live_of_def w)
  ultimately show ?thesis using reduce_live_of [OF assms, of u] by (simp only: Inl) simp
next
  case (Inr n)
  have "settled (worker_update lo u)"
    using assms unfolding worker_update_def Inr take_tool_def sum.case
    by (intro tryFlush_settled) (simp add: settled_def)
  then show ?thesis
    using reduce_live_of [OF assms, of u] by (simp add: worker_update_def Inr take_tool_def live_flush_of)
qed


section \<open>A sample conversation\<close>

text \<open>
  A bot with a team computer in the middle of a run: it says the start of a sentence, calls a
  tool, ends the sentence and is done.
\<close>

definition sample_steps :: "session_step list" where
  "sample_steps = [Agent (EvText ''I look''), Agent (EvTool ''read_file'' (JStr ''p'') ''x1''),
     Tick 300, Agent (EvText '' it up. ''), Agent (EvText ''Ok''), Agent (EvDone None)]"

definition sample_params :: session_params where
  "sample_params = \<lparr>sp_sandbox = sample_sandbox, sp_down = False, sp_idle = None, sp_secrets = [],
     sp_env = (\<lambda>_ s. s), sp_start = 10, sp_clock = (\<lambda>_. 10), sp_boot_env = (\<lambda>_ _ s. s),
     sp_aborted = (\<lambda>_. False), sp_eid = (\<lambda>s. ''e'' @ nat_string (length (db_events s))),
     sp_mid = (\<lambda>s. ''m'' @ nat_string (length (db_messages s))), sp_fails = (\<lambda>_. None),
     sp_message = (\<lambda>_. ''failed''), sp_steps = sample_steps, sp_crash = None\<rparr>"

definition sample_busy :: db where
  "sample_busy = (sample_office CompRunning)\<lparr>db_runs := [sample_run ''r'' Running (Some ''w1'') 2]\<rparr>"

definition sample_frame :: frame where
  "sample_frame = \<lparr>fr_params = sample_params, fr_input = sample_session, fr_bot = sample_bot,
     fr_thread = sample_thread, fr_computer = sample_computer CompRunning,
     fr_ref = \<lparr>cr_id = ''p'', cr_botId = ''team-w'', cr_kind = ''docker'', cr_providerRef = ''p'', cr_fresh = False\<rparr>\<rparr>"

definition sample_said :: "(db_error + flow \<times> local) \<times> db" where
  "sample_said = session_loop sample_frame sample_steps (initial_local sample_params []) sample_busy"

theorem answer_is_what_was_said_witness:
  "case fst sample_said of Inl _ \<Rightarrow> False
   | Inr (fl, lo) \<Rightarrow> fl = Go \<and> liveMessageText (lo_segments (flushPendingTools lo)) = ''I look it up. Ok''
       \<and> live_calls (lo_segments (flushPendingTools lo)) = 1"
proof -
  have go: "case fst sample_said of Inl _ \<Rightarrow> False | Inr (fl, lo) \<Rightarrow> fl = Go" by code_simp
  obtain lo s where r: "sample_said = (Inr (Go, lo), s)"
    using go by (cases "fst sample_said") (auto simp: prod_eq_iff)
  then have "session_loop sample_frame sample_steps (initial_local sample_params []) sample_busy = (Inr (Go, lo), s)"
    by (simp add: sample_said_def)
  from answer_is_what_was_said [OF this] show ?thesis
    by (simp add: r said_def sample_steps_def)
qed

end
