(* ===== verification/RunLiveness.thy ===== *)
theory RunLiveness
  imports SessionGuarantees
begin

text \<open>
  A worker that took a run never keeps it: however a session ends, the run is finished, paused or
  queued again. \<open>fair\<close> is what is asked of the other clients - not to take the run from the
  worker while it holds it, nor to hand it back under the same handle - and what every step of
  the session but four keeps too: the pauses, the final write and the requeue.
\<close>

named_theorems fair_rules

section \<open>Steps that leave the worker its run\<close>

definition fair :: "run_handle \<Rightarrow> db \<Rightarrow> db \<Rightarrow> bool" where
  "fair h s s' \<longleftrightarrow> (run_ids_distinct s \<longrightarrow> run_ids_distinct s' \<and>
     (\<forall>r. run_row (rh_runId h) s = Some r \<and> works Running h r \<longrightarrow>
        (\<exists>r'. run_row (rh_runId h) s' = Some r' \<and> works Running h r' \<and> run_key r' = run_key r
              \<and> r_workspaceId r' = r_workspaceId r)) \<and>
     (\<not> run_held h s \<longrightarrow> \<not> run_held h s'))"

interpretation fair: state_preorder "fair h"
proof
  show "fair h s s" for s by (auto simp: fair_def)
  show "fair h s u" if "fair h s t" "fair h t u" for s t u
    using that unfolding fair_def by metis
qed

lemmas [fair_rules] = fair.rel_rules fair.prel_rules

lemma fair_runs: "db_runs s' = db_runs s \<Longrightarrow> fair h s s'"
  by (simp add: fair_def run_ids_distinct_def run_row_def run_held_def)

lemma fair_runs_update:
  assumes "\<And>r. p r \<Longrightarrow> works Running h r \<Longrightarrow> works Running h (f r) \<and> run_key (f r) = run_key r \<and> r_workspaceId (f r) = r_workspaceId r"
    and "\<And>r. p r \<Longrightarrow> \<not> works Running h r \<Longrightarrow> \<not> works Running h (f r)"
    and "\<And>r. r_id (f r) = r_id r"
  shows "fair h s (db_runs_update (updateMany p f) s)"
  unfolding fair_def
proof (intro impI conjI allI)
  assume d: "run_ids_distinct s"
  then show "run_ids_distinct (db_runs_update (updateMany p f) s)" by (simp add: run_ids_update assms(3))
  show "\<exists>r'. run_row (rh_runId h) (db_runs_update (updateMany p f) s) = Some r' \<and> works Running h r'
      \<and> run_key r' = run_key r \<and> r_workspaceId r' = r_workspaceId r"
    if "run_row (rh_runId h) s = Some r \<and> works Running h r" for r
    using that assms(1) by (cases "p r") (simp_all add: run_row_def run_table.find_update [OF assms(3)])
  show "\<not> run_held h (db_runs_update (updateMany p f) s)" if "\<not> run_held h s"
    using that assms(2) by (auto simp: run_held_def set_updateMany)
qed

lemma fair_run_update [fair_rules]:
  assumes "\<And>r. p r \<Longrightarrow> works Running h r \<Longrightarrow> works Running h (f r) \<and> run_key (f r) = run_key r \<and> r_workspaceId (f r) = r_workspaceId r"
    and "\<And>r. p r \<Longrightarrow> \<not> works Running h r \<Longrightarrow> \<not> works Running h (f r)"
    and "\<And>r. r_id (f r) = r_id r"
  shows "tx_rel (fair h) (update_many db_runs db_runs_update p f)"
  using fair_runs_update [of p h f] assms by (intro tx_relI) simp

lemma fair_other [fair_rules]:
  "tx_rel (fair h) (update_one db_threads db_threads_update p1 f1)"
  "tx_rel (fair h) (update_one db_messages db_messages_update p2 f2)"
  "tx_rel (fair h) (update_many db_tasks db_tasks_update p3 f3)"
  "tx_rel (fair h) (update_many db_attempts db_attempts_update p4 f4)"
  "tx_rel (fair h) (update_one db_attempts db_attempts_update p4 f4)"
  "tx_rel (fair h) (update_many db_computers db_computers_update p5 f5)"
  "tx_rel (fair h) (update_many db_leases db_leases_update p6 f6)"
  "tx_rel (fair h) (delete_many db_leases db_leases_update p6)"
  "tx_rel (fair h) (update_one db_bots db_bots_update p7 f7)"
  "tx_rel (fair h) (delete_many db_events db_events_update p8)"
  "tx_rel (fair h) (create_row db_events db_events_update k9 c9 r9)"
  "tx_rel (fair h) (create_row db_messages db_messages_update k10 c10 r10)"
  "tx_rel (fair h) (create_row db_usage db_usage_update k11 c11 r11)"
  "tx_rel (fair h) (create_row db_attempts db_attempts_update k12 c12 r12)"
  "tx_rel (fair h) (find_first g13 p13)" "tx_rel (fair h) (find_many g14 p14)"
  "tx_rel (fair h) (assertRunCanWriteHistory k)"
  by (auto intro!: tx_relI fair_runs simp: update_one_Inr create_row_Inr assertRun_run split: if_splits)

lemma fair_case_prod [fair_rules]: "(\<And>a b. tx_rel R (f a b)) \<Longrightarrow> tx_rel R (case v of (a, b) \<Rightarrow> f a b)"
  by (cases v) simp

lemma fair_log [fair_rules]: "tx_rel (fair h) (appendEventInTransaction now eid input)"
  "tx_rel (fair h) (createThreadMessageInTransaction now mid mi)"
  "tx_rel (fair h) (appendEvent now eid input)"
  unfolding appendEvent_def appendEventInTransaction_def createThreadMessageInTransaction_def
  by (intro fair_rules)+

definition fair_env :: "run_handle \<Rightarrow> (db \<Rightarrow> db) \<Rightarrow> bool" where
  "fair_env h env \<longleftrightarrow> (\<forall>s. fair h s (env s))"

lemma fair_env_rule [fair_rules]: "fair_env h env \<Longrightarrow> prog_rel (fair h) (prog_env env)"
  by (simp add: fair_env_def prog_rel_def)

lemma fair_calls [fair_rules]:
  "prog_rel (fair h) (log_call c)" "prog_rel (fair h) (enqueue down j)" "prog_rel (fair h) (prog_lift r)"
  by (auto simp: prog_rel_def log_call_def enqueue_def prog_lift_def fair.refl_state fair_runs split: sum.split)

lemma fair_sum [fair_rules]:
  "(\<And>x. prog_rel R (f x)) \<Longrightarrow> (\<And>y. prog_rel R (g y)) \<Longrightarrow>
   prog_rel R (case v of Inl x \<Rightarrow> f x | Inr y \<Rightarrow> g y)"
  by (cases v) simp_all

lemma fair_small [fair_rules]:
  "prog_rel (fair h) (call sb c)" "prog_rel (fair h) (find_computer k)"
  "prog_rel (fair h) m \<Longrightarrow> prog_rel (fair h) (ignore_error m)"
  unfolding call_def find_computer_def ignore_error_def by (intro fair_rules; assumption?)+

lemma fair_computers [fair_rules]:
  "prog_rel (fair h) (scheduleComputerControlExpiry f i l t)"
  "prog_rel (fair h) (enqueueTakeoverContinuation f k)"
  "prog_rel (fair h) (scheduleComputerSleep f cfg now i)"
  "prog_rel (fair h) (restoreComputerWorkspace sb hk ref)"
  "prog_rel (fair h) (ensureComputerWorkspaceLayout sb ref scope b)"
  "prog_rel (fair h) (checkpointComputerWorkspace sb hk ref)"
  unfolding scheduleComputerControlExpiry_def enqueueTakeoverContinuation_def scheduleComputerSleep_def
    restoreComputerWorkspace_def ensureComputerWorkspaceLayout_def checkpointComputerWorkspace_def
  by (intro fair_rules)+

lemma fair_control [fair_rules]: "tx_rel (fair h) (finalizeComputerControlRelease now eid input)"
  unfolding finalizeComputerControlRelease_def finalizeComputerControlRelease_tx_def Let_def
  by (intro fair_rules) (simp_all add: takeover_resumes_def works_def)

lemma fair_provision:
  assumes "\<And>i. fair_env h (env i)" and "\<And>i. fair_env h (xenv i)" and "\<And>i. fair_env h (wenv i)"
  shows "prog_rel (fair h) (provisionComputer sb env xenv wenv fails clock eid k context holder)"
proof -
  have w: "prog_rel (fair h) (wait_ready n wenv k context)" for n
  proof (induction n)
    case (Suc n)
    show ?case unfolding wait_ready.simps by (intro fair_rules assms Suc.IH)
  qed (simp only: wait_ready.simps fair_rules)
  have f: "prog_rel (fair h) (boot_failed sb env clock i ref error)" for i ref error
    unfolding boot_failed_def record_boot_failure_def rollbackProvisionedComputer_def rollback_calls_def
    by (intro fair_rules assms)
  show ?thesis
    unfolding provisionComputer_def provision_waited_def reconnectComputer_def waitForComputerReady_def settle_control_def
      expireComputerControl_def expire_release_def boot_def boot_claim_def boot_finish_def boot_activate_def
    by (intro fair_rules assms w f)
qed

section \<open>Holding a run and being rid of it\<close>

definition mine :: "frame \<Rightarrow> db \<Rightarrow> bool" where
  "mine fr s \<longleftrightarrow> run_ids_distinct s \<and> (\<exists>r. run_row (rh_runId (sn_handle (fr_input fr))) s = Some r \<and>
     holds_lease (fr_lease fr) r \<and> r_taskId r = r_taskId (fr_run fr))"

definition rid :: "run_handle \<Rightarrow> db \<Rightarrow> bool" where
  "rid h s \<longleftrightarrow> run_ids_distinct s \<and> \<not> run_held h s"

lemma holds_works: "holds_lease (fr_lease fr) r \<Longrightarrow> works Running (sn_handle (fr_input fr)) r"
  by (simp add: holds_lease_def works_def fr_lease_def Let_def)

lemma mine_held: "mine fr s \<Longrightarrow> run_held (sn_handle (fr_input fr)) s"
  by (auto simp: mine_def intro: run_row_held holds_works)

lemma mine_fair:
  assumes "fair (sn_handle (fr_input fr)) s s'" and "mine fr s"
  shows "mine fr s'"
proof -
  obtain r where r: "run_row (rh_runId (sn_handle (fr_input fr))) s = Some r" "holds_lease (fr_lease fr) r"
      "r_taskId r = r_taskId (fr_run fr)" "run_ids_distinct s"
    using assms(2) by (auto simp: mine_def)
  then obtain r' where "run_row (rh_runId (sn_handle (fr_input fr))) s' = Some r'" "works Running (sn_handle (fr_input fr)) r'"
      "run_key r' = run_key r" "r_workspaceId r' = r_workspaceId r" "run_ids_distinct s'"
    using assms(1) holds_works [OF r(2)] unfolding fair_def by blast
  with r show ?thesis by (auto simp: mine_def holds_lease_def works_def run_key_def fr_lease_def Let_def)
qed

lemma rid_fair: "fair h s s' \<Longrightarrow> rid h s \<Longrightarrow> rid h s'"
  by (auto simp: fair_def rid_def)

lemma renew_mine:
  assumes "mine fr s"
  obtains s' where "renewRunLease now (sn_handle (fr_input fr)) s = Inr (True, s')" and "mine fr s'"
proof -
  let ?h = "sn_handle (fr_input fr)"
  have d: "run_ids_distinct s" using assms by (simp add: mine_def)
  obtain s' where s': "renewRunLease now ?h s = Inr (True, s')"
    using run_lease.renew_held [OF d mine_held [OF assms], of now] by blast
  have "tx_rel (fair ?h) (renewRunLease now ?h)"
    unfolding renewRunLease_def by (intro fair_rules) (simp_all add: works_def run_key_def)
  from tx_relD [OF this s'] have "mine fr s'" using assms by (rule mine_fair)
  with s' show thesis by (rule that)
qed

text \<open>The transactions that end the worker's hold share their first statement.\<close>

lemma leaving_tx:
  assumes run: "tx_bind (update_many db_runs db_runs_update p f) (\<lambda>n. if n \<noteq> 1 then tx_return None else K) s = Inr (v, s')"
    and m: "mine fr s"
    and p: "\<And>r. p r \<longleftrightarrow> holds_lease (fr_lease fr) r \<and> q r"
    and q: "\<And>r. r_taskId r = r_taskId (fr_run fr) \<Longrightarrow> q r"
    and f: "\<And>r. r_id (f r) = r_id r" "\<And>r. r_status (f r) \<noteq> Running"
    and K: "tx_rel (fair (sn_handle (fr_input fr))) K" "\<And>s v s'. K s = Inr (v, s') \<Longrightarrow> v \<noteq> None"
  shows "v \<noteq> None \<and> rid (sn_handle (fr_input fr)) s'"
proof -
  let ?h = "sn_handle (fr_input fr)"
  let ?s = "db_runs_update (updateMany p f) s"
  obtain r where r: "run_row (rh_runId ?h) s = Some r" "p r"
    using m p q by (auto simp: mine_def)
  have d: "run_ids_distinct s" using m by (simp add: mine_def)
  have id: "\<And>r. p r \<Longrightarrow> r_id r = rh_runId ?h" using p by (auto simp: holds_lease_def fr_lease_def Let_def)
  note hit = run_row_hit [OF d r(1), of p f, OF id f(1)]
  have "countMany p (db_runs s) = 1" using hit(1) r(2) by simp
  then have k: "K ?s = Inr (v, s')" using run by (simp add: tx_bind_run)
  have row: "run_row (rh_runId ?h) ?s = Some (f r)" and d': "run_ids_distinct ?s" using hit(2,3) r(2) by simp_all
  have "\<not> run_held ?h ?s"
  proof
    assume "run_held ?h ?s"
    then obtain x where "x \<in> set (db_runs ?s)" "works Running ?h x" by (auto simp: run_held_def)
    with run_table.find_unique [of "db_runs ?s" "rh_runId ?h" "f r" x] d' row
    have "works Running ?h (f r)" by (simp add: works_def run_row_def run_ids_distinct_def)
    with f(2) show False by (simp add: works_def)
  qed
  with d' have "rid ?h ?s" by (simp add: rid_def)
  with tx_relD [OF K(1) k] K(2) [OF k] show ?thesis by (auto intro: rid_fair)
qed

definition leaves :: "frame \<Rightarrow> bool dbprog \<Rightarrow> bool" where
  "leaves fr m \<longleftrightarrow> (\<forall>s. mine fr s \<longrightarrow> wp m (\<lambda>r s'. case r of Inl _ \<Rightarrow> mine fr s'
     | Inr b \<Rightarrow> b \<and> rid (sn_handle (fr_input fr)) s') s)"

lemma committed_leaves:
  assumes "mine fr s" and "\<And>v s'. tx s = Inr (v, s') \<Longrightarrow> v \<noteq> None \<and> rid (sn_handle (fr_input fr)) s'"
  shows "wp (prog_bind (prog_tx (answer_committed tx)) (\<lambda>(b, _). prog_return b))
    (\<lambda>r s'. case r of Inl _ \<Rightarrow> mine fr s' | Inr b \<Rightarrow> b \<and> rid (sn_handle (fr_input fr)) s') s"
  using assms by (cases "tx s") (fastforce simp: wp_def prog_bind_run prog_tx_run answer_committed_def tx_bind_run split: prod.split)+

lemma pause_leaves: "leaves fr (pause_input fr now blocks)" "leaves fr (pause_takeover fr now reason)"
proof -
  let ?h = "sn_handle (fr_input fr)"
  have i: "v \<noteq> None \<and> rid ?h s'"
    if "mine fr s" "pauseRunForInput_tx now mid e1 e2 (fr_lease fr) blocks s = Inr (v, s')" for mid e1 e2 s v s'
    by (rule leaving_tx [OF that(2) [unfolded pauseRunForInput_tx_def] that(1), where q = "\<lambda>_. True"])
      (simp | intro fair_rules | auto simp: tx_bind_Inr split: if_splits)+
  have t: "v \<noteq> None \<and> rid ?h s'"
    if "mine fr s" "pauseRunForTakeover_tx now e1 (fr_lease fr) reason s = Inr (v, s')" for e1 s v s'
    by (rule leaving_tx [OF that(2) [unfolded pauseRunForTakeover_tx_def] that(1), where q = "\<lambda>_. True"])
      (simp | intro fair_rules | auto simp: tx_bind_Inr split: if_splits)+
  show "leaves fr (pause_input fr now blocks)"
    unfolding leaves_def pause_input_def pauseRunForInput_def
    by (simp add: wp_bind [of "prog_gets _"] wp_gets) (intro allI impI committed_leaves i; assumption)
  show "leaves fr (pause_takeover fr now reason)"
    unfolding leaves_def pause_takeover_def pauseRunForTakeover_def
    by (simp add: wp_bind [of "prog_gets _"] wp_gets) (intro allI impI committed_leaves t; assumption)
qed

lemma mine_can_write: "mine fr s \<Longrightarrow> can_write s (Some (li_runId (fr_lease fr)))"
  by (auto simp: mine_def can_write_def run_row_def fr_lease_def Let_def holds_lease_def)

lemma finalize_leaves: "leaves fr (finalize fr now oc)"
proof -
  have f: "v \<noteq> None \<and> rid (sn_handle (fr_input fr)) s'"
    if m: "mine fr s" and fin: "finalizeRun_tx now mid e1 e2 (fr_lease fr) (r_taskId (fr_run fr)) oc s = Inr (v, s')"
    for mid e1 e2 s v s'
  proof -
    have run: "tx_bind (run_updateMany now (\<lambda>r. holds_lease (fr_lease fr) r \<and> r_taskId r = r_taskId (fr_run fr))
        (\<lambda>r. r\<lparr>r_status := outcome_status oc, r_error := outcome_error oc, r_completedAt := Some now,
              r_leaseOwner := None, r_leaseExpiresAt := None\<rparr>)) (\<lambda>n. if n \<noteq> 1 then tx_return None else
       tx_bind (attempt_updateMany (open_attempt (fr_lease fr))
         (\<lambda>a. a\<lparr>a_status := outcome_attempt oc, a_error := outcome_error oc, a_finishedAt := Some now\<rparr>)) (\<lambda>attempt.
       if attempt \<noteq> 1 then tx_throw (Thrown ''Active run attempt was not available to finalize'')
       else
       tx_bind (task_updateMany now (\<lambda>t. t_id t = r_taskId (fr_run fr) \<and> t_workspaceId t = li_workspaceId (fr_lease fr)
           \<and> t_threadId t = li_threadId (fr_lease fr) \<and> t_botId t = li_botId (fr_lease fr))
         (\<lambda>t. t\<lparr>t_status := outcome_status oc\<rparr>)) (\<lambda>task.
       if task \<noteq> 1 then tx_throw (Thrown ''Run task was not available to finalize'')
       else
       tx_bind (finalize_history now mid e1 e2 (fr_lease fr) oc) (\<lambda>lastEvent.
       tx_bind (event_deleteMany (run_progress (li_runId (fr_lease fr)))) (\<lambda>_.
       tx_bind (bot_update now (\<lambda>b. b_id b = li_botId (fr_lease fr)) (\<lambda>b. b)) (\<lambda>_.
       tx_return (Some (e_threadId lastEvent, e_seq lastEvent)))))))) s = Inr (v, s')"
      using fin mine_can_write [OF m]
      by (simp add: finalizeRun_tx_def tx_bind_run tx_catch_def assertRun_run)
    have h: "tx_rel (fair (sn_handle (fr_input fr))) (finalize_history now mid e1 e2 (fr_lease fr) oc)"
      unfolding finalize_history_def by (cases oc; simp; intro fair_rules)
    show ?thesis
      by (rule leaving_tx [OF run m, where q = "\<lambda>r. r_taskId r = r_taskId (fr_run fr)"])
        (simp add: outcome_status_def split: outcome.split | intro fair_rules h | auto simp: tx_bind_Inr split: if_splits)+
  qed
  show ?thesis
    unfolding leaves_def finalize_def finalizeRun_def
    by (simp add: wp_bind [of "prog_gets _"] wp_gets) (intro allI impI committed_leaves f; assumption)
qed

section \<open>The session\<close>

definition fair_frame :: "frame \<Rightarrow> bool" where
  "fair_frame fr \<longleftrightarrow> (\<forall>i. fair_env (sn_handle (fr_input fr)) (sp_env (fr_params fr) i))"

lemma fair_others [fair_rules]:
  "fair_frame fr \<Longrightarrow> prog_rel (fair (sn_handle (fr_input fr))) (others fr i)"
  unfolding others_def fair_frame_def by (intro fair_rules) blast

lemma fair_checkpoint [fair_rules]:
  "fair_frame fr \<Longrightarrow> prog_rel (fair (sn_handle (fr_input fr))) (checkpoint fr i now)"
  unfolding checkpoint_def checkpointAndRecordComputerWorkspace_def fair_frame_def by (intro fair_rules) blast

lemma fair_writing [fair_rules]:
  "prog_rel (fair h) (publishMessage p now run rl blocks)" "prog_rel (fair h) (append_run_event fr now ty payload)"
  "prog_rel (fair h) (flushProgress fr lo)" "prog_rel (fair h) (on_text fr text lo)"
  "prog_rel (fair h) (on_usage fr now i out cost text model w)" "prog_rel (fair h) (enqueue_compaction fr)"
  unfolding publishMessage_def persistMessageInTransaction_def append_run_event_def flushProgress_def
    on_text_def on_usage_def enqueue_compaction_def Let_def
  by (intro fair_rules)+

lemma fair_chat [fair_rules]:
  assumes "fair_frame fr"
  shows "prog_rel (fair (sn_handle (fr_input fr))) (on_progress fr text lo)"
    "prog_rel (fair (sn_handle (fr_input fr))) (on_subagent fr b lo)"
  unfolding on_progress_def on_subagent_def Let_def by (intro fair_rules assms)+

text \<open>
  What a handler leaves behind: when it goes on, or an error is on its way to the handler of the
  session, the worker still has its run; when the session returns, it is rid of it.
\<close>

definition flows :: "frame \<Rightarrow> db_error + flow \<Rightarrow> db \<Rightarrow> bool" where
  "flows fr r s \<longleftrightarrow> (case r of Inr (Stop _) \<Rightarrow> rid (sn_handle (fr_input fr)) s | _ \<Rightarrow> mine fr s)"

lemma flows_simps [simp]:
  "flows fr (Inl e) s = mine fr s" "flows fr (Inr Go) s = mine fr s" "flows fr (Inr (Fail e' c)) s = mine fr s"
  "flows fr (Inr (Stop b)) s = rid (sn_handle (fr_input fr)) s"
  by (simp_all add: flows_def)

lemma wp_fair:
  assumes "prog_rel (fair (sn_handle (fr_input fr))) m" and "mine fr s" and "\<And>r s'. mine fr s' \<Longrightarrow> Q r s'"
  shows "wp m Q s"
  using assms mine_fair by (blast intro: wp_rel)

lemma wp_fair_rid:
  assumes "prog_rel (fair h) m" and "rid h s" and "\<And>r s'. rid h s' \<Longrightarrow> Q r s'"
  shows "wp m Q s"
  using assms rid_fair by (blast intro: wp_rel)

lemma wp_step:
  assumes "prog_rel (fair (sn_handle (fr_input fr))) m" and "mine fr s"
    and "\<And>e s'. mine fr s' \<Longrightarrow> Q (Inl e) s'" and "\<And>a s'. mine fr s' \<Longrightarrow> wp (f a) Q s'"
  shows "wp (prog_bind m f) Q s"
  unfolding wp_bind by (rule wp_fair [OF assms(1,2)]) (simp add: after_def assms(3,4) split: sum.split)

lemma wp_renew:
  assumes "mine fr s" and "\<And>s'. mine fr s' \<Longrightarrow> wp (f True) Q s'"
  shows "wp (prog_bind (prog_tx (renewRunLease now (sn_handle (fr_input fr)))) f) Q s"
proof -
  obtain s' where "renewRunLease now (sn_handle (fr_input fr)) s = Inr (True, s')" "mine fr s'"
    using renew_mine [OF assms(1)] by blast
  with assms(2) show ?thesis by (simp add: wp_bind wp_tx)
qed

lemma wp_leave:
  assumes "leaves fr m" and "mine fr s" and "\<And>e s'. mine fr s' \<Longrightarrow> Q (Inl e) s'"
    and "\<And>s'. rid (sn_handle (fr_input fr)) s' \<Longrightarrow> wp (f True) Q s'"
  shows "wp (prog_bind m f) Q s"
  unfolding wp_bind
  by (rule wp_mono [OF assms(1) [unfolded leaves_def, rule_format, OF assms(2)]])
    (auto simp: after_def assms(3,4) split: sum.splits)

lemma after_checkpoint_flows:
  "wp m (flows fr) s \<Longrightarrow> wp (fails_after_checkpoint m) (flows fr) s"
  unfolding fails_after_checkpoint_def wp_catch
  by (erule wp_mono) (auto simp: wp_return split: sum.splits)

lemma on_ask_flows:
  assumes f: "fair_frame fr" and m: "mine fr s"
  shows "wp (on_ask fr text detail lo) (flows fr) s"
  unfolding on_ask_def
  by (rule wp_renew [OF m], simp only: not_True_eq_False if_False,
      (rule wp_step [where fr = fr], intro fair_rules f, assumption, simp)+,
      rule wp_leave [OF pause_leaves(1)], assumption, simp, simp add: wp_return)

lemma fair_seats [fair_rules]:
  "tx_rel (fair h) (holdComputerExecutionLeaseForTakeover now l)" "tx_rel (fair h) (releaseComputerExecutionLease l)"
  unfolding holdComputerExecutionLeaseForTakeover_def releaseComputerExecutionLease_def by (intro fair_rules)+

lemma on_takeover_flows:
  assumes f: "fair_frame fr" and m: "mine fr s"
  shows "wp (on_takeover fr text lo) (flows fr) s"
  unfolding on_takeover_def Let_def
  by (rule wp_renew [OF m], simp only: not_True_eq_False if_False,
      (rule wp_step [where fr = fr], intro fair_rules f, assumption, simp)+,
      simp only: wp_if wp_throw flows_simps split: if_split, intro conjI impI, rule TrueI,
      rule wp_step [where fr = fr], intro fair_rules f, assumption, simp,
      rule wp_leave [OF pause_leaves(2)], assumption, simp, simp add: wp_return)

lemma on_stuck_flows:
  assumes f: "fair_frame fr" and m: "mine fr s"
  shows "wp (on_stuck fr name lo) (flows fr) s"
  unfolding on_stuck_def Let_def
  by (rule wp_step [where fr = fr, OF _ m], intro fair_rules, simp,
      rule wp_renew, assumption, simp only: not_True_eq_False if_False,
      ((rule wp_step [where fr = fr], intro fair_rules f, assumption, simp)+)?,
      rule after_checkpoint_flows, rule wp_step [where fr = fr], intro fair_rules f, assumption, simp,
      rule wp_leave [OF finalize_leaves], assumption, simp, simp add: wp_return)

text \<open>Programs that also return the variables.\<close>

definition flows2 :: "frame \<Rightarrow> db_error + flow \<times> local \<Rightarrow> db \<Rightarrow> bool" where
  "flows2 fr r = flows fr (map_sum id fst r)"

lemma flows2_simps [simp]:
  "flows2 fr (Inl e) s = mine fr s" "flows2 fr (Inr (fl, lo)) s = flows fr (Inr fl) s"
  by (simp_all add: flows2_def)

lemma wp_flows2: "wp m (flows fr) s \<Longrightarrow> wp (prog_bind m (\<lambda>fl. prog_return (fl, lo))) (flows2 fr) s"
  unfolding wp_bind by (erule wp_mono) (auto simp: after_def wp_return split: sum.splits)

lemma fair_flows2:
  assumes "prog_rel (fair (sn_handle (fr_input fr))) m" and "mine fr s"
  shows "wp (prog_bind m (\<lambda>v. prog_return (Go, g v))) (flows2 fr) s"
  by (rule wp_step [where fr = fr, OF assms]) (simp_all add: wp_return)

lemma on_tool_flows:
  assumes f: "fair_frame fr" and m: "mine fr s"
  shows "wp (on_tool fr name args e lo) (flows2 fr) s"
  unfolding on_tool_def Let_def
  by (rule wp_step [where fr = fr, OF _ m], intro fair_rules, simp,
      (rule wp_step [where fr = fr], intro fair_rules f, assumption, simp)+,
      auto simp: wp_return intro!: wp_step [where fr = fr] wp_flows2 fair_rules f on_stuck_flows)

lemma on_event_flows:
  assumes f: "fair_frame fr" and m: "mine fr s"
  shows "wp (on_event fr event lo) (flows2 fr) s"
proof (cases event)
  case (EvSubagent b)
  have "prog_rel (fair (sn_handle (fr_input fr))) (on_subagent fr b lo)" by (intro fair_rules f)
  from fair_flows2 [OF this m, of "\<lambda>_. lo"] show ?thesis by (simp add: on_event_def EvSubagent)
next
  case (EvUsage i out cost prov model w)
  have "prog_rel (fair (sn_handle (fr_input fr))) (on_usage fr (lo_now lo) i out cost prov model w)" by (intro fair_rules)
  from fair_flows2 [OF this m, of "\<lambda>_. lo"] show ?thesis by (simp add: on_event_def EvUsage)
next
  case (EvText t)
  have "prog_rel (fair (sn_handle (fr_input fr))) (on_text fr t lo)" by (intro fair_rules)
  from fair_flows2 [OF this m, of "\<lambda>lo. lo"] show ?thesis by (simp add: on_event_def EvText)
next
  case (EvProgress t)
  have "prog_rel (fair (sn_handle (fr_input fr))) (on_progress fr t lo)" by (intro fair_rules f)
  from fair_flows2 [OF this m, of "\<lambda>lo. lo"] show ?thesis by (simp add: on_event_def EvProgress)
qed (use m in \<open>simp_all add: on_event_def wp_return wp_flows2 on_ask_flows on_takeover_flows on_tool_flows f\<close>)

section \<open>The whole stream\<close>

text \<open>No tool has paused the run and the heartbeat has not failed.\<close>

definition sound :: "local \<Rightarrow> bool" where
  "sound lo \<longleftrightarrow> \<not> lo_paused lo \<and> lo_leaseValid lo"

definition quiet_step :: "run_handle \<Rightarrow> session_step \<Rightarrow> bool" where
  "quiet_step h st \<longleftrightarrow> (case st of ToolPaused \<Rightarrow> False | HeartbeatLost \<Rightarrow> False | Others env \<Rightarrow> fair_env h env | _ \<Rightarrow> True)"

lemma tryFlush_sound [simp]: "sound (tryFlushPendingTools lo) = sound lo"
  by (simp add: sound_def tryFlushPendingTools_def flushPendingTools_def)

lemma sound_updates [simp]:
  "sound (lo\<lparr>lo_progress := p\<rparr>) = sound lo" "sound (lo\<lparr>lo_buffer := b\<rparr>) = sound lo"
  "sound (lo\<lparr>lo_streak := k\<rparr>) = sound lo" "sound (lo\<lparr>lo_tools := ts\<rparr>) = sound lo"
  "sound (lo\<lparr>lo_segment := t\<rparr>) = sound lo" "sound (lo\<lparr>lo_assembled := t\<rparr>) = sound lo"
  "sound (lo\<lparr>lo_streamed := c\<rparr>) = sound lo" "sound (lo\<lparr>lo_lastProgressAt := n\<rparr>) = sound lo"
  "sound (lo\<lparr>lo_now := n\<rparr>) = sound lo" "sound (lo\<lparr>lo_replays := rs\<rparr>) = sound lo"
  "sound (lo\<lparr>lo_secrets := ss\<rparr>) = sound lo" "sound (lo\<lparr>lo_values := ss\<rparr>) = sound lo"
  "sound (lo\<lparr>lo_lastLeaseCheckAt := n\<rparr>) = sound lo"
  by (simp_all add: sound_def)

lemma take_sound [simp]:
  "sound (take_text t lo) = sound lo" "sound (take_tool n lo) = sound lo" "sound (take_done d lo) = sound lo"
  "sound (learn_secret p lo) = sound lo"
  by (simp_all add: take_text_def take_tool_def take_done_def learn_secret_def Let_def)

lemma flushProgress_sound: "flushProgress fr lo s = (Inr lo', s') \<Longrightarrow> sound lo' = sound lo"
  by (auto simp: flushProgress_def prog_bind_Inr split: if_splits)

lemma on_event_sound: "on_event fr event lo s = (Inr (fl, lo'), s') \<Longrightarrow> sound lo' = sound lo"
  by (cases event)
    (auto simp: on_event_def prog_bind_Inr on_text_def on_progress_def on_tool_def Let_def
      dest!: flushProgress_sound split: if_splits)

definition streams :: "frame \<Rightarrow> db_error + flow \<times> local \<Rightarrow> db \<Rightarrow> bool" where
  "streams fr r s \<longleftrightarrow> flows2 fr r s \<and> (\<forall>fl lo. r = Inr (fl, lo) \<longrightarrow> sound lo)"

lemma streams_simps [simp]:
  "streams fr (Inl e) s = mine fr s" "streams fr (Inr (fl, lo)) s = (flows fr (Inr fl) s \<and> sound lo)"
  by (auto simp: streams_def)

lemma wp_conjI: "wp m Q s \<Longrightarrow> (\<And>r s'. m s = (r, s') \<Longrightarrow> P r s') \<Longrightarrow> wp m (\<lambda>r s'. Q r s' \<and> P r s') s"
  by (simp add: wp_def split: prod.splits)

lemma mine_still: "mine fr s \<Longrightarrow> still_mine fr s"
  by (auto simp: mine_def still_mine_def run_row_def holds_lease_def fr_lease_def Let_def)

lemma agent_step_streams:
  assumes f: "fair_frame fr" and m: "mine fr s" and l: "sound lo"
  shows "wp (agent_step fr event lo) (streams fr) s"
proof -
  obtain lo1 where b: "before_event fr lo s = (Inr (True, lo1), s)" and l1: "sound lo1"
    using l mine_still [OF m]
    by (cases "lo_now lo - lo_lastLeaseCheckAt lo \<ge> 1000") (auto simp: before_event_def sound_def prog_bind_run)
  have step: "wp (prog_catch (on_event fr event lo1) (\<lambda>error. prog_return (Fail error False, lo1))) (streams fr) s1"
    if "mine fr s1" for s1
  proof -
    have "wp (on_event fr event lo1) (\<lambda>r s'. flows2 fr r s' \<and> (\<forall>fl lo'. r = Inr (fl, lo') \<longrightarrow> sound lo')) s1"
      by (rule wp_conjI [OF on_event_flows [OF f that]]) (use on_event_sound l1 in blast)
    then show ?thesis unfolding wp_catch
      by (rule wp_mono) (auto simp: wp_return streams_def l1 split: sum.split)
  qed
  have "wp (prog_bind (others fr 18) (\<lambda>_. prog_catch (on_event fr event lo1)
      (\<lambda>error. prog_return (Fail error False, lo1)))) (streams fr) s"
    by (rule wp_step [where fr = fr, OF fair_others [OF f] m]) (simp_all add: streams_def step)
  then show ?thesis by (simp add: agent_step_def wp_def prog_bind_run b)
qed

lemma session_loop_streams:
  assumes "fair_frame fr"
  shows "mine fr s \<Longrightarrow> sound lo \<Longrightarrow> \<forall>st \<in> set steps. quiet_step (sn_handle (fr_input fr)) st \<Longrightarrow>
    wp (session_loop fr steps lo) (streams fr) s"
proof (induction steps arbitrary: lo s)
  case Nil
  then show ?case by (simp add: wp_def streams_def)
next
  case (Cons st steps)
  show ?case
  proof (cases st)
    case (Agent event)
    have "wp (agent_step fr event lo) (after (streams fr) (\<lambda>v. wp (case v of (fl, lo1) \<Rightarrow>
        if fl = Go then session_loop fr steps lo1 else prog_return (fl, lo1)) (streams fr))) s"
    proof (rule wp_mono [OF agent_step_streams [OF assms Cons.prems(1,2)]])
      fix r s' assume q: "streams fr r s'"
      show "after (streams fr) (\<lambda>v. wp (case v of (fl, lo1) \<Rightarrow>
          if fl = Go then session_loop fr steps lo1 else prog_return (fl, lo1)) (streams fr)) r s'"
        using q Cons.IH Cons.prems(3) by (auto simp: after_def wp_return split: sum.split)
    qed
    then show ?thesis by (simp add: Agent wp_bind)
  next
    case (Others env)
    then have e: "prog_rel (fair (sn_handle (fr_input fr))) (prog_env env)"
      using Cons.prems(3) by (intro fair_rules) (simp add: quiet_step_def)
    have "wp (prog_bind (prog_env env) (\<lambda>_. session_loop fr steps lo)) (streams fr) s"
      by (rule wp_step [where fr = fr, OF e Cons.prems(1)]) (use Cons in simp_all)
    then show ?thesis by (simp add: Others)
  qed (use Cons in \<open>simp_all add: quiet_step_def\<close>)
qed

lemma enqueue_compaction_run: "enqueue_compaction fr s = (Inr (), snd (enqueue_compaction fr s))"
  unfolding enqueue_compaction_def by (subst ignore_error_run) (simp only: ignore_error_run snd_conv)

lemma complete_run_flows:
  assumes f: "fair_frame fr" and m: "mine fr s"
  shows "wp (complete_run fr lo) (flows fr) s"
proof -
  let ?h = "sn_handle (fr_input fr)"
  have over: "wp (prog_bind (others fr 22) (\<lambda>_. prog_bind (enqueue_compaction fr) (\<lambda>_. prog_return (Stop False))))
      (flows fr) s1" if r1: "rid ?h s1" for s1
  proof -
    obtain s2 where o: "others fr 22 s1 = (Inr (), s2)" by (simp add: others_def)
    obtain s3 where c: "enqueue_compaction fr s2 = (Inr (), s3)" using enqueue_compaction_run by blast
    have "rid ?h s2" using prog_relD [OF fair_others [OF f] o] r1 by (rule rid_fair)
    with prog_relD [OF fair_writing(6) c] have "rid ?h s3" by (rule rid_fair)
    then show ?thesis by (simp add: wp_def prog_bind_run o c)
  qed
  have save: "wp (prog_bind (others fr 21) (\<lambda>_. prog_bind (finalize fr now oc) (\<lambda>completed.
      if \<not> completed then prog_return (Stop False)
      else prog_bind (others fr 22) (\<lambda>_. prog_bind (enqueue_compaction fr) (\<lambda>_. prog_return (Stop False))))))
      (flows fr) s1" if "mine fr s1" for s1 now oc
    by (rule wp_step [where fr = fr, OF fair_others [OF f] that], simp,
        rule wp_leave [OF finalize_leaves], assumption, simp, simp only: not_True_eq_False if_False, rule over, assumption)
  show ?thesis
    unfolding complete_run_def Let_def
    using m by (simp only: wp_if wp_throw split: if_split)
      (intro conjI impI, simp, rule wp_renew [OF m], simp only: not_True_eq_False if_False, rule save)
qed

lemma finish_stream_flows:
  assumes f: "fair_frame fr" and m: "mine fr s" and l: "sound lo"
  shows "wp (finish_stream fr lo) (flows fr) s"
proof -
  have "wp (prog_bind (prog_lift (assertDrained (lo_replays lo))) (\<lambda>_.
        prog_bind (flushProgress fr lo0) (\<lambda>lo1.
        prog_bind (others fr 19) (\<lambda>_.
        prog_bind (checkpoint fr 20 (lo_now lo1)) (\<lambda>_.
        fails_after_checkpoint (complete_run fr lo1)))))) (flows fr) s" for lo0
    by (rule wp_step [where fr = fr, OF _ m], intro fair_rules, simp,
        ((rule wp_step [where fr = fr], intro fair_rules f, assumption, simp)+)?,
        rule after_checkpoint_flows, rule complete_run_flows [OF f], assumption)
  then show ?thesis using l by (simp add: finish_stream_def sound_def Let_def)
qed

lemma complete_run_ends: "complete_run fr lo s = (Inr fl, s') \<Longrightarrow> fl \<noteq> Go"
  by (auto simp: complete_run_def Let_def prog_bind_Inr split: if_splits)

lemma after_checkpoint_ends:
  assumes "fails_after_checkpoint m s = (Inr fl, s')" and "\<And>fl s'. m s = (Inr fl, s') \<Longrightarrow> fl \<noteq> Go"
  shows "fl \<noteq> Go"
proof (cases "m s")
  case (Pair r t)
  with assms show ?thesis by (cases r) (auto simp: fails_after_checkpoint_def prog_catch_def)
qed

lemma finish_stream_ends: "finish_stream fr lo s = (Inr fl, s') \<Longrightarrow> fl \<noteq> Go"
  by (auto simp: finish_stream_def Let_def prog_bind_Inr split: if_splits
      dest: after_checkpoint_ends [OF _ complete_run_ends])

definition ends :: "frame \<Rightarrow> db_error + bool \<Rightarrow> db \<Rightarrow> bool" where
  "ends fr r s \<longleftrightarrow> (case r of Inl _ \<Rightarrow> mine fr s | Inr _ \<Rightarrow> rid (sn_handle (fr_input fr)) s)"

lemma ends_simps [simp]: "ends fr (Inl e) s = mine fr s" "ends fr (Inr b) s = rid (sn_handle (fr_input fr)) s"
  by (simp_all add: ends_def)

lemma fail_run_ends:
  assumes f: "fair_frame fr" and m: "mine fr s"
  shows "wp (prog_bind (fail_run fr lo error c) (\<lambda>_. prog_return False)) (ends fr) s"
proof -
  have "wp (fail_run fr lo error c) (\<lambda>r s'. case r of Inl _ \<Rightarrow> mine fr s' | Inr b \<Rightarrow> b \<and> rid (sn_handle (fr_input fr)) s') s"
    unfolding fail_run_def
    by (rule wp_step [where fr = fr, OF _ m], intro fair_rules f, simp,
        rule wp_step [where fr = fr], intro fair_rules f, assumption, simp,
        rule finalize_leaves [unfolded leaves_def, rule_format], assumption)
  then show ?thesis unfolding wp_bind
    by (rule wp_mono) (auto simp: after_def wp_return split: sum.splits)
qed

lemma talk_ends:
  assumes f: "fair_frame fr" and m: "mine fr s" and l: "sound lo"
    and q: "\<forall>st \<in> set (sp_steps (fr_params fr)). quiet_step (sn_handle (fr_input fr)) st"
  shows "wp (talk fr lo) (ends fr) s"
proof -
  have stream: "wp (run_stream fr lo) (\<lambda>r s'. flows2 fr r s' \<and> (\<forall>fl lo'. r = Inr (fl, lo') \<longrightarrow> fl \<noteq> Go)) s"
    unfolding run_stream_def wp_bind
  proof (rule wp_mono [OF session_loop_streams [OF f m l q]])
    fix r s1 assume r: "streams fr r s1"
    have fin: "wp (prog_catch (prog_bind (finish_stream fr lo1) (\<lambda>fl. prog_return (fl, lo1)))
        (\<lambda>error. prog_return (Fail error False, lo1)))
        (\<lambda>r s'. flows2 fr r s' \<and> (\<forall>fl lo'. r = Inr (fl, lo') \<longrightarrow> fl \<noteq> Go)) s1"
      if "mine fr s1" "sound lo1" for lo1
      using finish_stream_flows [OF f that] finish_stream_ends [of fr lo1 s1]
      by (cases "finish_stream fr lo1 s1"; cases "fst (finish_stream fr lo1 s1)")
        (auto simp: wp_def prog_catch_def prog_bind_run)
    show "after (\<lambda>r s'. flows2 fr r s' \<and> (\<forall>fl lo'. r = Inr (fl, lo') \<longrightarrow> fl \<noteq> Go))
        (\<lambda>v. wp (case v of (fl, lo1) \<Rightarrow> if fl \<noteq> Go then prog_return (fl, lo1)
          else (case sp_crash (fr_params fr) of
              Some error \<Rightarrow> prog_return (Fail error False, lo1)
            | None \<Rightarrow> prog_catch (prog_bind (finish_stream fr lo1) (\<lambda>fl. prog_return (fl, lo1)))
                (\<lambda>error. prog_return (Fail error False, lo1))))
          (\<lambda>r s'. flows2 fr r s' \<and> (\<forall>fl lo'. r = Inr (fl, lo') \<longrightarrow> fl \<noteq> Go))) r s1"
      using r fin by (cases r) (auto simp: wp_return split: option.split)
  qed
  show ?thesis
    unfolding talk_def wp_bind
  proof (rule wp_mono [OF stream])
    fix r s1 assume r: "flows2 fr r s1 \<and> (\<forall>fl lo'. r = Inr (fl, lo') \<longrightarrow> fl \<noteq> Go)"
    show "after (ends fr) (\<lambda>v. wp (case v of (fl, lo1) \<Rightarrow> case fl of Go \<Rightarrow> prog_return False
        | Stop retain \<Rightarrow> prog_return retain
        | Fail error checkpointed \<Rightarrow> prog_bind (fail_run fr lo1 error checkpointed) (\<lambda>_. prog_return False)) (ends fr)) r s1"
      using r fail_run_ends [OF f] by (cases r) (auto simp: wp_return split: flow.split)
  qed
qed

section \<open>From the attempt to the end of the session\<close>

text \<open>The worker holds the run it read before its claim.\<close>

definition fits :: "session_input \<Rightarrow> db \<Rightarrow> bool" where
  "fits sn s \<longleftrightarrow> run_ids_distinct s \<and> (\<exists>r. run_row (rh_runId (sn_handle sn)) s = Some r \<and>
     works Running (sn_handle sn) r \<and> run_key r = run_key (sn_run sn) \<and> r_workspaceId r = r_workspaceId (sn_run sn))"

lemma fits_fair: "fair (sn_handle sn) s s' \<Longrightarrow> fits sn s \<Longrightarrow> fits sn s'"
  unfolding fits_def fair_def by metis

lemma fits_held: "fits sn s \<Longrightarrow> run_ids_distinct s \<and> run_held (sn_handle sn) s"
  by (auto simp: fits_def intro: run_row_held)

lemma mine_held_distinct: "mine fr s \<Longrightarrow> run_ids_distinct s \<and> run_held (sn_handle (fr_input fr)) s"
  using mine_held by (auto simp: mine_def)

definition fair_params :: "run_handle \<Rightarrow> session_params \<Rightarrow> bool" where
  "fair_params h p \<longleftrightarrow> (\<forall>i. fair_env h (sp_env p i)) \<and> (\<forall>i j. fair_env h (sp_boot_env p i j)) \<and>
     (\<forall>st \<in> set (sp_steps p). quiet_step h st)"

definition fair_worker :: "run_handle \<Rightarrow> worker \<Rightarrow> bool" where
  "fair_worker h w \<longleftrightarrow> (\<forall>i. fair_env h (wk_env w i))"

lemma prepare_session_fair:
  assumes "fair_params (sn_handle sn) p"
  shows "prog_rel (fair (sn_handle sn)) (prepare_session p sn)"
  using assms unfolding prepare_session_def service_def record_model_def fair_params_def Let_def
  by (intro fair_rules fair_provision) (auto simp: works_def run_key_def)

lemma prepare_session_rows:
  "prepare_session p sn s = (Inr fr, s') \<Longrightarrow> fr_params fr = p \<and> fr_input fr = sn \<and>
     th_id (fr_thread fr) = r_threadId (sn_run sn) \<and> b_id (fr_bot fr) = r_botId (sn_run sn)"
  by (auto simp: prepare_session_def session_rows_def Let_def prog_bind_Inr
      dest!: find_SomeD split: option.splits prod.splits)

lemma fits_mine:
  assumes "fits sn s" and "fr_input fr = sn" and "th_id (fr_thread fr) = r_threadId (sn_run sn)"
    and "b_id (fr_bot fr) = r_botId (sn_run sn)"
  shows "mine fr s"
  using assms by (auto simp: fits_def mine_def holds_lease_def fr_lease_def fr_run_def works_def run_key_def Let_def)

lemma converse_ends:
  assumes p: "fair_params (sn_handle (fr_input fr)) (fr_params fr)" and m: "mine fr s"
  shows "wp (converse fr) (ends fr) s"
proof -
  have f: "fair_frame fr" and q: "\<forall>st \<in> set (sp_steps (fr_params fr)). quiet_step (sn_handle (fr_input fr)) st"
    using p by (simp_all add: fair_params_def fair_frame_def)
  have e: "fair_env (sn_handle (fr_input fr)) (sp_env (fr_params fr) i)" for i
    using p by (simp add: fair_params_def)
  have t: "wp (talk fr (initial_local (fr_params fr) replays)) (ends fr) s1" if "mine fr s1" for replays s1
    by (rule talk_ends [OF f that _ q]) (simp add: sound_def initial_local_def)
  show ?thesis
    unfolding converse_def Let_def service_def
    apply (rule wp_step [where fr = fr, OF _ m], intro fair_rules e, simp)
    apply (rule wp_step [where fr = fr], intro fair_rules e, assumption, simp)+
    apply (erule t)
    done
qed

lemma agent_session_ends:
  assumes p: "fair_params (sn_handle sn) p" and m: "fits sn s" and run: "agent_session p sn s = (en, s')"
  shows "if se_error en = None then rid (sn_handle sn) s'
    else run_ids_distinct s' \<and> run_held (sn_handle sn) s'"
proof -
  obtain q s1 where q: "prepare_session p sn s = (q, s1)" by fastforce
  have f1: "fits sn s1" using prog_relD [OF prepare_session_fair [OF p] q] m by (rule fits_fair)
  show ?thesis
  proof (cases q)
    case (Inl e)
    with run q fits_held [OF f1] show ?thesis by (auto simp: agent_session_def)
  next
    case (Inr fr)
    with q have fr: "fr_params fr = p" "fr_input fr = sn" "th_id (fr_thread fr) = r_threadId (sn_run sn)"
        "b_id (fr_bot fr) = r_botId (sn_run sn)" using prepare_session_rows by blast+
    obtain v s2 where v: "converse fr s1 = (v, s2)" by fastforce
    have "ends fr v s2"
      using converse_ends [OF _ fits_mine [OF f1 fr(2-4)]] p v by (simp add: fr wp_def)
    then show ?thesis using run q Inr v mine_held_distinct [of fr s2] fr(2)
      by (cases v) (auto simp: agent_session_def)
  qed
qed

lemma fair_held:
  assumes "fair h s s'" and "run_ids_distinct s" and "run_held h s"
  shows "run_ids_distinct s' \<and> run_held h s'"
proof -
  obtain r where "r \<in> set (db_runs s)" "works Running h r" using assms(3) by (auto simp: run_held_def)
  moreover from this have "run_row (rh_runId h) s = Some r"
    using run_table.find_by_key [of "db_runs s" r] assms(2) by (simp add: run_row_def run_ids_distinct_def works_def)
  ultimately show ?thesis using assms(1,2) unfolding fair_def by (blast intro: run_row_held)
qed

lemma requeue_rids:
  assumes d: "run_ids_distinct s" and h: "run_held h s"
  obtains s' where "requeue_tx now h c e s = Inr (1, s')" and "rid h s'"
proof -
  let ?f = "\<lambda>r. (computerRunRequeueData c e r)\<lparr>r_updatedAt := now\<rparr>"
  let ?s = "db_runs_update (updateMany (works Running h) ?f) s"
  have "requeue_tx now h c e s = Inr (1, ?s)"
    using works_count_one [OF d, of Running h] h by (simp add: requeue_tx_def run_held_def del: countMany_0)
  moreover have "run_ids_distinct ?s" using d by (simp add: run_ids_update computerRunRequeueData_def)
  moreover have "\<not> run_held h ?s"
    by (auto simp: run_held_def set_updateMany works_def computerRunRequeueData_def split: if_splits)
  ultimately show thesis by (intro that) (simp_all add: rid_def)
qed

lemma clean_up_fair:
  assumes "fair_worker h w"
  shows "prog_rel (fair h) (clean_up sb w en lease attempt)"
  using assms unfolding clean_up_def release_computer_def interrupt_attempt_def fair_worker_def
  by (intro fair_rules) auto

lemma setup_failed_rids:
  assumes w: "fair_worker h w" and d: "run_ids_distinct s" and h: "run_held h s"
    and run: "setup_failed w h attempt c error s = (r, s')"
  shows "rid h s'"
proof -
  obtain s1 where s1: "requeue_tx (wk_clock w 20) h c (if error = ComputerBusyError then None else Some SETUP_FAILED) s
      = Inr (1, s1)" "rid h s1"
    using requeue_rids [OF d h] by blast
  have "prog_rel (fair h) (prog_bind (prog_env (wk_env w 21)) (\<lambda>_.
       prog_bind (prog_tx (update_one db_attempts db_attempts_update (\<lambda>a. a_id a = attempt)
         (\<lambda>a. a\<lparr>a_status := AttSetupFailed, a_error := Some SETUP_FAILED,
                a_finishedAt := Some (wk_clock w 21)\<rparr>))) (\<lambda>_.
       prog_bind (prog_env (wk_env w 22)) (\<lambda>_.
       if error = ComputerBusyError
       then enqueue (wk_down w) (delayed_continue (rh_runId h) (wk_clock w 22 + computerRetryDelay (rh_fence h)))
       else prog_throw (Thrown SETUP_FAILED)))))"
    using w unfolding fair_worker_def by (intro fair_rules) auto
  from prog_relD [OF this] run have "fair h s1 s'"
    by (simp add: setup_failed_def prog_bind_run [of "prog_tx _"] prog_tx_run s1(1))
  then show ?thesis using s1(2) by (rule rid_fair)
qed

lemma end_session_rids:
  assumes w: "fair_worker (sn_handle sn) w"
    and en: "if se_error en = None then rid (sn_handle sn) s else run_ids_distinct s \<and> run_held (sn_handle sn) s"
    and run: "end_session sb w sn en s = (r, s')"
  shows "rid (sn_handle sn) s'"
proof -
  obtain v s1 q where m: "(case se_error en of None \<Rightarrow> prog_return ()
        | Some error \<Rightarrow> setup_failed w (sn_handle sn) (sn_attempt sn) (resume_checkpoint_of (sn_run sn)) error) s = (v, s1)"
    and c: "clean_up sb w en (sn_lease sn) (sn_attempt sn) s1 = (q, s')"
    using finally_run [OF run [unfolded end_session_def]] by blast
  have "rid (sn_handle sn) s1"
    using m en setup_failed_rids [OF w] by (cases "se_error en") auto
  with prog_relD [OF clean_up_fair [OF w] c] show ?thesis by (rule rid_fair)
qed


text \<open>The sample conversation ends with the answer, and the run is finished.\<close>

definition sample_night :: "(db_error + unit) \<times> db" where
  "sample_night = open_session sample_sandbox (sample_worker ''w1'' 10) (agent_session sample_params)
     (sample_session\<lparr>sn_attempt := ''a2''\<rparr>) sample_busy"


end
