(* ===== verification/Cron.thy ===== *)
theory Cron
  imports Contracts
begin

text \<open>
  The schedules of routines (packages/core/src/cron.ts): the presets the editor shows, how they
  become a cron expression and are read back, and the next run of a list of schedules. The
  parser and the calendar of the croner package, and the time zones the platform knows, are the
  parameter \<open>cron_lib\<close>.
\<close>

section \<open>Fields\<close>

text \<open>\<open>s.split(/\s+/)\<close>.\<close>

function split_space :: "string \<Rightarrow> string list" where
  "split_space s =
     (let r = dropWhile (\<lambda>c. \<not> js_space c) s; w = takeWhile (\<lambda>c. \<not> js_space c) s
      in if r = [] then [w] else w # split_space (dropWhile js_space r))"
  by pat_completeness auto

termination split_space
proof (relation "measure length")
  fix s :: string and r w
  assume "r = dropWhile (\<lambda>c. \<not> js_space c) s" and "r \<noteq> []"
  then have "length r \<le> length s" and "js_space (hd r)"
    using hd_dropWhile [of "\<lambda>c. \<not> js_space c" s] by (auto simp: length_dropWhile_le)
  moreover from this(2) \<open>r \<noteq> []\<close> have "length (dropWhile js_space r) < length r"
    by (cases r) (auto simp: le_imp_less_Suc length_dropWhile_le)
  ultimately show "(dropWhile js_space r, s) \<in> measure length" by simp
qed simp

declare split_space.simps [simp del]

section \<open>One-time schedules\<close>

definition ONCE_ROUTINE_CRON :: string where
  "ONCE_ROUTINE_CRON = ''@once''"

definition isOneShotRoutineCron :: "string \<Rightarrow> bool" where
  "isOneShotRoutineCron cron \<longleftrightarrow> js_trim cron = ONCE_ROUTINE_CRON"

definition isOneShotRoutineCrons :: "string list \<Rightarrow> bool" where
  "isOneShotRoutineCrons crons \<longleftrightarrow> length crons = 1 \<and> isOneShotRoutineCron (hd crons)"

definition hasMixedOneShotSchedule :: "string list \<Rightarrow> bool" where
  "hasMixedOneShotSchedule crons \<longleftrightarrow> length crons > 1 \<and> list_ex isOneShotRoutineCron crons"

section \<open>Presets\<close>

datatype cron_freq = EveryHour | EveryDay | Weekdays | EveryWeek | EveryMonth | Interval | Advanced
datatype cron_unit = Minutes | Hours | Days

record cron_preset =
  cp_freq :: cron_freq
  cp_n :: int
  cp_unit :: cron_unit
  cp_time :: string
  cp_cron :: string

text \<open>\<open>ci_n\<close> is \<open>None\<close> for a number that is missing or not finite.\<close>

record cron_preset_input =
  ci_freq :: cron_freq
  ci_n :: "int option"
  ci_unit :: "cron_unit option"
  ci_time :: "string option"
  ci_cron :: "string option"

definition defaultCronPreset :: cron_preset where
  "defaultCronPreset = \<lparr>cp_freq = EveryDay, cp_n = 3, cp_unit = Minutes, cp_time = ''9:00 AM'', cp_cron = []\<rparr>"

text \<open>\<open>/am/i.test(time)\<close>: the two letters next to each other, in either case.\<close>

fun has_pair :: "char \<Rightarrow> char \<Rightarrow> string \<Rightarrow> bool" where
  "has_pair a b (c # d # s) \<longleftrightarrow> (js_lower_char c = a \<and> js_lower_char d = b) \<or> has_pair a b (d # s)"
| "has_pair a b _ \<longleftrightarrow> False"

text \<open>
  \<open>parseClock\<close> on clocks whose hour and minute are whole numbers; what it does with others is
  not modelled.
\<close>

definition parseClock :: "string \<Rightarrow> (int \<times> int) option" where
  "parseClock time =
     (let parts = js_split CHR '':'' time;
          rest = (if length parts > 1 then parts ! 1 else ''00'')
      in case (js_int (js_Number (hd parts)), js_int (js_Number (take 2 rest))) of
           (Some h0, Some minute) \<Rightarrow>
             let h1 = (if has_pair CHR ''p'' CHR ''m'' time \<and> h0 < 12 then h0 + 12 else h0);
                 hour = (if has_pair CHR ''a'' CHR ''m'' time \<and> h1 = 12 then 0 else h1)
             in Some (hour, minute)
         | _ \<Rightarrow> None)"

definition padStart2 :: "string \<Rightarrow> string" where
  "padStart2 s = replicate (2 - length s) CHR ''0'' @ s"

definition formatClock :: "nat \<Rightarrow> nat \<Rightarrow> string" where
  "formatClock hour minute =
     (let period = (if hour \<ge> 12 then ''PM'' else ''AM'');
          h12 = (if hour mod 12 = 0 then 12 else hour mod 12)
      in nat_string h12 @ '':'' @ padStart2 (nat_string minute) @ '' '' @ period)"

definition isInt :: "string \<Rightarrow> bool" where
  "isInt expr \<longleftrightarrow> expr \<noteq> [] \<and> list_all is_digit expr"

definition stepValue :: "string \<Rightarrow> nat option" where
  "stepValue expr =
     (if take 2 expr = ''*/'' \<and> isInt (drop 2 expr)
      then (let n = digits_val (drop 2 expr) in if n > 0 then Some n else None)
      else None)"

definition WEEKDAYS :: string where
  "WEEKDAYS = ''1-5''"

definition cronFromPreset :: "cron_preset_input \<Rightarrow> string option" where
  "cronFromPreset input =
     (let advancedCron = map_option js_trim (ci_cron input) in
      if ci_freq input = Advanced
      then Some (if truthy advancedCron \<and> isOneShotRoutineCron (the advancedCron) then ONCE_ROUTINE_CRON
                 else if truthy advancedCron then the advancedCron else ''*/3 * * * *'')
      else if ci_freq input = EveryHour then Some ''0 * * * *''
      else if ci_freq input = Interval
      then (let n = (case ci_n input of Some k \<Rightarrow> if k > 0 then k else 5 | None \<Rightarrow> 5) in
            if ci_unit input = Some Days then Some (''0 0 */'' @ int_string n @ '' * *'')
            else if ci_unit input = Some Hours then Some (''0 */'' @ int_string n @ '' * * *'')
            else Some (''*/'' @ int_string n @ '' * * * *''))
      else case parseClock (case ci_time input of None \<Rightarrow> ''9:00 AM'' | Some t \<Rightarrow> t) of
          None \<Rightarrow> None
        | Some (hour, minute) \<Rightarrow>
            let at = int_string minute @ '' '' @ int_string hour in
            Some (if ci_freq input = Weekdays then at @ '' * * '' @ WEEKDAYS
                  else if ci_freq input = EveryWeek then at @ '' * * 1''
                  else if ci_freq input = EveryMonth then at @ '' 1 * *''
                  else at @ '' * * *''))"

text \<open>The numerals of an expression are read exactly, as doubles are up to \<open>2^53\<close>.\<close>

definition presetFromCron :: "string \<Rightarrow> cron_preset" where
  "presetFromCron cron =
     (let base = defaultCronPreset; trimmed = js_trim cron; parts = split_space trimmed;
          advanced = base\<lparr>cp_freq := Advanced, cp_cron := trimmed\<rparr> in
      if isOneShotRoutineCron trimmed then base\<lparr>cp_freq := Advanced, cp_cron := ONCE_ROUTINE_CRON\<rparr>
      else if length parts < 5 then advanced
      else
        let minute = parts ! 0; hour = parts ! 1; day = parts ! 2; month = parts ! 3; dow = parts ! 4 in
        if month \<noteq> ''*'' then advanced
        else if minute = ''0'' \<and> hour = ''*'' \<and> day = ''*'' \<and> dow = ''*'' then base\<lparr>cp_freq := EveryHour\<rparr>
        else if stepValue minute \<noteq> None \<and> hour = ''*'' \<and> day = ''*'' \<and> dow = ''*''
        then base\<lparr>cp_freq := Interval, cp_n := int (the (stepValue minute)), cp_unit := Minutes\<rparr>
        else if minute = ''0'' \<and> stepValue hour \<noteq> None \<and> day = ''*'' \<and> dow = ''*''
        then base\<lparr>cp_freq := Interval, cp_n := int (the (stepValue hour)), cp_unit := Hours\<rparr>
        else if minute = ''0'' \<and> hour = ''0'' \<and> stepValue day \<noteq> None \<and> dow = ''*''
        then base\<lparr>cp_freq := Interval, cp_n := int (the (stepValue day)), cp_unit := Days\<rparr>
        else if \<not> isInt minute \<or> \<not> isInt hour then advanced
        else
          let timed = base\<lparr>cp_time := formatClock (digits_val hour) (digits_val minute)\<rparr> in
          if day = ''*'' \<and> dow = WEEKDAYS then timed\<lparr>cp_freq := Weekdays\<rparr>
          else if day = ''*'' \<and> dow = ''1'' then timed\<lparr>cp_freq := EveryWeek\<rparr>
          else if day = ''1'' \<and> dow = ''*'' then timed\<lparr>cp_freq := EveryMonth\<rparr>
          else if day = ''*'' \<and> dow = ''*'' then timed\<lparr>cp_freq := EveryDay\<rparr>
          else advanced)"

definition unit_string :: "cron_unit \<Rightarrow> string" where
  "unit_string u = (case u of Minutes \<Rightarrow> ''minutes'' | Hours \<Rightarrow> ''hours'' | Days \<Rightarrow> ''days'')"

definition describeCronPreset :: "cron_preset \<Rightarrow> string \<times> string" where
  "describeCronPreset p = (case cp_freq p of
       Interval \<Rightarrow> (''Every'', int_string (cp_n p) @ '' '' @ unit_string (cp_unit p))
     | EveryHour \<Rightarrow> (''Every hour'', [])
     | Advanced \<Rightarrow> (''Cron'', if cp_cron p \<noteq> [] then cp_cron p else ''*/3 * * * *'')
     | Weekdays \<Rightarrow> (''Weekdays'', ''at '' @ cp_time p)
     | EveryWeek \<Rightarrow> (''Every Monday'', ''at '' @ cp_time p)
     | EveryMonth \<Rightarrow> (''Monthly'', ''on the 1st at '' @ cp_time p)
     | EveryDay \<Rightarrow> (''Every day'', ''at '' @ cp_time p))"

definition formatSchedule :: "cron_preset \<Rightarrow> string" where
  "formatSchedule p = (let d = describeCronPreset p in
     js_join '' '' (filter (\<lambda>x. x \<noteq> []) [fst d, snd d]))"

definition formatCron :: "string \<Rightarrow> string" where
  "formatCron cron =
     (if isOneShotRoutineCron cron then ''One-time'' else formatSchedule (presetFromCron cron))"

section \<open>The next run\<close>

datatype cron_error = OneShotError | FiveFieldsError | ParseError string | NoFutureRun string

text \<open>
  The library: \<open>cl_next cron timezone from\<close> is the run after \<open>from\<close>, if there is one, or the
  error of the parser; \<open>cl_timezone\<close> tells which names \<open>Intl.DateTimeFormat\<close> accepts.
\<close>

record cron_lib =
  cl_next :: "string \<Rightarrow> string \<Rightarrow> int \<Rightarrow> string + int option"
  cl_timezone :: "string \<Rightarrow> bool"

definition validTimezoneOrUtc :: "cron_lib \<Rightarrow> string \<Rightarrow> string" where
  "validTimezoneOrUtc lib timezone = (if cl_timezone lib timezone then timezone else ''UTC'')"

definition nextCronDate :: "cron_lib \<Rightarrow> string \<Rightarrow> int \<Rightarrow> string \<Rightarrow> cron_error + int" where
  "nextCronDate lib cron start timezone =
     (if isOneShotRoutineCron cron then Inl OneShotError
      else if length (split_space (js_trim cron)) \<noteq> 5 then Inl FiveFieldsError
      else (case cl_next lib cron (validTimezoneOrUtc lib timezone) start of
          Inl e \<Rightarrow> Inl (ParseError e)
        | Inr None \<Rightarrow> Inl (NoFutureRun cron)
        | Inr (Some next) \<Rightarrow> Inr next))"

definition resolveRoutineNextRunAt ::
  "cron_lib \<Rightarrow> string \<Rightarrow> int \<Rightarrow> string \<Rightarrow> int option \<Rightarrow> cron_error + int option" where
  "resolveRoutineNextRunAt lib cron start timezone existing =
     (if isOneShotRoutineCron cron then Inr existing
      else map_sum id Some (nextCronDate lib cron start timezone))"

definition sooner :: "int option \<Rightarrow> int \<Rightarrow> int option" where
  "sooner earliest next = (case earliest of
     None \<Rightarrow> Some next | Some e \<Rightarrow> if next < e then Some next else Some e)"

fun across_loop :: "cron_lib \<Rightarrow> int \<Rightarrow> string \<Rightarrow> int option \<Rightarrow> string list \<Rightarrow> int option" where
  "across_loop lib start timezone earliest [] = earliest"
| "across_loop lib start timezone earliest (cron # crons) =
     (if isOneShotRoutineCron cron then across_loop lib start timezone earliest crons
      else case nextCronDate lib cron start timezone of
          Inl _ \<Rightarrow> across_loop lib start timezone earliest crons
        | Inr next \<Rightarrow> across_loop lib start timezone (sooner earliest next) crons)"

definition nextCronDateAcross :: "cron_lib \<Rightarrow> string list \<Rightarrow> int \<Rightarrow> string \<Rightarrow> int option" where
  "nextCronDateAcross lib crons start timezone = across_loop lib start timezone None crons"

fun strict_loop :: "cron_lib \<Rightarrow> int \<Rightarrow> string \<Rightarrow> int option \<Rightarrow> string list \<Rightarrow> cron_error + int option" where
  "strict_loop lib start timezone earliest [] = Inr earliest"
| "strict_loop lib start timezone earliest (cron # crons) =
     (if isOneShotRoutineCron cron then strict_loop lib start timezone earliest crons
      else case nextCronDate lib cron start timezone of
          Inl e \<Rightarrow> Inl e
        | Inr next \<Rightarrow> strict_loop lib start timezone (sooner earliest next) crons)"

definition nextCronDateAcrossStrict ::
  "cron_lib \<Rightarrow> string list \<Rightarrow> int \<Rightarrow> string \<Rightarrow> cron_error + int option" where
  "nextCronDateAcrossStrict lib crons start timezone = strict_loop lib start timezone None crons"

section \<open>Fields of an expression\<close>

definition word :: "string \<Rightarrow> bool" where
  "word w \<longleftrightarrow> w \<noteq> [] \<and> list_all (\<lambda>c. \<not> js_space c) w"

lemma split_space_word: "word w \<Longrightarrow> split_space w = [w]"
  by (subst split_space.simps) (simp add: word_def list_all_iff)

lemma split_space_cons:
  assumes "word w" and "r = [] \<or> \<not> js_space (hd r)"
  shows "split_space (w @ CHR '' '' # r) = w # split_space r"
proof -
  have s: "js_space (CHR '' '')" by code_simp
  have "takeWhile (\<lambda>c. \<not> js_space c) (w @ CHR '' '' # r) = w" "dropWhile (\<lambda>c. \<not> js_space c) (w @ CHR '' '' # r) = CHR '' '' # r"
    using assms(1) s by (simp_all add: word_def list_all_iff takeWhile_append dropWhile_append)
  then show ?thesis using assms(2) s
    by (subst split_space.simps) (simp add: Let_def dropWhile_id)
qed

lemma word_hd: "word w \<Longrightarrow> \<not> js_space (hd (w @ r))"
  by (cases w) (auto simp: word_def)

definition fields :: "string list \<Rightarrow> string" where
  "fields ws = js_join '' '' ws"

lemma split_fields: "list_all word ws \<Longrightarrow> ws \<noteq> [] \<Longrightarrow> split_space (fields ws) = ws"
proof (induction ws rule: induct_list012)
  case (3 x y zs)
  have "fields (y # zs) = y @ drop (length y) (fields (y # zs))" by (cases zs) (simp_all add: fields_def)
  moreover have "word y" using 3 by simp
  ultimately have "\<not> js_space (hd (fields (y # zs)))" by (metis word_hd)
  with 3 show ?case by (simp add: fields_def split_space_cons)
qed (simp_all add: fields_def split_space_word)

lemma trim_fields:
  assumes "list_all word ws"
  shows "js_trim (fields ws) = fields ws"
proof (cases "ws = []")
  case False
  have "fields ws \<noteq> [] \<and> \<not> js_space (hd (fields ws)) \<and> \<not> js_space (last (fields ws))"
    using False assms
  proof (induction ws rule: induct_list012)
    case (3 x y zs)
    then show ?case using word_hd [of x] by (auto simp: fields_def word_def)
  qed (auto simp: fields_def word_def list_all_iff)
  then show ?thesis by (simp add: js_trim_id)
qed (simp add: fields_def js_trim_def js_trimStart_def js_trimEnd_def)

lemma word_simps [simp]: "word ''*''" "word ''0''" "word ''1''" "word ''1-5''"
  by code_simp+

lemma digits_word: "isInt w \<Longrightarrow> word w"
  by (auto simp: isInt_def word_def list_all_iff is_digit_not_space)

lemma nat_isInt [simp]: "isInt (nat_string n)"
  using nat_string_digits by (simp add: isInt_def list_all_iff)

lemma word_nat [simp]: "word (nat_string n)"
  by (rule digits_word) simp

lemma word_step: "word w \<Longrightarrow> word (CHR ''*'' # CHR ''/'' # w)"
proof -
  have "\<not> js_space (CHR ''*'')" "\<not> js_space (CHR ''/'')" by code_simp+
  then show "word w \<Longrightarrow> word (CHR ''*'' # CHR ''/'' # w)" by (simp add: word_def)
qed

lemma step_nat [simp]: "n > 0 \<Longrightarrow> stepValue (CHR ''*'' # CHR ''/'' # nat_string n) = Some n"
  by (simp add: stepValue_def)

lemma isInt_hd: "isInt w \<Longrightarrow> is_digit (hd w)"
  by (cases w) (simp_all add: isInt_def)

lemma isInt_no_step: "isInt w \<Longrightarrow> stepValue w = None"
  by (cases w) (auto simp: stepValue_def isInt_def is_digit_def split: if_splits)

lemma isInt_not_star [simp]: "\<not> isInt ''*''" "\<not> isInt (CHR ''*'' # w)"
  by (auto simp: isInt_def is_digit_def)

lemma int_string_nat [simp]: "int_string (int n) = nat_string n"
  by (simp add: int_string_def)

section \<open>Clocks\<close>


lemma has_pair_skip:
  "list_all (\<lambda>c. js_lower_char c \<noteq> a) ds \<Longrightarrow> has_pair a b (ds @ s) = has_pair a b s"
proof (induction ds)
  case (Cons d ds)
  then show ?case by (cases "ds @ s") auto
qed simp

lemma digit_lower: "is_digit c \<Longrightarrow> js_lower_char c = c"
  by (auto simp: js_lower_char_def is_digit_def Let_def)

lemma digits_no_letter:
  "list_all is_digit ds \<Longrightarrow> list_all (\<lambda>c. js_lower_char c \<noteq> CHR ''p'' \<and> js_lower_char c \<noteq> CHR ''a'') ds"
  by (auto simp: list_all_iff digit_lower) (auto simp: is_digit_def)

lemma nat_string_2: "n < 100 \<Longrightarrow> length (nat_string n) \<le> 2"
  using less_mult_imp_div_less [of n 10 10] by (subst nat_string.simps, subst nat_string.simps) simp

lemma not_digit: "list_all is_digit ds \<Longrightarrow> \<not> is_digit c \<Longrightarrow> c \<notin> set ds"
  by (auto simp: list_all_iff)

lemma pad_digits: "list_all is_digit (padStart2 (nat_string m))"
  using nat_string_digits [of m] by (auto simp: padStart2_def list_all_iff is_digit_def)

lemma digits_val_zeros: "digits_val (replicate k CHR ''0'' @ s) = digits_val s"
  by (induction k) (simp_all add: digits_val_def digit_val_def)

lemma parse_format:
  assumes "h < 24" and "m < 60"
  shows "parseClock (formatClock h m) = Some (int h, int m)"
proof -
  let ?H = "nat_string (if h mod 12 = 0 then 12 else h mod 12)" and ?M = "padStart2 (nat_string m)"
  let ?P = "if h \<ge> 12 then ''PM'' else ''AM''"
  have d: "list_all is_digit ?H" "list_all is_digit ?M" using nat_string_digits pad_digits by (auto simp: list_all_iff)
  have n: "\<not> is_digit CHR '':''" by code_simp
  have c: "CHR '':'' \<notin> set ?H" "CHR '':'' \<notin> set (?M @ '' '' @ ?P)"
    using not_digit [OF d(1) n] not_digit [OF d(2) n] by simp_all
  have f: "formatClock h m = ?H @ CHR '':'' # ?M @ '' '' @ ?P" by (simp add: formatClock_def Let_def)
  have s: "js_split CHR '':'' (formatClock h m) = [?H, ?M @ '' '' @ ?P]"
    unfolding f using js_split_append_sep [OF c(1)] js_split_id [OF c(2)] by simp
  have l: "length ?M = 2" using nat_string_2 [of m] assms(2) by (simp add: padStart2_def)
  have M: "js_int (js_Number (take 2 (?M @ '' '' @ ?P))) = Some (int m)"
    using d(2) l by (simp add: js_Number_digits list_all_iff js_int_def padStart2_def digits_val_zeros)
  have p: "has_pair CHR ''p'' CHR ''m'' (formatClock h m) \<longleftrightarrow> h \<ge> 12"
    "has_pair CHR ''a'' CHR ''m'' (formatClock h m) \<longleftrightarrow> h < 12"
  proof -
    have colon: "js_lower_char CHR '':'' \<noteq> CHR ''p''" "js_lower_char CHR '':'' \<noteq> CHR ''a''" by code_simp+
    have q: "list_all (\<lambda>c. js_lower_char c \<noteq> CHR ''p'' \<and> js_lower_char c \<noteq> CHR ''a'') (?H @ CHR '':'' # ?M)"
      using digits_no_letter [OF d(1)] digits_no_letter [OF d(2)] colon by (simp add: conj_commute)
    have g: "formatClock h m = (?H @ CHR '':'' # ?M) @ '' '' @ ?P" by (simp add: f)
    have r: "has_pair CHR ''p'' CHR ''m'' (formatClock h m) = has_pair CHR ''p'' CHR ''m'' ('' '' @ ?P)"
      "has_pair CHR ''a'' CHR ''m'' (formatClock h m) = has_pair CHR ''a'' CHR ''m'' ('' '' @ ?P)"
      unfolding g by (rule has_pair_skip, rule list.pred_mono_strong [OF q], simp)+
    have "has_pair CHR ''p'' CHR ''m'' '' PM''" "\<not> has_pair CHR ''p'' CHR ''m'' '' AM''"
      "has_pair CHR ''a'' CHR ''m'' '' AM''" "\<not> has_pair CHR ''a'' CHR ''m'' '' PM''" by code_simp+
    then show "has_pair CHR ''p'' CHR ''m'' (formatClock h m) \<longleftrightarrow> h \<ge> 12"
      "has_pair CHR ''a'' CHR ''m'' (formatClock h m) \<longleftrightarrow> h < 12"
      unfolding r by (cases "h \<ge> 12"; simp del: has_pair.simps)+
  qed
  obtain R where R: "js_split CHR '':'' (formatClock h m) = [?H, R]" "js_int (js_Number (take 2 R)) = Some (int m)"
    using s M by blast
  then have a: "parseClock (formatClock h m) =
      Some (if h \<ge> 12 then (if h mod 12 = 0 then 12 else if h mod 12 < 12 then int (h mod 12) + 12 else int (h mod 12))
        else if h mod 12 = 0 then 0 else int (h mod 12), int m)"
    using p assms(1) by (simp add: parseClock_def Let_def)
  have b: "(if h \<ge> 12 then (if h mod 12 = 0 then 12 else if h mod 12 < 12 then int (h mod 12) + 12 else int (h mod 12))
        else if h mod 12 = 0 then 0 else int (h mod 12)) = int h"
  proof (cases "h < 12")
    case False
    then obtain e where e: "h = 12 + e" by (metis le_Suc_ex not_less)
    then have l: "e < 12" using assms(1) by simp
    have m: "h mod 12 = e" unfolding e using l by (metis mod_add_self1 mod_less)
    show ?thesis unfolding m unfolding e using l by simp
  next
    case True
    then have m: "h mod 12 = h" by (rule mod_less)
    show ?thesis unfolding m using True by simp
  qed
  show ?thesis unfolding a b ..
qed

section \<open>The editor of a routine\<close>

definition input_of :: "cron_preset \<Rightarrow> cron_preset_input" where
  "input_of p = \<lparr>ci_freq = cp_freq p, ci_n = Some (cp_n p), ci_unit = Some (cp_unit p),
     ci_time = Some (cp_time p), ci_cron = Some (cp_cron p)\<rparr>"

text \<open>A preset as the editor shows it: the controls that its frequency does not use are at their defaults.\<close>

definition shown :: "cron_preset \<Rightarrow> bool" where
  "shown p \<longleftrightarrow> (let b = defaultCronPreset in case cp_freq p of
       EveryHour \<Rightarrow> p = b\<lparr>cp_freq := EveryHour\<rparr>
     | Interval \<Rightarrow> cp_n p > 0 \<and> p = b\<lparr>cp_freq := Interval, cp_n := cp_n p, cp_unit := cp_unit p\<rparr>
     | Advanced \<Rightarrow> cp_cron p \<noteq> [] \<and> p = presetFromCron (cp_cron p)
     | f \<Rightarrow> (\<exists>h < 24. \<exists>m < 60. p = b\<lparr>cp_freq := f, cp_time := formatClock h m\<rparr>))"

text \<open>What the fields of an expression with no month say.\<close>

definition read_fields :: "string \<Rightarrow> string list \<Rightarrow> cron_preset" where
  "read_fields text ws =
     (let base = defaultCronPreset; minute = ws ! 0; hour = ws ! 1; day = ws ! 2; dow = ws ! 4;
          advanced = base\<lparr>cp_freq := Advanced, cp_cron := text\<rparr> in
        if minute = ''0'' \<and> hour = ''*'' \<and> day = ''*'' \<and> dow = ''*'' then base\<lparr>cp_freq := EveryHour\<rparr>
        else if stepValue minute \<noteq> None \<and> hour = ''*'' \<and> day = ''*'' \<and> dow = ''*''
        then base\<lparr>cp_freq := Interval, cp_n := int (the (stepValue minute)), cp_unit := Minutes\<rparr>
        else if minute = ''0'' \<and> stepValue hour \<noteq> None \<and> day = ''*'' \<and> dow = ''*''
        then base\<lparr>cp_freq := Interval, cp_n := int (the (stepValue hour)), cp_unit := Hours\<rparr>
        else if minute = ''0'' \<and> hour = ''0'' \<and> stepValue day \<noteq> None \<and> dow = ''*''
        then base\<lparr>cp_freq := Interval, cp_n := int (the (stepValue day)), cp_unit := Days\<rparr>
        else if \<not> isInt minute \<or> \<not> isInt hour then advanced
        else
          let timed = base\<lparr>cp_time := formatClock (digits_val hour) (digits_val minute)\<rparr> in
          if day = ''*'' \<and> dow = WEEKDAYS then timed\<lparr>cp_freq := Weekdays\<rparr>
          else if day = ''*'' \<and> dow = ''1'' then timed\<lparr>cp_freq := EveryWeek\<rparr>
          else if day = ''1'' \<and> dow = ''*'' then timed\<lparr>cp_freq := EveryMonth\<rparr>
          else if day = ''*'' \<and> dow = ''*'' then timed\<lparr>cp_freq := EveryDay\<rparr>
          else advanced)"

lemma preset_parts:
  assumes s: "split_space (js_trim c) = ws" and "length ws = 5" and "ws ! 3 = ''*''"
  shows "presetFromCron c = read_fields (js_trim c) ws"
proof -
  have "split_space ''@once'' = [''@once'']" by code_simp
  then have "js_trim c \<noteq> ONCE_ROUTINE_CRON" using s assms(2)
    by (metis ONCE_ROUTINE_CRON_def length_Cons list.size(3) numeral_eq_one_iff One_nat_def semiring_norm(86))
  moreover have "js_trim ONCE_ROUTINE_CRON = ONCE_ROUTINE_CRON" by code_simp
  ultimately have o: "\<not> isOneShotRoutineCron (js_trim c)"
    using js_trim_idem [of c] by (simp add: isOneShotRoutineCron_def)
  show ?thesis
    unfolding presetFromCron_def read_fields_def Let_def s by (simp only: o assms(2,3) if_False) simp
qed

lemma preset_fields:
  assumes "list_all word ws" and "length ws = 5" and "ws ! 3 = ''*''"
  shows "presetFromCron (fields ws) = read_fields (fields ws) ws"
proof -
  have "js_trim (fields ws) = fields ws" "split_space (fields ws) = ws"
    using assms(1,2) by (auto intro!: trim_fields split_fields)
  then show ?thesis using preset_parts [of "fields ws" ws] assms(2,3) by simp
qed

lemma timed_preset:
  assumes "list_all word [day, dow]" and "h < 24" and "m < 60"
  shows "presetFromCron (fields [nat_string m, nat_string h, day, ''*'', dow]) =
     (let base = defaultCronPreset; timed = base\<lparr>cp_time := formatClock h m\<rparr> in
      if m = 0 \<and> h = 0 \<and> stepValue day \<noteq> None \<and> dow = ''*''
      then base\<lparr>cp_freq := Interval, cp_n := int (the (stepValue day)), cp_unit := Days\<rparr>
      else if day = ''*'' \<and> dow = WEEKDAYS then timed\<lparr>cp_freq := Weekdays\<rparr>
      else if day = ''*'' \<and> dow = ''1'' then timed\<lparr>cp_freq := EveryWeek\<rparr>
      else if day = ''1'' \<and> dow = ''*'' then timed\<lparr>cp_freq := EveryMonth\<rparr>
      else if day = ''*'' \<and> dow = ''*'' then timed\<lparr>cp_freq := EveryDay\<rparr>
      else base\<lparr>cp_freq := Advanced, cp_cron := fields [nat_string m, nat_string h, day, ''*'', dow]\<rparr>)"
proof -
  have z: "nat_string n = ''0'' \<longleftrightarrow> n = 0" for n
  proof -
    have "nat_string 0 = ''0''" by code_simp
    then show ?thesis using nat_string_inj [of n 0] by simp
  qed
  have n: "nat_string k \<noteq> ''*''" "stepValue (nat_string k) = None" for k
    using isInt_no_step [of "nat_string k"] nat_isInt [of k] isInt_not_star(1) by metis+
  show ?thesis
    using assms(1) by (subst preset_fields) (simp_all add: read_fields_def z n Let_def)
qed

lemma advanced_keeps:
  assumes "cp_freq (presetFromCron c) = Advanced"
  shows "cp_cron (presetFromCron c) =
    (if isOneShotRoutineCron (js_trim c) then ONCE_ROUTINE_CRON else js_trim c)"
proof (cases "isOneShotRoutineCron (js_trim c)")
  case True
  then show ?thesis by (simp add: presetFromCron_def Let_def)
next
  case False
  have either: "P x \<Longrightarrow> P y \<Longrightarrow> P (if b then x else y)" for P :: "cron_preset \<Rightarrow> bool" and x y b by simp
  let ?P = "\<lambda>p. cp_freq p = Advanced \<longrightarrow> cp_cron p = js_trim c"
  have "?P (presetFromCron c)"
    unfolding presetFromCron_def Let_def if_not_P [OF False]
    by (rule either [where P = ?P], simp)+ simp
  then show ?thesis using assms False by simp
qed

definition timed_freq :: "string \<Rightarrow> string \<Rightarrow> cron_freq" where
  "timed_freq day dow = (if day = ''*'' \<and> dow = WEEKDAYS then Weekdays else if day = ''*'' \<and> dow = ''1'' then EveryWeek
     else if day = ''1'' \<and> dow = ''*'' then EveryMonth else EveryDay)"

lemma timed_shown:
  assumes "\<exists>h < 24. \<exists>m < 60. p = defaultCronPreset\<lparr>cp_freq := cp_freq p, cp_time := formatClock h m\<rparr>"
    and "cronFromPreset (input_of p) = Some cron" and "cp_freq p = timed_freq day dow"
    and "(day, dow) \<in> {(''*'', ''*''), (''*'', WEEKDAYS), (''*'', ''1''), (''1'', ''*'')}"
  shows "presetFromCron cron = p"
proof -
  obtain h m where hm: "h < 24" "m < 60" and p: "p = defaultCronPreset\<lparr>cp_freq := cp_freq p, cp_time := formatClock h m\<rparr>"
    using assms(1) by blast
  have t: "parseClock (cp_time p) = Some (int h, int m)" using parse_format [OF hm] by (subst p) simp
  have d: "WEEKDAYS \<noteq> ''*''" "WEEKDAYS \<noteq> ''1''" by (simp_all add: WEEKDAYS_def)
  have z: "stepValue ''*'' = None" "stepValue ''1'' = None" by code_simp+
  have "cron = fields [nat_string m, nat_string h, day, ''*'', dow]"
    using assms(2-4) d t
    by (auto simp: cronFromPreset_def input_of_def timed_freq_def fields_def Let_def)
  moreover have "list_all word [day, dow]" using assms(4) by (auto simp: WEEKDAYS_def)
  ultimately show ?thesis using assms(3,4) d z
    by (subst p) (auto simp: timed_preset hm timed_freq_def Let_def)
qed

lemma shown_read_back:
  assumes "shown p" and "cronFromPreset (input_of p) = Some cron"
  shows "presetFromCron cron = p"
proof -
  have step: "word (CHR ''*'' # CHR ''/'' # nat_string k)" for k by (rule word_step) simp
  have z: "stepValue ''0'' = None" by code_simp
  show ?thesis
  proof (cases "cp_freq p")
    case EveryHour
    moreover have "''0 * * * *'' = fields [''0'', ''*'', ''*'', ''*'', ''*'']" by code_simp
    moreover have "cron = ''0 * * * *''" using assms(2) EveryHour by (simp add: cronFromPreset_def input_of_def)
    ultimately show ?thesis using assms(1)
      by (simp add: shown_def preset_fields read_fields_def Let_def)
  next
    case Interval
    then have n: "cp_n p > 0" and p: "p = defaultCronPreset\<lparr>cp_freq := Interval, cp_n := cp_n p, cp_unit := cp_unit p\<rparr>"
      using assms(1) by (simp_all add: shown_def)
    then obtain k where k: "cp_n p = int k" "k > 0" by (metis zero_less_imp_eq_int)
    let ?s = "CHR ''*'' # CHR ''/'' # nat_string k"
    have "cron = fields (case cp_unit p of Minutes \<Rightarrow> [?s, ''*'', ''*'', ''*'', ''*'']
        | Hours \<Rightarrow> [''0'', ?s, ''*'', ''*'', ''*''] | Days \<Rightarrow> [''0'', ''0'', ?s, ''*'', ''*''])"
      using assms(2) Interval k by (cases "cp_unit p") (simp_all add: cronFromPreset_def input_of_def fields_def)
    then show ?thesis using k step
      by (subst p) (cases "cp_unit p"; simp add: preset_fields read_fields_def z defaultCronPreset_def)
  next
    case Advanced
    then have c: "cp_cron p \<noteq> []" "p = presetFromCron (cp_cron p)" using assms(1) by (simp_all add: shown_def)
    then have a: "cp_cron p = (if isOneShotRoutineCron (js_trim (cp_cron p)) then ONCE_ROUTINE_CRON else js_trim (cp_cron p))"
      using advanced_keeps [of "cp_cron p"] Advanced by simp
    have "js_trim ONCE_ROUTINE_CRON = ONCE_ROUTINE_CRON" by code_simp
    then have "js_trim (cp_cron p) = cp_cron p" using a by (metis isOneShotRoutineCron_def)
    then show ?thesis using assms(2) Advanced c a
      by (auto simp: cronFromPreset_def input_of_def truthy_def isOneShotRoutineCron_def split: if_splits)
  next
    case EveryDay
    with assms show ?thesis by (intro timed_shown [where day = "''*''" and dow = "''*''"]) (auto simp: shown_def timed_freq_def WEEKDAYS_def)
  next
    case Weekdays
    with assms show ?thesis by (intro timed_shown [where day = "''*''" and dow = WEEKDAYS]) (auto simp: shown_def timed_freq_def WEEKDAYS_def)
  next
    case EveryWeek
    with assms show ?thesis by (intro timed_shown [where day = "''*''" and dow = "''1''"]) (auto simp: shown_def timed_freq_def WEEKDAYS_def)
  next
    case EveryMonth
    with assms show ?thesis by (intro timed_shown [where day = "''1''" and dow = "''*''"]) (auto simp: shown_def timed_freq_def WEEKDAYS_def)
  qed
qed

text \<open>Two fields mean the same when they differ in leading zeros only.\<close>

definition field_value :: "string \<Rightarrow> string" where
  "field_value w = (if isInt w then nat_string (digits_val w)
     else case stepValue w of Some n \<Rightarrow> ''*/'' @ nat_string n | None \<Rightarrow> w)"

definition clock_fields :: "string list \<Rightarrow> bool" where
  "clock_fields ws \<longleftrightarrow> length ws = 5 \<and> (isInt (ws ! 0) \<longrightarrow> digits_val (ws ! 0) < 60) \<and>
     (isInt (ws ! 1) \<longrightarrow> digits_val (ws ! 1) < 24)"

lemma field_value_simps [simp]:
  "field_value (nat_string n) = nat_string n"
  "n > 0 \<Longrightarrow> field_value (CHR ''*'' # CHR ''/'' # nat_string n) = CHR ''*'' # CHR ''/'' # nat_string n"
  by (simp_all add: field_value_def)

lemma field_value_int: "isInt w \<Longrightarrow> field_value w = nat_string (digits_val w)"
  by (simp add: field_value_def)

lemma field_value_step:
  assumes "stepValue w = Some n"
  shows "field_value w = CHR ''*'' # CHR ''/'' # nat_string n \<and> n > 0"
proof -
  have "\<not> isInt w" using assms isInt_no_step by fastforce
  then show ?thesis using assms by (auto simp: field_value_def stepValue_def Let_def split: if_splits)
qed

lemma list_5: "length ws = 5 \<Longrightarrow> ws = [ws ! 0, ws ! 1, ws ! 2, ws ! 3, ws ! 4]"
  by (auto simp: numeral_eq_Suc length_Suc_conv)

text \<open>What saving makes of the fields.\<close>

definition keeps :: "string list \<Rightarrow> cron_preset \<Rightarrow> bool" where
  "keeps ws p \<longleftrightarrow> (\<exists>cs. cronFromPreset (input_of p) = Some (fields cs) \<and> list_all word cs \<and> cs \<noteq> [] \<and>
     map field_value cs = map field_value ws)"

lemma keeps_timed:
  assumes "ws = [w0, w1, day, ''*'', dow]" and "isInt w0" "isInt w1" and "digits_val w0 < 60" "digits_val w1 < 24"
    and "(day, dow) \<in> {(''*'', ''*''), (''*'', WEEKDAYS), (''*'', ''1''), (''1'', ''*'')}"
  shows "keeps ws (defaultCronPreset\<lparr>cp_time := formatClock (digits_val w1) (digits_val w0),
     cp_freq := timed_freq day dow\<rparr>)"
proof -
  have d: "WEEKDAYS \<noteq> ''*''" "WEEKDAYS \<noteq> ''1''" by (simp_all add: WEEKDAYS_def)
  let ?cs = "[nat_string (digits_val w0), nat_string (digits_val w1), day, ''*'', dow]"
  have "cronFromPreset (input_of (defaultCronPreset\<lparr>cp_time := formatClock (digits_val w1) (digits_val w0),
     cp_freq := timed_freq day dow\<rparr>)) = Some (fields ?cs)"
    using assms(6) d parse_format [OF assms(5,4)]
    by (auto simp: cronFromPreset_def input_of_def timed_freq_def fields_def Let_def)
  moreover have "list_all word ?cs" using assms(6) by (auto simp: WEEKDAYS_def)
  moreover have "map field_value ?cs = map field_value ws"
    using assms(1-3) by (simp add: field_value_int)
  ultimately show ?thesis unfolding keeps_def by blast
qed

lemma keeps_interval:
  assumes "stepValue w = Some n" and "ws = (case u of Minutes \<Rightarrow> [w, ''*'', ''*'', ''*'', ''*'']
        | Hours \<Rightarrow> [''0'', w, ''*'', ''*'', ''*''] | Days \<Rightarrow> [''0'', ''0'', w, ''*'', ''*''])"
  shows "keeps ws (defaultCronPreset\<lparr>cp_freq := Interval, cp_n := int n, cp_unit := u\<rparr>)"
proof -
  let ?s = "CHR ''*'' # CHR ''/'' # nat_string n"
  let ?cs = "case u of Minutes \<Rightarrow> [?s, ''*'', ''*'', ''*'', ''*'']
        | Hours \<Rightarrow> [''0'', ?s, ''*'', ''*'', ''*''] | Days \<Rightarrow> [''0'', ''0'', ?s, ''*'', ''*'']"
  have n: "n > 0" "field_value w = ?s" using field_value_step [OF assms(1)] by simp_all
  have "cronFromPreset (input_of (defaultCronPreset\<lparr>cp_freq := Interval, cp_n := int n, cp_unit := u\<rparr>)) = Some (fields ?cs)"
    using n by (cases u) (simp_all add: cronFromPreset_def input_of_def fields_def)
  moreover have "list_all word ?cs" "?cs \<noteq> []" by (cases u; simp add: word_step)+
  moreover have "map field_value ?cs = map field_value ws" using n by (cases u) (simp_all add: assms(2))
  ultimately show ?thesis unfolding keeps_def by blast
qed

lemma shown_saves: "shown p \<Longrightarrow> cronFromPreset (input_of p) \<noteq> None"
  by (cases "cp_freq p") (auto simp: shown_def cronFromPreset_def input_of_def parse_format Let_def
      defaultCronPreset_def)



lemma read_keeps:
  assumes "isInt a \<Longrightarrow> digits_val a < 60" and "isInt b \<Longrightarrow> digits_val b < 24"
  shows "cp_freq (read_fields text [a, b, c, ''*'', d]) = Advanced \<or>
    keeps [a, b, c, ''*'', d] (read_fields text [a, b, c, ''*'', d])"
proof -
  have either: "(b \<Longrightarrow> P x) \<Longrightarrow> (\<not> b \<Longrightarrow> P y) \<Longrightarrow> P (if b then x else y)"
    for P :: "cron_preset \<Rightarrow> bool" and x y b by simp
  have h: "keeps [''0'', ''*'', ''*'', ''*'', ''*''] (defaultCronPreset\<lparr>cp_freq := EveryHour\<rparr>)"
    unfolding keeps_def
    by (rule exI [of _ "[''0'', ''*'', ''*'', ''*'', ''*'']"]) (simp add: cronFromPreset_def input_of_def fields_def)
  let ?P = "\<lambda>p. cp_freq p = Advanced \<or> keeps [a, b, c, ''*'', d] p"
  let ?t = "defaultCronPreset\<lparr>cp_time := formatClock (digits_val b) (digits_val a)\<rparr>"
  have t: "?P (?t\<lparr>cp_freq := f\<rparr>)"
    if "f = timed_freq c d" "(c, d) \<in> {(''*'', ''*''), (''*'', WEEKDAYS), (''*'', ''1''), (''1'', ''*'')}"
      "isInt a" "isInt b" for f
    unfolding that(1) by (rule disjI2, rule keeps_timed [OF refl that(3,4) assms(1) [OF that(3)] assms(2) [OF that(4)] that(2)])
  have nths: "[a, b, c, ''*'', d] ! 0 = a" "[a, b, c, ''*'', d] ! 1 = b" "[a, b, c, ''*'', d] ! 2 = c"
    "[a, b, c, ''*'', d] ! 4 = d" by simp_all
  show ?thesis
    unfolding read_fields_def Let_def nths
  proof (intro either [where P = ?P], goal_cases)
    case 1
    then show ?case using h by simp
  next
    case 2
    then show ?case using keeps_interval [of a _ "[a, ''*'', ''*'', ''*'', ''*'']" Minutes] by auto
  next
    case 3
    then show ?case using keeps_interval [of b _ "[''0'', b, ''*'', ''*'', ''*'']" Hours] by auto
  next
    case 4
    then show ?case using keeps_interval [of c _ "[''0'', ''0'', c, ''*'', ''*'']" Days] by auto
  next
    case 6
    then show ?case by (intro t) (simp_all add: timed_freq_def)
  next
    case 7
    then show ?case by (intro t) (auto simp: timed_freq_def WEEKDAYS_def)
  next
    case 8
    then show ?case by (intro t) (auto simp: timed_freq_def WEEKDAYS_def)
  next
    case 9
    then show ?case by (intro t) (auto simp: timed_freq_def WEEKDAYS_def)
  qed simp_all
qed

text \<open>
  Opening a schedule in the editor and saving it does not move it: every five-field
  expression - with clock fields in range when they are plain numbers - comes back with the same
  fields up to leading zeros, whether the editor recognises it as a preset or shows it as is.
\<close>

theorem editing_keeps_schedule:
  assumes "clock_fields (split_space (js_trim cron))"
  shows "\<exists>cron'. cronFromPreset (input_of (presetFromCron cron)) = Some cron' \<and>
    map field_value (split_space (js_trim cron')) = map field_value (split_space (js_trim cron))"
proof -
  let ?ws = "split_space (js_trim cron)"
  have five: "length ?ws = 5" using assms by (simp add: clock_fields_def)
  have e: "split_space [] = [[]]" "split_space ''@once'' = [''@once'']" by code_simp+
  have o: "js_trim cron \<noteq> []" "\<not> isOneShotRoutineCron (js_trim cron)"
    using five e by (auto simp: isOneShotRoutineCron_def ONCE_ROUTINE_CRON_def js_trim_idem)
  have advanced: ?thesis if "cp_freq (presetFromCron cron) = Advanced"
    using that advanced_keeps [OF that] o
    by (intro exI [of _ "js_trim cron"]) (simp add: cronFromPreset_def input_of_def truthy_def js_trim_idem)
  show ?thesis
  proof (cases "?ws ! 3 = ''*''")
    case True
    have r: "presetFromCron cron = read_fields (js_trim cron) ?ws" by (rule preset_parts [OF refl five True])
    obtain a b c d where ws: "?ws = [a, b, c, ''*'', d]" using list_5 [OF five] True by metis
    have "cp_freq (presetFromCron cron) = Advanced \<or> keeps ?ws (presetFromCron cron)"
      unfolding r ws using assms by (intro read_keeps) (simp_all add: clock_fields_def ws)
    then show ?thesis
    proof
      assume "keeps ?ws (presetFromCron cron)"
      then obtain cs where "cronFromPreset (input_of (presetFromCron cron)) = Some (fields cs)"
        "list_all word cs" "cs \<noteq> []" "map field_value cs = map field_value ?ws" unfolding keeps_def by blast
      then show ?thesis by (intro exI [of _ "fields cs"]) (simp add: trim_fields split_fields)
    qed (rule advanced)
  next
    case False
    then have "cp_freq (presetFromCron cron) = Advanced"
      using five o by (simp add: presetFromCron_def Let_def)
    then show ?thesis by (rule advanced)
  qed
qed

theorem editing_keeps_schedule_witness:
  "\<exists>cron'. cronFromPreset (input_of (presetFromCron '' 05  9 * * 1-5'')) = Some cron' \<and>
    map field_value (split_space (js_trim cron')) = map field_value (split_space (js_trim '' 05  9 * * 1-5''))"
proof (rule editing_keeps_schedule)
  show "clock_fields (split_space (js_trim '' 05  9 * * 1-5''))" by code_simp
qed

section \<open>The next run of several schedules\<close>

definition recurring_runs :: "cron_lib \<Rightarrow> int \<Rightarrow> string \<Rightarrow> string list \<Rightarrow> int list" where
  "recurring_runs lib start timezone crons = concat (map (\<lambda>cron. if isOneShotRoutineCron cron then []
     else case nextCronDate lib cron start timezone of Inl _ \<Rightarrow> [] | Inr t \<Rightarrow> [t]) crons)"

definition recurring_errors :: "cron_lib \<Rightarrow> int \<Rightarrow> string \<Rightarrow> string list \<Rightarrow> cron_error list" where
  "recurring_errors lib start timezone crons = concat (map (\<lambda>cron. if isOneShotRoutineCron cron then []
     else case nextCronDate lib cron start timezone of Inl e \<Rightarrow> [e] | Inr _ \<Rightarrow> []) crons)"

lemma sooner_min: "sooner (Some e) t = Some (min e t)" "sooner None t = Some t"
  by (simp_all add: sooner_def)

lemma Min_insert_min: "finite A \<Longrightarrow> Min (insert (min e t) A) = Min (insert e (insert t A))" for e t :: int
  by (cases "A = {}") (simp_all add: min.assoc)

lemma recurring_Nil [simp]: "recurring_runs lib start timezone [] = []" "recurring_errors lib start timezone [] = []"
  by (simp_all add: recurring_runs_def recurring_errors_def)

lemma recurring_once [simp]:
  "isOneShotRoutineCron c \<Longrightarrow> recurring_runs lib start timezone (c # cs) = recurring_runs lib start timezone cs"
  "isOneShotRoutineCron c \<Longrightarrow> recurring_errors lib start timezone (c # cs) = recurring_errors lib start timezone cs"
  by (simp_all add: recurring_runs_def recurring_errors_def)

lemma recurring_Inr:
  "\<not> isOneShotRoutineCron c \<Longrightarrow> nextCronDate lib c start timezone = Inr t \<Longrightarrow>
   recurring_runs lib start timezone (c # cs) = t # recurring_runs lib start timezone cs \<and>
   recurring_errors lib start timezone (c # cs) = recurring_errors lib start timezone cs"
  by (simp add: recurring_runs_def recurring_errors_def)

lemma recurring_Inl:
  "\<not> isOneShotRoutineCron c \<Longrightarrow> nextCronDate lib c start timezone = Inl e \<Longrightarrow>
   recurring_runs lib start timezone (c # cs) = recurring_runs lib start timezone cs \<and>
   recurring_errors lib start timezone (c # cs) = e # recurring_errors lib start timezone cs"
  by (simp add: recurring_runs_def recurring_errors_def)

lemma across_loop_min:
  "across_loop lib start timezone (Some e) crons = Some (Min (insert e (set (recurring_runs lib start timezone crons))))"
proof (induction crons arbitrary: e)
  case (Cons c crons)
  then show ?case
    by (cases "isOneShotRoutineCron c"; cases "nextCronDate lib c start timezone")
      (simp_all add: recurring_Inl recurring_Inr sooner_min Min_insert_min)
qed simp

lemma across_loop_none:
  "across_loop lib start timezone None crons = (let rs = recurring_runs lib start timezone crons in
     if rs = [] then None else Some (Min (set rs)))"
proof (induction crons)
  case (Cons c crons)
  then show ?case
    by (cases "isOneShotRoutineCron c"; cases "nextCronDate lib c start timezone")
      (simp_all add: recurring_Inl recurring_Inr sooner_min across_loop_min)
qed simp

lemma strict_loop_errors:
  "strict_loop lib start timezone e crons = (case recurring_errors lib start timezone crons of
     [] \<Rightarrow> Inr (across_loop lib start timezone e crons) | x # _ \<Rightarrow> Inl x)"
proof (induction crons arbitrary: e)
  case (Cons c crons)
  then show ?case
    by (cases "isOneShotRoutineCron c"; cases "nextCronDate lib c start timezone")
      (simp_all add: recurring_Inl recurring_Inr split: list.split)
qed simp

text \<open>
  The next run of a routine is the earliest among its recurring schedules: one-time entries
  and schedules that do not parse or have no future run are passed over, and there is none
  exactly when no schedule is left. The strict variant answers the same unless some schedule
  fails, and then the error of the first one that does.
\<close>

theorem next_run_is_earliest:
  "nextCronDateAcross lib crons start timezone = (let rs = recurring_runs lib start timezone crons in
     if rs = [] then None else Some (Min (set rs))) \<and>
   nextCronDateAcrossStrict lib crons start timezone = (case recurring_errors lib start timezone crons of
     [] \<Rightarrow> Inr (nextCronDateAcross lib crons start timezone) | e # _ \<Rightarrow> Inl e)"
  by (simp add: nextCronDateAcross_def nextCronDateAcrossStrict_def across_loop_none strict_loop_errors
      split: list.split)

end
