(* ===== verification/Routines.thy ===== *)
theory Routines
  imports RunExecutor Cron
begin

text \<open>
  The wake-up of a routine (packages/adapters/src/executor.ts, \<open>wakeRoutine\<close> and
  \<open>deferFutureRoutine\<close>): when its time has come a routine becomes a queued run, once, and its
  next time is set. The expansion of skills in the prompt is a parameter; it may fail.
\<close>

section \<open>Deleting runs and tasks\<close>

text \<open>
  Deleting a run deletes its attempts and effects and clears the references of usage records;
  deleting a task deletes its runs (\<open>onDelete\<close> in schema.prisma).
\<close>

definition delete_runs :: "(run \<Rightarrow> bool) \<Rightarrow> db \<Rightarrow> db" where
  "delete_runs p s = (let gone = r_id ` set (filter p (db_runs s)) in
     s\<lparr>db_runs := deleteMany p (db_runs s),
       db_attempts := deleteMany (\<lambda>a. a_runId a \<in> gone) (db_attempts s),
       db_effects := deleteMany (\<lambda>x. x_runId x \<in> gone) (db_effects s),
       db_usage := map (\<lambda>u. u\<lparr>us_runId := drop_ref gone (us_runId u)\<rparr>) (db_usage s)\<rparr>)"

definition run_deleteMany :: "(run \<Rightarrow> bool) \<Rightarrow> nat dbtx" where
  "run_deleteMany p = (\<lambda>s. Inr (countMany p (db_runs s), delete_runs p s))"

definition task_deleteMany :: "(task \<Rightarrow> bool) \<Rightarrow> nat dbtx" where
  "task_deleteMany p = (\<lambda>s. let gone = t_id ` set (filter p (db_tasks s)) in
     Inr (countMany p (db_tasks s),
          db_tasks_update (deleteMany p) (delete_runs (\<lambda>r. r_taskId r \<in> gone) s)))"

section \<open>wakeRoutine\<close>

definition deferFutureRoutine :: "bool \<Rightarrow> time \<Rightarrow> string \<Rightarrow> time \<Rightarrow> bool dbprog" where
  "deferFutureRoutine down now routineId scheduledAt =
     (if scheduledAt \<le> now + 1000 then prog_return False
      else prog_bind (enqueue down (routineWakeupJob routineId scheduledAt)) (\<lambda>_. prog_return True))"

text \<open>
  What a wake-up brings along: the calendar, the parser of dates, the expansion of the prompt, whether each call of
  the job publisher fails, the clock, what other clients do, and the identifiers it creates.
\<close>

record waker =
  wr_lib :: cron_lib
  wr_date :: "string \<Rightarrow> time option"   \<comment> \<open>\<open>new Date(s)\<close>, \<open>None\<close> when it is invalid\<close>
  wr_expand :: "routine \<Rightarrow> db \<Rightarrow> db_error + string"
  wr_down :: "nat \<Rightarrow> bool"
  wr_clock :: "nat \<Rightarrow> time"
  wr_env :: "nat \<Rightarrow> db \<Rightarrow> db"
  wr_task :: string
  wr_run :: string
  wr_event :: string

definition routine_run :: "waker \<Rightarrow> routine \<Rightarrow> bot \<Rightarrow> string \<Rightarrow> run" where
  "routine_run w rt b threadId = \<lparr>r_id = wr_run w, r_workspaceId = rt_workspaceId rt, r_botId = b_id b,
     r_threadId = threadId, r_taskId = wr_task w, r_userId = rt_userId rt,
     r_serviceIdentityId = rt_serviceIdentityId rt, r_status = Queued, r_trigger = TrigRoutine,
     r_error = None, r_leaseOwner = None, r_leaseFence = 0, r_leaseExpiresAt = None, r_checkpoint = None,
     r_clientNonce = None, r_sourceMessageId = None, r_routineId = Some (rt_id rt), r_startedAt = None,
     r_completedAt = None, r_createdAt = wr_clock w 2, r_updatedAt = wr_clock w 2\<rparr>"

definition routine_due :: "string \<Rightarrow> time \<Rightarrow> routine \<Rightarrow> bool" where
  "routine_due routineId scheduledAt rt \<longleftrightarrow>
     rt_id rt = routineId \<and> rt_active rt \<and> rt_nextRunAt rt = Some scheduledAt"

text \<open>The claim of a wake-up and the run it starts, in one transaction.\<close>

definition claim_routine ::
  "waker \<Rightarrow> routine \<Rightarrow> bot \<Rightarrow> string \<Rightarrow> time \<Rightarrow> time option \<Rightarrow> string \<Rightarrow> run option dbtx" where
  "claim_routine w rt b threadId scheduledAt nextRunAt prompt =
     tx_bind (update_many db_routines db_routines_update (routine_due (rt_id rt) scheduledAt)
       (\<lambda>r. r\<lparr>rt_lastRunAt := Some (wr_clock w 2), rt_nextRunAt := nextRunAt,
              rt_active := (if nextRunAt = None then False else rt_active r)\<rparr>)) (\<lambda>updated.
     if updated \<noteq> 1 then tx_return None
     else
       tx_bind (task_create \<lparr>t_id = wr_task w, t_workspaceId = rt_workspaceId rt, t_botId = b_id b,
         t_threadId = threadId, t_userId = rt_userId rt, t_prompt = prompt, t_status = Queued,
         t_updatedAt = wr_clock w 2\<rparr>) (\<lambda>_.
       tx_bind (run_create (routine_run w rt b threadId)) (\<lambda>run. tx_return (Some run))))"

text \<open>When the run cannot be published the claim is undone.\<close>

definition restore_routine :: "routine \<Rightarrow> run \<Rightarrow> time \<Rightarrow> time option \<Rightarrow> unit dbtx" where
  "restore_routine rt claimed scheduledAt nextRunAt =
     tx_bind (run_deleteMany (\<lambda>r. r_id r = r_id claimed \<and> r_status r = Queued)) (\<lambda>_.
     tx_bind (task_deleteMany (\<lambda>t. t_id t = r_taskId claimed \<and> t_status t = Queued)) (\<lambda>_.
     tx_bind (update_many db_routines db_routines_update
       (\<lambda>r. rt_id r = rt_id rt \<and> rt_nextRunAt r = nextRunAt \<and> (nextRunAt = None \<longrightarrow> \<not> rt_active r))
       (\<lambda>r. r\<lparr>rt_nextRunAt := Some scheduledAt, rt_active := True, rt_lastRunAt := rt_lastRunAt rt\<rparr>)) (\<lambda>_.
     tx_return ())))"

definition publish_claim :: "waker \<Rightarrow> routine \<Rightarrow> run \<Rightarrow> time \<Rightarrow> time option \<Rightarrow> unit dbprog" where
  "publish_claim w rt claimed scheduledAt nextRunAt =
     prog_catch (enqueue (wr_down w 1) (runContinueJob (r_id claimed))) (\<lambda>error.
       prog_bind (prog_env (wr_env w 5)) (\<lambda>_.
       prog_bind (prog_tx (restore_routine rt claimed scheduledAt nextRunAt)) (\<lambda>_.
       prog_throw error)))"

definition next_routine_run :: "waker \<Rightarrow> routine \<Rightarrow> time \<Rightarrow> time option" where
  "next_routine_run w rt scheduledAt =
     (if isOneShotRoutineCrons (rt_crons rt) then None
      else nextCronDateAcross (wr_lib w) (rt_crons rt) (max (wr_clock w 1) scheduledAt) (rt_timezone rt))"

definition fire_routine :: "waker \<Rightarrow> routine \<Rightarrow> bot \<Rightarrow> string \<Rightarrow> string \<Rightarrow> time \<Rightarrow> unit dbprog" where
  "fire_routine w rt b threadId scheduledFor scheduledAt =
     (let nextRunAt = next_routine_run w rt scheduledAt in
      prog_bind (prog_gets (wr_expand w rt)) (\<lambda>expanded.
      prog_bind (prog_lift expanded) (\<lambda>prompt.
      prog_bind (prog_env (wr_env w 3)) (\<lambda>_.
      prog_bind (prog_tx (claim_routine w rt b threadId scheduledAt nextRunAt prompt)) (\<lambda>claimed.
      case claimed of None \<Rightarrow> prog_return ()
      | Some run \<Rightarrow>
          prog_bind (prog_env (wr_env w 4)) (\<lambda>_.
          prog_bind (publish_claim w rt run scheduledAt nextRunAt) (\<lambda>_.
          prog_bind (prog_env (wr_env w 6)) (\<lambda>_.
          prog_bind (ignore_error (prog_bind (prog_tx (appendEvent (wr_clock w 3) (wr_event w)
            \<lparr>ei_workspaceId = rt_workspaceId rt, ei_threadId = threadId, ei_botId = b_id b,
             ei_type = RoutineFired, ei_payload = [(''routineId'', PJson (JStr (rt_id rt))),
               (''scheduledFor'', PJson (JStr scheduledFor))],
             ei_runId = Some (r_id run)\<rparr>)) (\<lambda>_. prog_return ()))) (\<lambda>_.
          prog_bind (prog_env (wr_env w 7)) (\<lambda>_.
          if isOneShotRoutineCrons (rt_crons rt)
          then ignore_error (job_cancel (wr_down w 2) (routineJobKey (rt_id rt)))
          else case nextRunAt of None \<Rightarrow> prog_return ()
          | Some next \<Rightarrow> enqueue (wr_down w 2) (routineWakeupJob (rt_id rt) next)))))))))))"

definition wakeRoutine :: "waker \<Rightarrow> string \<Rightarrow> string \<Rightarrow> unit dbprog" where
  "wakeRoutine w routineId scheduledFor =
     (case wr_date w scheduledFor of None \<Rightarrow> prog_return ()
      | Some scheduledAt \<Rightarrow>
      prog_bind (prog_gets (\<lambda>s. find (\<lambda>r. rt_id r = routineId) (db_routines s))) (\<lambda>routine.
      case routine of None \<Rightarrow> prog_return ()
      | Some rt \<Rightarrow>
          if \<not> rt_active rt \<or> rt_nextRunAt rt \<noteq> Some scheduledAt then prog_return ()
          else
            prog_bind (deferFutureRoutine (wr_down w 0) (wr_clock w 0) routineId scheduledAt) (\<lambda>deferred.
            if deferred then prog_return ()
            else
              prog_bind (prog_env (wr_env w 1)) (\<lambda>_.
              prog_bind (prog_gets (\<lambda>s. find (\<lambda>b. b_id b = rt_botId rt) (db_bots s))) (\<lambda>bot.
              case bot of None \<Rightarrow> prog_return ()
              | Some b \<Rightarrow>
                  (case b_primaryThreadId b of None \<Rightarrow> prog_return ()
                   | Some threadId \<Rightarrow>
                       if b_managedByBrandWell b \<and> b_managedStatus b \<noteq> ''active'' then prog_return ()
                       else prog_bind (prog_env (wr_env w 2)) (\<lambda>_.
                         fire_routine w rt b threadId scheduledFor scheduledAt)))))))"

section \<open>A routine fires once\<close>

text \<open>The calendar answers times after the one it is asked from.\<close>

definition lib_forward :: "cron_lib \<Rightarrow> bool" where
  "lib_forward lib \<longleftrightarrow> (\<forall>cron timezone start t. cl_next lib cron timezone start = Inr (Some t) \<longrightarrow> start < t)"

lemma nextCronDate_later: "lib_forward lib \<Longrightarrow> nextCronDate lib cron start timezone = Inr t \<Longrightarrow> start < t"
  by (auto simp: lib_forward_def nextCronDate_def split: if_splits sum.splits option.splits)

lemma recurring_later: "lib_forward lib \<Longrightarrow> t \<in> set (recurring_runs lib start timezone crons) \<Longrightarrow> start < t"
  by (auto simp: recurring_runs_def intro: nextCronDate_later [OF _ sym] split: if_splits sum.splits)

lemma across_later:
  assumes "lib_forward lib" and "nextCronDateAcross lib crons start timezone = Some t"
  shows "start < t"
proof -
  have "nextCronDateAcross lib crons start timezone = (let rs = recurring_runs lib start timezone crons in
     if rs = [] then None else Some (Min (set rs)))"
    by (simp add: nextCronDateAcross_def across_loop_none)
  with assms(2) have "t \<in> set (recurring_runs lib start timezone crons)"
    by (auto simp: Let_def split: if_splits intro: Min_in)
  with assms(1) show ?thesis by (rule recurring_later)
qed

lemma next_run_later: "lib_forward (wr_lib w) \<Longrightarrow> next_routine_run w rt t \<noteq> Some t"
  by (metis across_later max_less_iff_conj next_routine_run_def not_Some_eq order_less_irrefl)

definition claimed_routine :: "waker \<Rightarrow> time option \<Rightarrow> routine \<Rightarrow> routine" where
  "claimed_routine w nextRunAt r = r\<lparr>rt_lastRunAt := Some (wr_clock w 2), rt_nextRunAt := nextRunAt,
     rt_active := (if nextRunAt = None then False else rt_active r)\<rparr>"

definition routine_task :: "waker \<Rightarrow> routine \<Rightarrow> bot \<Rightarrow> string \<Rightarrow> string \<Rightarrow> task" where
  "routine_task w rt b threadId prompt = \<lparr>t_id = wr_task w, t_workspaceId = rt_workspaceId rt, t_botId = b_id b,
     t_threadId = threadId, t_userId = rt_userId rt, t_prompt = prompt, t_status = Queued,
     t_updatedAt = wr_clock w 2\<rparr>"

text \<open>A claim that succeeds writes the routine, the task and the run, all new or none.\<close>

lemma claim_routine_Some:
  assumes "claim_routine w rt b threadId at nextRunAt prompt s = Inr (Some run, s1)"
  shows "run = routine_run w rt b threadId \<and> countMany (routine_due (rt_id rt) at) (db_routines s) = 1 \<and>
    s1 = s\<lparr>db_routines := updateMany (routine_due (rt_id rt) at) (claimed_routine w nextRunAt) (db_routines s),
      db_tasks := db_tasks s @ [routine_task w rt b threadId prompt], db_runs := db_runs s @ [run]\<rparr> \<and>
    (\<forall>t \<in> set (db_tasks s). t_id t \<noteq> wr_task w) \<and> (\<forall>r \<in> set (db_runs s). r_id r \<noteq> wr_run w)"
  using assms
  by (auto simp: claim_routine_def tx_bind_Inr create_row_Inr run_clash_def routine_task_def routine_run_def
      claimed_routine_def [abs_def] split: if_splits)

lemma claim_routine_None:
  "claim_routine w rt b threadId at nextRunAt prompt s = Inr (None, s1) \<Longrightarrow> countMany (routine_due (rt_id rt) at) (db_routines s) \<noteq> 1"
  by (auto simp: claim_routine_def tx_bind_Inr split: if_splits)

lemma fired_not_due:
  assumes "lib_forward (wr_lib w)"
    and "claim_routine w rt b threadId at (next_routine_run w rt at) prompt s = Inr (Some run, s1)"
    and "r \<in> set (db_routines s1)"
  shows "\<not> routine_due (rt_id rt) at r"
proof -
  have "db_routines s1 = updateMany (routine_due (rt_id rt) at)
      (claimed_routine w (next_routine_run w rt at)) (db_routines s)"
    using claim_routine_Some [OF assms(2)] by simp
  with assms(3) show ?thesis using next_run_later [OF assms(1), of rt at]
    by (auto simp: set_updateMany claimed_routine_def routine_due_def split: if_splits)
qed

lemma claim_not_due:
  assumes "\<forall>r \<in> set (db_routines s). \<not> routine_due (rt_id rt) at r"
  shows "claim_routine w rt b threadId at nextRunAt prompt s = Inr (None, s)"
proof -
  have "countMany (routine_due (rt_id rt) at) (db_routines s) = 0" using assms by simp
  then show ?thesis by (simp add: claim_routine_def tx_bind_run updateMany_count0 del: countMany_0)
qed


section \<open>A publication that fails\<close>

definition fresh_ids :: "waker \<Rightarrow> db \<Rightarrow> bool" where
  "fresh_ids w s \<longleftrightarrow> list_all (\<lambda>a. a_runId a \<noteq> wr_run w) (db_attempts s) \<and>
     list_all (\<lambda>x. x_runId x \<noteq> wr_run w) (db_effects s) \<and>
     list_all (\<lambda>u. us_runId u \<noteq> Some (wr_run w)) (db_usage s) \<and>
     list_all (\<lambda>r. r_taskId r \<noteq> wr_task w) (db_runs s)"

lemma deleteMany_none: "list_all (\<lambda>r. \<not> p r) rs \<Longrightarrow> deleteMany p rs = rs"
  by (induction rs) (simp_all add: deleteMany_def)

lemma map_drop_none: "list_all (\<lambda>u. us_runId u \<noteq> Some k) us \<Longrightarrow>
    map (\<lambda>u. u\<lparr>us_runId := drop_ref {k} (us_runId u)\<rparr>) us = us"
  by (induction us) (auto simp: drop_ref_def split: option.splits)

lemma deleteMany_id: "filter p rs = [] \<Longrightarrow> deleteMany p rs = rs"
  by (simp add: deleteMany_none list_all_iff filter_empty_conv)

lemma drop_ref_empty [simp]: "drop_ref {} k = k"
  by (cases k) (simp_all add: drop_ref_def)

lemma delete_runs_none: "filter p (db_runs s) = [] \<Longrightarrow> delete_runs p s = s"
  unfolding delete_runs_def Let_def
  by (simp only: deleteMany_id) (simp add: deleteMany_def)

lemma task_deleteMany_one:
  assumes "filter p (db_tasks s) = [t]"
  shows "task_deleteMany p s = Inr (1, db_tasks_update (deleteMany p) (delete_runs (\<lambda>r. r_taskId r = t_id t) s))"
  unfolding task_deleteMany_def countMany_def assms by simp

text \<open>The state after a claim that was undone.\<close>

lemma restore_undoes:
  assumes d: "distinct (map rt_id (db_routines s))" and f: "fresh_ids w s"
    and rt: "rt \<in> set (db_routines s)" "rt_active rt" "rt_nextRunAt rt = Some at"
    and c: "claim_routine w rt b threadId at nextRunAt prompt s = Inr (Some run, s1)"
  shows "restore_routine rt run at nextRunAt s1 = Inr ((), s)"
proof -
  note e = claim_routine_Some [OF c]
  let ?k = "claimed_routine w nextRunAt" and ?due = "routine_due (rt_id rt) at"
  have run: "r_id run = wr_run w" "r_taskId run = wr_task w" "r_status run = Queued" using e by (simp_all add: routine_run_def)
  have task: "t_id (routine_task w rt b threadId prompt) = wr_task w" "t_status (routine_task w rt b threadId prompt) = Queued"
    by (simp_all add: routine_task_def)
  have runs: "filter (\<lambda>r. r_id r = wr_run w \<and> r_status r = Queued) (db_runs s) = []"
    and tasks: "filter (\<lambda>t. t_id t = wr_task w \<and> t_status t = Queued) (db_tasks s) = []"
    using e by (auto simp: filter_empty_conv)
  have none: "filter (\<lambda>r. r_taskId r = wr_task w) (db_runs s) = []"
    using f by (auto simp: fresh_ids_def list_all_iff filter_empty_conv)
  have del: "deleteMany p (xs @ [x]) = xs" if "filter p xs = []" "p x" for p and xs :: "'r list" and x
    using that by (simp add: deleteMany_def filter_empty_conv)
  let ?s2 = "s\<lparr>db_routines := updateMany ?due ?k (db_routines s)\<rparr>"
  have r1: "delete_runs (\<lambda>r. r_id r = wr_run w \<and> r_status r = Queued) s1 =
      ?s2\<lparr>db_tasks := db_tasks s @ [routine_task w rt b threadId prompt]\<rparr>"
    using e f run runs by (simp add: delete_runs_def del fresh_ids_def deleteMany_none map_drop_none)
  have r2: "task_deleteMany (\<lambda>t. t_id t = wr_task w \<and> t_status t = Queued)
      (?s2\<lparr>db_tasks := db_tasks s @ [routine_task w rt b threadId prompt]\<rparr>) = Inr (1, ?s2)"
    (is "task_deleteMany ?p ?s3 = _")
  proof -
    have "filter ?p (db_tasks ?s3) = [routine_task w rt b threadId prompt]" using tasks task by simp
    then show ?thesis using none tasks task
      by (simp add: task_deleteMany_one delete_runs_none del)
  qed
  let ?undo = "\<lambda>r. rt_id r = rt_id rt \<and> rt_nextRunAt r = nextRunAt \<and> (nextRunAt = None \<longrightarrow> \<not> rt_active r)"
  have b: "updateMany ?undo (\<lambda>r. r\<lparr>rt_nextRunAt := Some at, rt_active := True, rt_lastRunAt := rt_lastRunAt rt\<rparr>)
      (updateMany ?due ?k (db_routines s)) = db_routines s"
    unfolding updateMany_def map_map
  proof (rule map_idI)
    fix r assume r: "r \<in> set (db_routines s)"
    then have u: "r = rt" if "rt_id r = rt_id rt" using d rt(1) that by (auto simp: distinct_map inj_on_def)
    show "((\<lambda>r. if ?undo r then r\<lparr>rt_nextRunAt := Some at, rt_active := True, rt_lastRunAt := rt_lastRunAt rt\<rparr> else r)
        \<circ> (\<lambda>r. if ?due r then ?k r else r)) r = r"
      using u rt(2,3) by (cases "rt_id r = rt_id rt") (auto simp: routine_due_def claimed_routine_def)
  qed
  show ?thesis
    by (simp add: restore_routine_def run_deleteMany_def run r1 r2 b tx_bind_def)
qed
text \<open>Nobody else writes, and the job for the routine finds everything it asks for.\<close>

definition undisturbed :: "waker \<Rightarrow> bool" where
  "undisturbed w \<longleftrightarrow> (\<forall>i s. wr_env w i s = s)"

definition ready :: "waker \<Rightarrow> string \<Rightarrow> string \<Rightarrow> routine \<Rightarrow> bot \<Rightarrow> string \<Rightarrow> time \<Rightarrow> string \<Rightarrow> db \<Rightarrow> bool" where
  "ready w i scheduledFor rt b threadId at prompt s \<longleftrightarrow> wr_date w scheduledFor = Some at \<and>
     find (\<lambda>r. rt_id r = i) (db_routines s) = Some rt \<and> rt_active rt \<and> rt_nextRunAt rt = Some at \<and>
     at \<le> wr_clock w 0 + 1000 \<and> find (\<lambda>b. b_id b = rt_botId rt) (db_bots s) = Some b \<and>
     b_primaryThreadId b = Some threadId \<and> (b_managedByBrandWell b \<longrightarrow> b_managedStatus b = ''active'') \<and>
     wr_expand w rt s = Inr prompt"

lemma wake_ready:
  assumes "undisturbed w" and "ready w i scheduledFor rt b threadId at prompt s"
  shows "wakeRoutine w i scheduledFor s = fire_routine w rt b threadId scheduledFor at s"
  using assms by (auto simp: wakeRoutine_def ready_def undisturbed_def deferFutureRoutine_def prog_bind_run)

definition later_job :: "waker \<Rightarrow> routine \<Rightarrow> time \<Rightarrow> job list" where
  "later_job w rt at = (case next_routine_run w rt at of None \<Rightarrow> [] | Some t \<Rightarrow> [routineWakeupJob (rt_id rt) t])"

text \<open>The event of a wake-up is best effort and touches the log only.\<close>

lemma appended_event:
  obtains s' where "ignore_error (prog_bind (prog_tx (appendEvent now eid input)) (\<lambda>_. prog_return ())) s = (Inr (), s')"
    and "db_runs s' = db_runs s" and "db_tasks s' = db_tasks s" and "db_routines s' = db_routines s"
    and "db_jobs s' = db_jobs s"
proof (cases "appendEvent now eid input s")
  case (Inl e)
  then show thesis
    by (intro that [of s]) (simp_all add: ignore_error_def prog_catch_def prog_bind_run prog_tx_run)
next
  case (Inr v)
  obtain a s' where v: "v = (a, s')" by fastforce
  from Inr obtain ev where ev: "appendEventInTransaction now eid input s = Inr (ev, s')"
    by (auto simp: appendEvent_def tx_bind_Inr v)
  show thesis
  proof (rule appendEvent_Inr [OF ev], goal_cases)
    case (1 t)
    with Inr show ?case
      by (intro that [of s']) (simp_all add: ignore_error_def prog_catch_def prog_bind_run prog_tx_run v)
  qed
qed

text \<open>
  A wake-up does everything or nothing. When the queue takes the job of the new run, the bot
  has one more queued run with its task, the routine has its next time or is switched off, and
  the continuation of the run is published before the next wake-up; when it does not, the error
  is passed on and the database is as it was before, so that the wake-up can be tried again.
\<close>

theorem wake_is_all_or_nothing:
  assumes "undisturbed w" and "ready w i scheduledFor rt b threadId at prompt s"
    and "distinct (map rt_id (db_routines s))" and "fresh_ids w s"
    and "claim_routine w rt b threadId at (next_routine_run w rt at) prompt s = Inr (Some run, s1)"
    and "\<not> wr_down w 2" and "wakeRoutine w i scheduledFor s = (r, s')"
  shows "if wr_down w 1 then r = Inl (Thrown ''enqueue failed'') \<and> s' = s
    else r = Inr () \<and> db_runs s' = db_runs s @ [routine_run w rt b threadId] \<and>
      db_tasks s' = db_tasks s @ [routine_task w rt b threadId prompt] \<and>
      db_routines s' = updateMany (routine_due (rt_id rt) at) (claimed_routine w (next_routine_run w rt at)) (db_routines s) \<and>
      db_jobs s' = db_jobs s @ [runContinueJob (wr_run w)] @ later_job w rt at"
proof -
  have rt: "rt \<in> set (db_routines s)" "rt_active rt" "rt_nextRunAt rt = Some at" "wr_expand w rt s = Inr prompt"
    using assms(2) by (auto simp: ready_def dest: find_SomeD)
  have env: "wr_env w k t = t" for k t using assms(1) by (simp add: undisturbed_def)
  have fire: "fire_routine w rt b threadId scheduledFor at s = (r, s')"
    using wake_ready [OF assms(1,2)] assms(7) by simp
  note e = claim_routine_Some [OF assms(5)]
  show ?thesis
  proof (cases "wr_down w 1")
    case True
    with fire show ?thesis
      by (simp add: fire_routine_def Let_def prog_bind_run prog_lift_def rt(4) env prog_tx_run assms(5)
          publish_claim_def prog_catch_def enqueue_def restore_undoes [OF assms(3,4) rt(1-3) assms(5)])
  next
    case False
    let ?s2 = "s1\<lparr>db_jobs := db_jobs s1 @ [runContinueJob (r_id run)]\<rparr>"
    obtain s3 where ev: "ignore_error (prog_bind (prog_tx (appendEvent (wr_clock w 3) (wr_event w)
            \<lparr>ei_workspaceId = rt_workspaceId rt, ei_threadId = threadId, ei_botId = b_id b,
             ei_type = RoutineFired, ei_payload = [(''routineId'', PJson (JStr (rt_id rt))),
               (''scheduledFor'', PJson (JStr scheduledFor))],
             ei_runId = Some (r_id run)\<rparr>)) (\<lambda>_. prog_return ())) ?s2 = (Inr (), s3)"
      and s3: "db_runs s3 = db_runs ?s2" "db_tasks s3 = db_tasks ?s2" "db_routines s3 = db_routines ?s2"
        "db_jobs s3 = db_jobs ?s2" by (rule appended_event)
    have "(if isOneShotRoutineCrons (rt_crons rt)
          then ignore_error (job_cancel (wr_down w 2) (routineJobKey (rt_id rt)))
          else case next_routine_run w rt at of None \<Rightarrow> prog_return ()
          | Some next \<Rightarrow> enqueue (wr_down w 2) (routineWakeupJob (rt_id rt) next)) s3 = (r, s')"
      using fire False by (simp add: fire_routine_def Let_def prog_bind_run prog_lift_def rt(4) env prog_tx_run assms(5)
          publish_claim_def prog_catch_def enqueue_def ev)
    with s3 e assms(6) False show ?thesis
      by (auto simp: later_job_def next_routine_run_def ignore_error_def prog_catch_def job_cancel_def enqueue_def
          routine_run_def split: if_splits option.splits)
  qed
qed
section \<open>The contract of the database\<close>

lemma claim_routine_step [tx_rules]:
  "tx_rel (db_step del) (claim_routine w rt b threadId at nextRunAt prompt)"
  unfolding claim_routine_def by (intro tx_rules) (auto simp: run_init_def routine_run_def)

text \<open>As long as the queue takes the job a wake-up keeps the contract.\<close>

lemma wakeRoutine_step:
  assumes "\<And>i. env_ok del (wr_env w i)" and "\<not> wr_down w 1"
  shows "prog_rel (db_step del) (wakeRoutine w i scheduledFor)"
proof -
  have p: "prog_rel (db_step del) (publish_claim w rt run at t)" for rt run at t
    using assms(2) by (simp add: publish_claim_def prog_rel_def prog_catch_def enqueue_def db_step_frame)
  show ?thesis
    unfolding wakeRoutine_def deferFutureRoutine_def fire_routine_def Let_def appendEvent_def
    by (intro tx_rules p assms(1))
qed

section \<open>Witnesses\<close>

definition sample_routine :: routine where
  "sample_routine = \<lparr>rt_id = ''q'', rt_workspaceId = ''w'', rt_botId = ''b'', rt_userId = ''u'',
     rt_serviceIdentityId = None, rt_prompt = ''report'', rt_crons = [''0 9 * * *''], rt_timezone = ''UTC'',
     rt_active = True, rt_lastRunAt = Some 400, rt_nextRunAt = Some 500\<rparr>"

definition sample_waker :: "bool \<Rightarrow> waker" where
  "sample_waker down = \<lparr>wr_lib = \<lparr>cl_next = (\<lambda>_ _ t. Inr (Some (t + 100))), cl_timezone = (\<lambda>_. True)\<rparr>,
     wr_date = (\<lambda>s. if s = ''500'' then Some 500 else None), wr_expand = (\<lambda>r _. Inr (rt_prompt r)),
     wr_down = (\<lambda>i. i = 1 \<and> down), wr_clock = (\<lambda>_. 600), wr_env = (\<lambda>_ s. s),
     wr_task = ''k9'', wr_run = ''r9'', wr_event = ''e9''\<rparr>"

definition sample_routines :: db where
  "sample_routines = sample_db\<lparr>db_routines := [sample_routine]\<rparr>"

definition sample_fired :: "run option \<times> db" where
  "sample_fired = (case claim_routine (sample_waker True) sample_routine sample_bot ''t'' 500
     (next_routine_run (sample_waker True) sample_routine 500) ''report'' sample_routines of
       Inr v \<Rightarrow> v | Inl _ \<Rightarrow> (None, empty_db))"

lemma sample_fired_run:
  "claim_routine (sample_waker down) sample_routine sample_bot ''t'' 500
     (next_routine_run (sample_waker down) sample_routine 500) ''report'' sample_routines =
   Inr (Some (routine_run (sample_waker True) sample_routine sample_bot ''t''), snd sample_fired)"
  by (cases down) code_simp+


theorem wake_is_all_or_nothing_witness:
  "wakeRoutine (sample_waker True) ''q'' ''500'' sample_routines = (Inl (Thrown ''enqueue failed''), sample_routines)"
proof -
  obtain r s' where w: "wakeRoutine (sample_waker True) ''q'' ''500'' sample_routines = (r, s')" by fastforce
  have "if wr_down (sample_waker True) 1 then r = Inl (Thrown ''enqueue failed'') \<and> s' = sample_routines else
      r = Inr () \<and> db_runs s' = db_runs sample_routines @ [routine_run (sample_waker True) sample_routine sample_bot ''t''] \<and>
      db_tasks s' = db_tasks sample_routines @ [routine_task (sample_waker True) sample_routine sample_bot ''t'' ''report''] \<and>
      db_routines s' = updateMany (routine_due (rt_id sample_routine) 500)
        (claimed_routine (sample_waker True) (next_routine_run (sample_waker True) sample_routine 500)) (db_routines sample_routines) \<and>
      db_jobs s' = db_jobs sample_routines @ [runContinueJob (wr_run (sample_waker True))]
        @ later_job (sample_waker True) sample_routine 500"
  proof (rule wake_is_all_or_nothing [OF _ _ _ _ sample_fired_run _ w])
    show "undisturbed (sample_waker True)" by (simp add: undisturbed_def sample_waker_def)
    show "ready (sample_waker True) ''q'' ''500'' sample_routine sample_bot ''t'' 500 ''report'' sample_routines"
      by (simp add: ready_def sample_waker_def sample_routines_def sample_routine_def sample_defs)
  qed (simp_all add: sample_routines_def fresh_ids_def sample_waker_def sample_defs)
  then show ?thesis using w by (simp add: sample_waker_def)
qed

text \<open>
  The restoration is not safe when a worker takes the run between its commit and the failing
  publication: the run is not queued any more, so it is left alone, but its task still is - the
  status of a task does not follow its run - and deleting the task deletes the running run.
\<close>

definition taken_run :: "db \<Rightarrow> db" where
  "taken_run s = (let h = \<lparr>rh_runId = ''r9'', rh_owner = ''w2'', rh_fence = 1\<rparr> in
     case tx_bind (claim_run 600 600 h) (\<lambda>_. start_run 600 h (sample_run ''r9'' Leased None 0)) s of
       Inr v \<Rightarrow> snd v | Inl _ \<Rightarrow> s)"

definition sample_lost :: waker where
  "sample_lost = (sample_waker True)\<lparr>wr_env := (\<lambda>i s. if i = 4 then taken_run s else s)\<rparr>"

lemma failed_publish_deletes_running_run:
  "map (\<lambda>r. (r_id r, r_status r)) (db_runs (taken_run (snd sample_fired))) = [(''r'', Running), (''r9'', Running)] \<and>
   map r_id (db_runs (snd (wakeRoutine sample_lost ''q'' ''500'' sample_routines))) = [''r'']"
  by code_simp

end
