(* ===== verification/JobReconciler.thy ===== *)
theory JobReconciler
  imports RunExecutor "HOL-Library.Char_ord" "HOL-Library.List_Lexorder" "HOL-Library.Product_Lexorder"
begin

text \<open>
  The reconciler of background jobs (packages/adapters/src/job-reconciler.ts): every half minute
  the elected process publishes again the jobs of runs that wait or whose worker is gone, of
  routines that are due and of control leases that run out, one page of each table at a time.
  Leadership is an answer of the environment, timers are not modelled. The database compares
  identifiers by code point here, and sorts missing times last.
\<close>

section \<open>Pages\<close>

definition after_cursor :: "'k::linorder option \<Rightarrow> 'k \<Rightarrow> bool" where
  "after_cursor c k \<longleftrightarrow> (case c of None \<Rightarrow> True | Some c' \<Rightarrow> c' < k)"

text \<open>\<open>where\<close> with the cursor, \<open>orderBy\<close> and \<open>take\<close>; then the cursor of the next page.\<close>

definition scan_page :: "('r \<Rightarrow> 'k::linorder) \<Rightarrow> nat \<Rightarrow> 'k option \<Rightarrow> 'r list \<Rightarrow> 'r list" where
  "scan_page key n c rows = take n (sort_key key (filter (\<lambda>r. after_cursor c (key r)) rows))"

definition scan_next :: "('r \<Rightarrow> 'k) \<Rightarrow> nat \<Rightarrow> 'r list \<Rightarrow> 'k option" where
  "scan_next key n page = (if length page = n \<and> page \<noteq> [] then Some (key (last page)) else None)"

section \<open>reconcileOnce\<close>

definition ROUTINE_LOOKAHEAD_MS :: time where "ROUTINE_LOOKAHEAD_MS = 60000"
definition CONTROL_LOOKAHEAD_MS :: time where "CONTROL_LOOKAHEAD_MS = 60000"
definition DEFAULT_BATCH_SIZE :: nat where "DEFAULT_BATCH_SIZE = 100"

record reconciler =
  jr_runCursor :: "(time \<times> string) option"
  jr_routineCursor :: "(time \<times> string) option"
  jr_controlCursor :: "(bool \<times> time \<times> string) option"   \<comment> \<open>a missing time comes last\<close>
  jr_deadline :: "time option"                            \<comment> \<open>\<open>controlScanDeadline\<close>\<close>

definition stalled :: "time \<Rightarrow> run \<Rightarrow> bool" where
  "stalled now r \<longleftrightarrow> r_status r = Queued \<or>
     (r_status r \<in> {Leased, Running} \<and> (case r_leaseExpiresAt r of None \<Rightarrow> False | Some t \<Rightarrow> t \<le> now))"

definition run_order :: "run \<Rightarrow> time \<times> string" where
  "run_order r = (r_updatedAt r, r_id r)"

definition routine_soon :: "time \<Rightarrow> routine \<Rightarrow> bool" where
  "routine_soon now rt \<longleftrightarrow> rt_active rt \<and>
     (case rt_nextRunAt rt of None \<Rightarrow> False | Some t \<Rightarrow> t \<le> now + ROUTINE_LOOKAHEAD_MS)"

definition routine_order :: "routine \<Rightarrow> time \<times> string" where
  "routine_order rt = (the (rt_nextRunAt rt), rt_id rt)"

definition control_ending :: "time \<Rightarrow> computer \<Rightarrow> bool" where
  "control_ending deadline c \<longleftrightarrow> c_controlLeaseId c \<noteq> None \<and>
     (case c_controlLeaseExpiresAt c of None \<Rightarrow> True | Some t \<Rightarrow> t \<le> deadline)"

definition control_order :: "computer \<Rightarrow> bool \<times> time \<times> string" where
  "control_order c = (c_controlLeaseExpiresAt c = None,
     case c_controlLeaseExpiresAt c of None \<Rightarrow> 0 | Some t \<Rightarrow> t, c_id c)"

text \<open>
  Every job is handed to the publisher before the failures are looked at; \<open>down\<close> tells which
  ones it refuses.
\<close>

definition enqueue_all :: "(job \<Rightarrow> bool) \<Rightarrow> job list \<Rightarrow> unit dbprog" where
  "enqueue_all down js =
     prog_bind (prog_env (\<lambda>s. s\<lparr>db_jobs := db_jobs s @ filter (\<lambda>j. \<not> down j) js\<rparr>)) (\<lambda>_.
     if list_ex down js then prog_throw (Thrown ''enqueue failed'') else prog_return ())"

definition control_jobs :: "time \<Rightarrow> computer list \<Rightarrow> job list" where
  "control_jobs now cs = concat (map (\<lambda>c. if truthy (c_controlBotId c)
     then [computerControlExpireJob (c_id c) (the (c_controlLeaseId c))
       (case c_controlLeaseExpiresAt c of None \<Rightarrow> now | Some t \<Rightarrow> t)]
     else []) cs)"

definition routine_jobs :: "routine list \<Rightarrow> job list" where
  "routine_jobs rts = concat (map (\<lambda>rt. case rt_nextRunAt rt of None \<Rightarrow> []
     | Some t \<Rightarrow> [routineWakeupJob (rt_id rt) t]) rts)"

text \<open>
  One reconciliation: \<open>leader\<close> is the answer of the leadership, \<open>env\<close> what other clients do
  between the reads. A refused job leaves the cursors where they were.
\<close>

definition reconcileOnce ::
  "(nat \<Rightarrow> db \<Rightarrow> db) \<Rightarrow> (job \<Rightarrow> bool) \<Rightarrow> db_error + bool \<Rightarrow> time \<Rightarrow> nat \<Rightarrow> reconciler \<Rightarrow> db \<Rightarrow>
   (db_error + reconciler) \<times> reconciler \<times> db" where
  "reconcileOnce env down leader now batchSize jr s =
     (case leader of
        Inl e \<Rightarrow> (Inl e, jr, s)
      | Inr False \<Rightarrow> (Inr jr, jr, s)
      | Inr True \<Rightarrow>
          let deadline = (case jr_deadline jr of None \<Rightarrow> now + CONTROL_LOOKAHEAD_MS | Some d \<Rightarrow> d);
              jr1 = jr\<lparr>jr_deadline := Some deadline\<rparr>;
              runs = scan_page run_order batchSize (jr_runCursor jr) (filter (stalled now) (db_runs s));
              s1 = env 0 s;
              routines = scan_page routine_order batchSize (jr_routineCursor jr) (filter (routine_soon now) (db_routines s1));
              s2 = env 1 s1;
              controls = scan_page control_order batchSize (jr_controlCursor jr) (filter (control_ending deadline) (db_computers s2));
              s3 = env 2 s2
          in case enqueue_all down (map (\<lambda>r. runContinueJob (r_id r)) runs @ routine_jobs routines @ control_jobs now controls) s3 of
               (Inl e, s4) \<Rightarrow> (Inl e, jr1, s4)
             | (Inr _, s4) \<Rightarrow>
                 let next = scan_next control_order batchSize controls;
                     jr2 = jr1\<lparr>jr_runCursor := scan_next run_order batchSize runs,
                       jr_routineCursor := scan_next routine_order batchSize routines,
                       jr_controlCursor := next,
                       jr_deadline := (if next = None then None else Some deadline)\<rparr>
                 in (Inr jr2, jr2, s4))"

section \<open>Every row is reached\<close>

lemma scan_page_skips:
  assumes "r \<in> set rows" and "after_cursor c (key r)" and "inj_on key (set rows)" and "n > 0"
    and "r \<notin> set (scan_page key n c rows)"
  obtains q where "q \<in> set rows" and "scan_next key n (scan_page key n c rows) = Some (key q)"
    and "key q < key r" and "after_cursor c (key q)"
proof -
  let ?L = "sort_key key (filter (\<lambda>r. after_cursor c (key r)) rows)" and ?P = "scan_page key n c rows"
  have "r \<in> set ?L" using assms(1,2) by simp
  moreover have L: "?L = ?P @ drop n ?L" by (simp add: scan_page_def)
  ultimately have d: "r \<in> set (drop n ?L)" using assms(5) by (metis Un_iff set_append)
  have "length ?P = n"
  proof (cases "length ?L \<le> n")
    case True
    with d show ?thesis by simp
  next
    case False
    then show ?thesis by (simp add: scan_page_def)
  qed
  moreover from this assms(4) have ne: "?P \<noteq> []" by auto
  moreover have "last ?P \<in> set ?P" using ne by (rule last_in_set)
  moreover have "sorted (map key ?P @ map key (drop n ?L))" by (metis L map_append sorted_sort_key)
  ultimately have "key (last ?P) \<le> key r" using d by (auto simp: sorted_append)
  moreover have q: "last ?P \<in> set rows" "after_cursor c (key (last ?P))"
    using \<open>last ?P \<in> set ?P\<close> by (auto simp: scan_page_def dest!: in_set_takeD)
  moreover have "last ?P \<noteq> r" using \<open>last ?P \<in> set ?P\<close> assms(5) by blast
  ultimately have "key (last ?P) < key r" using assms(1,3) by (metis inj_onD order_le_imp_less_or_eq)
  then show thesis using q \<open>length ?P = n\<close> ne by (intro that [of "last ?P"]) (simp_all add: scan_next_def)
qed

lemma scan_next_row:
  assumes "scan_next key n (scan_page key n c rows) = Some k"
  shows "k \<in> key ` set rows \<and> after_cursor c k"
proof -
  have ne: "scan_page key n c rows \<noteq> []" and k: "k = key (last (scan_page key n c rows))"
    using assms by (simp_all add: scan_next_def split: if_splits)
  from last_in_set [OF ne] show ?thesis by (auto simp: scan_page_def k dest!: in_set_takeD)
qed

text \<open>
  A row that stays eligible is on some page after at most two passes over the keys there are,
  whatever rows come and go meanwhile, and wherever the cursor starts.
\<close>

locale scan =
  fixes key :: "'r \<Rightarrow> 'k::linorder" and n :: nat
  assumes batch: "n > 0"
begin

text \<open>The tables and cursors of a sequence of scans in which the row \<open>r\<close> is always eligible.\<close>

definition scans :: "(nat \<Rightarrow> 'r list) \<Rightarrow> (nat \<Rightarrow> 'k option) \<Rightarrow> 'k set \<Rightarrow> 'r \<Rightarrow> bool" where
  "scans rows c S r \<longleftrightarrow> finite S \<and> (\<forall>i. key ` set (rows i) \<subseteq> S \<and> inj_on key (set (rows i)) \<and> r \<in> set (rows i) \<and>
     c (Suc i) = scan_next key n (scan_page key n (c i) (rows i)))"

definition ahead :: "'k set \<Rightarrow> 'k option \<Rightarrow> nat" where
  "ahead S x = card {k \<in> S. after_cursor x k}"

definition between :: "'k set \<Rightarrow> 'r \<Rightarrow> 'k option \<Rightarrow> nat" where
  "between S r x = card {k \<in> S. after_cursor x k \<and> k < key r}"

lemma card_less: "finite S \<Longrightarrow> A \<subset> B \<Longrightarrow> B \<subseteq> S \<Longrightarrow> card A < card B"
  by (meson finite_subset psubset_card_mono)

lemma reached_ahead:
  assumes scans: "scans rows c S r" and "after_cursor (c i) (key r)"
  shows "\<exists>j \<le> between S r (c i). r \<in> set (scan_page key n (c (i + j)) (rows (i + j)))"
  using assms(2)
proof (induction "between S r (c i)" arbitrary: i rule: less_induct)
  case less
  have fin: "finite S" and keys: "\<And>i. key ` set (rows i) \<subseteq> S" and unique: "inj_on key (set (rows i))"
    and stays: "r \<in> set (rows i)" and advance: "\<And>i. c (Suc i) = scan_next key n (scan_page key n (c i) (rows i))"
    using scans by (auto simp: scans_def)
  show ?case
  proof (cases "r \<in> set (scan_page key n (c i) (rows i))")
    case True
    then show ?thesis by (intro exI [of _ 0]) simp
  next
    case False
    then obtain q where q: "q \<in> set (rows i)" "c (Suc i) = Some (key q)" "key q < key r" "after_cursor (c i) (key q)"
      using scan_page_skips [OF stays less.prems unique batch] advance by metis
    then have "{k \<in> S. after_cursor (c (Suc i)) k \<and> k < key r} \<subset> {k \<in> S. after_cursor (c i) k \<and> k < key r}"
      using keys [of i] by (auto simp: after_cursor_def split: option.splits)
    then have lt: "between S r (c (Suc i)) < between S r (c i)" unfolding between_def by (rule card_less [OF fin]) auto
    moreover have "after_cursor (c (Suc i)) (key r)" using q by (simp add: after_cursor_def)
    ultimately obtain j where "j \<le> between S r (c (Suc i))" "r \<in> set (scan_page key n (c (Suc i + j)) (rows (Suc i + j)))"
      using less.hyps by blast
    with lt show ?thesis by (intro exI [of _ "Suc j"]) auto
  qed
qed

lemma comes_round:
  assumes scans: "scans rows c S r"
  shows "\<exists>j \<le> Suc (ahead S (c i)). after_cursor (c (i + j)) (key r)"
proof (induction "ahead S (c i)" arbitrary: i rule: less_induct)
  case less
  have fin: "finite S" and keys: "\<And>i. key ` set (rows i) \<subseteq> S"
    and advance: "\<And>i. c (Suc i) = scan_next key n (scan_page key n (c i) (rows i))"
    using scans by (auto simp: scans_def)
  show ?case
  proof (cases "c (Suc i)")
    case None
    then show ?thesis by (intro exI [of _ 1]) (simp add: after_cursor_def)
  next
    case (Some k)
    then have k: "k \<in> S" "after_cursor (c i) k"
      using scan_next_row [of key n "c i" "rows i" k] advance [of i] keys [of i] by auto
    then have "{x \<in> S. after_cursor (c (Suc i)) x} \<subset> {x \<in> S. after_cursor (c i) x}"
      using Some by (auto simp: after_cursor_def split: option.splits)
    then have lt: "ahead S (c (Suc i)) < ahead S (c i)" unfolding ahead_def by (rule card_less [OF fin]) auto
    then obtain j where "j \<le> Suc (ahead S (c (Suc i)))" "after_cursor (c (Suc i + j)) (key r)"
      using less by blast
    with lt show ?thesis by (intro exI [of _ "Suc j"]) auto
  qed
qed

theorem reached:
  assumes scans: "scans rows c S r"
  shows "\<exists>j \<le> Suc (2 * card S). r \<in> set (scan_page key n (c j) (rows j))"
proof -
  have fin: "finite S" using scans by (simp add: scans_def)
  obtain i where i: "i \<le> Suc (ahead S (c 0))" "after_cursor (c i) (key r)" using comes_round [OF scans, of 0] by auto
  obtain j where j: "j \<le> between S r (c i)" "r \<in> set (scan_page key n (c (i + j)) (rows (i + j)))"
    using reached_ahead [OF scans i(2)] by blast
  have "ahead S x \<le> card S" "between S r x \<le> card S" for x
    unfolding ahead_def between_def by (intro card_mono fin; blast)+
  with i(1) j(1) have "i + j \<le> Suc (2 * card S)" by (metis add_mono add_Suc mult_2 order.trans Suc_le_mono)
  with j(2) show ?thesis by blast
qed

end

interpretation run_scan: scan run_order "Suc n" for n
  by unfold_locales simp

interpretation routine_scan: scan routine_order "Suc n" for n
  by unfold_locales simp

interpretation control_scan: scan control_order "Suc n" for n
  by unfold_locales simp

section \<open>Nothing is forgotten\<close>

text \<open>A sequence of reconciliations of the leader that the publisher accepts.\<close>

definition reconciles ::
  "nat \<Rightarrow> (nat \<Rightarrow> nat \<Rightarrow> db \<Rightarrow> db) \<Rightarrow> (nat \<Rightarrow> time) \<Rightarrow> (nat \<Rightarrow> reconciler) \<Rightarrow> (nat \<Rightarrow> db) \<Rightarrow> (nat \<Rightarrow> db) \<Rightarrow> bool" where
  "reconciles batchSize env now jr s s' \<longleftrightarrow> (\<forall>i. reconcileOnce (env i) (\<lambda>_. False) (Inr True) (now i) batchSize (jr i) (s i)
     = (Inr (jr (Suc i)), jr (Suc i), s' i))"

lemma reconcile_run:
  assumes "reconcileOnce env (\<lambda>_. False) (Inr True) now n jr s = (Inr jr', jr', s')"
  shows "jr_runCursor jr' = scan_next run_order n (scan_page run_order n (jr_runCursor jr) (filter (stalled now) (db_runs s))) \<and>
    (\<forall>r \<in> set (scan_page run_order n (jr_runCursor jr) (filter (stalled now) (db_runs s))). runContinueJob (r_id r) \<in> set (db_jobs s'))"
  using assms by (auto simp: reconcileOnce_def Let_def enqueue_all_def prog_bind_run list_ex_iff)

lemma run_order_inj: "run_ids_distinct s \<Longrightarrow> inj_on run_order (set (filter p (db_runs s)))"
  by (auto simp: inj_on_def run_order_def run_ids_distinct_def distinct_map)

text \<open>
  C13. No run is forgotten. A run that waits for a worker, or whose worker stopped renewing its
  lease, is published again within twice as many reconciliations as there are different runs to
  look at: pages of the table are visited in turn, and runs that come, go or change while the
  cursor passes cannot hide it.
\<close>

theorem stalled_run_is_published:
  assumes "reconciles (Suc n) env now jr s s'" and "\<And>i. run_ids_distinct (s i)"
    and "\<And>i. r \<in> set (db_runs (s i))" and "\<And>i. stalled (now i) r"
    and "finite S" and "\<And>i. run_order ` set (db_runs (s i)) \<subseteq> S"
  shows "\<exists>j \<le> Suc (2 * card S). runContinueJob (r_id r) \<in> set (db_jobs (s' j))"
proof -
  let ?rows = "\<lambda>i. filter (stalled (now i)) (db_runs (s i))"
  have e: "reconcileOnce (env i) (\<lambda>_. False) (Inr True) (now i) (Suc n) (jr i) (s i) = (Inr (jr (Suc i)), jr (Suc i), s' i)" for i
    using assms(1) by (simp add: reconciles_def)
  have "run_scan.scans n ?rows (\<lambda>i. jr_runCursor (jr i)) S r"
    using assms(3-6) reconcile_run [OF e] run_order_inj [OF assms(2)]
    unfolding run_scan.scans_def by fastforce
  from run_scan.reached [OF this] obtain j where
      "j \<le> Suc (2 * card S)" "r \<in> set (scan_page run_order (Suc n) (jr_runCursor (jr j)) (?rows j))" by blast
  with reconcile_run [OF e] show ?thesis by blast
qed

text \<open>
  What the reconciler looks for is what a worker can claim, and a run whose lease is complete is
  found once its lease has expired.
\<close>

lemma stalled_claimable: "stalled now r \<Longrightarrow> claimable now (r_id r) r"
  by (auto simp: stalled_def claimable_def split: option.splits)

lemma active_run_stalls:
  assumes "core_ok (core_of r)" and "r_status r \<in> {Queued, Leased, Running}"
  obtains t where "\<And>now. t \<le> now \<Longrightarrow> stalled now r"
proof (cases "r_leaseExpiresAt r")
  case None
  then show thesis using assms by (intro that [of 0]) (auto simp: stalled_def core_ok_def core_of_def)
next
  case (Some t)
  then show thesis using assms by (intro that [of t]) (auto simp: stalled_def)
qed

definition fresh_reconciler :: reconciler where
  "fresh_reconciler = \<lparr>jr_runCursor = None, jr_routineCursor = None, jr_controlCursor = None, jr_deadline = None\<rparr>"

definition sample_waiting :: db where
  "sample_waiting = sample_db\<lparr>db_runs := [sample_run ''r'' Queued None 2]\<rparr>"

theorem stalled_run_is_published_witness:
  "runContinueJob ''r'' \<in> set (db_jobs (snd (snd (reconcileOnce (\<lambda>_ x. x) (\<lambda>_. False) (Inr True) 5 100
     fresh_reconciler sample_waiting))))"
proof -
  let ?s' = "snd (snd (reconcileOnce (\<lambda>_ x. x) (\<lambda>_. False) (Inr True) 5 100 fresh_reconciler sample_waiting))"
  have r: "reconcileOnce (\<lambda>_ x. x) (\<lambda>_. False) (Inr True) 5 (Suc 99) fresh_reconciler sample_waiting =
      (Inr fresh_reconciler, fresh_reconciler, ?s')" by code_simp
  have "\<exists>j \<le> Suc (2 * card {(0 :: time, ''r'')}). runContinueJob (r_id (sample_run ''r'' Queued None 2)) \<in> set (db_jobs ?s')"
  proof (rule stalled_run_is_published [where s = "\<lambda>_. sample_waiting" and s' = "\<lambda>_. ?s'" and jr = "\<lambda>_. fresh_reconciler"
        and now = "\<lambda>_. 5" and env = "\<lambda>_ _ x. x" and n = 99])
    show "reconciles (Suc 99) (\<lambda>_ _ x. x) (\<lambda>_. 5) (\<lambda>_. fresh_reconciler) (\<lambda>_. sample_waiting) (\<lambda>_. ?s')"
      using r by (simp add: reconciles_def)
  qed (simp_all add: run_ids_distinct_def sample_waiting_def stalled_def sample_run_def run_order_def)
  then show ?thesis by (simp add: sample_run_def)
qed

end
