(* ===== verification/Lifecycle.thy ===== *)
theory Lifecycle
  imports RunLiveness Routines JobReconciler BotDelivery
begin

text \<open>
  The whole system: every handler of the model, called in any order with any arguments and
  interleaved with the others at every statement. What holds of one call by the contract
  \<open>db_step\<close> holds of every execution here: the rows stay well formed, finished runs stay
  finished, and a run that is active can always be taken up again.
\<close>

section \<open>Executions\<close>

text \<open>
  \<open>reaches s s'\<close>: the calls of some execution lead from \<open>s\<close> to \<open>s'\<close>. The environments of a
  call are executions themselves. \<open>configure\<close> is any change of tables the handlers do not rely
  on (settings, bots, computers, routines), \<open>open_thread\<close> a new thread. A wake-up is only
  included when the queue takes its job (see \<open>Routines\<close>).
\<close>

inductive reaches :: "db \<Rightarrow> db \<Rightarrow> bool" where
  idle: "reaches s s"
| after: "reaches s t \<Longrightarrow> reaches t u \<Longrightarrow> reaches s u"
| configure: "db_threads s' = db_threads s \<Longrightarrow> db_events s' = db_events s \<Longrightarrow> db_messages s' = db_messages s \<Longrightarrow>
    db_runs s' = db_runs s \<Longrightarrow> db_effects s' = db_effects s \<Longrightarrow> reaches s s'"
| open_thread: "\<forall>q \<in> set (db_threads s). th_id q \<noteq> th_id t \<Longrightarrow>
    reaches s (s\<lparr>db_threads := db_threads s @ [t]\<rparr>)"
| send: "(\<And>t. reaches t (env1 t)) \<Longrightarrow> (\<And>t. reaches t (env2 t)) \<Longrightarrow>
    reaches s (snd (sendUserMessage env1 env2 now sids sinput s))"
| clear: "reaches s (snd (prog_tx (clearThread now eid cinput) s))"
| answer: "(\<And>store i. writer = Some store \<Longrightarrow> \<exists>put k u w p. store i = createRunSecretWriter put k u w p) \<Longrightarrow>
    reaches s (snd (prog_tx (answerRunInput now eid ruleId writer ainput) s))"
| release: "reaches s (snd (prog_tx (finalizeComputerControlRelease now eid rinput) s))"
| append: "reaches s (snd (prog_tx (appendEvent now eid einput) s))"
| work: "(\<And>i t. reaches t (wk_env w i t)) \<Longrightarrow> (\<And>i t. reaches t (wk_seat_env w i t)) \<Longrightarrow>
    (\<And>i t. reaches t (sp_env p i t)) \<Longrightarrow> (\<And>i j t. reaches t (sp_boot_env p i j t)) \<Longrightarrow>
    (\<And>env t. Others env \<in> set (sp_steps p) \<Longrightarrow> reaches t (env t)) \<Longrightarrow>
    reaches s (snd (continueRun sb w resolver (agent_session p) runId s))"
| heartbeat: "reaches s (snd (prog_tx (renewRunLease now h) s))"
| record_effect: "(\<And>t. reaches t (env1 t)) \<Longrightarrow> reaches s (snd (recordEffect env1 now xid eid rref kind key req s))"
| gate: "(\<And>t. reaches t (env1 t)) \<Longrightarrow> (\<And>t. reaches t (env2 t)) \<Longrightarrow>
    reaches s (snd (claimOrReturn env1 env2 now name k st s))"
| settle: "(\<And>t. reaches t (env1 t)) \<Longrightarrow> reaches s (snd (settleUncertainEffect env1 now k tool s))"
| complete: "st = Intended \<or> st = Executing \<Longrightarrow> reaches s (snd (prog_tx (completeExternalEffect now k st j) s))"
| rewrite: "reaches s (snd (prog_tx (replaceCompletedExternalEffectResult now k j) s))"
| message: "(\<And>i t. reaches t (env i t)) \<Longrightarrow> reaches s (snd (messageBot env f now dids ctx sender dinput s))"
| handoff: "(\<And>t. reaches t (env1 t)) \<Longrightarrow> reaches s (snd (handoffToGroupBot env1 f now hids ctx groupId hinput s))"
| expire: "(\<And>i t. reaches t (env i t)) \<Longrightarrow> reaches s (snd (expireComputerControl sb env f now eid computerId leaseId s))"
| sleep: "(\<And>i t. reaches t (env i t)) \<Longrightarrow> (\<And>i t. reaches t (xenv i t)) \<Longrightarrow>
    reaches s (snd (sleepComputerIfIdle sb env xenv f configured clock eid eids computerId s))"
| provision: "(\<And>i t. reaches t (env i t)) \<Longrightarrow> (\<And>i t. reaches t (xenv i t)) \<Longrightarrow> (\<And>i t. reaches t (wenv i t)) \<Longrightarrow>
    reaches s (snd (provisionComputer sb env xenv wenv f clock eid computerId context holder s))"
| replace: "(\<And>i t. reaches t (env i t)) \<Longrightarrow> (\<And>i t. reaches t (xenv i t)) \<Longrightarrow> (\<And>(i::nat) j t. reaches t (penv i j t)) \<Longrightarrow>
    reaches s (snd (replaceComputer sb env xenv
      (provisionComputer sb (penv 0) (penv 1) (penv 2) f clock eid computerId context holder) f clock eid computerId mode context s))"
| stop_managed: "(\<And>i t. reaches t (env i t)) \<Longrightarrow>
    reaches s (snd (stopManagedComputerForLifecycle sb env (prog_return ()) fails clock finput req s))"
| wake: "(\<And>i t. reaches t (wr_env wr i t)) \<Longrightarrow> \<not> wr_down wr 1 \<Longrightarrow>
    reaches s (snd (wakeRoutine wr routineId scheduledFor s))"
| reconcile: "(\<And>i t. reaches t (env i t)) \<Longrightarrow>
    reaches s (snd (snd (reconcileOnce env down leader now batchSize jr s)))"

section \<open>Every execution keeps the contract\<close>

lemma open_thread_step:
  assumes "\<forall>q \<in> set (db_threads s). th_id q \<noteq> th_id t"
  shows "db_step del s (s\<lparr>db_threads := db_threads s @ [t]\<rparr>)"
proof -
  have f: "find (\<lambda>q. th_id q = th_id t) (db_threads s) = None"
    using assms by (simp add: find_None_iff)
  then have z: "next_of nxt s (th_id t) = 0" for nxt by (simp add: next_of_def)
  have n: "next_of nxt (s\<lparr>db_threads := db_threads s @ [t]\<rparr>) tid = (if tid = th_id t then nxt t else next_of nxt s tid)"
    for nxt tid
    using f by (auto simp: next_of_def find_append split: option.split)
  show ?thesis
    using assms n z
    by (fastforce simp: db_step_def runs_evolve_def effects_evolve_def evolves_refl log_step_def log_inv_def
        event_keys_def message_keys_def)
qed

lemma send_step:
  assumes "env_ok del env1" and "env_ok del env2"
  shows "db_step del s (snd (sendUserMessage env1 env2 now ids input s))"
proof -
  have e: "db_step del t (env1 t)" "db_step del t (env2 t)" for t using assms by (simp_all add: env_ok_def)
  have c: "db_step del (env1 s) s2" if "send_commit now ids input (env1 s) = Inr (r, s2)" for r s2
    using tx_relD [OF send_commit_step that] .
  show ?thesis
    using e c db_step.trans_state [OF e(1) c] db_step.trans_state [OF e(1) e(2)]
    by (auto simp: sendUserMessage_def Let_def db_step.refl_state split: option.split sum.split)
qed

lemma reconcile_step:
  assumes "\<And>i. env_ok del (env i)"
  shows "db_step del s (snd (snd (reconcileOnce env down leader now n jr s)))"
proof -
  have e: "db_step del t (env i t)" for i t using assms by (simp add: env_ok_def)
  have q: "db_step del t (snd (enqueue_all down js t))" for js t
    by (auto simp: enqueue_all_def prog_bind_run intro!: db_step_frame)
  have w: "db_step del s (env 2 (env 1 (env 0 s)))" using e db_step.trans_state by blast
  have "db_step del s (snd (enqueue_all down js (env 2 (env 1 (env 0 s)))))" for js
    by (rule db_step.trans_state [OF w q])
  then have *: "enqueue_all down js (env 2 (env 1 (env 0 s))) = (x, t) \<Longrightarrow> db_step del s t" for js x t
    by (metis snd_conv)
  show ?thesis
    by (auto simp del: One_nat_def simp: reconcileOnce_def Let_def db_step.refl_state dest: *
        split: sum.split prod.split bool.split)
qed

lemma commit_step: "tx_rel (db_step del) m \<Longrightarrow> db_step del s (snd (prog_tx m s))"
  by (auto simp: prog_tx_run db_step.refl_state split: sum.split dest: tx_relD)

lemma run_step_of: "prog_rel (db_step del) m \<Longrightarrow> db_step del s (snd (m s))"
  by (simp add: prog_rel_def)

lemma others_step_ok:
  assumes "\<And>env t. st = Others env \<Longrightarrow> db_step del t (env t)"
  shows "step_ok del st"
  using assms by (cases st) (simp_all add: step_ok_def env_ok_def)

text \<open>No effect is ever deleted in an execution.\<close>

lemma reaches_step: "reaches s s' \<Longrightarrow> db_step (\<lambda>_. False) s s'"
proof (induction rule: reaches.induct)
  case (idle s)
  show ?case by (rule db_step.refl_state)
next
  case (after s t u)
  then show ?case by (blast intro: db_step.trans_state)
next
  case (configure s' s)
  then show ?case by (intro db_step_frame)
next
  case (open_thread s t)
  then show ?case by (rule open_thread_step)
next
  case (send env1 env2 s now sids sinput)
  then show ?case by (intro send_step) (simp_all add: env_ok_def)
next
  case (clear s now eid cinput)
  show ?case by (intro commit_step clearThread_step)
next
  case (answer writer s now eid ruleId ainput)
  then have "writer_ok (\<lambda>_. False) writer"
    unfolding writer_ok_def using createRunSecretWriter_step by metis
  then show ?case by (intro commit_step answerRunInput_step)
next
  case (work w p s sb resolver runId)
  have "step_ok (\<lambda>_. False) st" if "st \<in> set (sp_steps p)" for st
    using that by (intro others_step_ok) (simp add: work.IH)
  then have "params_ok (\<lambda>_. False) p"
    by (simp add: params_ok_def env_ok_def work.IH)
  then have "session_ok (\<lambda>_. False) (agent_session p)" by (rule agent_session_ok)
  moreover have "env_ok (\<lambda>_. False) (wk_env w i)" "env_ok (\<lambda>_. False) (wk_seat_env w i)" for i
    by (simp_all add: env_ok_def work.IH)
  ultimately show ?case by (intro run_step_of [OF continueRun_step])
next
  case (complete st s now k j)
  then show ?case by (intro commit_step completeExternalEffect_step)
next
  case (reconcile env s down leader now batchSize jr)
  then show ?case by (intro reconcile_step) (simp add: env_ok_def)
next
  case (replace env xenv penv)
  then show ?case by (intro run_step_of replaceComputer_step provisionComputer_step) (simp_all add: env_ok_def)
next
  case (wake wr s routineId scheduledFor)
  then show ?case by (intro run_step_of wakeRoutine_step) (simp_all add: env_ok_def)
next
  case (message env)
  then show ?case by (intro run_step_of messageBot_step) (simp_all add: env_ok_def)
next
  case (handoff env1)
  then show ?case by (intro run_step_of handoffToGroupBot_step) (simp_all add: env_ok_def)
next
  case (record_effect env1)
  then show ?case by (intro run_step_of recordEffect_step) (simp_all add: env_ok_def)
next
  case (gate env1 env2)
  then show ?case by (intro run_step_of claimOrReturn_step) (simp_all add: env_ok_def)
next
  case (settle env1)
  then show ?case by (intro run_step_of settleUncertainEffect_step) (simp_all add: env_ok_def)
next
  case (expire env)
  then show ?case by (intro run_step_of expireComputerControl_step) (simp_all add: env_ok_def)
next
  case (sleep env xenv)
  then show ?case by (intro run_step_of sleepComputerIfIdle_step) (simp_all add: env_ok_def)
next
  case (provision env xenv wenv)
  then show ?case by (intro run_step_of provisionComputer_step) (simp_all add: env_ok_def)
next
  case (stop_managed env)
  then show ?case by (intro run_step_of stopManaged_step db_step.prel_return) (simp add: env_ok_def)
qed (intro commit_step finalizeComputerControlRelease_step appendEvent_step run_handle_steps replaceCompleted_step)+

section \<open>What holds in every execution\<close>

text \<open>
  The rows of a consistent database: identifiers are unique, a run has a lease exactly while a
  worker holds it and a completion time exactly when it is over, and every event and message
  has a number of its own below its thread's counter.
\<close>

definition consistent :: "db \<Rightarrow> bool" where
  "consistent s \<longleftrightarrow> run_ids_distinct s \<and> effect_ids_distinct s \<and>
     (\<forall>r \<in> set (db_runs s). core_ok (core_of r)) \<and>
     log_inv event_keys th_nextEventSeq s \<and> log_inv message_keys th_nextMessageSeq s"

text \<open>Each run comes from one that was there before, or from a new one.\<close>

lemma run_origin:
  assumes "db_step del s s'" and "run_ids_distinct s" and "r' \<in> set (db_runs s')"
  obtains (old) r where "r \<in> set (db_runs s)" "r_id r = r_id r'" "core_step\<^sup>*\<^sup>* (core_of r) (core_of r')"
  | (new) i where "run_init i" "core_step\<^sup>*\<^sup>* (core_of i) (core_of r')"
  using assms run_row_steps unfolding db_step_def runs_evolve_def evolves_def run_ids_distinct_def by meson

lemma run_init_ok: "run_init i \<Longrightarrow> core_ok (core_of i)"
  by (simp add: run_init_def core_ok_def core_of_def)

lemma step_consistent:
  assumes d: "db_step del s s'" and c: "consistent s"
  shows "consistent s'"
  unfolding consistent_def
proof (intro conjI ballI)
  show "run_ids_distinct s'" and "effect_ids_distinct s'"
    using assms by (auto simp: consistent_def run_ids_distinct_def effect_ids_distinct_def db_step_def
        runs_evolve_def effects_evolve_def dest: evolves_distinct)
  show "log_inv event_keys th_nextEventSeq s'" and "log_inv message_keys th_nextMessageSeq s'"
    using assms by (simp_all add: consistent_def db_step_def log_step_def)
  fix r' assume "r' \<in> set (db_runs s')"
  with d c show "core_ok (core_of r')"
    by (elim run_origin) (auto simp: consistent_def intro: core_steps_ok run_init_ok)
qed


definition started :: db where
  "started = snd (prog_tx (renewRunLease 7 (sample_handle ''w1'' 2)) sample_db)"

lemma sample_consistent: "consistent sample_db"
  by (simp add: consistent_def run_ids_distinct_def effect_ids_distinct_def log_inv_def core_ok_def core_of_def
      event_keys_def message_keys_def sample_defs)


lemma final_run_stays:
  assumes "db_step del s s'" and "run_ids_distinct s" and "r \<in> set (db_runs s)"
    and "r_status r \<in> {Completed, Cancelled}"
  shows "\<exists>r' \<in> set (db_runs s'). run_key r' = run_key r \<and> core_of r' = core_of r"
proof -
  from assms(4) have f: "fst (core_of r) \<in> {Completed, Cancelled}" by (simp add: core_of_def)
  have *: "core_of q = core_of r \<and> run_key q = run_key r" if "run_step\<^sup>*\<^sup>* r q" for q
    using run_row_steps [OF that] core_steps_final [OF _ f] by simp
  have "\<not> run_deletable q" if "run_step\<^sup>*\<^sup>* r q" for q
    using * [OF that] f by (auto simp: run_deletable_def core_of_def)
  with assms(1-3) obtain r' where "r' \<in> set (db_runs s')" "run_step\<^sup>*\<^sup>* r r'"
    unfolding db_step_def runs_evolve_def evolves_def run_ids_distinct_def by meson
  with * show ?thesis by blast
qed

lemma final_effect_stays:
  assumes "db_step (\<lambda>_. False) s s'" and "effect_ids_distinct s" and "x \<in> set (db_effects s)"
    and "x_status x \<in> {EffCompleted, Uncertain, Denied}"
  shows "\<exists>x' \<in> set (db_effects s'). x_id x' = x_id x \<and> x_status x' = x_status x"
proof -
  from assms(1-3) obtain x' where "x' \<in> set (db_effects s')" "x_id x' = x_id x" "effect_row_step\<^sup>*\<^sup>* x x'"
    unfolding db_step_def effects_evolve_def evolves_def effect_ids_distinct_def by meson
  with effect_row_steps effect_steps_final [OF _ assms(4)] show ?thesis by blast
qed


definition sample_over :: db where
  "sample_over = sample_db\<lparr>db_runs := [sample_run ''r'' Completed None 2]\<rparr>"


text \<open>
  C6. Nothing is stranded: in every state of every execution, a run that is queued, leased or
  running will, unless somebody moves it before, be seen by the reconciler as stalled from some
  moment on, and from that moment a worker that takes its job may claim it.
\<close>

theorem no_run_stranded:
  assumes "consistent s" and "reaches s s'" and "r \<in> set (db_runs s')"
    and "r_status r \<in> {Queued, Leased, Running}"
  shows "\<exists>t. \<forall>now \<ge> t. stalled now r \<and> claimable now (r_id r) r"
proof -
  from step_consistent [OF reaches_step [OF assms(2)] assms(1)] assms(3) have "core_ok (core_of r)"
    by (simp add: consistent_def)
  then obtain t where "\<And>now. t \<le> now \<Longrightarrow> stalled now r" using active_run_stalls assms(4) by metis
  then show ?thesis using stalled_claimable by blast
qed

theorem no_run_stranded_witness:
  "\<exists>t. \<forall>now \<ge> t. stalled now (sample_run ''r'' Running (Some ''w1'') 2) \<and>
     claimable now (r_id (sample_run ''r'' Running (Some ''w1'') 2)) (sample_run ''r'' Running (Some ''w1'') 2)"
  by (rule no_run_stranded [OF sample_consistent reaches.idle]) (simp_all add: sample_defs)

text \<open>
  C7. A reader's place in a thread is safe: an event or message that an execution adds has a
  number that the thread had not yet issued, so a client that has read up to the counter and
  asks for what follows receives everything that was added.
\<close>

theorem nothing_appears_behind_a_reader:
  assumes "consistent s" and "reaches s s'"
  shows "(\<forall>(tid, n) \<in> set (event_keys s'). (tid, n) \<in> set (event_keys s) \<or> next_of th_nextEventSeq s tid \<le> n) \<and>
    (\<forall>(tid, n) \<in> set (message_keys s'). (tid, n) \<in> set (message_keys s) \<or> next_of th_nextMessageSeq s tid \<le> n)"
  using assms(1) reaches_step [OF assms(2)] by (simp add: db_step_def log_step_def consistent_def)

theorem nothing_appears_behind_a_reader_witness:
  "event_keys (snd (prog_tx (clearThread 7 ''e'' sample_clear) sample_db)) = [(''t'', 0)] \<and>
   next_of th_nextEventSeq sample_db ''t'' \<le> 0"
proof -
  have "event_keys (snd (prog_tx (clearThread 7 ''e'' sample_clear) sample_db)) = [(''t'', 0)]" by code_simp
  moreover have "event_keys sample_db = []" by (simp add: event_keys_def sample_defs)
  ultimately show ?thesis
    using nothing_appears_behind_a_reader [OF sample_consistent reaches.clear [of _ 7 "''e''" sample_clear]] by simp
qed

end
