(* ===== verification/ThreadFollow.thy ===== *)
theory ThreadFollow
  imports Lifecycle
begin

text \<open>
  How a client follows a thread (packages/db/src/events.ts, \<open>eventsAfter\<close>,
  \<open>followThreadEvents\<close>, \<open>ChangeLatch\<close>): a generator that reads the log in batches, hands the
  events out one by one, and sleeps on a latch until the log may have changed. It runs beside
  the executions of \<open>Lifecycle\<close>: between any two of its statements the database may change, the
  realtime topic may notify it, its timer may expire or its consumer may abort it.
\<close>

section \<open>Reading the log\<close>

definition EVENT_BATCH_SIZE :: nat where "EVENT_BATCH_SIZE = 200"
definition PUSH_CATCH_UP_MS :: time where "PUSH_CATCH_UP_MS = 30000"
definition POLL_ONLY_CATCH_UP_MS :: time where "POLL_ONLY_CATCH_UP_MS = 400"

text \<open>The default of \<open>catchUpMs\<close>: without a realtime fan-out the follower polls.\<close>

definition catchUpMs :: "bool \<Rightarrow> time" where
  "catchUpMs realtime = (if realtime then PUSH_CATCH_UP_MS else POLL_ONLY_CATCH_UP_MS)"

text \<open>A limit of zero is falsy in the code and means no limit.\<close>

definition eventsAfter :: "string \<Rightarrow> int \<Rightarrow> nat option \<Rightarrow> db \<Rightarrow> event list" where
  "eventsAfter threadId cursor limit s =
     (let found = sort_key e_seq (filter (\<lambda>e. e_threadId e = threadId \<and> cursor < int (e_seq e)) (db_events s)) in
      case limit of None \<Rightarrow> found | Some n \<Rightarrow> if n = 0 then found else take n found)"

section \<open>The generator\<close>

text \<open>
  Where the generator stands: at the head of the outer loop, before the read of the inner one,
  inside the \<open>for\<close> with the events it still has to yield and whether their batch was full,
  after the inner loop, asleep, or finished.
\<close>

datatype follow_phase = Starting | Reading | Yielding "event list" bool | Deciding | Waiting | Closed

record follower =
  fo_thread :: string
  fo_seq :: int
  fo_generation :: nat   \<comment> \<open>of the latch\<close>
  fo_observed :: nat
  fo_aborted :: bool
  fo_phase :: follow_phase
  fo_out :: "product_event list"

definition start_follower :: "string \<Rightarrow> int \<Rightarrow> follower" where
  "start_follower threadId cursor = \<lparr>fo_thread = threadId, fo_seq = cursor, fo_generation = 0,
     fo_observed = 0, fo_aborted = False, fo_phase = Starting, fo_out = []\<rparr>"

text \<open>The next statement of the generator; it moves by itself except while it waits.\<close>

definition follow_move :: "db \<Rightarrow> follower \<Rightarrow> follower" where
  "follow_move s f = (case fo_phase f of
     Starting \<Rightarrow>
       if fo_aborted f then f\<lparr>fo_phase := Closed\<rparr>
       else f\<lparr>fo_observed := fo_generation f, fo_phase := Reading\<rparr>
   | Reading \<Rightarrow>
       (let events = eventsAfter (fo_thread f) (fo_seq f) (Some EVENT_BATCH_SIZE) s in
        f\<lparr>fo_phase := Yielding events (length events = EVENT_BATCH_SIZE)\<rparr>)
   | Yielding (e # es) full \<Rightarrow>
       f\<lparr>fo_seq := int (e_seq e), fo_out := fo_out f @ [mapProductEvent e], fo_phase := Yielding es full\<rparr>
   | Yielding [] full \<Rightarrow>
       f\<lparr>fo_phase := (if full \<and> \<not> fo_aborted f then Reading else Deciding)\<rparr>
   | Deciding \<Rightarrow>
       if fo_aborted f then f\<lparr>fo_phase := Closed\<rparr>
       else f\<lparr>fo_phase := (if fo_generation f \<noteq> fo_observed f then Starting else Waiting)\<rparr>
   | Waiting \<Rightarrow> f
   | Closed \<Rightarrow> f)"

text \<open>\<open>finish\<close> of the latch: it resolves the promise the generator waits for.\<close>

definition latch_finish :: "follower \<Rightarrow> follower" where
  "latch_finish f = (if fo_phase f = Waiting then f\<lparr>fo_phase := Starting\<rparr> else f)"

definition latch_notify :: "follower \<Rightarrow> follower" where
  "latch_notify f = latch_finish (f\<lparr>fo_generation := fo_generation f + 1\<rparr>)"

definition abort_follower :: "follower \<Rightarrow> follower" where
  "abort_follower f = latch_finish (f\<lparr>fo_aborted := True\<rparr>)"

text \<open>
  The follower among the others. \<open>n\<close> is the counter of the thread at the time of the last
  notification: a handler notifies after it has committed, so every event below \<open>n\<close> has been
  announced.
\<close>

inductive follows :: "db \<times> nat \<times> follower \<Rightarrow> db \<times> nat \<times> follower \<Rightarrow> bool" where
  others: "reaches s s' \<Longrightarrow> follows (s, n, f) (s', n, f)"
| move: "follows (s, n, f) (s, n, follow_move s f)"
| notify: "follows (s, n, f) (s, next_of th_nextEventSeq s (fo_thread f), latch_notify f)"
| timer: "follows (s, n, f) (s, n, latch_finish f)"
| abort: "follows (s, n, f) (s, n, abort_follower f)"
| stop: "follows (s, n, f) (s, n, f\<lparr>fo_phase := Closed\<rparr>)"

section \<open>One read\<close>

text \<open>The first \<open>n\<close> of a strictly sorted list are those up to the last of them.\<close>

lemma take_sorted_upto:
  assumes "sorted_wrt (<) (map key xs)" and "x \<in> set xs" and "length (take n xs) = n" and "n > 0"
    and "key x \<le> (key (last (take n xs)) :: 'k :: linorder)"
  shows "x \<in> set (take n xs)"
proof (rule ccontr)
  assume "x \<notin> set (take n xs)"
  with assms(2) have "x \<in> set (drop n xs)" by (metis Un_iff append_take_drop_id set_append)
  moreover from assms(3,4) have "take n xs \<noteq> []" by auto
  then have "last (take n xs) \<in> set (take n xs)" by (rule last_in_set)
  moreover have "sorted_wrt (<) (map key (take n xs) @ map key (drop n xs))"
    using assms(1) by (simp flip: map_append)
  ultimately have "key (last (take n xs)) < key x" by (auto simp: sorted_wrt_append)
  with assms(5) show False by simp
qed

lemma eventsAfter_sorted:
  assumes "distinct (event_keys s)"
  shows "sorted_wrt (<) (map e_seq (eventsAfter tid c l s))"
proof -
  let ?L = "filter (\<lambda>e. e_threadId e = tid \<and> c < int (e_seq e)) (db_events s)"
  have "distinct (map (\<lambda>e. (e_threadId e, e_seq e)) ?L)"
    using assms by (simp add: event_keys_def distinct_map_filter)
  moreover have "map (\<lambda>e. (e_threadId e, e_seq e)) ?L = map (Pair tid) (map e_seq ?L)" by simp
  ultimately have "distinct (map e_seq ?L)" by (metis distinct_map)
  then have "distinct (map e_seq (sort_key e_seq ?L))" by (simp add: distinct_map)
  then have "sorted_wrt (<) (map e_seq (sort_key e_seq ?L))" by (simp add: strict_sorted_iff)
  then have "sorted_wrt (<) (take n (map e_seq (sort_key e_seq ?L)))" for n by (rule sorted_wrt_take)
  with \<open>sorted_wrt (<) (map e_seq (sort_key e_seq ?L))\<close> show ?thesis
    by (simp add: eventsAfter_def Let_def take_map split: option.split)
qed

lemma eventsAfter_row:
  assumes "e \<in> set (eventsAfter tid c l s)"
  shows "e \<in> set (db_events s) \<and> e_threadId e = tid \<and> c < int (e_seq e)"
  using assms by (auto simp: eventsAfter_def Let_def dest: in_set_takeD split: option.splits if_splits)

lemma eventsAfter_all:
  assumes "distinct (event_keys s)" and "(tid, k) \<in> set (event_keys s)" and "c < int k" and "n > 0"
    and "length (eventsAfter tid c (Some n) s) = n \<Longrightarrow> k \<le> e_seq (last (eventsAfter tid c (Some n) s))"
  shows "k \<in> e_seq ` set (eventsAfter tid c (Some n) s)"
proof -
  let ?L = "eventsAfter tid c None s"
  from assms(2,3) obtain e where e: "e \<in> set ?L" "e_seq e = k"
    by (fastforce simp: eventsAfter_def event_keys_def)
  have t: "eventsAfter tid c (Some n) s = take n ?L" using assms(4) by (simp add: eventsAfter_def)
  show ?thesis
  proof (cases "length (take n ?L) = n")
    case True
    then have "e \<in> set (take n ?L)"
      using take_sorted_upto [OF eventsAfter_sorted [OF assms(1)] e(1) True assms(4)] assms(5) e(2) t by simp
    with e(2) show ?thesis by (auto simp: t)
  qed (use e in \<open>auto simp: t\<close>)
qed

section \<open>The invariant\<close>

definition delivered :: "follower \<Rightarrow> nat set" where
  "delivered f = pe_seq ` set (fo_out f)"

definition upcoming :: "follower \<Rightarrow> event list" where
  "upcoming f = (case fo_phase f of Yielding es _ \<Rightarrow> es | _ \<Rightarrow> [])"

text \<open>The generator has read the end of the log since it last looked at the latch.\<close>

definition settled :: "follower \<Rightarrow> bool" where
  "settled f \<longleftrightarrow> fo_observed f = fo_generation f \<and>
     (case fo_phase f of Yielding _ full \<Rightarrow> \<not> full | Deciding \<Rightarrow> \<not> fo_aborted f | Waiting \<Rightarrow> True | _ \<Rightarrow> False)"

definition in_order :: "int \<Rightarrow> follower \<Rightarrow> bool" where
  "in_order c f \<longleftrightarrow> c \<le> fo_seq f \<and> sorted_wrt (<) (map pe_seq (fo_out f) @ map e_seq (upcoming f)) \<and>
     (\<forall>p \<in> set (fo_out f). pe_threadId p = fo_thread f \<and> c < int (pe_seq p) \<and> int (pe_seq p) \<le> fo_seq f) \<and>
     (\<forall>e \<in> set (upcoming f). e_threadId e = fo_thread f \<and> fo_seq f < int (e_seq e))"

definition horizon :: "follower \<Rightarrow> int" where
  "horizon f = (if upcoming f = [] then fo_seq f else int (e_seq (last (upcoming f))))"

definition no_gap :: "int \<Rightarrow> int \<Rightarrow> db \<Rightarrow> follower \<Rightarrow> bool" where
  "no_gap c hi s f \<longleftrightarrow> (\<forall>k. (fo_thread f, k) \<in> set (event_keys s) \<and> c < int k \<and> int k \<le> hi \<longrightarrow>
     k \<in> delivered f \<union> e_seq ` set (upcoming f))"

definition follow_inv :: "int \<Rightarrow> db \<times> nat \<times> follower \<Rightarrow> bool" where
  "follow_inv c = (\<lambda>(s, n, f). consistent s \<and> in_order c f \<and>
     n \<le> next_of th_nextEventSeq s (fo_thread f) \<and> horizon f < int (next_of th_nextEventSeq s (fo_thread f)) \<and>
     no_gap c (horizon f) s f \<and> fo_observed f \<le> fo_generation f \<and>
     (fo_phase f = Waiting \<longrightarrow> fo_observed f = fo_generation f) \<and>
     (settled f \<longrightarrow> no_gap c (int n - 1) s f))"

lemma no_gap_step:
  assumes "log_step event_keys th_nextEventSeq s s'" and "log_inv event_keys th_nextEventSeq s"
    and "hi < int (next_of th_nextEventSeq s (fo_thread f))" and "no_gap c hi s f"
  shows "no_gap c hi s' f"
  using assms unfolding no_gap_def log_step_def by fastforce

lemma follow_inv_others:
  assumes "reaches s s'" and "follow_inv c (s, n, f)"
  shows "follow_inv c (s', n, f)"
proof -
  from assms(2) have c: "consistent s" by (simp add: follow_inv_def)
  have st: "log_step event_keys th_nextEventSeq s s'" using reaches_step [OF assms(1)] by (simp add: db_step_def)
  have li: "log_inv event_keys th_nextEventSeq s" using c by (simp add: consistent_def)
  have mono: "next_of th_nextEventSeq s tid \<le> next_of th_nextEventSeq s' tid" for tid
    using st li by (simp add: log_step_def)
  have "consistent s'" by (rule step_consistent [OF reaches_step [OF assms(1)] c])
  with assms(2) mono [of "fo_thread f"] show ?thesis
    by (auto simp: follow_inv_def intro: no_gap_step [OF st li])
qed

lemma upcoming_phase [simp]:
  "upcoming (f\<lparr>fo_phase := Yielding es full\<rparr>) = es"
  "upcoming (f\<lparr>fo_phase := Starting\<rparr>) = []" "upcoming (f\<lparr>fo_phase := Reading\<rparr>) = []"
  "upcoming (f\<lparr>fo_phase := Deciding\<rparr>) = []" "upcoming (f\<lparr>fo_phase := Waiting\<rparr>) = []"
  "upcoming (f\<lparr>fo_phase := Closed\<rparr>) = []"
  by (simp_all add: upcoming_def)

lemma follow_inv_read:
  assumes inv: "follow_inv c (s, n, f)" and p: "fo_phase f = Reading"
  shows "follow_inv c (s, n, follow_move s f)"
proof -
  let ?b = "eventsAfter (fo_thread f) (fo_seq f) (Some EVENT_BATCH_SIZE) s"
  let ?N = "next_of th_nextEventSeq s (fo_thread f)"
  let ?f = "f\<lparr>fo_phase := Yielding ?b (length ?b = EVENT_BATCH_SIZE)\<rparr>"
  have m: "follow_move s f = ?f" by (simp add: follow_move_def p Let_def)
  have u: "upcoming f = []" by (simp add: upcoming_def p)
  have d: "distinct (event_keys s)" and below: "\<And>k. (fo_thread f, k) \<in> set (event_keys s) \<Longrightarrow> k < ?N"
    using inv by (auto simp: follow_inv_def consistent_def log_inv_def)
  have row: "e_threadId e = fo_thread f" "fo_seq f < int (e_seq e)" "e_seq e < ?N" if "e \<in> set ?b" for e
  proof -
    note e = eventsAfter_row [OF that]
    then have "(fo_thread f, e_seq e) \<in> set (event_keys s)" by (auto simp: event_keys_def intro: rev_image_eqI)
    with e below show "e_threadId e = fo_thread f" "fo_seq f < int (e_seq e)" "e_seq e < ?N" by blast+
  qed
  have "in_order c ?f"
    using inv row(1,2) eventsAfter_sorted [OF d] unfolding follow_inv_def in_order_def
    by (fastforce simp: u sorted_wrt_append)
  moreover have "horizon ?f < int ?N"
    using inv row(3) [OF last_in_set] by (auto simp: follow_inv_def horizon_def u)
  moreover have cover: "k \<in> delivered ?f \<union> e_seq ` set (upcoming ?f)"
    if "(fo_thread f, k) \<in> set (event_keys s)" "c < int k" "length ?b = EVENT_BATCH_SIZE \<Longrightarrow> k \<le> e_seq (last ?b)" for k
  proof (cases "int k \<le> fo_seq f")
    case True
    with inv that(1,2) show ?thesis by (auto simp: follow_inv_def no_gap_def horizon_def u delivered_def)
  next
    case False
    then show ?thesis using eventsAfter_all [OF d that(1) _ _ that(3)] by (simp add: EVENT_BATCH_SIZE_def)
  qed
  have "no_gap c (horizon ?f) s ?f"
    unfolding no_gap_def using cover below by (auto simp: horizon_def EVENT_BATCH_SIZE_def split: if_splits)
  moreover have "settled ?f \<Longrightarrow> no_gap c (int n - 1) s ?f"
    unfolding no_gap_def using cover by (auto simp: settled_def)
  ultimately show ?thesis using inv unfolding m follow_inv_def by simp
qed

lemma follow_inv_yield:
  assumes inv: "follow_inv c (s, n, f)" and p: "fo_phase f = Yielding es full"
  shows "follow_inv c (s, n, follow_move s f)"
proof (cases es)
  case Nil
  with inv p show ?thesis
    by (auto simp: follow_inv_def follow_move_def in_order_def no_gap_def horizon_def settled_def upcoming_def
        delivered_def split: if_splits)
next
  case (Cons e es')
  let ?f = "f\<lparr>fo_seq := int (e_seq e), fo_out := fo_out f @ [mapProductEvent e], fo_phase := Yielding es' full\<rparr>"
  have m: "follow_move s f = ?f" by (simp add: follow_move_def p Cons)
  have u: "upcoming f = e # es'" "upcoming ?f = es'" by (simp_all add: upcoming_def p Cons)
  have d: "k \<in> delivered ?f \<or> k \<in> e_seq ` set es' \<longleftrightarrow> k \<in> delivered f \<or> k \<in> e_seq ` set (upcoming f)" for k
    by (auto simp: delivered_def u mapProductEvent_def)
  have h: "horizon ?f = horizon f" by (simp add: horizon_def u)
  have "in_order c ?f"
    using inv unfolding follow_inv_def in_order_def
    by (auto simp: u mapProductEvent_def sorted_wrt_append)
  moreover have "settled ?f = settled f" by (simp add: settled_def p)
  ultimately show ?thesis using inv unfolding m follow_inv_def by (simp add: no_gap_def d u(2) h p)
qed

lemma follow_inv_move:
  assumes "follow_inv c (s, n, f)"
  shows "follow_inv c (s, n, follow_move s f)"
proof (cases "fo_phase f")
  case Reading
  with assms show ?thesis by (rule follow_inv_read)
next
  case (Yielding es full)
  with assms show ?thesis by (rule follow_inv_yield)
qed (use assms in \<open>auto simp: follow_inv_def follow_move_def in_order_def no_gap_def horizon_def settled_def
    upcoming_def delivered_def split: if_splits\<close>)

text \<open>What the latch, the timer and the consumer change is not what was read.\<close>

lemma follow_inv_wake:
  assumes "follow_inv c (s, n, f)"
  shows "follow_inv c (s, n, latch_finish f)"
  using assms by (auto simp: follow_inv_def latch_finish_def in_order_def no_gap_def horizon_def settled_def
      upcoming_def delivered_def)

lemma follow_inv_notify:
  assumes "follow_inv c (s, n, f)"
  shows "follow_inv c (s, next_of th_nextEventSeq s (fo_thread f), latch_notify f)"
  using assms by (auto simp: follow_inv_def latch_notify_def latch_finish_def in_order_def no_gap_def horizon_def
      settled_def upcoming_def delivered_def split: follow_phase.split)

lemma follow_inv_abort:
  assumes "follow_inv c (s, n, f)"
  shows "follow_inv c (s, n, abort_follower f)"
  using assms by (auto simp: follow_inv_def abort_follower_def latch_finish_def in_order_def no_gap_def horizon_def
      settled_def upcoming_def delivered_def split: follow_phase.split)

lemma follow_inv_stop:
  assumes inv: "follow_inv c (s, n, f)"
  shows "follow_inv c (s, n, f\<lparr>fo_phase := Closed\<rparr>)"
proof -
  let ?f = "f\<lparr>fo_phase := Closed\<rparr>"
  have h: "fo_seq f \<le> horizon f"
    using inv last_in_set [of "upcoming f"] by (fastforce simp: follow_inv_def in_order_def horizon_def)
  have "no_gap c (fo_seq f) s ?f"
    using inv h unfolding no_gap_def follow_inv_def in_order_def by (fastforce simp: delivered_def)
  moreover have "in_order c ?f"
    using inv by (simp add: follow_inv_def in_order_def sorted_wrt_append)
  ultimately show ?thesis using inv h by (auto simp: follow_inv_def horizon_def settled_def)
qed

lemma follow_inv_step: "follows x y \<Longrightarrow> follow_inv c x \<Longrightarrow> follow_inv c y"
  by (induction rule: follows.induct)
    (blast intro: follow_inv_others follow_inv_move follow_inv_wake follow_inv_notify follow_inv_abort follow_inv_stop)+

lemma follows_inv: "follows\<^sup>*\<^sup>* x y \<Longrightarrow> follow_inv c x \<Longrightarrow> follow_inv c y"
  by (induction rule: rtranclp_induct) (auto intro: follow_inv_step)

lemma follow_inv_start:
  assumes "consistent s" and "c < int (next_of th_nextEventSeq s tid)" and "n \<le> next_of th_nextEventSeq s tid"
  shows "follow_inv c (s, n, start_follower tid c)"
  using assms by (auto simp: follow_inv_def in_order_def start_follower_def upcoming_def horizon_def no_gap_def settled_def)

lemma follows_thread: "follows\<^sup>*\<^sup>* x y \<Longrightarrow> fo_thread (snd (snd y)) = fo_thread (snd (snd x))"
proof (induction rule: rtranclp_induct)
  case (step y z)
  have "fo_thread (snd (snd z)) = fo_thread (snd (snd y))"
    using step(2) by (induction rule: follows.induct)
      (auto simp: follow_move_def Let_def latch_finish_def latch_notify_def abort_follower_def
        split: follow_phase.split list.split)
  with step show ?case by simp
qed simp

text \<open>
  C31. A follower shows the log: whatever happens between its statements, the events it has handed
  out are of its thread, in strictly increasing order, each once, and beyond the client's cursor
  none of the events that are in the log up to its position is missing.
\<close>

theorem follower_sees_the_log:
  assumes "consistent s0" and "c < int (next_of th_nextEventSeq s0 tid)"
    and "follows\<^sup>*\<^sup>* (s0, 0, start_follower tid c) (s, n, f)"
  shows "sorted_wrt (<) (map pe_seq (fo_out f)) \<and>
    (\<forall>p \<in> set (fo_out f). pe_threadId p = tid \<and> c < int (pe_seq p) \<and> int (pe_seq p) \<le> fo_seq f) \<and>
    (\<forall>k. (tid, k) \<in> set (event_keys s) \<and> c < int k \<and> int k \<le> fo_seq f \<longrightarrow> k \<in> pe_seq ` set (fo_out f))"
proof -
  have inv: "follow_inv c (s, n, f)"
    using follows_inv [OF assms(3)] follow_inv_start [OF assms(1,2)] by simp
  have tid: "fo_thread f = tid" using follows_thread [OF assms(3)] by (simp add: start_follower_def)
  have "follow_inv c (s, n, f\<lparr>fo_phase := Closed\<rparr>)" by (rule follow_inv_stop [OF inv])
  then show ?thesis
    by (auto simp: follow_inv_def in_order_def no_gap_def horizon_def delivered_def tid)
qed


section \<open>Catching up ends\<close>

lemma follow_drain:
  assumes "fo_phase f = Yielding es full"
  shows "(follow_move s ^^ length es) f = f\<lparr>fo_seq := (if es = [] then fo_seq f else int (e_seq (last es))),
     fo_out := fo_out f @ map mapProductEvent es, fo_phase := Yielding [] full\<rparr>"
  using assms
proof (induction es arbitrary: f)
  case (Cons e es)
  then show ?case
    by (simp add: funpow_Suc_right follow_move_def del: funpow.simps)
qed simp

lemma eventsAfter_later:
  assumes "c \<le> c'"
  shows "eventsAfter tid c' None s = filter (\<lambda>e. c' < int (e_seq e)) (eventsAfter tid c None s)"
  using assms by (simp add: eventsAfter_def filter_sort) (metis (mono_tags, lifting) dual_order.strict_trans2)

lemma eventsAfter_rest:
  assumes "distinct (event_keys s)" and "length (take n (eventsAfter tid c None s)) = n" and "n > 0"
  shows "eventsAfter tid (int (e_seq (last (take n (eventsAfter tid c None s))))) None s = drop n (eventsAfter tid c None s)"
proof -
  let ?L = "eventsAfter tid c None s"
  let ?b = "take n ?L"
  have ne: "?b \<noteq> []" using assms(2,3) by auto
  have srt: "sorted_wrt (<) (map e_seq ?b @ map e_seq (drop n ?L))"
    using eventsAfter_sorted [OF assms(1), of tid c None] by (simp flip: map_append)
  then have b: "e_seq e \<le> e_seq (last ?b)" if "e \<in> set ?b" for e
    using that by (intro sorted_last strict_sorted_imp_sorted) (simp_all add: sorted_wrt_append)
  have r: "e_seq (last ?b) < e_seq e" if "e \<in> set (drop n ?L)" for e
    using srt that last_in_set [OF ne] by (auto simp: sorted_wrt_append)
  have "c \<le> int (e_seq (last ?b))"
    using eventsAfter_row [OF in_set_takeD [OF last_in_set [OF ne]]] by simp
  from eventsAfter_later [OF this] have "eventsAfter tid (int (e_seq (last ?b))) None s =
      filter (\<lambda>e. e_seq (last ?b) < e_seq e) (?b @ drop n ?L)" by simp
  also have "\<dots> = [] @ drop n ?L"
    unfolding filter_append using b r
    by (intro arg_cong2 [where f = append]) (simp_all only: filter_empty_conv linorder_not_less filter_id_conv, blast+)
  finally show ?thesis by simp
qed

text \<open>The number of statements from the read to the sleep, with \<open>m\<close> events to come.\<close>

definition catch_up_steps :: "nat \<Rightarrow> nat" where
  "catch_up_steps m = m + 2 * (m div EVENT_BATCH_SIZE + 1) + 1"

lemma catch_up_steps_batch: "catch_up_steps (EVENT_BATCH_SIZE + k) = catch_up_steps k + Suc (Suc EVENT_BATCH_SIZE)"
  using div_add_self1 [of EVENT_BATCH_SIZE k] by (simp add: catch_up_steps_def) (simp add: EVENT_BATCH_SIZE_def)

definition caught_up :: "db \<Rightarrow> follower \<Rightarrow> follower \<Rightarrow> bool" where
  "caught_up s f g \<longleftrightarrow> fo_phase g = Waiting \<and>
     fo_out g = fo_out f @ map mapProductEvent (eventsAfter (fo_thread f) (fo_seq f) None s)"

lemma catch_up_from_read:
  assumes "distinct (event_keys s)" and "\<not> fo_aborted f" and "fo_generation f = fo_observed f"
    and "fo_phase f = Reading"
  shows "caught_up s f ((follow_move s ^^ catch_up_steps (length (eventsAfter (fo_thread f) (fo_seq f) None s))) f)"
  using assms(2-)
proof (induction "length (eventsAfter (fo_thread f) (fo_seq f) None s)" arbitrary: f rule: less_induct)
  case less
  let ?L = "eventsAfter (fo_thread f) (fo_seq f) None s"
  let ?b = "take EVENT_BATCH_SIZE ?L"
  define full where "full \<longleftrightarrow> length ?b = EVENT_BATCH_SIZE"
  have bat: "eventsAfter (fo_thread f) (fo_seq f) (Some EVENT_BATCH_SIZE) s = ?b"
    by (simp add: eventsAfter_def EVENT_BATCH_SIZE_def)
  define g where "g = f\<lparr>fo_seq := (if ?b = [] then fo_seq f else int (e_seq (last ?b))),
     fo_out := fo_out f @ map mapProductEvent ?b, fo_phase := Yielding [] full\<rparr>"
  have "follow_move s f = f\<lparr>fo_phase := Yielding ?b full\<rparr>"
    using less.prems(3) by (simp add: follow_move_def Let_def bat full_def)
  then have g: "(follow_move s ^^ Suc (length ?b)) f = g"
    using follow_drain [of "f\<lparr>fo_phase := Yielding ?b full\<rparr>" ?b full s]
    by (simp only: funpow_Suc_right comp_def) (simp add: g_def)
  show ?case
  proof (cases full)
    case True
    then have lb: "length ?b = EVENT_BATCH_SIZE" by (simp add: full_def)
    then have ne: "?b \<noteq> []" by (auto simp: EVENT_BATCH_SIZE_def)
    define h where "h = g\<lparr>fo_phase := Reading\<rparr>"
    have rest: "eventsAfter (fo_thread h) (fo_seq h) None s = drop EVENT_BATCH_SIZE ?L"
      using eventsAfter_rest [OF assms(1) lb] ne by (simp add: h_def g_def EVENT_BATCH_SIZE_def)
    have short: "length (drop EVENT_BATCH_SIZE ?L) < length ?L"
      using lb by (simp add: EVENT_BATCH_SIZE_def)
    have "follow_move s g = h" using less.prems True by (simp add: h_def g_def follow_move_def)
    with g have h: "(follow_move s ^^ Suc (Suc (length ?b))) f = h" by simp
    have "caught_up s h ((follow_move s ^^ catch_up_steps (length (drop EVENT_BATCH_SIZE ?L))) h)"
      using less.hyps [of h] short less.prems by (simp only: rest) (simp add: h_def g_def)
    moreover have "catch_up_steps (length ?L) = catch_up_steps (length (drop EVENT_BATCH_SIZE ?L)) + Suc (Suc (length ?b))"
      using catch_up_steps_batch [of "length (drop EVENT_BATCH_SIZE ?L)"] lb by simp
    ultimately have "caught_up s h ((follow_move s ^^ catch_up_steps (length ?L)) f)"
      using h by (simp only: funpow_add comp_def)
    moreover have "fo_out h = fo_out f @ map mapProductEvent ?b" by (simp add: h_def g_def)
    ultimately show ?thesis
      unfolding caught_up_def rest by (metis append.assoc append_take_drop_id map_append)
  next
    case False
    then have b: "?b = ?L" "length ?L < EVENT_BATCH_SIZE" by (auto simp: full_def min_def split: if_splits)
    have "follow_move s (follow_move s g) = g\<lparr>fo_phase := Waiting\<rparr>"
      using less.prems False by (simp add: g_def follow_move_def)
    with g have "(follow_move s ^^ Suc (Suc (Suc (length ?b)))) f = g\<lparr>fo_phase := Waiting\<rparr>" by simp
    moreover have "catch_up_steps (length ?L) = Suc (Suc (Suc (length ?b)))"
      using b by (simp add: catch_up_steps_def)
    ultimately show ?thesis by (simp only: caught_up_def) (simp add: g_def b(1))
  qed
qed

text \<open>
  C33. Catching up ends: as long as nobody appends to the log, a follower at the head of its loop
  goes to sleep after a number of its own statements that is bounded by the number of events it
  still has to hand out, and by then it has handed out exactly these, in order.
\<close>

theorem catch_up_terminates:
  assumes "distinct (event_keys s)" and "fo_phase f = Starting" and "\<not> fo_aborted f"
  shows "caught_up s f
    ((follow_move s ^^ Suc (catch_up_steps (length (eventsAfter (fo_thread f) (fo_seq f) None s)))) f)"
proof -
  define h where "h = follow_move s f"
  have h: "h = f\<lparr>fo_observed := fo_generation f, fo_phase := Reading\<rparr>"
    using assms(2,3) by (simp add: h_def follow_move_def)
  have "caught_up s h ((follow_move s ^^ catch_up_steps (length (eventsAfter (fo_thread h) (fo_seq h) None s))) h)"
    using assms(3) by (intro catch_up_from_read [OF assms(1)]) (simp_all add: h)
  moreover have "caught_up s h g = caught_up s f g" for g by (simp add: caught_up_def h)
  ultimately show ?thesis by (simp add: funpow_Suc_right h del: funpow.simps flip: h_def)
qed

section \<open>Examples\<close>

definition sample_log :: db where
  "sample_log = snd (prog_tx (clearThread 7 ''e'' sample_clear) sample_db)"

definition sample_follower :: "nat \<Rightarrow> follower" where
  "sample_follower k = (follow_move sample_log ^^ k) (start_follower ''t'' (- 1))"

lemma sample_follows: "follows\<^sup>*\<^sup>* (sample_db, 0, start_follower ''t'' (- 1)) (sample_log, 0, sample_follower k)"
proof (induction k)
  case 0
  show ?case
    unfolding sample_log_def sample_follower_def
    by (simp add: r_into_rtranclp follows.others reaches.clear)
next
  case (Suc k)
  then show ?case
    by (rule rtranclp.rtrancl_into_rtrancl) (simp add: sample_follower_def follows.move)
qed

definition sample_event :: event where
  "sample_event = hd (db_events sample_log)"

lemma sample_reads:
  "eventsAfter ''t'' (- 1) (Some EVENT_BATCH_SIZE) sample_log = [sample_event]"
  "eventsAfter ''t'' 0 (Some EVENT_BATCH_SIZE) sample_log = []"
  by code_simp+

lemma sample_event_seq: "e_seq sample_event = 0" "event_keys sample_log = [(''t'', 0)]"
  by code_simp+

lemma sample_catches_up:
  assumes "fo_phase f = Starting" and "\<not> fo_aborted f" and "fo_thread f = ''t''"
  shows "fo_seq f = - 1 \<Longrightarrow> (follow_move sample_log ^^ 5) f = f\<lparr>fo_observed := fo_generation f, fo_seq := 0,
      fo_out := fo_out f @ [mapProductEvent sample_event], fo_phase := Waiting\<rparr>"
    and "fo_seq f = 0 \<Longrightarrow> (follow_move sample_log ^^ 4) f = f\<lparr>fo_observed := fo_generation f, fo_phase := Waiting\<rparr>"
  using assms sample_event_seq(1)
  by (simp_all add: eval_nat_numeral follow_move_def Let_def sample_reads) (simp_all add: EVENT_BATCH_SIZE_def)

lemma sample_five: "sample_follower 5 = (start_follower ''t'' (- 1))\<lparr>fo_seq := 0,
    fo_out := [mapProductEvent sample_event], fo_phase := Waiting\<rparr>"
  using sample_catches_up(1) [of "start_follower ''t'' (- 1)"]
  by (simp add: sample_follower_def start_follower_def)

definition sample_asleep :: follower where
  "sample_asleep = (follow_move sample_log ^^ 4) (latch_notify (sample_follower 5))"

lemma sample_asleep_is: "sample_asleep = (sample_follower 5)\<lparr>fo_generation := 1, fo_observed := 1\<rparr>"
  using sample_catches_up(2) [of "latch_notify (sample_follower 5)"]
  by (simp add: sample_asleep_def sample_five latch_notify_def latch_finish_def start_follower_def)

lemma sample_asleep_follows:
  "follows\<^sup>*\<^sup>* (sample_db, 0, start_follower ''t'' (- 1)) (sample_log, 1, sample_asleep)"
proof -
  have "next_of th_nextEventSeq sample_log ''t'' = 1" by code_simp
  then have n: "follows (sample_log, 0, sample_follower 5) (sample_log, 1, latch_notify (sample_follower 5))"
    using follows.notify [of sample_log 0 "sample_follower 5"] by (simp add: sample_five start_follower_def)
  have "follows\<^sup>*\<^sup>* (sample_log, 1, g) (sample_log, 1, (follow_move sample_log ^^ k) g)" for g k
    by (induction k) (auto intro: rtranclp.rtrancl_into_rtrancl follows.move)
  with n show ?thesis
    unfolding sample_asleep_def using sample_follows [of 5] by (meson rtranclp.rtrancl_into_rtrancl rtranclp_trans)
qed

theorem follower_sees_the_log_witness:
  "map pe_seq (fo_out (sample_follower 5)) = [0] \<and> sorted_wrt (<) (map pe_seq (fo_out (sample_follower 5)))"
proof
  show "map pe_seq (fo_out (sample_follower 5)) = [0]"
    by (simp add: sample_five mapProductEvent_def sample_event_seq)
  have "- 1 < int (next_of th_nextEventSeq sample_db ''t'')" by simp
  from follower_sees_the_log [OF sample_consistent this sample_follows]
  show "sorted_wrt (<) (map pe_seq (fo_out (sample_follower 5)))" by (rule conjunct1)
qed


theorem catch_up_terminates_witness: "caught_up sample_log (sample_follower 0) (sample_follower 5)"
proof -
  have "distinct (event_keys sample_log)" by (simp add: sample_event_seq)
  from catch_up_terminates [OF this, of "sample_follower 0"]
  have "caught_up sample_log (sample_follower 0) ((follow_move sample_log ^^ Suc (catch_up_steps
      (length (eventsAfter ''t'' (- 1) None sample_log)))) (sample_follower 0))"
    by (simp add: sample_follower_def start_follower_def del: funpow.simps)
  moreover have "Suc (catch_up_steps (length (eventsAfter ''t'' (- 1) None sample_log))) = 5" by code_simp
  ultimately show ?thesis by (simp add: sample_follower_def)
qed

end
