(* ===== verification/Brandwell.thy ===== *)
theory Brandwell
  imports RunExecutor GroupMentions
begin

text \<open>
  The managed side of the product (packages/brandwell): the tables that bind a workspace to its
  customer, its service identity, its model credentials and its cancellation, beside the
  database of the runs. Columns that no modelled handler reads or writes are left out.
\<close>

record ai_workspace =
  aw_id :: string
  aw_brandwellCustomerId :: string
  aw_rakazoWorkspaceId :: string
  aw_serviceIdentityId :: "string option"
  aw_openRouterCredentialId :: "string option"
  aw_subscriptionStatus :: string
  aw_retentionEndsAt :: "time option"
  aw_canceledAt :: "time option"

record service_identity_row =
  si_id :: string
  si_workspaceId :: string
  si_status :: string

text \<open>
  One record for the two tables of model credentials: \<open>mc_sidekickId\<close> is \<open>None\<close> in the table of
  workspaces.
\<close>

record model_credential =
  mc_id :: string
  mc_sidekickId :: "string option"
  mc_workspaceId :: string
  mc_serviceIdentityId :: string
  mc_provider :: string
  mc_secretId :: string
  mc_externalKeyHash :: "string option"
  mc_status :: string
  mc_monthlyLimitMicros :: int
  mc_dailyLimitMicros :: "int option"
  mc_warningLimitMicros :: int
  mc_currentUsageMicros :: int
  mc_preferredModel :: string
  mc_computerModel :: "string option"
  mc_lightweightModel :: "string option"
  mc_reasoningModel :: "string option"
  mc_fallbackModels :: json
  mc_modelCatalog :: json
  mc_maxTokens :: "int option"
  mc_thinkingLevel :: "string option"
  mc_disabledAt :: "time option"

record sidekick =
  sk_id :: string
  sk_workspaceId :: string
  sk_botId :: "string option"
  sk_status :: string

datatype event_status = EventPending | EventRunning | EventCompleted | EventFailed

record cancellation_event =
  ce_workspaceId :: string
  ce_stage :: string
  ce_reason :: "string option"
  ce_status :: event_status
  ce_leaseOwner :: "string option"
  ce_leaseExpiresAt :: "time option"
  ce_lastError :: "string option"
  ce_scheduledAt :: "time option"
  ce_executedAt :: "time option"

record connection =
  cn_id :: string
  cn_workspaceId :: string
  cn_status :: string
  cn_providerRef :: "string option"
  cn_secretId :: "string option"

record audit_log =
  al_workspaceId :: string
  al_action :: string
  al_resourceId :: string

text \<open>
  The calls that leave the system: keys of the model provider that are switched off or deleted,
  and computers that are suspended or destroyed at theirs, in order.
\<close>

datatype provider_call = DisableKey string | DeleteKey string | SuspendComputer string | DestroyComputer string

record bw =
  bw_db :: db
  bw_workspaces :: "ai_workspace list"
  bw_identities :: "service_identity_row list"
  bw_credentials :: "model_credential list"
  bw_sidekickCredentials :: "model_credential list"
  bw_sidekicks :: "sidekick list"
  bw_cancellations :: "cancellation_event list"
  bw_connections :: "connection list"
  bw_audit :: "audit_log list"
  bw_calls :: "provider_call list"

definition empty_bw :: bw where
  "empty_bw = \<lparr>bw_db = empty_db, bw_workspaces = [], bw_identities = [], bw_credentials = [],
     bw_sidekickCredentials = [], bw_sidekicks = [], bw_cancellations = [], bw_connections = [],
     bw_audit = [], bw_calls = []\<rparr>"

end
