(* ===== verification/ManagedModels.thy ===== *)
theory ManagedModels
  imports Brandwell EffectGate
begin

text \<open>
  Which model a managed run may use, and whether it may run at all: the choice from a credential
  (packages/brandwell/src/model-routing.ts) and the checks before it
  (packages/brandwell/src/runtime-model-resolver.ts). The resolver is what the executor of
  \<open>RunExecutor\<close> takes as its parameter.
\<close>

section \<open>resolveModelConfig\<close>

datatype workload = GeneralLoad | ComputerLoad | LightweightLoad | ReasoningLoad

datatype disabled_reason = CredentialDisabled | MonthlyLimit | DailyLimit

record cost_policy =
  cp_monthlyLimitMicros :: int
  cp_dailyLimitMicros :: "int option"
  cp_currentUsageMicros :: int
  cp_warningExceeded :: bool

record resolved_model =
  rm_provider :: string
  rm_model :: string
  rm_credentialRef :: string
  rm_maxTokens :: "int option"
  rm_thinkingLevel :: "string option"
  rm_fallbackModels :: "string list"
  rm_fallbackMetadata :: "(string \<times> json) list"
  rm_modelMetadata :: "json option"
  rm_costPolicy :: cost_policy

definition modelCatalogEntry :: "json \<Rightarrow> string \<Rightarrow> json option" where
  "modelCatalogEntry catalog modelId = (case json_get catalog modelId of
     Some (JObj entry) \<Rightarrow>
       if map_of entry ''id'' = Some (JStr modelId) \<and>
         (case map_of entry ''name'' of Some (JStr name) \<Rightarrow> True | _ \<Rightarrow> False)
       then Some (JObj entry) else None
   | _ \<Rightarrow> None)"

text \<open>Falsy values of an optional number are left out.\<close>

definition truthy_int :: "int option \<Rightarrow> int option" where
  "truthy_int v = (case v of None \<Rightarrow> None | Some n \<Rightarrow> if n = 0 then None else Some n)"

definition truthy_string :: "string option \<Rightarrow> string option" where
  "truthy_string v = (case v of None \<Rightarrow> None | Some t \<Rightarrow> if t = [] then None else Some t)"

definition workload_override :: "model_credential \<Rightarrow> workload \<Rightarrow> string option" where
  "workload_override c load = (case load of
     ComputerLoad \<Rightarrow> mc_computerModel c | LightweightLoad \<Rightarrow> mc_lightweightModel c
   | ReasoningLoad \<Rightarrow> mc_reasoningModel c | GeneralLoad \<Rightarrow> None)"

definition chosen_model :: "model_credential \<Rightarrow> workload \<Rightarrow> string" where
  "chosen_model c load = (case truthy_string (map_option js_trim (workload_override c load)) of
     Some model \<Rightarrow> model | None \<Rightarrow> mc_preferredModel c)"

text \<open>The strings of a JSON list that are not empty.\<close>

definition stringArray :: "json \<Rightarrow> string list" where
  "stringArray j = (case j of
     JArr xs \<Rightarrow> concat (map (\<lambda>x. case x of JStr t \<Rightarrow> if t = [] then [] else [t] | _ \<Rightarrow> []) xs) | _ \<Rightarrow> [])"

definition fallback_models :: "model_credential \<Rightarrow> string \<Rightarrow> string list" where
  "fallback_models c model =
     foldl js_set_add [] (filter (\<lambda>m. m \<noteq> model) (stringArray (mc_fallbackModels c)))"

definition budget_block :: "model_credential \<Rightarrow> int \<Rightarrow> disabled_reason option" where
  "budget_block c dailyUsage =
     (if mc_status c \<noteq> ''active'' \<or> mc_disabledAt c \<noteq> None then Some CredentialDisabled
      else if mc_monthlyLimitMicros c > 0 \<and> mc_currentUsageMicros c \<ge> mc_monthlyLimitMicros c then Some MonthlyLimit
      else case mc_dailyLimitMicros c of
          Some limit \<Rightarrow> if limit > 0 \<and> dailyUsage \<ge> limit then Some DailyLimit else None
        | None \<Rightarrow> None)"

definition resolveModelConfig :: "model_credential \<Rightarrow> int \<Rightarrow> workload \<Rightarrow> disabled_reason + resolved_model" where
  "resolveModelConfig c dailyUsage load = (case budget_block c dailyUsage of
     Some reason \<Rightarrow> Inl reason
   | None \<Rightarrow>
       let model = chosen_model c load; fallbackModels = fallback_models c model in
       Inr \<lparr>rm_provider = mc_provider c, rm_model = model, rm_credentialRef = mc_secretId c,
         rm_maxTokens = truthy_int (mc_maxTokens c), rm_thinkingLevel = truthy_string (mc_thinkingLevel c),
         rm_fallbackModels = fallbackModels,
         rm_fallbackMetadata = concat (map (\<lambda>m. case modelCatalogEntry (mc_modelCatalog c) m of
           None \<Rightarrow> [] | Some entry \<Rightarrow> [(m, entry)]) fallbackModels),
         rm_modelMetadata = modelCatalogEntry (mc_modelCatalog c) model,
         rm_costPolicy = \<lparr>cp_monthlyLimitMicros = mc_monthlyLimitMicros c,
           cp_dailyLimitMicros = truthy_int (mc_dailyLimitMicros c),
           cp_currentUsageMicros = mc_currentUsageMicros c,
           cp_warningExceeded = (mc_warningLimitMicros c > 0 \<and> mc_currentUsageMicros c \<ge> mc_warningLimitMicros c)\<rparr>\<rparr>)"

section \<open>resolveBrandwellManagedModel\<close>

datatype block_reason = UnmanagedBot | BotPaused | WorkspaceInactive | ServiceIdentityMissing
  | ServiceIdentityInactive | CredentialMissing | CredentialScopeMismatch

text \<open>The two errors that carry \<open>managedRunBlocked\<close>.\<close>

datatype managed_error = RunBlocked block_reason | InferenceDisabled disabled_reason

record model_scope =
  ms_workspaceId :: string
  ms_botId :: "string option"
  ms_workload :: "workload option"

record managed_model =
  mm_provider :: string
  mm_id :: string
  mm_secretId :: string
  mm_serviceIdentityId :: string
  mm_thinkingLevel :: "string option"
  mm_maxTokens :: "int option"
  mm_fallbackModels :: "string list"
  mm_fallbackMetadata :: "(string \<times> json) list"
  mm_modelMetadata :: "json option"
  mm_computerModel :: "string option"
  mm_computerMetadata :: "json option"
  mm_warningExceeded :: bool

definition utc_day_start :: "time \<Rightarrow> time" where
  "utc_day_start now = now - now mod 86400000"

text \<open>The day's usage is only summed up where a daily limit asks for it.\<close>

definition daily_usage :: "time \<Rightarrow> string \<Rightarrow> string \<Rightarrow> string option \<Rightarrow> model_credential \<Rightarrow> bw \<Rightarrow> int" where
  "daily_usage now workspaceId identity onlyBot c b = (case mc_dailyLimitMicros c of
     Some limit \<Rightarrow>
       if limit > 0 then sum_list (map us_costMicros (filter (\<lambda>u. us_workspaceId u = workspaceId \<and>
           us_serviceIdentityId u = Some identity \<and> (onlyBot \<noteq> None \<longrightarrow> us_botId u = onlyBot) \<and>
           us_createdAt u \<ge> utc_day_start now) (db_usage (bw_db b))))
       else 0
   | None \<Rightarrow> 0)"

definition ACTIVE_SUBSCRIPTIONS :: "string list" where
  "ACTIVE_SUBSCRIPTIONS = [''active'', ''trialing'']"

text \<open>Whose credential it is: the Sidekick's own where the bot is a Sidekick's, else the workspace's.\<close>

definition ownership_matches ::
  "string \<Rightarrow> string \<Rightarrow> ai_workspace \<Rightarrow> sidekick option \<Rightarrow> model_credential \<Rightarrow> bool" where
  "ownership_matches workspaceId identity mapping sk c \<longleftrightarrow>
     (let shared = mc_workspaceId c = workspaceId \<and> mc_serviceIdentityId c = identity \<and>
        (\<not> truthy (aw_serviceIdentityId mapping) \<or> aw_serviceIdentityId mapping = Some identity) in
      case sk of
        Some k \<Rightarrow> shared \<and> sk_workspaceId k = workspaceId \<and> sk_status k = ''active'' \<and>
          mc_sidekickId c = Some (sk_id k)
      | None \<Rightarrow> shared \<and> (\<not> truthy (aw_openRouterCredentialId mapping) \<or>
          aw_openRouterCredentialId mapping = Some (mc_id c)))"

definition managed_answer ::
  "model_credential \<Rightarrow> string \<Rightarrow> int \<Rightarrow> workload option \<Rightarrow> managed_error + managed_model option" where
  "managed_answer c identity dailyUsage load =
     (case resolveModelConfig c dailyUsage (case load of None \<Rightarrow> GeneralLoad | Some l \<Rightarrow> l) of
        Inl e \<Rightarrow> Inl (InferenceDisabled e)
      | Inr resolved \<Rightarrow>
          case (if truthy (mc_computerModel c) then map_sum id Some (resolveModelConfig c dailyUsage ComputerLoad)
                else Inr None) of
            Inl e \<Rightarrow> Inl (InferenceDisabled e)
          | Inr computer \<Rightarrow>
              Inr (Some \<lparr>mm_provider = rm_provider resolved, mm_id = rm_model resolved,
                mm_secretId = rm_credentialRef resolved, mm_serviceIdentityId = identity,
                mm_thinkingLevel = rm_thinkingLevel resolved, mm_maxTokens = rm_maxTokens resolved,
                mm_fallbackModels = rm_fallbackModels resolved, mm_fallbackMetadata = rm_fallbackMetadata resolved,
                mm_modelMetadata = rm_modelMetadata resolved,
                mm_computerModel = map_option rm_model computer,
                mm_computerMetadata = Option.bind computer rm_modelMetadata,
                mm_warningExceeded = cp_warningExceeded (rm_costPolicy resolved)\<rparr>))"

text \<open>
  The resolver reads at several moments: \<open>view i\<close> is the database at its \<open>i\<close>-th read. Without a
  bot, and for a bot of a workspace nobody manages, it answers \<open>None\<close>.
\<close>

definition credential_checks ::
  "(nat \<Rightarrow> bw) \<Rightarrow> time \<Rightarrow> model_scope \<Rightarrow> string \<Rightarrow> string \<Rightarrow> managed_error + managed_model option" where
  "credential_checks view now sc botId identity =
     (let workspaceId = ms_workspaceId sc;
          sk = find (\<lambda>k. sk_botId k = Some botId) (bw_sidekicks (view 4));
          credential = (case sk of
            Some k \<Rightarrow> find (\<lambda>c. mc_sidekickId c = Some (sk_id k)) (bw_sidekickCredentials (view 4))
          | None \<Rightarrow> find (\<lambda>c. mc_workspaceId c = workspaceId) (bw_credentials (view 3))) in
      case find (\<lambda>w. aw_rakazoWorkspaceId w = workspaceId) (bw_workspaces (view 1)) of
        None \<Rightarrow> Inl (RunBlocked WorkspaceInactive)
      | Some mapping \<Rightarrow>
          if aw_subscriptionStatus mapping \<notin> set ACTIVE_SUBSCRIPTIONS then Inl (RunBlocked WorkspaceInactive)
          else if \<not> (case find (\<lambda>i. si_id i = identity) (bw_identities (view 2)) of
              None \<Rightarrow> False | Some i \<Rightarrow> si_workspaceId i = workspaceId \<and> si_status i = ''active'')
            then Inl (RunBlocked ServiceIdentityInactive)
          else case credential of
              None \<Rightarrow> Inl (RunBlocked CredentialMissing)
            | Some c \<Rightarrow>
                if \<not> ownership_matches workspaceId identity mapping sk c then Inl (RunBlocked CredentialScopeMismatch)
                else if \<not> list_ex (\<lambda>q. s_id q = mc_secretId c \<and> s_workspaceId q = workspaceId \<and>
                    s_ownerType q = ''service'' \<and> s_serviceIdentityId q = Some identity) (db_secrets (bw_db (view 5)))
                  then Inl (RunBlocked CredentialScopeMismatch)
                else managed_answer c identity
                  (daily_usage now workspaceId identity (if sk = None then None else Some botId) c (view 6))
                  (ms_workload sc))"

definition resolveBrandwellManagedModel ::
  "(nat \<Rightarrow> bw) \<Rightarrow> time \<Rightarrow> model_scope \<Rightarrow> managed_error + managed_model option" where
  "resolveBrandwellManagedModel view now sc =
     (case truthy_string (ms_botId sc) of None \<Rightarrow> Inr None
      | Some botId \<Rightarrow>
          (case find (\<lambda>b. b_id b = botId \<and> b_workspaceId b = ms_workspaceId sc) (db_bots (bw_db (view 0))) of
             None \<Rightarrow> Inr None
           | Some b \<Rightarrow>
               if \<not> b_managedByBrandWell b
               then if list_ex (\<lambda>w. aw_rakazoWorkspaceId w = ms_workspaceId sc) (bw_workspaces (view 1))
                 then Inl (RunBlocked UnmanagedBot) else Inr None
               else if b_managedStatus b \<noteq> ''active'' then Inl (RunBlocked BotPaused)
               else case truthy_string (b_serviceIdentityId b) of
                   None \<Rightarrow> Inl (RunBlocked ServiceIdentityMissing)
                 | Some identity \<Rightarrow> credential_checks view now sc botId identity))"

text \<open>The message of the error, and what the executor makes of the answer.\<close>

definition block_string :: "block_reason \<Rightarrow> string" where
  "block_string r = (case r of UnmanagedBot \<Rightarrow> ''unmanaged_bot'' | BotPaused \<Rightarrow> ''bot_paused''
   | WorkspaceInactive \<Rightarrow> ''workspace_inactive'' | ServiceIdentityMissing \<Rightarrow> ''service_identity_missing''
   | ServiceIdentityInactive \<Rightarrow> ''service_identity_inactive'' | CredentialMissing \<Rightarrow> ''credential_missing''
   | CredentialScopeMismatch \<Rightarrow> ''credential_scope_mismatch'')"

definition disabled_string :: "disabled_reason \<Rightarrow> string" where
  "disabled_string r = (case r of CredentialDisabled \<Rightarrow> ''credential_disabled''
   | MonthlyLimit \<Rightarrow> ''monthly_limit'' | DailyLimit \<Rightarrow> ''daily_limit'')"

definition managed_error_message :: "managed_error \<Rightarrow> string" where
  "managed_error_message e = (case e of
     RunBlocked r \<Rightarrow> ''BrandWell managed run is unavailable: '' @ block_string r
   | InferenceDisabled r \<Rightarrow> ''BrandWell managed inference is unavailable: '' @ disabled_string r)"

definition managed_resolver :: "(nat \<Rightarrow> bw) \<Rightarrow> time \<Rightarrow> (run \<Rightarrow> workload option) \<Rightarrow> run \<Rightarrow> resolution" where
  "managed_resolver view now load r =
     (case resolveBrandwellManagedModel view now
        \<lparr>ms_workspaceId = r_workspaceId r, ms_botId = Some (r_botId r), ms_workload = load r\<rparr> of
        Inl e \<Rightarrow> ResolveBlocked (managed_error_message e)
      | Inr None \<Rightarrow> Unmanaged
      | Inr (Some m) \<Rightarrow> Managed (mm_serviceIdentityId m))"

section \<open>Who may run\<close>

text \<open>What must hold of the rows for a bot to use a credential.\<close>

definition entitled ::
  "(nat \<Rightarrow> bw) \<Rightarrow> time \<Rightarrow> model_scope \<Rightarrow> bot \<Rightarrow> ai_workspace \<Rightarrow> service_identity_row \<Rightarrow> model_credential \<Rightarrow> bool" where
  "entitled view now sc b w i c \<longleftrightarrow>
     b \<in> set (db_bots (bw_db (view 0))) \<and> ms_botId sc = Some (b_id b) \<and> b_workspaceId b = ms_workspaceId sc \<and>
     b_managedByBrandWell b \<and> b_managedStatus b = ''active'' \<and>
     w \<in> set (bw_workspaces (view 1)) \<and> aw_rakazoWorkspaceId w = ms_workspaceId sc \<and>
     aw_subscriptionStatus w \<in> {''active'', ''trialing''} \<and>
     i \<in> set (bw_identities (view 2)) \<and> b_serviceIdentityId b = Some (si_id i) \<and>
     si_workspaceId i = ms_workspaceId sc \<and> si_status i = ''active'' \<and>
     (c \<in> set (bw_credentials (view 3)) \<and> (\<forall>k \<in> set (bw_sidekicks (view 4)). sk_botId k \<noteq> Some (b_id b)) \<or>
      c \<in> set (bw_sidekickCredentials (view 4)) \<and> (\<exists>k \<in> set (bw_sidekicks (view 4)). sk_botId k = Some (b_id b) \<and>
        sk_status k = ''active'' \<and> sk_workspaceId k = ms_workspaceId sc \<and> mc_sidekickId c = Some (sk_id k))) \<and>
     mc_workspaceId c = ms_workspaceId sc \<and> mc_serviceIdentityId c = si_id i \<and>
     mc_status c = ''active'' \<and> mc_disabledAt c = None \<and>
     (\<exists>q \<in> set (db_secrets (bw_db (view 5))). s_id q = mc_secretId c \<and> s_workspaceId q = ms_workspaceId sc \<and>
        s_ownerType q = ''service'' \<and> s_serviceIdentityId q = Some (si_id i))"

definition within_budget :: "model_credential \<Rightarrow> int \<Rightarrow> bool" where
  "within_budget c dailyUsage \<longleftrightarrow>
     (mc_monthlyLimitMicros c > 0 \<longrightarrow> mc_currentUsageMicros c < mc_monthlyLimitMicros c) \<and>
     (\<forall>limit. mc_dailyLimitMicros c = Some limit \<and> limit > 0 \<longrightarrow> dailyUsage < limit)"

lemma budget_block_None:
  "budget_block c u = None \<longleftrightarrow> mc_status c = ''active'' \<and> mc_disabledAt c = None \<and> within_budget c u"
  by (auto simp: budget_block_def within_budget_def split: option.splits)

lemma resolveModelConfig_Inr:
  "resolveModelConfig c u load = Inr r \<Longrightarrow> budget_block c u = None \<and> rm_credentialRef r = mc_secretId c"
  by (auto simp: resolveModelConfig_def Let_def split: option.splits)

lemma managed_answer_Some:
  "managed_answer c identity u load = Inr (Some m) \<Longrightarrow>
   budget_block c u = None \<and> mm_secretId m = mc_secretId c \<and> mm_serviceIdentityId m = identity"
  by (auto simp: managed_answer_def split: sum.splits if_splits dest: resolveModelConfig_Inr)

lemma managed_answer_None: "managed_answer c identity u load \<noteq> Inr None"
  by (auto simp: managed_answer_def split: sum.splits)

lemma truthy_string_Some: "truthy_string v = Some t \<longleftrightarrow> v = Some t \<and> t \<noteq> []"
  by (auto simp: truthy_string_def split: option.splits)

lemma credential_checks_Some:
  assumes "credential_checks view now sc botId identity = Inr (Some m)"
  obtains w i c where "w \<in> set (bw_workspaces (view 1))" "aw_rakazoWorkspaceId w = ms_workspaceId sc"
    "aw_subscriptionStatus w \<in> {''active'', ''trialing''}"
    "i \<in> set (bw_identities (view 2))" "si_id i = identity" "si_workspaceId i = ms_workspaceId sc" "si_status i = ''active''"
    "(case find (\<lambda>k. sk_botId k = Some botId) (bw_sidekicks (view 4)) of
        Some k \<Rightarrow> c \<in> set (bw_sidekickCredentials (view 4)) \<and> mc_sidekickId c = Some (sk_id k)
      | None \<Rightarrow> c \<in> set (bw_credentials (view 3)))"
    "ownership_matches (ms_workspaceId sc) identity w (find (\<lambda>k. sk_botId k = Some botId) (bw_sidekicks (view 4))) c"
    "\<exists>q \<in> set (db_secrets (bw_db (view 5))). s_id q = mc_secretId c \<and> s_workspaceId q = ms_workspaceId sc \<and>
        s_ownerType q = ''service'' \<and> s_serviceIdentityId q = Some identity"
    "managed_answer c identity (daily_usage now (ms_workspaceId sc) identity
       (if find (\<lambda>k. sk_botId k = Some botId) (bw_sidekicks (view 4)) = None then None else Some botId) c (view 6))
       (ms_workload sc) = Inr (Some m)"
proof -
  let ?k = "find (\<lambda>k. sk_botId k = Some botId) (bw_sidekicks (view 4))"
  let ?cred = "case ?k of Some k \<Rightarrow> find (\<lambda>c. mc_sidekickId c = Some (sk_id k)) (bw_sidekickCredentials (view 4))
      | None \<Rightarrow> find (\<lambda>c. mc_workspaceId c = ms_workspaceId sc) (bw_credentials (view 3))"
  let ?w = "find (\<lambda>w. aw_rakazoWorkspaceId w = ms_workspaceId sc) (bw_workspaces (view 1))"
  let ?i = "find (\<lambda>i. si_id i = identity) (bw_identities (view 2))"
  obtain w where w: "?w = Some w"
    using assms by (cases ?w) (auto simp del: One_nat_def simp: credential_checks_def Let_def)
  obtain i where i: "?i = Some i" "si_workspaceId i = ms_workspaceId sc" "si_status i = ''active''"
    using assms by (cases ?i) (auto simp del: One_nat_def simp: credential_checks_def Let_def w split: if_splits)
  obtain c where c: "?cred = Some c"
    using assms by (cases ?cred) (simp_all del: One_nat_def add: credential_checks_def Let_def w i split: if_splits)
  have "aw_subscriptionStatus w \<in> set ACTIVE_SUBSCRIPTIONS"
    and "ownership_matches (ms_workspaceId sc) identity w ?k c"
    and "list_ex (\<lambda>q. s_id q = mc_secretId c \<and> s_workspaceId q = ms_workspaceId sc \<and>
        s_ownerType q = ''service'' \<and> s_serviceIdentityId q = Some identity) (db_secrets (bw_db (view 5)))"
    and "managed_answer c identity (daily_usage now (ms_workspaceId sc) identity
       (if ?k = None then None else Some botId) c (view 6)) (ms_workload sc) = Inr (Some m)"
    using assms by (simp_all del: One_nat_def not_None_eq add: credential_checks_def Let_def w i c split: if_splits)
  moreover have "case ?k of Some k \<Rightarrow> c \<in> set (bw_sidekickCredentials (view 4)) \<and> mc_sidekickId c = Some (sk_id k)
      | None \<Rightarrow> c \<in> set (bw_credentials (view 3))"
    using c by (auto dest: find_SomeD split: option.splits)
  ultimately show thesis
    using find_SomeD [OF w] find_SomeD [OF i(1)] i(2,3)
    by (intro that [of w i c]) (simp_all del: One_nat_def add: ACTIVE_SUBSCRIPTIONS_def list_ex_iff)
qed

lemma credential_checks_None: "credential_checks view now sc botId identity \<noteq> Inr None"
  by (auto simp: credential_checks_def Let_def managed_answer_None split: option.splits)

lemma find_distinct:
  assumes "distinct (map key xs)" and "x \<in> set xs" and "P x" and "\<And>y. P y \<Longrightarrow> key y = key x"
  shows "find P xs = Some x"
proof -
  obtain y where y: "find P xs = Some y" using assms(2,3) by (cases "find P xs") (auto simp: find_None_ball)
  note row = find_SomeD [OF y]
  then have "key y = key x" by (blast intro: assms(4))
  with row assms(1,2) have "y = x" by (meson distinct_map inj_onD)
  with y show ?thesis by simp
qed

lemma modelCatalogEntry_id: "modelCatalogEntry catalog m = Some entry \<Longrightarrow> json_get entry ''id'' = Some (JStr m)"
  by (auto simp: modelCatalogEntry_def json_get_def split: option.splits json.splits if_splits)

text \<open>
  C30. A managed run is entitled to its model: whenever the resolver answers a model, the bot is
  active, its workspace has an active subscription, its service identity belongs to the
  workspace and is active, the credential is the workspace's - or the Sidekick's own where the
  bot belongs to a Sidekick -, its secret is the service identity's, and the usage is below the
  monthly and the daily limit.
\<close>

theorem managed_run_is_entitled:
  assumes "resolveBrandwellManagedModel view now sc = Inr (Some m)"
  shows "\<exists>b w i c. entitled view now sc b w i c \<and> mm_secretId m = mc_secretId c \<and> mm_serviceIdentityId m = si_id i \<and>
    within_budget c (daily_usage now (ms_workspaceId sc) (si_id i)
      (if \<exists>k \<in> set (bw_sidekicks (view 4)). sk_botId k = Some (b_id b) then Some (b_id b) else None) c (view 6))"
proof -
  from assms obtain botId b identity where b: "ms_botId sc = Some botId"
      "find (\<lambda>b. b_id b = botId \<and> b_workspaceId b = ms_workspaceId sc) (db_bots (bw_db (view 0))) = Some b"
      "b_managedByBrandWell b" "b_managedStatus b = ''active''" "b_serviceIdentityId b = Some identity"
      "credential_checks view now sc botId identity = Inr (Some m)"
    by (auto simp del: One_nat_def simp: resolveBrandwellManagedModel_def split: option.splits if_splits
        dest: truthy_string_Some [THEN iffD1])
  note row = find_SomeD [OF b(2)]
  let ?k = "find (\<lambda>k. sk_botId k = Some botId) (bw_sidekicks (view 4))"
  from credential_checks_Some [OF b(6)] obtain w i c where *: "w \<in> set (bw_workspaces (view 1))"
    "aw_rakazoWorkspaceId w = ms_workspaceId sc" "aw_subscriptionStatus w \<in> {''active'', ''trialing''}"
    "i \<in> set (bw_identities (view 2))" "si_id i = identity" "si_workspaceId i = ms_workspaceId sc" "si_status i = ''active''"
    and c: "case ?k of Some k \<Rightarrow> c \<in> set (bw_sidekickCredentials (view 4)) \<and> mc_sidekickId c = Some (sk_id k)
      | None \<Rightarrow> c \<in> set (bw_credentials (view 3))"
    and o: "ownership_matches (ms_workspaceId sc) identity w ?k c"
    and q: "\<exists>q \<in> set (db_secrets (bw_db (view 5))). s_id q = mc_secretId c \<and> s_workspaceId q = ms_workspaceId sc \<and>
        s_ownerType q = ''service'' \<and> s_serviceIdentityId q = Some identity"
    and m: "managed_answer c identity (daily_usage now (ms_workspaceId sc) identity
       (if ?k = None then None else Some botId) c (view 6)) (ms_workload sc) = Inr (Some m)" .
  have k: "?k = None \<longleftrightarrow> \<not> (\<exists>k \<in> set (bw_sidekicks (view 4)). sk_botId k = Some botId)"
    by (auto simp: find_None_iff)
  note a = managed_answer_Some [OF m, unfolded budget_block_None]
  have "entitled view now sc b w i c"
    using b row * q a o c unfolding entitled_def
    by (cases ?k) (auto simp: ownership_matches_def Let_def find_None_iff dest!: find_SomeD)
  moreover have e: "(if ?k = None then None else Some botId) =
      (if \<exists>k \<in> set (bw_sidekicks (view 4)). sk_botId k = Some (b_id b) then Some (b_id b) else None)"
    using k row by simp
  moreover note a [unfolded e]
  ultimately show ?thesis
    by (intro exI [of _ b] exI [of _ w] exI [of _ i] exI [of _ c]) (simp only: *(5) simp_thms)
qed

text \<open>
  C0. Nobody bypasses the checks: the resolver answers that a run is not managed only when its
  bot does not exist in the workspace, or the bot is unmanaged and so is the workspace.
\<close>

theorem unmanaged_only_outside:
  assumes "resolveBrandwellManagedModel view now sc = Inr None" and "ms_botId sc = Some botId" and "botId \<noteq> []"
    and "b \<in> set (db_bots (bw_db (view 0)))" and "b_id b = botId" and "b_workspaceId b = ms_workspaceId sc"
    and "distinct (map b_id (db_bots (bw_db (view 0))))"
  shows "\<not> b_managedByBrandWell b \<and> (\<forall>w \<in> set (bw_workspaces (view 1)). aw_rakazoWorkspaceId w \<noteq> ms_workspaceId sc)"
proof -
  have "find (\<lambda>b. b_id b = botId \<and> b_workspaceId b = ms_workspaceId sc) (db_bots (bw_db (view 0))) = Some b"
    using assms(4-7) by (intro find_distinct [where key = b_id]) auto
  then show ?thesis
    using assms(1-3) credential_checks_None
    by (auto simp: resolveBrandwellManagedModel_def truthy_string_def list_ex_iff split: option.splits if_splits)
qed

text \<open>
  C0. The choice of the model: the model configured for the workload, or the preferred one; the
  fallbacks are the configured ones in their order, each once and never the model itself; and
  metadata is only taken from an entry of the catalog that names the same model.
\<close>

theorem model_choice:
  assumes "resolveModelConfig c u load = Inr r"
  shows "rm_model r = chosen_model c load \<and> rm_model r \<notin> set (rm_fallbackModels r) \<and> distinct (rm_fallbackModels r) \<and>
    set (rm_fallbackModels r) = set (stringArray (mc_fallbackModels c)) - {rm_model r} \<and>
    (\<forall>(m, entry) \<in> set (rm_fallbackMetadata r). m \<in> set (rm_fallbackModels r) \<and> json_get entry ''id'' = Some (JStr m)) \<and>
    (\<forall>entry. rm_modelMetadata r = Some entry \<longrightarrow> json_get entry ''id'' = Some (JStr (rm_model r)))"
  using assms
  by (auto simp: resolveModelConfig_def Let_def fallback_models_def distinct_foldl_add
      dest: modelCatalogEntry_id modelCatalogEntry_id [OF sym] split: option.splits)

section \<open>Examples\<close>

definition sample_credential :: model_credential where
  "sample_credential = \<lparr>mc_id = ''c'', mc_sidekickId = None, mc_workspaceId = ''w'', mc_serviceIdentityId = ''i'',
     mc_provider = ''openrouter'', mc_secretId = ''z'', mc_externalKeyHash = Some ''h'', mc_status = ''active'',
     mc_monthlyLimitMicros = 100, mc_dailyLimitMicros = Some 10, mc_warningLimitMicros = 80,
     mc_currentUsageMicros = 50, mc_preferredModel = ''m'', mc_computerModel = None, mc_lightweightModel = Some '' l '',
     mc_reasoningModel = None, mc_fallbackModels = JArr [JStr ''f'', JStr ''l'', JStr ''f'', JNum 1],
     mc_modelCatalog = JObj [], mc_maxTokens = None, mc_thinkingLevel = None, mc_disabledAt = None\<rparr>"

definition sample_bw :: bw where
  "sample_bw = empty_bw\<lparr>
     bw_db := sample_db\<lparr>db_bots := [sample_bot\<lparr>b_managedByBrandWell := True, b_serviceIdentityId := Some ''i''\<rparr>],
       db_secrets := [\<lparr>s_id = ''z'', s_userId = ''u'', s_workspaceId = ''w'', s_ownerType = ''service'',
         s_serviceIdentityId = Some ''i'', s_kind = ''model:openrouter'', s_ciphertext = ''x''\<rparr>]\<rparr>,
     bw_workspaces := [\<lparr>aw_id = ''a'', aw_brandwellCustomerId = ''q'', aw_rakazoWorkspaceId = ''w'',
       aw_serviceIdentityId = Some ''i'', aw_openRouterCredentialId = Some ''c'',
       aw_subscriptionStatus = ''active'', aw_retentionEndsAt = None, aw_canceledAt = None\<rparr>],
     bw_identities := [\<lparr>si_id = ''i'', si_workspaceId = ''w'', si_status = ''active''\<rparr>],
     bw_credentials := [sample_credential]\<rparr>"

definition sample_scope :: model_scope where
  "sample_scope = \<lparr>ms_workspaceId = ''w'', ms_botId = Some ''b'', ms_workload = Some LightweightLoad\<rparr>"

definition sample_answer :: managed_model where
  "sample_answer = (case resolveBrandwellManagedModel (\<lambda>_. sample_bw) 5 sample_scope of
     Inr (Some m) \<Rightarrow> m | _ \<Rightarrow> undefined)"

lemma sample_resolves: "resolveBrandwellManagedModel (\<lambda>_. sample_bw) 5 sample_scope = Inr (Some sample_answer)"
  by code_simp

theorem managed_run_is_entitled_witness:
  "\<exists>b w i c. entitled (\<lambda>_. sample_bw) 5 sample_scope b w i c \<and> mm_secretId sample_answer = mc_secretId c"
  using managed_run_is_entitled [OF sample_resolves] by blast

theorem unmanaged_only_outside_witness: "\<not> b_managedByBrandWell sample_bot"
proof -
  have "resolveBrandwellManagedModel (\<lambda>_. empty_bw\<lparr>bw_db := sample_db\<rparr>) 5 sample_scope = Inr None" by code_simp
  from unmanaged_only_outside [OF this, of "''b''" sample_bot] show ?thesis
    by (simp add: sample_scope_def sample_defs)
qed

definition sample_choice :: resolved_model where
  "sample_choice = (case resolveModelConfig sample_credential 3 LightweightLoad of Inr r \<Rightarrow> r | Inl _ \<Rightarrow> undefined)"

theorem model_choice_witness: "rm_model sample_choice = ''l'' \<and> distinct (rm_fallbackModels sample_choice)"
proof -
  have "resolveModelConfig sample_credential 3 LightweightLoad = Inr sample_choice" by code_simp
  from model_choice [OF this] show ?thesis
    by (simp add: chosen_model_def workload_override_def sample_credential_def truthy_string_def js_trim_def
        js_trimStart_def js_trimEnd_def js_space_def)
qed

end
