(* ===== verification/WorkspaceCancellation.thy ===== *)
theory WorkspaceCancellation
  imports ManagedModels "HOL-Library.Char_ord" "HOL-Library.List_Lexorder" "HOL-Library.Product_Lexorder"
begin

text \<open>
  The end of a customer's subscription: the list of actions
  (packages/brandwell/src/cancellation.ts) and the rows that make each action happen once,
  survive failures and exclude a second worker (packages/brandwell/src/prisma-cancellation.ts).
\<close>

type_synonym 'a bwprog = "(bw, db_error, 'a) prog"

section \<open>The plan\<close>

record cancellation_policy =
  po_retentionDays :: int
  po_deleteAfterRetention :: bool

datatype cancellation_action = MarkCanceling | PauseRoutines | BlockNewRuns | DisableOpenrouter | SuspendComputers
  | DeleteOpenrouter | RevokeConnectors | DestroyComputers | DeleteSecrets | ArchiveWorkspace

fun action_string :: "cancellation_action \<Rightarrow> string" where
  "action_string MarkCanceling = ''mark_canceling''"
| "action_string PauseRoutines = ''pause_routines''"
| "action_string BlockNewRuns = ''block_new_runs''"
| "action_string DisableOpenrouter = ''disable_openrouter''"
| "action_string SuspendComputers = ''suspend_computer''"
| "action_string DeleteOpenrouter = ''delete_openrouter''"
| "action_string RevokeConnectors = ''revoke_connectors''"
| "action_string DestroyComputers = ''destroy_computer''"
| "action_string DeleteSecrets = ''delete_secrets''"
| "action_string ArchiveWorkspace = ''archive_workspace''"

record cancellation_lifecycle =
  cl_immediate :: "cancellation_action list"
  cl_retentionEndsAt :: time
  cl_afterRetention :: "cancellation_action list"

definition buildCancellationLifecycle :: "time \<Rightarrow> cancellation_policy \<Rightarrow> db_error + cancellation_lifecycle" where
  "buildCancellationLifecycle now policy =
     (if po_retentionDays policy < 0 then Inl (Thrown ''retentionDays must be a non-negative integer'')
      else Inr \<lparr>cl_immediate = [MarkCanceling, PauseRoutines, BlockNewRuns, DisableOpenrouter, SuspendComputers],
        cl_retentionEndsAt = now + po_retentionDays policy * 86400000,
        cl_afterRetention = (if po_deleteAfterRetention policy
          then [DeleteOpenrouter, RevokeConnectors, DestroyComputers, DeleteSecrets, ArchiveWorkspace]
          else [RevokeConnectors, ArchiveWorkspace])\<rparr>)"

section \<open>The rows of the actions\<close>

text \<open>
  What a cancellation brings along: what other clients do before its \<open>i\<close>-th statement of a stage,
  the clock and the lease owner of each stage, the duration of its leases, the reason, which
  calls to the providers fail, and the messages of errors.
\<close>

record canceler =
  ca_env :: "string \<Rightarrow> nat \<Rightarrow> bw \<Rightarrow> bw"
  ca_clock :: "string \<Rightarrow> nat \<Rightarrow> time"
  ca_owner :: "string \<Rightarrow> string"
  ca_leaseMs :: time
  ca_reason :: "string option"
  ca_down :: "provider_call \<Rightarrow> bool"
  ca_message :: "db_error \<Rightarrow> string"

definition others_act :: "canceler \<Rightarrow> cancellation_action \<Rightarrow> nat \<Rightarrow> unit bwprog" where
  "others_act ca a i = prog_env (ca_env ca (action_string a) i)"

definition event_of :: "string \<Rightarrow> string \<Rightarrow> cancellation_event \<Rightarrow> bool" where
  "event_of w st e \<longleftrightarrow> ce_workspaceId e = w \<and> ce_stage e = st"

definition claimable_event :: "time \<Rightarrow> cancellation_event \<Rightarrow> bool" where
  "claimable_event now e \<longleftrightarrow> ce_executedAt e = None \<and>
     (ce_status e \<in> {EventPending, EventFailed} \<or>
      (ce_status e = EventRunning \<and> (case ce_leaseExpiresAt e of None \<Rightarrow> False | Some t \<Rightarrow> t < now)))"

definition claimCancellationEvent :: "string \<Rightarrow> string \<Rightarrow> string \<Rightarrow> time \<Rightarrow> time \<Rightarrow> bool bwprog" where
  "claimCancellationEvent w st owner now leaseMs = (\<lambda>s.
     let p = (\<lambda>e. event_of w st e \<and> claimable_event now e) in
     (Inr (countMany p (bw_cancellations s) = 1),
      s\<lparr>bw_cancellations := updateMany p (\<lambda>e. e\<lparr>ce_status := EventRunning, ce_leaseOwner := Some owner,
        ce_leaseExpiresAt := Some (now + leaseMs), ce_lastError := None\<rparr>) (bw_cancellations s)\<rparr>))"

text \<open>\<open>update\<close> by the unique key fails when there is no such row.\<close>

definition update_event :: "string \<Rightarrow> string \<Rightarrow> (cancellation_event \<Rightarrow> cancellation_event) \<Rightarrow> unit bwprog" where
  "update_event w st f = (\<lambda>s.
     if list_ex (event_of w st) (bw_cancellations s)
     then (Inr (), s\<lparr>bw_cancellations := updateMany (event_of w st) f (bw_cancellations s)\<rparr>)
     else (Inl RecordNotFound, s))"

definition complete_event :: "string \<Rightarrow> string \<Rightarrow> time \<Rightarrow> unit bwprog" where
  "complete_event w st now = update_event w st (\<lambda>e. e\<lparr>ce_status := EventCompleted, ce_executedAt := Some now,
     ce_leaseOwner := None, ce_leaseExpiresAt := None, ce_lastError := None\<rparr>)"

definition safeError :: "string \<Rightarrow> string" where
  "safeError message = (if js_trim message = [] then ''Cancellation action failed'' else take 500 message)"

definition failCancellationEvent :: "canceler \<Rightarrow> string \<Rightarrow> string \<Rightarrow> db_error \<Rightarrow> unit bwprog" where
  "failCancellationEvent ca w st error = update_event w st (\<lambda>e. e\<lparr>ce_status := EventFailed,
     ce_leaseOwner := None, ce_leaseExpiresAt := None, ce_lastError := Some (safeError (ca_message ca error))\<rparr>)"

section \<open>The actions\<close>

fun prog_each :: "('x \<Rightarrow> ('s, 'e, unit) prog) \<Rightarrow> 'x list \<Rightarrow> ('s, 'e, unit) prog" where
  "prog_each f [] = prog_return ()"
| "prog_each f (x # xs) = prog_bind (f x) (\<lambda>_. prog_each f xs)"

definition call_provider :: "canceler \<Rightarrow> provider_call \<Rightarrow> unit bwprog" where
  "call_provider ca c = prog_bind (prog_env (\<lambda>s. s\<lparr>bw_calls := bw_calls s @ [c]\<rparr>)) (\<lambda>_.
     if ca_down ca c then prog_throw (Thrown ''provider call failed'') else prog_return ())"

definition update_workspace :: "string \<Rightarrow> (ai_workspace \<Rightarrow> ai_workspace) \<Rightarrow> string bwprog" where
  "update_workspace w f = (\<lambda>s. case find (\<lambda>a. aw_rakazoWorkspaceId a = w) (bw_workspaces s) of
     None \<Rightarrow> (Inl RecordNotFound, s)
   | Some a \<Rightarrow> (Inr (aw_id a), s\<lparr>bw_workspaces := updateMany (\<lambda>a. aw_rakazoWorkspaceId a = w) f (bw_workspaces s)\<rparr>))"

definition update_db :: "(db \<Rightarrow> db) \<Rightarrow> bw \<Rightarrow> bw" where
  "update_db f s = s\<lparr>bw_db := f (bw_db s)\<rparr>"

definition mark_canceling :: "canceler \<Rightarrow> string \<Rightarrow> time \<Rightarrow> unit bwprog" where
  "mark_canceling ca w now =
     prog_bind (update_workspace w (\<lambda>a. a\<lparr>aw_subscriptionStatus := ''canceling'', aw_canceledAt := Some now\<rparr>)) (\<lambda>i.
     prog_bind (others_act ca MarkCanceling 5) (\<lambda>_.
     prog_env (\<lambda>s. s\<lparr>bw_audit := bw_audit s @
       [\<lparr>al_workspaceId = w, al_action = ''workspace.cancel'', al_resourceId = i\<rparr>]\<rparr>)))"

definition pause_routines :: "string \<Rightarrow> unit bwprog" where
  "pause_routines w = prog_env (update_db (db_routines_update
     (updateMany (\<lambda>r. rt_workspaceId r = w) (\<lambda>r. r\<lparr>rt_active := False\<rparr>))))"

definition block_new_runs :: "string \<Rightarrow> time \<Rightarrow> unit bwprog" where
  "block_new_runs w now = prog_env (\<lambda>s. (update_db (db_bots_update
     (updateMany (\<lambda>b. b_workspaceId b = w \<and> b_managedByBrandWell b)
       (\<lambda>b. b\<lparr>b_managedStatus := ''canceled'', b_updatedAt := now\<rparr>))) s)
     \<lparr>bw_identities := updateMany (\<lambda>i. si_workspaceId i = w) (\<lambda>i. i\<lparr>si_status := ''disabled''\<rparr>) (bw_identities s)\<rparr>)"

text \<open>The keys of a workspace: its own credential and those of its Sidekicks.\<close>

definition hash_of :: "model_credential option \<Rightarrow> string list" where
  "hash_of c = (case c of None \<Rightarrow> [] | Some c \<Rightarrow>
     (case truthy_string (mc_externalKeyHash c) of None \<Rightarrow> [] | Some h \<Rightarrow> [h]))"

definition key_hashes :: "canceler \<Rightarrow> cancellation_action \<Rightarrow> string \<Rightarrow> string list bwprog" where
  "key_hashes ca a w =
     prog_bind (prog_gets (\<lambda>s. find (\<lambda>c. mc_workspaceId c = w) (bw_credentials s))) (\<lambda>credential.
     prog_bind (others_act ca a 5) (\<lambda>_.
     prog_bind (prog_gets (\<lambda>s. filter (\<lambda>c. mc_workspaceId c = w) (bw_sidekickCredentials s))) (\<lambda>sidekicks.
     prog_return (concat (map hash_of (credential # map Some sidekicks))))))"

definition disable_credential :: "time \<Rightarrow> model_credential \<Rightarrow> model_credential" where
  "disable_credential now c = c\<lparr>mc_status := ''disabled'', mc_disabledAt := Some now\<rparr>"

definition disable_openrouter :: "canceler \<Rightarrow> string \<Rightarrow> time \<Rightarrow> unit bwprog" where
  "disable_openrouter ca w now =
     prog_bind (key_hashes ca DisableOpenrouter w) (\<lambda>hashes.
     prog_bind (prog_each (\<lambda>(i, h). prog_bind (call_provider ca (DisableKey h)) (\<lambda>_.
       others_act ca DisableOpenrouter (6 + i))) (enumerate 0 hashes)) (\<lambda>_.
     prog_env (\<lambda>s. s\<lparr>
       bw_credentials := updateMany (\<lambda>c. mc_workspaceId c = w) (disable_credential now) (bw_credentials s),
       bw_sidekickCredentials := updateMany (\<lambda>c. mc_workspaceId c = w) (disable_credential now) (bw_sidekickCredentials s)\<rparr>)))"

definition delete_openrouter :: "canceler \<Rightarrow> string \<Rightarrow> unit bwprog" where
  "delete_openrouter ca w =
     prog_bind (key_hashes ca DeleteOpenrouter w) (\<lambda>hashes.
     prog_each (\<lambda>(i, h). prog_bind (call_provider ca (DeleteKey h)) (\<lambda>_.
       others_act ca DeleteOpenrouter (6 + i))) (enumerate 0 hashes))"

definition update_computer :: "string \<Rightarrow> (computer \<Rightarrow> computer) \<Rightarrow> unit bwprog" where
  "update_computer i f = (\<lambda>s.
     if list_ex (\<lambda>c. c_id c = i) (db_computers (bw_db s))
     then (Inr (), update_db (db_computers_update (updateMany (\<lambda>c. c_id c = i) f)) s)
     else (Inl RecordNotFound, s))"

definition suspend_one :: "canceler \<Rightarrow> time \<Rightarrow> nat \<Rightarrow> computer \<Rightarrow> unit bwprog" where
  "suspend_one ca now i computer =
     prog_bind (if truthy (c_providerRef computer) \<and> c_state computer \<notin> {Stopped, Suspended}
       then call_provider ca (SuspendComputer (c_id computer)) else prog_return ()) (\<lambda>_.
     prog_bind (others_act ca SuspendComputers (6 + i)) (\<lambda>_.
     update_computer (c_id computer) (\<lambda>c. c\<lparr>
       c_state := (if truthy (c_providerRef computer) then Suspended else Stopped),
       c_lastComputerState := Some (c_state computer), c_lastComputerActivityAt := Some now,
       c_screenUrl := None, c_controlHolder := HolderNone, c_controlLeaseId := None,
       c_controlLeaseExpiresAt := None, c_controlUserId := None, c_controlActorType := None,
       c_controlActorName := None, c_controlStartedAt := None, c_updatedAt := now\<rparr>)))"

definition destroy_one :: "canceler \<Rightarrow> time \<Rightarrow> nat \<Rightarrow> computer \<Rightarrow> unit bwprog" where
  "destroy_one ca now i computer =
     prog_bind (if truthy (c_providerRef computer)
       then call_provider ca (DestroyComputer (c_id computer)) else prog_return ()) (\<lambda>_.
     prog_bind (others_act ca DestroyComputers (6 + i)) (\<lambda>_.
     update_computer (c_id computer) (\<lambda>c. c\<lparr>c_state := Stopped, c_providerRef := None, c_screenUrl := None,
       c_lastComputerState := Some (c_state computer), c_lastComputerActivityAt := Some now, c_updatedAt := now\<rparr>)))"

definition managedComputers :: "string \<Rightarrow> bw \<Rightarrow> computer list" where
  "managedComputers w s = filter (\<lambda>c. c_workspaceId c = w) (db_computers (bw_db s))"

definition each_computer ::
  "canceler \<Rightarrow> cancellation_action \<Rightarrow> string \<Rightarrow> (nat \<Rightarrow> computer \<Rightarrow> unit bwprog) \<Rightarrow> unit bwprog" where
  "each_computer ca a w f =
     prog_bind (prog_gets (managedComputers w)) (\<lambda>computers.
     prog_bind (others_act ca a 5) (\<lambda>_.
     prog_each (\<lambda>(i, c). f i c) (enumerate 0 computers)))"

definition revoke_connectors :: "string \<Rightarrow> unit bwprog" where
  "revoke_connectors w = prog_env (\<lambda>s. s\<lparr>bw_connections := updateMany (\<lambda>c. cn_workspaceId c = w)
     (\<lambda>c. c\<lparr>cn_status := ''revoked'', cn_providerRef := None, cn_secretId := None\<rparr>) (bw_connections s)\<rparr>)"

definition delete_secrets :: "canceler \<Rightarrow> string \<Rightarrow> unit bwprog" where
  "delete_secrets ca w =
     prog_bind (prog_gets (\<lambda>s. map si_id (filter (\<lambda>i. si_workspaceId i = w) (bw_identities s)))) (\<lambda>identityIds.
     prog_bind (others_act ca DeleteSecrets 5) (\<lambda>_.
     prog_bind (prog_env (bw_sidekickCredentials_update (deleteMany (\<lambda>c. mc_workspaceId c = w)))) (\<lambda>_.
     prog_bind (others_act ca DeleteSecrets 6) (\<lambda>_.
     prog_bind (prog_env (bw_credentials_update (deleteMany (\<lambda>c. mc_workspaceId c = w)))) (\<lambda>_.
     prog_bind (others_act ca DeleteSecrets 7) (\<lambda>_.
     prog_env (update_db (db_secrets_update (deleteMany (\<lambda>q. s_workspaceId q = w \<and>
       (case s_serviceIdentityId q of None \<Rightarrow> False | Some i \<Rightarrow> i \<in> set identityIds)))))))))))"

definition archive_workspace :: "string \<Rightarrow> time \<Rightarrow> unit bwprog" where
  "archive_workspace w now = (\<lambda>s.
     case update_workspace w (\<lambda>a. a\<lparr>aw_subscriptionStatus := ''canceled'', aw_retentionEndsAt := Some now\<rparr>)
       (update_db (db_bots_update (updateMany (\<lambda>b. b_workspaceId b = w \<and> b_archivedAt b = None)
         (\<lambda>b. b\<lparr>b_archivedAt := Some now, b_managedStatus := ''canceled'', b_updatedAt := now\<rparr>))) s) of
       (Inl e, _) \<Rightarrow> (Inl e, s) | (Inr _, s') \<Rightarrow> (Inr (), s'))"

fun executePrismaCancellationAction :: "canceler \<Rightarrow> string \<Rightarrow> cancellation_action \<Rightarrow> time \<Rightarrow> unit bwprog" where
  "executePrismaCancellationAction ca w MarkCanceling now = mark_canceling ca w now"
| "executePrismaCancellationAction ca w PauseRoutines now = pause_routines w"
| "executePrismaCancellationAction ca w BlockNewRuns now = block_new_runs w now"
| "executePrismaCancellationAction ca w DisableOpenrouter now = disable_openrouter ca w now"
| "executePrismaCancellationAction ca w SuspendComputers now =
     each_computer ca SuspendComputers w (suspend_one ca now)"
| "executePrismaCancellationAction ca w DeleteOpenrouter now = delete_openrouter ca w"
| "executePrismaCancellationAction ca w RevokeConnectors now = revoke_connectors w"
| "executePrismaCancellationAction ca w DestroyComputers now =
     each_computer ca DestroyComputers w (destroy_one ca now)"
| "executePrismaCancellationAction ca w DeleteSecrets now = delete_secrets ca w"
| "executePrismaCancellationAction ca w ArchiveWorkspace now = archive_workspace w now"

section \<open>The runner\<close>

definition completed_action :: "string \<Rightarrow> cancellation_action \<Rightarrow> bw \<Rightarrow> bool" where
  "completed_action w a s = (case find (event_of w (action_string a)) (bw_cancellations s) of
     None \<Rightarrow> False | Some e \<Rightarrow> ce_status e = EventCompleted \<and> ce_executedAt e \<noteq> None)"

text \<open>The upsert of an action's row; without a reason the stored one stays.\<close>

definition with_reason :: "canceler \<Rightarrow> cancellation_event \<Rightarrow> cancellation_event" where
  "with_reason ca e = (case ca_reason ca of None \<Rightarrow> e | Some r \<Rightarrow> e\<lparr>ce_reason := Some r\<rparr>)"

definition upsert_event :: "canceler \<Rightarrow> string \<Rightarrow> cancellation_action \<Rightarrow> cancellation_event bwprog" where
  "upsert_event ca w a = (\<lambda>s. case find (event_of w (action_string a)) (bw_cancellations s) of
     Some e \<Rightarrow>
       (Inr (with_reason ca e),
        s\<lparr>bw_cancellations := updateMany (event_of w (action_string a)) (with_reason ca) (bw_cancellations s)\<rparr>)
   | None \<Rightarrow>
       let e = \<lparr>ce_workspaceId = w, ce_stage = action_string a, ce_reason = ca_reason ca, ce_status = EventPending,
         ce_leaseOwner = None, ce_leaseExpiresAt = None, ce_lastError = None, ce_scheduledAt = None,
         ce_executedAt = None\<rparr> in
       (Inr e, s\<lparr>bw_cancellations := bw_cancellations s @ [e]\<rparr>))"

definition run_claimed :: "canceler \<Rightarrow> string \<Rightarrow> cancellation_action \<Rightarrow> unit bwprog" where
  "run_claimed ca w a =
     prog_catch
       (prog_bind (executePrismaCancellationAction ca w a (ca_clock ca (action_string a) 1)) (\<lambda>_.
        prog_bind (others_act ca a 3) (\<lambda>_.
        complete_event w (action_string a) (ca_clock ca (action_string a) 2))))
       (\<lambda>error. prog_bind (others_act ca a 4) (\<lambda>_.
        prog_bind (failCancellationEvent ca w (action_string a) error) (\<lambda>_. prog_throw error)))"

definition execute_action :: "canceler \<Rightarrow> string \<Rightarrow> cancellation_action \<Rightarrow> unit bwprog" where
  "execute_action ca w a =
     prog_bind (upsert_event ca w a) (\<lambda>event.
     if ce_status event = EventCompleted \<and> ce_executedAt event \<noteq> None then prog_return ()
     else
       prog_bind (others_act ca a 1) (\<lambda>_.
       prog_bind (claimCancellationEvent w (action_string a) (ca_owner ca (action_string a))
         (ca_clock ca (action_string a) 0) (ca_leaseMs ca)) (\<lambda>claimed.
       prog_bind (others_act ca a 2) (\<lambda>_.
       if \<not> claimed
       then prog_bind (prog_gets (\<lambda>s. find (event_of w (action_string a)) (bw_cancellations s))) (\<lambda>current.
         case current of
           Some e \<Rightarrow> if ce_status e = EventCompleted then prog_return ()
             else prog_throw (Thrown ''Cancellation action is already running'')
         | None \<Rightarrow> prog_throw (Thrown ''Cancellation action is already running''))
       else run_claimed ca w a))))"

fun executeCancellationActions ::
  "canceler \<Rightarrow> string \<Rightarrow> cancellation_action list \<Rightarrow> cancellation_action list bwprog" where
  "executeCancellationActions ca w [] = prog_return []"
| "executeCancellationActions ca w (a # as) =
     prog_bind (prog_gets (completed_action w a)) (\<lambda>completed.
     if completed then executeCancellationActions ca w as
     else
       prog_bind (others_act ca a 0) (\<lambda>_.
       prog_bind (execute_action ca w a) (\<lambda>_.
       prog_bind (executeCancellationActions ca w as) (\<lambda>executed. prog_return (a # executed)))))"

definition RETENTION_CLEANUP :: string where "RETENTION_CLEANUP = ''retention_cleanup''"

definition schedule_cleanup :: "canceler \<Rightarrow> string \<Rightarrow> time \<Rightarrow> unit bwprog" where
  "schedule_cleanup ca w at = (\<lambda>s.
     let scheduled = (case find (event_of w RETENTION_CLEANUP) (bw_cancellations s) of
       Some _ \<Rightarrow> s\<lparr>bw_cancellations := updateMany (event_of w RETENTION_CLEANUP)
         (\<lambda>e. (with_reason ca e)
           \<lparr>ce_scheduledAt := Some at, ce_executedAt := None, ce_status := EventPending, ce_leaseOwner := None,
            ce_leaseExpiresAt := None, ce_lastError := None\<rparr>) (bw_cancellations s)\<rparr>
     | None \<Rightarrow> s\<lparr>bw_cancellations := bw_cancellations s @ [\<lparr>ce_workspaceId = w, ce_stage = RETENTION_CLEANUP,
         ce_reason = ca_reason ca, ce_status = EventPending, ce_leaseOwner = None, ce_leaseExpiresAt = None,
         ce_lastError = None, ce_scheduledAt = Some at, ce_executedAt = None\<rparr>]\<rparr>)
     in case update_workspace w (\<lambda>a. a\<lparr>aw_retentionEndsAt := Some at\<rparr>) scheduled of
       (Inl e, _) \<Rightarrow> (Inl e, s) | (Inr _, s') \<Rightarrow> (Inr (), s'))"

definition executeBrandwellCancellation ::
  "canceler \<Rightarrow> string \<Rightarrow> time \<Rightarrow> cancellation_policy \<Rightarrow> (time \<times> cancellation_action list) bwprog" where
  "executeBrandwellCancellation ca w now policy =
     (case buildCancellationLifecycle now policy of Inl e \<Rightarrow> prog_throw e
      | Inr plan \<Rightarrow>
          prog_bind (executeCancellationActions ca w (cl_immediate plan)) (\<lambda>executed.
          prog_bind (prog_env (ca_env ca RETENTION_CLEANUP 0)) (\<lambda>_.
          prog_bind (schedule_cleanup ca w (cl_retentionEndsAt plan)) (\<lambda>_.
          prog_return (cl_retentionEndsAt plan, executed)))))"

definition cancelBrandwellWorkspaceWithPrisma ::
  "canceler \<Rightarrow> string \<Rightarrow> time \<Rightarrow> cancellation_policy \<Rightarrow> (time \<times> cancellation_action list) bwprog" where
  "cancelBrandwellWorkspaceWithPrisma ca lookup now policy =
     prog_bind (prog_gets (\<lambda>s. find (\<lambda>a. aw_id a = lookup \<or> aw_brandwellCustomerId a = lookup \<or>
       aw_rakazoWorkspaceId a = lookup) (bw_workspaces s))) (\<lambda>mapping.
     case mapping of None \<Rightarrow> prog_throw (Thrown ''BrandWell workspace not found'')
     | Some a \<Rightarrow> prog_bind (prog_env (ca_env ca ''cancel'' 0)) (\<lambda>_.
         executeBrandwellCancellation ca (aw_rakazoWorkspaceId a) now policy))"

definition executeBrandwellRetentionCleanup ::
  "canceler \<Rightarrow> string \<Rightarrow> time \<Rightarrow> cancellation_policy \<Rightarrow> cancellation_action list bwprog" where
  "executeBrandwellRetentionCleanup ca w now policy =
     (case buildCancellationLifecycle now policy of Inl e \<Rightarrow> prog_throw e
      | Inr plan \<Rightarrow> executeCancellationActions ca w (cl_afterRetention plan))"

section \<open>The retention cleanup\<close>

definition due_cleanup :: "time \<Rightarrow> cancellation_event \<Rightarrow> bool" where
  "due_cleanup now e \<longleftrightarrow> ce_stage e = RETENTION_CLEANUP \<and> claimable_event now e \<and>
     (case ce_scheduledAt e of None \<Rightarrow> False | Some t \<Rightarrow> t \<le> now)"

definition clean_up_workspace ::
  "canceler \<Rightarrow> string \<Rightarrow> time \<Rightarrow> cancellation_policy \<Rightarrow> cancellation_action list option bwprog" where
  "clean_up_workspace ca w now policy =
     prog_bind (claimCancellationEvent w RETENTION_CLEANUP (ca_owner ca RETENTION_CLEANUP) now (ca_leaseMs ca)) (\<lambda>claimed.
     if \<not> claimed then prog_return None
     else
       prog_bind (prog_env (ca_env ca RETENTION_CLEANUP 1)) (\<lambda>_.
       prog_catch
         (prog_bind (executeBrandwellRetentionCleanup ca w now policy) (\<lambda>executed.
          prog_bind (prog_env (ca_env ca RETENTION_CLEANUP 2)) (\<lambda>_.
          prog_bind (complete_event w RETENTION_CLEANUP now) (\<lambda>_. prog_return (Some executed)))))
         (\<lambda>error. prog_bind (prog_env (ca_env ca RETENTION_CLEANUP 3)) (\<lambda>_.
          prog_bind (failCancellationEvent ca w RETENTION_CLEANUP error) (\<lambda>_. prog_return None)))))"

text \<open>\<open>cas\<close> gives every workspace its own canceler (with the reason of its row).\<close>

fun cleanup_loop ::
  "(string \<Rightarrow> canceler) \<Rightarrow> time \<Rightarrow> cancellation_policy \<Rightarrow> cancellation_event list \<Rightarrow>
   (string \<times> cancellation_action list) list bwprog" where
  "cleanup_loop cas now policy [] = prog_return []"
| "cleanup_loop cas now policy (e # es) =
     prog_bind (clean_up_workspace ((cas (ce_workspaceId e))\<lparr>ca_reason := ce_reason e\<rparr>) (ce_workspaceId e) now policy) (\<lambda>r.
     prog_bind (cleanup_loop cas now policy es) (\<lambda>rs.
     prog_return (case r of None \<Rightarrow> rs | Some executed \<Rightarrow> (ce_workspaceId e, executed) # rs)))"

definition reconcileBrandwellRetentionCleanupWithPrisma ::
  "(string \<Rightarrow> canceler) \<Rightarrow> time \<Rightarrow> cancellation_policy \<Rightarrow> (string \<times> cancellation_action list) list bwprog" where
  "reconcileBrandwellRetentionCleanupWithPrisma cas now policy =
     prog_bind (prog_gets (\<lambda>s. sort_key (\<lambda>e. (the (ce_scheduledAt e), ce_workspaceId e))
       (filter (due_cleanup now) (bw_cancellations s)))) (cleanup_loop cas now policy)"

section \<open>The rows say what was done\<close>

text \<open>
  One row per workspace and stage, as the unique key of the table demands, and completed rows
  have their time of execution.
\<close>

definition event_key :: "cancellation_event \<Rightarrow> string \<times> string" where
  "event_key e = (ce_workspaceId e, ce_stage e)"

definition events_ok :: "bw \<Rightarrow> bool" where
  "events_ok s \<longleftrightarrow> distinct (map event_key (bw_cancellations s)) \<and>
     (\<forall>e \<in> set (bw_cancellations s). ce_status e = EventCompleted \<longrightarrow> ce_executedAt e \<noteq> None)"

definition event_at :: "string \<Rightarrow> string \<Rightarrow> bw \<Rightarrow> cancellation_event option" where
  "event_at w st s = find (event_of w st) (bw_cancellations s)"

definition only_event :: "string \<Rightarrow> string \<Rightarrow> bw \<Rightarrow> bw \<Rightarrow> bool" where
  "only_event w st s s' \<longleftrightarrow> (events_ok s \<longrightarrow> events_ok s') \<and> (\<forall>st'. st' \<noteq> st \<longrightarrow> event_at w st' s' = event_at w st' s)"

text \<open>What does not touch the rows of a workspace.\<close>

definition same_events :: "string \<Rightarrow> bw \<Rightarrow> bw \<Rightarrow> bool" where
  "same_events w s s' \<longleftrightarrow> (events_ok s \<longrightarrow> events_ok s') \<and> (\<forall>st. event_at w st s' = event_at w st s)"

interpretation event_row: keyed_table event_key .

interpretation same_events: state_preorder "same_events w" for w
  by unfold_locales (auto simp: same_events_def)

interpretation only_event: state_preorder "only_event w st" for w st
  by unfold_locales (auto simp: only_event_def)

lemma event_of_key: "event_of w st e \<longleftrightarrow> event_key e = (w, st)"
  by (auto simp: event_of_def event_key_def)

lemma event_of_update [simp]:
  "event_of w st (e\<lparr>ce_status := a\<rparr>) = event_of w st e" "event_of w st (e\<lparr>ce_executedAt := b\<rparr>) = event_of w st e"
  "event_of w st (e\<lparr>ce_leaseOwner := c\<rparr>) = event_of w st e" "event_of w st (e\<lparr>ce_leaseExpiresAt := d\<rparr>) = event_of w st e"
  "event_of w st (e\<lparr>ce_lastError := f\<rparr>) = event_of w st e" "event_of w st (e\<lparr>ce_reason := f\<rparr>) = event_of w st e"
  "event_of w st (e\<lparr>ce_scheduledAt := b\<rparr>) = event_of w st e"
  by (simp_all add: event_of_def)

lemma event_key_update [simp]:
  "event_key (e\<lparr>ce_status := a\<rparr>) = event_key e" "event_key (e\<lparr>ce_executedAt := b\<rparr>) = event_key e"
  "event_key (e\<lparr>ce_leaseOwner := c\<rparr>) = event_key e" "event_key (e\<lparr>ce_leaseExpiresAt := d\<rparr>) = event_key e"
  "event_key (e\<lparr>ce_lastError := f\<rparr>) = event_key e" "event_key (e\<lparr>ce_reason := f\<rparr>) = event_key e"
  "event_key (e\<lparr>ce_scheduledAt := b\<rparr>) = event_key e"
  by (simp_all add: event_key_def)

lemma with_reason_simps [simp]:
  "event_of w st (with_reason ca e) = event_of w st e" "event_key (with_reason ca e) = event_key e"
  "ce_status (with_reason ca e) = ce_status e" "ce_executedAt (with_reason ca e) = ce_executedAt e"
  by (simp_all add: with_reason_def split: option.split)

lemma find_updateMany_other:
  "(\<And>e. event_of w st' (f e) = event_of w st' e) \<Longrightarrow> (\<And>e. p e \<Longrightarrow> \<not> event_of w st' e) \<Longrightarrow>
   find (event_of w st') (updateMany p f es) = find (event_of w st') es"
  by (induction es) (auto simp: updateMany_def)

text \<open>A write of the row of one stage that keeps its key.\<close>

lemma only_event_update:
  assumes "\<And>e. event_key (f e) = event_key e" and "\<And>e. p e \<Longrightarrow> event_of w st e"
    and "\<And>e. e \<in> set (bw_cancellations s) \<Longrightarrow> p e \<Longrightarrow> (ce_status e = EventCompleted \<longrightarrow> ce_executedAt e \<noteq> None) \<Longrightarrow>
      (ce_status (f e) = EventCompleted \<longrightarrow> ce_executedAt (f e) \<noteq> None)"
    and "bw_cancellations s' = updateMany p f (bw_cancellations s)"
  shows "only_event w st s s'"
proof -
  have "map event_key (updateMany p f es) = map event_key es" for es
    using assms(1) by (rule map_updateMany)
  then have "events_ok s \<longrightarrow> events_ok s'"
    using assms(3) unfolding events_ok_def assms(4) set_updateMany by auto
  moreover have "event_at w st' s' = event_at w st' s" if "st' \<noteq> st" for st'
    unfolding event_at_def assms(4)
    using assms(1,2) that by (intro find_updateMany_other) (auto simp: event_of_key)
  ultimately show ?thesis by (simp add: only_event_def)
qed

lemma claim_only_event: "prog_rel (only_event w st) (claimCancellationEvent w st owner now ms)"
  unfolding prog_rel_def claimCancellationEvent_def Let_def
  by (intro allI only_event_update [where p = "\<lambda>e. event_of w st e \<and> claimable_event now e"])
    (auto simp: claimable_event_def)

lemma update_event_only:
  assumes "\<And>e. event_key (f e) = event_key e"
    and "\<And>e. ce_status (f e) = EventCompleted \<longrightarrow> ce_executedAt (f e) \<noteq> None"
  shows "prog_rel (only_event w st) (update_event w st f)"
  unfolding prog_rel_def update_event_def
  using assms by (auto simp: only_event.refl_state intro!: only_event_update [where p = "event_of w st" and f = f])

lemma upsert_only_event: "prog_rel (only_event w (action_string a)) (upsert_event ca w a)"
  unfolding prog_rel_def
proof
  fix s
  show "only_event w (action_string a) s (snd (upsert_event ca w a s))"
  proof (cases "find (event_of w (action_string a)) (bw_cancellations s)")
    case None
    then have n: "(w, action_string a) \<notin> event_key ` set (bw_cancellations s)"
      by (auto simp: find_None_iff event_of_key)
    have k: "event_key \<lparr>ce_workspaceId = w, ce_stage = action_string a, ce_reason = r, ce_status = EventPending,
         ce_leaseOwner = None, ce_leaseExpiresAt = None, ce_lastError = None, ce_scheduledAt = None,
         ce_executedAt = None\<rparr> = (w, action_string a)" for r by (simp add: event_key_def)
    from None n show ?thesis
      by (auto simp: upsert_event_def Let_def only_event_def events_ok_def event_at_def find_append event_of_key k
          split: option.split)
  next
    case (Some e)
    then show ?thesis
      by (auto simp: upsert_event_def Let_def
          intro!: only_event_update [where p = "event_of w (action_string a)"
            and f = "with_reason ca"])
  qed
qed

text \<open>
  What an action does to the tables leaves the rows of the actions alone, and so, in what
  follows, do the other clients.
\<close>

definition leaves_events :: "string \<Rightarrow> canceler \<Rightarrow> bool" where
  "leaves_events w ca \<longleftrightarrow> (\<forall>st i s. same_events w s (ca_env ca st i s))"

named_theorems ev_rules

lemmas [ev_rules] = same_events.prel_rules

lemma same_events_intro: "bw_cancellations s' = bw_cancellations s \<Longrightarrow> same_events w s s'"
  by (simp add: same_events_def events_ok_def event_at_def)

lemma same_events_env [ev_rules]:
  "(\<And>s. bw_cancellations (f s) = bw_cancellations s) \<Longrightarrow> prog_rel (same_events w) (prog_env f)"
  by (simp add: prog_rel_def same_events_intro)

lemma same_events_others [ev_rules]: "leaves_events w ca \<Longrightarrow> prog_rel (same_events w) (others_act ca a i)"
  by (simp add: prog_rel_def others_act_def leaves_events_def)

lemma same_events_each [ev_rules]:
  "(\<And>x. prog_rel (same_events w) (f x)) \<Longrightarrow> prog_rel (same_events w) (prog_each f xs)"
proof (induction xs)
  case (Cons x xs)
  then show ?case unfolding prog_each.simps by (intro ev_rules) simp_all
qed (simp add: same_events.prel_return)

lemma same_events_provider [ev_rules]: "prog_rel (same_events w) (call_provider ca c)"
  unfolding call_provider_def by (intro ev_rules) simp

lemma same_events_tables [ev_rules]:
  "prog_rel (same_events w) (update_workspace w' f)" "prog_rel (same_events w) (update_computer i g)"
  "prog_rel (same_events w) (archive_workspace w' now)"
  by (auto simp: prog_rel_def update_workspace_def update_computer_def archive_workspace_def
      update_db_def split: option.split intro!: same_events_intro)

lemma action_same_events:
  assumes [ev_rules]: "leaves_events w ca"
  shows "prog_rel (same_events w) (executePrismaCancellationAction ca w a now)"
  by (cases a; simp add: mark_canceling_def pause_routines_def block_new_runs_def disable_openrouter_def
      key_hashes_def each_computer_def suspend_one_def destroy_one_def delete_openrouter_def revoke_connectors_def
      delete_secrets_def;
    intro ev_rules; simp add: update_db_def)

lemma action_string_inj: "action_string a = action_string b \<longleftrightarrow> a = b"
  by (cases a; cases b) simp_all

lemma completed_action_at: "completed_action w a s \<longleftrightarrow> (case event_at w (action_string a) s of None \<Rightarrow> False
    | Some e \<Rightarrow> ce_status e = EventCompleted \<and> ce_executedAt e \<noteq> None)"
  by (simp add: completed_action_def event_at_def)

lemma find_updateMany:
  "(\<And>e. event_of w st (f e) = event_of w st e) \<Longrightarrow>
   find (event_of w st) (updateMany p f es) = map_option (\<lambda>e. if p e then f e else e) (find (event_of w st) es)"
  by (induction es) (auto simp: updateMany_def)

lemma claim_outcome:
  assumes "claimCancellationEvent w st owner now ms s = (r, s1)" and "events_ok s" and "event_at w st s = Some e"
  shows "r = Inr (claimable_event now e) \<and>
    (if claimable_event now e then \<exists>e1. event_at w st s1 = Some e1 \<and> ce_status e1 = EventRunning else s1 = s)"
proof -
  let ?p = "\<lambda>e. event_of w st e \<and> claimable_event now e"
  have f: "find (\<lambda>e. event_key e = (w, st)) (bw_cancellations s) = Some e"
    using assms(3) by (simp add: event_at_def event_of_key [abs_def])
  have d: "distinct (map event_key (bw_cancellations s))" using assms(2) by (simp add: events_ok_def)
  have ev: "event_of w st e" using assms(3) by (auto simp: event_at_def dest: find_SomeD)
  have n: "countMany ?p (bw_cancellations s) = (if ?p e then 1 else 0)"
    by (rule event_row.count_found [OF d f]) (simp add: event_of_key)
  show ?thesis
  proof (cases "claimable_event now e")
    case True
    with n ev assms(1) show ?thesis
      using assms(3) by (auto simp: claimCancellationEvent_def event_at_def find_updateMany)
  next
    case False
    with n ev have "countMany ?p (bw_cancellations s) = 0" by simp
    with assms(1) show ?thesis using False
      by (auto simp: claimCancellationEvent_def updateMany_count0 simp del: countMany_0)
  qed
qed

section \<open>One action\<close>

lemma update_found:
  assumes "event_at w st s = Some e" and "\<And>e. event_of w st (f e) = event_of w st e"
  shows "fst (update_event w st f s) = Inr ()" and "event_at w st (snd (update_event w st f s)) = Some (f e)"
proof -
  from assms(1) have "event_of w st e" and "list_ex (event_of w st) (bw_cancellations s)"
    by (auto simp: event_at_def list_ex_iff dest: find_SomeD)
  with assms show "fst (update_event w st f s) = Inr ()" "event_at w st (snd (update_event w st f s)) = Some (f e)"
    by (simp_all add: update_event_def event_at_def find_updateMany)
qed

lemma same_eventsD:
  assumes "prog_rel (same_events w) m" and "m s = (r, s')" and "events_ok s"
  shows "events_ok s'" and "event_at w st s' = event_at w st s"
  using prog_relD [OF assms(1,2)] assms(3) by (simp_all add: same_events_def)

lemma others_actE:
  assumes "leaves_events w ca" and "events_ok s"
  obtains s' where "others_act ca a i s = (Inr (), s')" and "events_ok s'" and "\<And>st. event_at w st s' = event_at w st s"
  using assms that by (simp add: others_act_def leaves_events_def same_events_def)

definition action_ended :: "string \<Rightarrow> cancellation_action \<Rightarrow> db_error + unit \<Rightarrow> bw \<Rightarrow> bool" where
  "action_ended w a r s \<longleftrightarrow> completed_action w a s = (r = Inr ())"

lemma run_claimed_outcome:
  assumes ca: "leaves_events w ca" and ok: "events_ok s" and e: "event_at w (action_string a) s = Some e"
    and run: "run_claimed ca w a s = (r, s')"
  shows "action_ended w a r s'"
proof -
  obtain r1 s1 where m: "executePrismaCancellationAction ca w a (ca_clock ca (action_string a) 1) s = (r1, s1)"
    by fastforce
  note kept = same_eventsD [OF action_same_events [OF ca] m ok]
  show ?thesis
  proof (cases r1)
    case (Inl err)
    obtain s2 where s2: "others_act ca a 4 s1 = (Inr (), s2)" "event_at w (action_string a) s2 = Some e"
      using others_actE [OF ca kept(1)] kept(2) e by metis
    define s3 where "s3 = snd (failCancellationEvent ca w (action_string a) err s2)"
    have "failCancellationEvent ca w (action_string a) err s2 = (Inr (), s3)" "\<not> completed_action w a s3"
      by (simp_all add: s3_def failCancellationEvent_def prod_eq_iff completed_action_at update_found [OF s2(2)])
    then show ?thesis using run m s2(1) Inl
      by (auto simp: run_claimed_def prog_catch_def prog_bind_run action_ended_def)
  next
    case (Inr u)
    obtain s2 where s2: "others_act ca a 3 s1 = (Inr (), s2)" "event_at w (action_string a) s2 = Some e"
      using others_actE [OF ca kept(1)] kept(2) e by metis
    define s3 where "s3 = snd (complete_event w (action_string a) (ca_clock ca (action_string a) 2) s2)"
    have "complete_event w (action_string a) (ca_clock ca (action_string a) 2) s2 = (Inr (), s3)" "completed_action w a s3"
      by (simp_all add: s3_def complete_event_def prod_eq_iff completed_action_at update_found [OF s2(2)])
    then show ?thesis using run m s2(1) Inr
      by (auto simp: run_claimed_def prog_catch_def prog_bind_run action_ended_def)
  qed
qed

lemma upsert_outcome:
  assumes "upsert_event ca w a s = (r, s1)" and "events_ok s"
  obtains e where "r = Inr e" and "event_at w (action_string a) s1 = Some e" and "events_ok s1"
    and "completed_action w a s1 = completed_action w a s"
proof (cases "event_at w (action_string a) s")
  case None
  then have n: "find (event_of w (action_string a)) (bw_cancellations s) = None" by (simp add: event_at_def)
  have "events_ok s1" using prog_relD [OF upsert_only_event assms(1)] assms(2) by (simp add: only_event_def)
  with n assms(1) that show ?thesis
    by (auto simp: upsert_event_def Let_def event_at_def completed_action_at find_append event_of_def)
next
  case (Some e)
  then have n: "find (event_of w (action_string a)) (bw_cancellations s) = Some e" by (simp add: event_at_def)
  have "events_ok s1" using prog_relD [OF upsert_only_event assms(1)] assms(2) by (simp add: only_event_def)
  moreover have "event_of w (action_string a) e" using n by (auto dest: find_SomeD)
  ultimately show ?thesis using n assms(1) that
    by (auto simp: upsert_event_def event_at_def completed_action_at find_updateMany)
qed

lemma execute_action_outcome:
  assumes ca: "leaves_events w ca" and ok: "events_ok s" and new: "\<not> completed_action w a s"
    and run: "execute_action ca w a s = (r, s')"
  shows "action_ended w a r s' \<and> (r = Inr () \<longrightarrow> (\<exists>s4. run_claimed ca w a s4 = (Inr (), s')))"
proof -
  let ?st = "action_string a"
  obtain r1 s1 where u: "upsert_event ca w a s = (r1, s1)" by fastforce
  obtain e where e: "r1 = Inr e" "event_at w ?st s1 = Some e" "events_ok s1" "\<not> completed_action w a s1"
    using upsert_outcome [OF u ok] new by metis
  have "e \<in> set (bw_cancellations s1)" using e(2) by (auto simp: event_at_def dest: find_SomeD)
  with e have open_row: "ce_status e \<noteq> EventCompleted" by (auto simp: completed_action_at events_ok_def)
  obtain s2 where s2: "others_act ca a 1 s1 = (Inr (), s2)" "events_ok s2" "event_at w ?st s2 = Some e"
    using others_actE [OF ca e(3)] e(2) by metis
  obtain r3 s3 where c: "claimCancellationEvent w ?st (ca_owner ca ?st) (ca_clock ca ?st 0) (ca_leaseMs ca) s2 = (r3, s3)"
    by fastforce
  note claimed = claim_outcome [OF c s2(2,3)]
  have ok3: "events_ok s3" using prog_relD [OF claim_only_event c] s2(2) by (simp add: only_event_def)
  obtain s4 where s4: "others_act ca a 2 s3 = (Inr (), s4)" "events_ok s4" "event_at w ?st s4 = event_at w ?st s3"
    using others_actE [OF ca ok3] by metis
  note steps = execute_action_def prog_bind_run u e(1) open_row s2(1) c s4(1)
  show ?thesis
  proof (cases "claimable_event (ca_clock ca ?st 0) e")
    case True
    with claimed obtain e1 where "r3 = Inr True" "event_at w ?st s4 = Some e1" using s4(3) by auto
    with run have "run_claimed ca w a s4 = (r, s')" by (simp add: steps del: One_nat_def)
    with run_claimed_outcome [OF ca s4(2) \<open>event_at w ?st s4 = Some e1\<close>] show ?thesis by auto
  next
    case False
    with claimed have r3: "r3 = Inr False" and at4: "event_at w ?st s4 = Some e" using s4(3) s2(3) by auto
    with run show ?thesis
      by (auto simp: steps action_ended_def completed_action_at event_at_def [symmetric] simp del: One_nat_def)
  qed
qed

lemma execute_action_only:
  assumes "leaves_events w ca"
  shows "prog_rel (only_event w (action_string a)) (execute_action ca w a)"
proof -
  have same: "prog_rel (only_event w st) m" if "prog_rel (same_events w) m" for m :: "'x bwprog" and st
    using that by (auto simp: prog_rel_def same_events_def only_event_def)
  note rules = only_event.prel_rules claim_only_event upsert_only_event
    same [OF action_same_events [OF assms]] same [OF same_events_others [OF assms]]
  show ?thesis
    unfolding execute_action_def run_claimed_def complete_event_def failCancellationEvent_def
    by (intro rules update_event_only; simp)
qed

section \<open>The list of actions\<close>

text \<open>How far a list of actions came: all of it, or up to the action that failed.\<close>

definition resumed :: "string \<Rightarrow> cancellation_action list \<Rightarrow> bw \<Rightarrow> db_error + cancellation_action list \<Rightarrow> bw \<Rightarrow> bool" where
  "resumed w as s r s' \<longleftrightarrow> (case r of
     Inr executed \<Rightarrow> executed = filter (\<lambda>a. \<not> completed_action w a s) as \<and> list_all (\<lambda>a. completed_action w a s') as
   | Inl e \<Rightarrow> \<exists>before a later. as = before @ a # later \<and> list_all (\<lambda>b. completed_action w b s') before \<and>
       \<not> completed_action w a s' \<and> list_all (\<lambda>b. completed_action w b s' = completed_action w b s) later)"

lemma resumed_Inl:
  "as = before @ a # later \<Longrightarrow> list_all (\<lambda>b. completed_action w b s') before \<Longrightarrow> \<not> completed_action w a s' \<Longrightarrow>
   list_all (\<lambda>b. completed_action w b s' = completed_action w b s) later \<Longrightarrow> resumed w as s (Inl e) s'"
  unfolding resumed_def by auto

lemma resumed_Cons:
  assumes "resumed w as s1 r s'" and "\<And>b. b \<in> set as \<Longrightarrow> completed_action w b s1 = completed_action w b s"
    and "completed_action w a s'"
  shows "resumed w (a # as) s (map_sum id (\<lambda>x. if completed_action w a s then x else a # x) r) s'"
proof (cases r)
  case (Inl e)
  with assms(1) obtain before b later where l: "as = before @ b # later"
    "list_all (\<lambda>b. completed_action w b s') before" "\<not> completed_action w b s'"
    "list_all (\<lambda>b. completed_action w b s' = completed_action w b s1) later"
    by (auto simp: resumed_def)
  from l(4) have "list_all (\<lambda>b. completed_action w b s' = completed_action w b s) later"
    using assms(2) l(1) by (auto simp: list_all_iff)
  with l(1-3) assms(3) show ?thesis
    unfolding Inl map_sum.simps by (intro resumed_Inl [where before = "a # before"]) simp_all
next
  case (Inr x)
  with assms show ?thesis by (auto simp: resumed_def cong: filter_cong)
qed

lemma actions_resume:
  assumes ca: "leaves_events w ca"
  shows "events_ok s \<Longrightarrow> distinct as \<Longrightarrow> executeCancellationActions ca w as s = (r, s') \<Longrightarrow>
    resumed w as s r s' \<and> (\<forall>b. b \<notin> set as \<longrightarrow> completed_action w b s' = completed_action w b s)"
proof (induction as arbitrary: s r s')
  case Nil
  then show ?case by (auto simp: resumed_def)
next
  case (Cons a as)
  have a: "a \<notin> set as" and d: "distinct as" using Cons.prems(2) by simp_all
  show ?case
  proof (cases "completed_action w a s")
    case True
    with Cons.prems(3) have "executeCancellationActions ca w as s = (r, s')" by (simp add: prog_bind_run)
    note ih = Cons.IH [OF Cons.prems(1) d this]
    with resumed_Cons [of w as s r s' s a] a True show ?thesis by (simp add: map_sum.id [unfolded id_def] id_def)
  next
    case False
    obtain s1 where s1: "others_act ca a 0 s = (Inr (), s1)" "events_ok s1" "\<And>st. event_at w st s1 = event_at w st s"
      using others_actE [OF ca Cons.prems(1)] by metis
    obtain r2 s2 where x: "execute_action ca w a s1 = (r2, s2)" by fastforce
    have "\<not> completed_action w a s1" using False s1(3) by (simp add: completed_action_at)
    from execute_action_outcome [OF ca s1(2) this x] have end_a: "completed_action w a s2 = (r2 = Inr ())"
      by (simp add: action_ended_def)
    have only: "only_event w (action_string a) s1 s2" by (rule prog_relD [OF execute_action_only [OF ca] x])
    have ok2: "events_ok s2" using only s1(2) by (simp add: only_event_def)
    have rest: "completed_action w b s2 = completed_action w b s" if "b \<noteq> a" for b
      using only that s1(3) by (simp add: only_event_def completed_action_at action_string_inj)
    have in_as: "completed_action w b s2 = completed_action w b s" if "b \<in> set as" for b
      using rest a that by metis
    show ?thesis
    proof (cases r2)
      case (Inl e)
      with Cons.prems(3) False s1(1) x have "r = Inl e" "s' = s2" by (simp_all add: prog_bind_run)
      with end_a Inl rest in_as show ?thesis
        by (auto simp: list_all_iff intro!: resumed_Inl [where before = "[]"])
    next
      case (Inr u)
      obtain r3 s3 where y: "executeCancellationActions ca w as s2 = (r3, s3)" by fastforce
      from Cons.IH [OF ok2 d y] have ih: "resumed w as s2 r3 s3"
        "\<And>b. b \<notin> set as \<Longrightarrow> completed_action w b s3 = completed_action w b s2" by auto
      from Cons.prems(3) False s1(1) x y Inr have r: "r = map_sum id ((#) a) r3" "s' = s3"
        by (auto simp: prog_bind_run split: sum.splits)
      have "completed_action w a s3" using ih(2) [OF a] end_a Inr by simp
      with resumed_Cons [OF ih(1), of s a] in_as False have "resumed w (a # as) s r s'"
        unfolding r by (cases r3) auto
      then show ?thesis using ih(2) rest r(2) by auto
    qed
  qed
qed

section \<open>A cancelled workspace\<close>

definition inactive :: "string \<Rightarrow> bw \<Rightarrow> bool" where
  "inactive w s \<longleftrightarrow> list_ex (\<lambda>a. aw_rakazoWorkspaceId a = w) (bw_workspaces s) \<and>
     list_all (\<lambda>a. aw_rakazoWorkspaceId a = w \<longrightarrow> aw_subscriptionStatus a \<notin> set ACTIVE_SUBSCRIPTIONS) (bw_workspaces s)"

definition stays_inactive :: "string \<Rightarrow> bw \<Rightarrow> bw \<Rightarrow> bool" where
  "stays_inactive w s s' \<longleftrightarrow> (inactive w s \<longrightarrow> inactive w s')"

definition never_reactivates :: "string \<Rightarrow> canceler \<Rightarrow> bool" where
  "never_reactivates w ca \<longleftrightarrow> (\<forall>st i s. stays_inactive w s (ca_env ca st i s))"

interpretation stays_inactive: state_preorder "stays_inactive w" for w
  by unfold_locales (auto simp: stays_inactive_def)

named_theorems in_rules

lemmas [in_rules] = stays_inactive.prel_rules

lemma inactive_cong: "bw_workspaces s' = bw_workspaces s \<Longrightarrow> inactive w s' = inactive w s"
  by (simp add: inactive_def)

lemma stays_intro: "bw_workspaces s' = bw_workspaces s \<Longrightarrow> stays_inactive w s s'"
  unfolding stays_inactive_def using inactive_cong by blast

lemma stays_env [in_rules]:
  "(\<And>s. bw_workspaces (f s) = bw_workspaces s) \<Longrightarrow> prog_rel (stays_inactive w) (prog_env f)"
  by (simp add: prog_rel_def stays_intro)

lemma stays_others [in_rules]: "never_reactivates w ca \<Longrightarrow> prog_rel (stays_inactive w) (others_act ca a i)"
  by (simp add: prog_rel_def others_act_def never_reactivates_def)

lemma stays_each [in_rules]:
  "(\<And>x. prog_rel (stays_inactive w) (f x)) \<Longrightarrow> prog_rel (stays_inactive w) (prog_each f xs)"
proof (induction xs)
  case (Cons x xs)
  then show ?case unfolding prog_each.simps by (intro in_rules) simp_all
qed (simp add: stays_inactive.prel_return)

lemma inactive_update:
  assumes "\<And>a. aw_rakazoWorkspaceId (f a) = aw_rakazoWorkspaceId a"
    and "\<And>a. aw_subscriptionStatus a \<notin> set ACTIVE_SUBSCRIPTIONS \<Longrightarrow> aw_subscriptionStatus (f a) \<notin> set ACTIVE_SUBSCRIPTIONS"
    and "bw_workspaces s' = updateMany p f (bw_workspaces s)" and "inactive w s"
  shows "inactive w s'"
  unfolding inactive_def assms(3) list_all_iff list_ex_iff set_updateMany
proof
  from assms(4) obtain a where "a \<in> set (bw_workspaces s)" "aw_rakazoWorkspaceId a = w"
    by (auto simp: inactive_def list_ex_iff)
  then show "\<exists>a\<in>(\<lambda>a. if p a then f a else a) ` set (bw_workspaces s). aw_rakazoWorkspaceId a = w"
    using assms(1) by auto
  show "\<forall>a\<in>(\<lambda>a. if p a then f a else a) ` set (bw_workspaces s).
      aw_rakazoWorkspaceId a = w \<longrightarrow> aw_subscriptionStatus a \<notin> set ACTIVE_SUBSCRIPTIONS"
    using assms(1,2,4) by (auto simp: inactive_def list_all_iff)
qed

lemma stays_workspace [in_rules]:
  assumes "\<And>a. aw_rakazoWorkspaceId (f a) = aw_rakazoWorkspaceId a"
    and "\<And>a. aw_subscriptionStatus a \<notin> set ACTIVE_SUBSCRIPTIONS \<Longrightarrow> aw_subscriptionStatus (f a) \<notin> set ACTIVE_SUBSCRIPTIONS"
  shows "prog_rel (stays_inactive w) (update_workspace w' f)"
  using assms unfolding prog_rel_def stays_inactive_def update_workspace_def
  by (auto split: option.split elim!: inactive_update [where f = f, rotated 3])

lemma stays_rows [in_rules]:
  "prog_rel (stays_inactive w) (call_provider ca c)" "prog_rel (stays_inactive w) (update_computer i g)"
  "prog_rel (stays_inactive w) (update_event w' st h)" "prog_rel (stays_inactive w) (upsert_event ca w' a)"
  "prog_rel (stays_inactive w) (claimCancellationEvent w' st owner now ms)"
  by (auto simp: prog_rel_def call_provider_def prog_bind_run update_computer_def update_db_def update_event_def
      upsert_event_def claimCancellationEvent_def Let_def split: option.split intro!: stays_intro)

lemma stays_run:
  "prog_rel (stays_inactive w) m \<Longrightarrow> m s = (r, s') \<Longrightarrow> inactive w s \<Longrightarrow> inactive w s'"
  by (drule (1) prog_relD) (simp add: stays_inactive_def)

lemma stays_archive [in_rules]: "prog_rel (stays_inactive w) (archive_workspace w' now)"
proof -
  have u: "inactive w s'" if "update_workspace w' (\<lambda>a. a\<lparr>aw_subscriptionStatus := ''canceled'', aw_retentionEndsAt := Some now\<rparr>) s = (r, s')"
    "inactive w s" for r s s' by (rule stays_run [OF stays_workspace that]) (simp_all add: ACTIVE_SUBSCRIPTIONS_def)
  have "inactive w (update_db f s) = inactive w s" for f s by (simp add: inactive_def update_db_def)
  then show ?thesis
    by (auto simp: prog_rel_def archive_workspace_def stays_inactive_def split: prod.split sum.split elim!: u)
qed

lemma execute_stays:
  assumes [in_rules]: "never_reactivates w ca"
  shows "prog_rel (stays_inactive w) (executePrismaCancellationAction ca w a now)"
    and "prog_rel (stays_inactive w) (execute_action ca w a)"
proof -
  show a: "prog_rel (stays_inactive w) (executePrismaCancellationAction ca w a now)" for now
    by (cases a; simp add: mark_canceling_def pause_routines_def block_new_runs_def disable_openrouter_def
        key_hashes_def each_computer_def suspend_one_def destroy_one_def delete_openrouter_def revoke_connectors_def
        delete_secrets_def;
      intro in_rules; simp add: update_db_def ACTIVE_SUBSCRIPTIONS_def)
  show "prog_rel (stays_inactive w) (execute_action ca w a)"
    unfolding execute_action_def run_claimed_def complete_event_def failCancellationEvent_def
    by (intro in_rules a)
qed

lemma rethrown:
  "prog_catch m (\<lambda>e. prog_bind f (\<lambda>_. prog_bind (g e) (\<lambda>_. prog_throw e))) s = (Inr x, s') \<Longrightarrow> m s = (Inr x, s')"
  by (auto simp: prog_catch_def prog_bind_run split: prod.splits sum.splits)

lemma mark_canceling_inactive:
  assumes nr: "never_reactivates w ca" and run: "run_claimed ca w MarkCanceling s = (Inr (), s')"
  shows "inactive w s'"
proof -
  let ?now = "ca_clock ca (action_string MarkCanceling) 1"
  from rethrown [OF run [unfolded run_claimed_def]] obtain x s3 y s4 now' where
    m: "mark_canceling ca w ?now s = (Inr x, s3)"
    and o': "others_act ca MarkCanceling 3 s3 = (Inr y, s4)"
    and c: "complete_event w (action_string MarkCanceling) now' s4 = (Inr (), s')"
    unfolding executePrismaCancellationAction.simps prog_bind_Inr by blast
  from m obtain i s1 z s2 where
    u: "update_workspace w (\<lambda>a. a\<lparr>aw_subscriptionStatus := ''canceling'', aw_canceledAt := Some ?now\<rparr>) s = (Inr i, s1)"
    and o: "others_act ca MarkCanceling 5 s1 = (Inr z, s2)"
    and s3: "bw_workspaces s3 = bw_workspaces s2"
    unfolding mark_canceling_def prog_bind_Inr by fastforce
  from u obtain a where "find (\<lambda>a. aw_rakazoWorkspaceId a = w) (bw_workspaces s) = Some a"
    and s1: "bw_workspaces s1 = updateMany (\<lambda>a. aw_rakazoWorkspaceId a = w)
      (\<lambda>a. a\<lparr>aw_subscriptionStatus := ''canceling'', aw_canceledAt := Some ?now\<rparr>) (bw_workspaces s)"
    by (auto simp: update_workspace_def split: option.splits)
  then have "a \<in> set (bw_workspaces s)" "aw_rakazoWorkspaceId a = w" by (auto dest: find_SomeD)
  then have "inactive w s1"
    unfolding inactive_def s1 list_all_iff list_ex_iff set_updateMany bex_simps
    by (auto simp: ACTIVE_SUBSCRIPTIONS_def simp del: if_image_distrib intro!: bexI [of _ a])
  then have "inactive w s3" using stays_run [OF stays_others [OF nr] o] s3 by (simp add: inactive_def)
  then have "inactive w s4" by (rule stays_run [OF stays_others [OF nr] o'])
  moreover have "prog_rel (stays_inactive w) (complete_event w (action_string MarkCanceling) now')"
    unfolding complete_event_def by (rule stays_rows)
  ultimately show ?thesis using c by (blast intro: stays_run)
qed

lemma actions_inactive:
  assumes ca: "leaves_events w ca" "never_reactivates w ca"
  shows "events_ok s \<Longrightarrow> executeCancellationActions ca w as s = (Inr executed, s') \<Longrightarrow>
    (inactive w s \<longrightarrow> inactive w s') \<and> (MarkCanceling \<in> set executed \<longrightarrow> inactive w s')"
proof (induction as arbitrary: s executed)
  case Nil
  then show ?case by simp
next
  case (Cons a as)
  show ?case
  proof (cases "completed_action w a s")
    case True
    with Cons.prems Cons.IH show ?thesis by (simp add: prog_bind_run)
  next
    case False
    obtain s1 where s1: "others_act ca a 0 s = (Inr (), s1)" "events_ok s1" "\<And>st. event_at w st s1 = event_at w st s"
      using others_actE [OF ca(1) Cons.prems(1)] by metis
    from Cons.prems(2) False s1(1) obtain s2 more where x: "execute_action ca w a s1 = (Inr (), s2)"
      and y: "executeCancellationActions ca w as s2 = (Inr more, s')" and e: "executed = a # more"
      by (auto simp: prog_bind_run split: prod.splits sum.splits)
    have "\<not> completed_action w a s1" using False s1(3) by (simp add: completed_action_at)
    from execute_action_outcome [OF ca(1) s1(2) this x]
    have m: "inactive w s2" if "a = MarkCanceling" using that mark_canceling_inactive [OF ca(2)] by auto
    have "events_ok s2"
      using prog_relD [OF execute_action_only [OF ca(1)] x] s1(2) by (simp add: only_event_def)
    note ih = Cons.IH [OF this y]
    moreover have "inactive w s2" if "inactive w s"
      using stays_run [OF execute_stays(2) [OF ca(2)] x stays_run [OF stays_others [OF ca(2)] s1(1) that]] .
    ultimately show ?thesis using m e by auto
  qed
qed

lemma schedule_stays: "prog_rel (stays_inactive w) (schedule_cleanup ca w' at)"
proof -
  have u: "inactive w s'" if "update_workspace w' (aw_retentionEndsAt_update (\<lambda>_. Some at)) s = (r, s')" "inactive w s"
    for r s s' by (rule stays_run [OF stays_workspace that]) simp_all
  have "inactive w (s\<lparr>bw_cancellations := es\<rparr>) = inactive w s" for s es by (simp add: inactive_def)
  then show ?thesis
    by (auto simp: prog_rel_def schedule_cleanup_def Let_def stays_inactive_def split: prod.split sum.split option.split
        elim!: u)
qed

lemma inactive_is_blocked:
  assumes "inactive w (view 1)" and "list_ex (\<lambda>b. b_id b = i \<and> b_workspaceId b = w) (db_bots (bw_db (view 0)))" and "i \<noteq> []"
  shows "\<exists>reason. resolveBrandwellManagedModel view now
    \<lparr>ms_workspaceId = w, ms_botId = Some i, ms_workload = load\<rparr> = Inl (RunBlocked reason)"
proof -
  from assms(2) obtain b where b: "find (\<lambda>b. b_id b = i \<and> b_workspaceId b = w) (db_bots (bw_db (view 0))) = Some b"
    by (cases "find (\<lambda>b. b_id b = i \<and> b_workspaceId b = w) (db_bots (bw_db (view 0)))")
      (auto simp: find_None_iff list_ex_iff)
  have ex: "list_ex (\<lambda>a. aw_rakazoWorkspaceId a = w) (bw_workspaces (view 1))" using assms(1) by (simp add: inactive_def)
  then obtain a where a: "find (\<lambda>a. aw_rakazoWorkspaceId a = w) (bw_workspaces (view 1)) = Some a"
    by (cases "find (\<lambda>a. aw_rakazoWorkspaceId a = w) (bw_workspaces (view 1))") (auto simp: find_None_iff list_ex_iff)
  then have "aw_subscriptionStatus a \<notin> set ACTIVE_SUBSCRIPTIONS"
    using assms(1) by (auto simp: inactive_def list_all_iff dest: find_SomeD)
  then have c: "credential_checks view now sc botId identity = Inl (RunBlocked WorkspaceInactive)"
    if "ms_workspaceId sc = w" for sc botId identity
    using a that by (simp add: credential_checks_def Let_def del: One_nat_def)
  from b ex assms(3) show ?thesis
    by (auto simp: resolveBrandwellManagedModel_def truthy_string_def c simp del: One_nat_def split: option.split)
qed

section \<open>What a cancellation guarantees\<close>

text \<open>C29. Two workers never hold the same stage of a cancellation: once a claim of a stage was
  granted, whatever happens as long as the row of the stage stays as it is, every claim at a time
  at which the lease has not run out is refused and changes nothing.\<close>

theorem stage_worked_by_one:
  assumes "claimCancellationEvent w st owner now ms s = (Inr True, s1)"
    and "events_ok s" and "events_ok s2" and "event_at w st s2 = event_at w st s1" and "now' \<le> now + ms"
  shows "claimCancellationEvent w st owner' now' ms' s2 = (Inr False, s2)"
proof -
  let ?f = "\<lambda>e. e\<lparr>ce_status := EventRunning, ce_leaseOwner := Some owner,
    ce_leaseExpiresAt := Some (now + ms), ce_lastError := None\<rparr>"
  obtain e where e: "event_at w st s = Some e"
  proof (cases "event_at w st s")
    case None
    then have "countMany (\<lambda>e. event_of w st e \<and> claimable_event now e) (bw_cancellations s) = 0"
      by (auto simp: event_at_def find_None_iff countMany_def filter_empty_conv)
    with assms(1) show ?thesis by (simp add: claimCancellationEvent_def Let_def)
  qed
  with claim_outcome [OF assms(1,2) e] have c: "claimable_event now e" by simp
  have "event_of w st e" using e by (auto simp: event_at_def dest: find_SomeD)
  then have "event_at w st s1 = Some (?f e)"
    using assms(1) c e by (auto simp: claimCancellationEvent_def Let_def event_at_def find_updateMany)
  then have e2: "event_at w st s2 = Some (?f e)" using assms(4) by simp
  obtain r s3 where run: "claimCancellationEvent w st owner' now' ms' s2 = (r, s3)" by fastforce
  have "\<not> claimable_event now' (?f e)" using assms(5) by (simp add: claimable_event_def)
  with claim_outcome [OF run assms(3) e2] run show ?thesis by simp
qed


text \<open>C27. After a cancellation that marked the workspace, no run of a bot of the workspace reaches
  the agent: the resolver of managed models refuses it, and what the executor does with the run is
  the same for every session it could have opened.\<close>

theorem cancelled_workspace_never_runs:
  assumes "leaves_events w ca" and "never_reactivates w ca" and "events_ok s"
    and "executeBrandwellCancellation ca w now policy s = (Inr (at, executed), s')" and "MarkCanceling \<in> set executed"
    and "r_workspaceId r = w" and "r_botId r \<noteq> []"
    and "list_ex (\<lambda>b. b_id b = r_botId r \<and> b_workspaceId b = w) (db_bots (bw_db (view 0)))" and "view 1 = s'"
    and "find (\<lambda>q. r_id q = runId) (db_runs d) = Some r"
  shows "(\<exists>message. managed_resolver view t load r = ResolveBlocked message) \<and>
    continueRun sb wk (managed_resolver view t load) session runId d =
    continueRun sb wk (managed_resolver view t load) session' runId d"
proof -
  from assms(4) obtain plan :: cancellation_lifecycle and s1 where
    x: "executeCancellationActions ca w (cl_immediate plan) s = (Inr executed, s1)"
    and sc: "schedule_cleanup ca w (cl_retentionEndsAt plan) (ca_env ca RETENTION_CLEANUP 0 s1) = (Inr (), s')"
    by (auto simp: executeBrandwellCancellation_def prog_bind_Inr split: sum.splits)
  have "inactive w s1" using actions_inactive [OF assms(1-3) x] assms(5) by simp
  then have "inactive w (ca_env ca RETENTION_CLEANUP 0 s1)" using assms(2) by (simp add: never_reactivates_def stays_inactive_def)
  then have "inactive w (view 1)" unfolding assms(9) by (rule stays_run [OF schedule_stays sc])
  then obtain message where m: "managed_resolver view t load r = ResolveBlocked message"
    using inactive_is_blocked [where view = view and i = "r_botId r" and w = w and now = t and load = "load r"]
      assms(6-8) by (auto simp: managed_resolver_def)
  then show ?thesis using assms(10)
    by (simp add: continueRun_def Let_def prog_bind_run split: prod.split sum.split option.split)
qed

text \<open>
  The rows of completed actions outlive a reactivation: a second cancellation of the workspace
  executes nothing, whatever the subscription is by then.
\<close>

lemma completed_cancellation_is_skipped:
  "list_all (\<lambda>a. completed_action w a s) as \<Longrightarrow> executeCancellationActions ca w as s = (Inr [], s)"
  by (induction as) (simp_all add: prog_bind_run)

section \<open>Witnesses\<close>

definition sample_canceler :: "(provider_call \<Rightarrow> bool) \<Rightarrow> canceler" where
  "sample_canceler down = \<lparr>ca_env = (\<lambda>_ _ s. s), ca_clock = (\<lambda>_ i. 10 + int i), ca_owner = (\<lambda>st. st), ca_leaseMs = 300000,
     ca_reason = Some ''churn'', ca_down = down, ca_message = (\<lambda>_. ''down'')\<rparr>"

lemma sample_canceler_leaves: "leaves_events w (sample_canceler down)" "never_reactivates w (sample_canceler down)"
  by (simp_all add: leaves_events_def never_reactivates_def sample_canceler_def same_events_def stays_inactive_def)

abbreviation immediate :: "cancellation_action list" where
  "immediate \<equiv> [MarkCanceling, PauseRoutines, BlockNewRuns, DisableOpenrouter, SuspendComputers]"

lemma sample_events_ok: "events_ok sample_bw"
  by (simp add: events_ok_def sample_bw_def empty_bw_def)

definition sample_failed :: bw where
  "sample_failed = snd (executeCancellationActions (sample_canceler (\<lambda>c. c = DisableKey ''h'')) ''w'' immediate sample_bw)"


definition sample_claimed :: bw where
  "sample_claimed = snd (claimCancellationEvent ''w'' ''archive_workspace'' ''one'' 5 300000
     (snd (upsert_event (sample_canceler (\<lambda>_. False)) ''w'' ArchiveWorkspace sample_bw)))"

theorem stage_worked_by_one_witness:
  "claimCancellationEvent ''w'' ''archive_workspace'' ''two'' 300005 300000 sample_claimed = (Inr False, sample_claimed)"
proof -
  let ?s = "snd (upsert_event (sample_canceler (\<lambda>_. False)) ''w'' ArchiveWorkspace sample_bw)"
  have ok: "events_ok ?s"
    using upsert_only_event [of "''w''" ArchiveWorkspace "sample_canceler (\<lambda>_. False)"] sample_events_ok
    by (simp add: prog_rel_def only_event_def)
  have "fst (claimCancellationEvent ''w'' ''archive_workspace'' ''one'' 5 300000 ?s) = Inr True" by code_simp
  then have c: "claimCancellationEvent ''w'' ''archive_workspace'' ''one'' 5 300000 ?s = (Inr True, sample_claimed)"
    by (simp add: sample_claimed_def prod_eq_iff)
  have "events_ok sample_claimed" using prog_relD [OF claim_only_event c] ok by (simp add: only_event_def)
  from stage_worked_by_one [OF c ok this refl, of 300005] show ?thesis by simp
qed

definition sample_cancelled :: bw where
  "sample_cancelled = snd (executeBrandwellCancellation (sample_canceler (\<lambda>_. False)) ''w'' 5
     \<lparr>po_retentionDays = 30, po_deleteAfterRetention = True\<rparr> sample_bw)"

theorem cancelled_workspace_never_runs_witness:
  "\<exists>message. managed_resolver (\<lambda>_. sample_cancelled) 20 (\<lambda>_. None) (sample_run ''r'' Queued None 2) = ResolveBlocked message"
proof -
  let ?run = "executeBrandwellCancellation (sample_canceler (\<lambda>_. False)) ''w'' 5
     \<lparr>po_retentionDays = 30, po_deleteAfterRetention = True\<rparr> sample_bw"
  have "fst ?run = Inr (2592000005, immediate)" by code_simp
  then have c: "?run = (Inr (2592000005, immediate), sample_cancelled)" by (simp add: sample_cancelled_def prod_eq_iff)
  have b: "list_ex (\<lambda>b. b_id b = ''b'' \<and> b_workspaceId b = ''w'') (db_bots (bw_db sample_cancelled))" by code_simp
  show ?thesis
    using cancelled_workspace_never_runs [OF sample_canceler_leaves sample_events_ok c, of "sample_run ''r'' Queued None 2"
        "\<lambda>_. sample_cancelled" "''r''" "sample_db\<lparr>db_runs := [sample_run ''r'' Queued None 2]\<rparr>" 20 "\<lambda>_. None"] b
    by (simp add: sample_run_def)
qed

text \<open>The cleanup of a reactivated workspace still runs when its time comes.\<close>

lemma reactivated_workspace_is_destroyed:
  "let s = sample_cancelled\<lparr>bw_workspaces := bw_workspaces sample_bw\<rparr>;
       s' = snd (reconcileBrandwellRetentionCleanupWithPrisma (\<lambda>_. sample_canceler (\<lambda>_. False)) 2592000005
         \<lparr>po_retentionDays = 30, po_deleteAfterRetention = True\<rparr> s)
   in bw_credentials s' = [] \<and> db_secrets (bw_db s') = [] \<and> map aw_subscriptionStatus (bw_workspaces s') = [''canceled'']"
  by code_simp

end
