(* ===== verification/Provisioning.thy ===== *)
theory Provisioning
  imports Store JsString
begin

text \<open>
  The setup of a customer's workspace (packages/brandwell/src/provisioning.ts): fifteen steps
  with a checkpoint saved around each, and the rollback of the completed ones when a step fails.
  What a step does is the parameter \<open>provisioner\<close>.
\<close>

section \<open>The plan\<close>

datatype provisioning_step = StepWorkspace | StepServiceIdentity | StepClientAdmin | StepPrimaryAimee | StepTeamComputer
  | StepOpenrouter | StepModelConfiguration | StepDefaultRoutines | StepSkills | StepIntent | StepTrafficid
  | StepPostcard | StepConnectorOnboarding | StepMobileAccess | StepNotifications

definition STEPS :: "provisioning_step list" where
  "STEPS = [StepWorkspace, StepServiceIdentity, StepClientAdmin, StepPrimaryAimee, StepTeamComputer,
     StepOpenrouter, StepModelConfiguration, StepDefaultRoutines, StepSkills, StepIntent, StepTrafficid,
     StepPostcard, StepConnectorOnboarding, StepMobileAccess, StepNotifications]"

record provisioning_input =
  pi_customerId :: string
  pi_primaryUserId :: string
  pi_companyName :: string
  pi_contactName :: string
  pi_contactEmail :: string
  pi_plan :: string
  pi_timezone :: string

datatype step_status = StepPending | StepRunning | StepCompleted | StepFailed | StepRolledBack | StepRollbackFailed

record step_state =
  ss_name :: provisioning_step
  ss_status :: step_status
  ss_resourceId :: "string option"
  ss_error :: "string option"
  ss_startedAt :: "time option"
  ss_completedAt :: "time option"

datatype checkpoint_status = CkPending | CkRunning | CkComplete | CkFailed | CkRollbackFailed

record checkpoint =
  ck_key :: string
  ck_input :: provisioning_input
  ck_status :: checkpoint_status
  ck_runId :: string
  ck_steps :: "step_state list"
  ck_startedAt :: time
  ck_updatedAt :: time
  ck_completedAt :: "time option"
  ck_error :: "string option"

definition required :: "string \<Rightarrow> string \<Rightarrow> db_error + string" where
  "required name text = (if js_trim text = [] then Inl (Thrown (name @ '' is required'')) else Inr (js_trim text))"

fun either :: "'e + 'a \<Rightarrow> ('a \<Rightarrow> 'e + 'b) \<Rightarrow> 'e + 'b" where
  "either (Inl e) f = Inl e"
| "either (Inr a) f = f a"

text \<open>The idempotency key and the cleaned input.\<close>

definition buildBrandwellProvisioningPlan :: "provisioning_input \<Rightarrow> db_error + string \<times> provisioning_input" where
  "buildBrandwellProvisioningPlan input =
     either (required ''brandwellCustomerId'' (pi_customerId input)) (\<lambda>customerId.
     either (required ''companyName'' (pi_companyName input)) (\<lambda>companyName.
     either (required ''primaryBrandwellUserId'' (pi_primaryUserId input)) (\<lambda>primaryUserId.
     let contactEmail = js_lower (js_trim (pi_contactEmail input)) in
     if CHR ''@'' \<notin> set contactEmail then Inl (Thrown ''primaryContactEmail must be valid'')
     else either (required ''timezone'' (pi_timezone input)) (\<lambda>timezone.
       Inr (''brandwell:provision:'' @ customerId,
         input\<lparr>pi_customerId := customerId, pi_primaryUserId := primaryUserId, pi_companyName := companyName,
           pi_contactEmail := contactEmail, pi_contactName := js_trim (pi_contactName input),
           pi_plan := (if js_trim (pi_plan input) = [] then ''aimee'' else js_trim (pi_plan input)),
           pi_timezone := timezone\<rparr>)))))"

definition rollbackOrderForCompletedSteps :: "provisioning_step list \<Rightarrow> provisioning_step list" where
  "rollbackOrderForCompletedSteps completed = filter (\<lambda>s. s \<in> set completed) (rev STEPS)"

section \<open>The world of a run\<close>

text \<open>
  What was done to the outside, in order: an execution that answered, and a rollback that answered
  or failed. The stored checkpoint is the last one saved.
\<close>

datatype setup_action = Executed provisioning_step | RolledBack provisioning_step | RollbackError provisioning_step

record setup_world =
  sw_checkpoint :: "checkpoint option"
  sw_actions :: "setup_action list"
  sw_saves :: nat

text \<open>
  The runner: the answer of a step or its error, the error of a rollback if it fails, which saves
  fail (counted from the start), the clock by save, the identifier of the run, and the messages of
  errors.
\<close>

record provisioner =
  pv_execute :: "provisioning_step \<Rightarrow> checkpoint \<Rightarrow> db_error + string option"
  pv_rollback :: "provisioning_step \<Rightarrow> checkpoint \<Rightarrow> db_error option"
  pv_save_fails :: "nat \<Rightarrow> db_error option"
  pv_now :: "nat \<Rightarrow> time"
  pv_runId :: string
  pv_message :: "db_error \<Rightarrow> string"

datatype provisioning_error = PlainError db_error | ProvisioningError string checkpoint

type_synonym 'a swprog = "(setup_world, provisioning_error, 'a) prog"

definition save :: "provisioner \<Rightarrow> checkpoint \<Rightarrow> unit swprog" where
  "save pv c = (\<lambda>s. case pv_save_fails pv (sw_saves s) of
     Some e \<Rightarrow> (Inl (PlainError e), s\<lparr>sw_saves := sw_saves s + 1\<rparr>)
   | None \<Rightarrow> (Inr (), s\<lparr>sw_checkpoint := Some c, sw_saves := sw_saves s + 1\<rparr>))"

definition now :: "provisioner \<Rightarrow> time swprog" where
  "now pv = prog_gets (\<lambda>s. pv_now pv (sw_saves s))"

definition execute :: "provisioner \<Rightarrow> provisioning_step \<Rightarrow> checkpoint \<Rightarrow> string option swprog" where
  "execute pv step c = (\<lambda>s. case pv_execute pv step c of
     Inl e \<Rightarrow> (Inl (PlainError e), s)
   | Inr r \<Rightarrow> (Inr r, s\<lparr>sw_actions := sw_actions s @ [Executed step]\<rparr>))"

definition rollback :: "provisioner \<Rightarrow> provisioning_step \<Rightarrow> checkpoint \<Rightarrow> unit swprog" where
  "rollback pv step c = (\<lambda>s. case pv_rollback pv step c of
     Some e \<Rightarrow> (Inl (PlainError e), s\<lparr>sw_actions := sw_actions s @ [RollbackError step]\<rparr>)
   | None \<Rightarrow> (Inr (), s\<lparr>sw_actions := sw_actions s @ [RolledBack step]\<rparr>))"

definition error_message :: "provisioner \<Rightarrow> provisioning_error \<Rightarrow> string" where
  "error_message pv e = (case e of PlainError e \<Rightarrow> pv_message pv e | ProvisioningError message _ \<Rightarrow> message)"

definition safeProvisioningError :: "provisioner \<Rightarrow> provisioning_error \<Rightarrow> string" where
  "safeProvisioningError pv e = (if js_trim (error_message pv e) = [] then ''Provisioning step failed''
     else take 500 (error_message pv e))"

section \<open>provisionBrandwellWorkspace\<close>

text \<open>\<open>updateStep\<close> with a patch \<open>f\<close> whose times are \<open>patchCompletedAt\<close> and \<open>patchStartedAt\<close>.\<close>

definition updateStep ::
  "checkpoint \<Rightarrow> provisioning_step \<Rightarrow> time option \<Rightarrow> time option \<Rightarrow> (step_state \<Rightarrow> step_state) \<Rightarrow> checkpoint" where
  "updateStep c name patchCompletedAt patchStartedAt f =
     c\<lparr>ck_steps := map (\<lambda>s. if ss_name s = name then f s else s) (ck_steps c),
       ck_updatedAt := (case patchCompletedAt of Some t \<Rightarrow> t | None \<Rightarrow>
         (case patchStartedAt of Some t \<Rightarrow> t | None \<Rightarrow> ck_updatedAt c))\<rparr>"

definition completed_steps :: "checkpoint \<Rightarrow> provisioning_step list" where
  "completed_steps c = map ss_name (filter (\<lambda>s. ss_status s = StepCompleted) (ck_steps c))"

fun rollback_loop :: "provisioner \<Rightarrow> provisioning_step list \<Rightarrow> checkpoint \<times> bool \<Rightarrow> (checkpoint \<times> bool) swprog" where
  "rollback_loop pv [] acc = prog_return acc"
| "rollback_loop pv (step # steps) (c, rollbackFailed) =
     prog_bind
       (prog_catch
         (prog_bind (rollback pv step c) (\<lambda>_. prog_bind (now pv) (\<lambda>t.
          prog_return (updateStep c step (Some t) None (\<lambda>s. s\<lparr>ss_status := StepRolledBack, ss_completedAt := Some t\<rparr>),
            rollbackFailed))))
         (\<lambda>e. prog_return (updateStep c step None None
            (\<lambda>s. s\<lparr>ss_status := StepRollbackFailed, ss_error := Some (safeProvisioningError pv e)\<rparr>), True)))
       (\<lambda>(c, rollbackFailed).
     prog_bind (save pv c) (\<lambda>_. rollback_loop pv steps (c, rollbackFailed)))"

definition rollbackCompletedProvisioning :: "provisioner \<Rightarrow> checkpoint \<Rightarrow> checkpoint swprog" where
  "rollbackCompletedProvisioning pv c =
     prog_bind (rollback_loop pv (rollbackOrderForCompletedSteps (completed_steps c)) (c, False)) (\<lambda>(c, rollbackFailed).
     prog_bind (now pv) (\<lambda>t.
     let c = c\<lparr>ck_status := (if rollbackFailed then CkRollbackFailed else CkFailed), ck_updatedAt := t\<rparr> in
     prog_bind (save pv c) (\<lambda>_. prog_return c)))"

text \<open>What happens after a step's error; \<open>c\<close> is the checkpoint at that moment.\<close>

definition step_failed :: "provisioner \<Rightarrow> provisioning_step \<Rightarrow> checkpoint \<Rightarrow> provisioning_error \<Rightarrow> checkpoint swprog" where
  "step_failed pv step c e =
     (let message = safeProvisioningError pv e;
          c = (updateStep c step None None (\<lambda>s. s\<lparr>ss_status := StepFailed, ss_error := Some message\<rparr>))
            \<lparr>ck_status := CkFailed, ck_error := Some message\<rparr> in
      prog_bind (save pv c) (\<lambda>_.
      prog_bind (rollbackCompletedProvisioning pv c) (\<lambda>c.
      prog_throw (ProvisioningError
        (if ck_status c = CkRollbackFailed then ''Provisioning failed and one or more rollback actions failed''
         else ''Provisioning failed and completed work was rolled back'') c))))"

definition complete_step :: "provisioning_step \<Rightarrow> string option \<Rightarrow> time \<Rightarrow> checkpoint \<Rightarrow> checkpoint" where
  "complete_step step result t c = updateStep c step (Some t) None (\<lambda>s. s\<lparr>ss_status := StepCompleted, ss_completedAt := Some t,
     ss_resourceId := (case result of Some (x # xs) \<Rightarrow> Some (x # xs) | _ \<Rightarrow> ss_resourceId s)\<rparr>)"

text \<open>
  The variable \<open>checkpoint\<close> is assigned before the save: when that save fails, the error path
  starts from the completed checkpoint.
\<close>

fun run_steps :: "provisioner \<Rightarrow> provisioning_step list \<Rightarrow> checkpoint \<Rightarrow> checkpoint swprog" where
  "run_steps pv [] c = prog_return c"
| "run_steps pv (step # steps) c =
     prog_bind (now pv) (\<lambda>t.
     let c = updateStep c step None (Some t) (\<lambda>s. s\<lparr>ss_status := StepRunning, ss_startedAt := Some t\<rparr>) in
     prog_bind (save pv c) (\<lambda>_.
     prog_bind
       (prog_catch (prog_bind (execute pv step c) (\<lambda>r. prog_return (Inr r))) (\<lambda>e. prog_return (Inl e))) (\<lambda>answer.
     case answer of Inl e \<Rightarrow> step_failed pv step c e
     | Inr result \<Rightarrow>
         prog_bind (now pv) (\<lambda>t.
         let c = complete_step step result t c in
         prog_bind (prog_catch (prog_bind (save pv c) (\<lambda>_. prog_return None)) (\<lambda>e. prog_return (Some e))) (\<lambda>failed.
         case failed of Some e \<Rightarrow> step_failed pv step c e
         | None \<Rightarrow> run_steps pv steps c)))))"

definition start_checkpoint :: "provisioner \<Rightarrow> string \<Rightarrow> provisioning_input \<Rightarrow> time \<Rightarrow> checkpoint" where
  "start_checkpoint pv key input t = \<lparr>ck_key = key, ck_input = input, ck_status = CkRunning, ck_runId = pv_runId pv,
     ck_steps = map (\<lambda>n. \<lparr>ss_name = n, ss_status = StepPending, ss_resourceId = None, ss_error = None,
       ss_startedAt = None, ss_completedAt = None\<rparr>) STEPS,
     ck_startedAt = t, ck_updatedAt = t, ck_completedAt = None, ck_error = None\<rparr>"

definition provision_from_start :: "provisioner \<Rightarrow> string \<Rightarrow> provisioning_input \<Rightarrow> checkpoint swprog" where
  "provision_from_start pv key input =
     prog_bind (now pv) (\<lambda>t.
     let c = start_checkpoint pv key input t in
     prog_bind (save pv c) (\<lambda>_.
     prog_bind (run_steps pv STEPS c) (\<lambda>c.
     prog_bind (now pv) (\<lambda>t.
     let c = c\<lparr>ck_status := CkComplete, ck_completedAt := Some t, ck_updatedAt := t\<rparr> in
     prog_bind (save pv c) (\<lambda>_. prog_return c)))))"

definition provisionBrandwellWorkspace :: "provisioner \<Rightarrow> provisioning_input \<Rightarrow> checkpoint swprog" where
  "provisionBrandwellWorkspace pv input = (case buildBrandwellProvisioningPlan input of
     Inl e \<Rightarrow> prog_throw (PlainError e)
   | Inr (key, cleaned) \<Rightarrow>
       prog_bind (prog_gets sw_checkpoint) (\<lambda>existing.
       case existing of
         Some c \<Rightarrow>
           if ck_status c = CkComplete then prog_return c
           else if ck_status c = CkRunning then prog_throw (ProvisioningError ''Provisioning is already running'' c)
           else provision_from_start pv key cleaned
       | None \<Rightarrow> provision_from_start pv key cleaned))"

section \<open>All or nothing\<close>

definition statuses :: "checkpoint \<Rightarrow> (provisioning_step \<times> step_status) list" where
  "statuses c = map (\<lambda>s. (ss_name s, ss_status s)) (ck_steps c)"

definition set_status :: "provisioning_step \<Rightarrow> step_status \<Rightarrow> (provisioning_step \<times> step_status) list \<Rightarrow> (provisioning_step \<times> step_status) list" where
  "set_status n v = map (\<lambda>(m, st). (m, if m = n then v else st))"

fun undone :: "setup_action \<Rightarrow> provisioning_step" where
  "undone (Executed s) = s" | "undone (RolledBack s) = s" | "undone (RollbackError s) = s"

definition undo_status :: "setup_action list \<Rightarrow> provisioning_step \<Rightarrow> step_status" where
  "undo_status undo s = (if RolledBack s \<in> set undo then StepRolledBack else StepRollbackFailed)"

definition saves_work :: "provisioner \<Rightarrow> bool" where
  "saves_work pv \<longleftrightarrow> (\<forall>i. pv_save_fails pv i = None)"

lemma save_run: "saves_work pv \<Longrightarrow> save pv c s = (Inr (), s\<lparr>sw_checkpoint := Some c, sw_saves := sw_saves s + 1\<rparr>)"
  by (simp add: saves_work_def save_def)

lemma statuses_update:
  "(\<And>s. ss_name (f s) = ss_name s) \<Longrightarrow> (\<And>s. ss_status (f s) = v) \<Longrightarrow> statuses (updateStep c n a b f) = set_status n v (statuses c)"
  by (auto simp: statuses_def updateStep_def set_status_def)

lemma statuses_fields [simp]:
  "statuses (c\<lparr>ck_status := a\<rparr>) = statuses c" "statuses (c\<lparr>ck_error := b\<rparr>) = statuses c"
  "statuses (c\<lparr>ck_updatedAt := t\<rparr>) = statuses c" "statuses (c\<lparr>ck_completedAt := d\<rparr>) = statuses c"
  by (simp_all add: statuses_def)

lemma distinct_STEPS: "distinct STEPS"
  by (simp add: STEPS_def)

lemma rollback_loop_run:
  "saves_work pv \<Longrightarrow> distinct steps \<Longrightarrow>
   \<exists>c' undo s'. rollback_loop pv steps (c, b) s = (Inr (c', b \<or> \<not> list_all (\<lambda>a. a = RolledBack (undone a)) undo), s') \<and>
     map undone undo = steps \<and> list_all (\<lambda>a. a = RolledBack (undone a) \<or> a = RollbackError (undone a)) undo \<and>
     sw_actions s' = sw_actions s @ undo \<and>
     statuses c' = map (\<lambda>(m, st). (m, if m \<in> set steps then undo_status undo m else st)) (statuses c)"
proof (induction steps arbitrary: c b s)
  case Nil
  then show ?case by (intro exI [of _ c] exI [of _ "[]"] exI [of _ s]) simp
next
  case (Cons step steps)
  have "\<exists>c1 a s1. (a = RolledBack step \<or> a = RollbackError step) \<and> sw_actions s1 = sw_actions s @ [a] \<and>
      statuses c1 = set_status step (if a = RolledBack step then StepRolledBack else StepRollbackFailed) (statuses c) \<and>
      rollback_loop pv (step # steps) (c, b) s = rollback_loop pv steps (c1, b \<or> a \<noteq> RolledBack step) s1"
  proof (cases "pv_rollback pv step c")
    case None
    let ?t = "pv_now pv (sw_saves s)"
    let ?c = "updateStep c step (Some ?t) None (\<lambda>s. s\<lparr>ss_status := StepRolledBack, ss_completedAt := Some ?t\<rparr>)"
    let ?s = "s\<lparr>sw_actions := sw_actions s @ [RolledBack step], sw_checkpoint := Some ?c, sw_saves := sw_saves s + 1\<rparr>"
    have "statuses ?c = set_status step StepRolledBack (statuses c)" by (rule statuses_update) simp_all
    moreover have "rollback_loop pv (step # steps) (c, b) s = rollback_loop pv steps (?c, b)
      ?s"
      using None Cons.prems(1) by (simp add: prog_bind_run prog_catch_def rollback_def now_def save_run)
    ultimately show ?thesis by (intro exI [of _ ?c] exI [of _ "RolledBack step"] exI [of _ ?s]) simp
  next
    case (Some e)
    let ?c = "updateStep c step None None (\<lambda>s. s\<lparr>ss_status := StepRollbackFailed,
      ss_error := Some (safeProvisioningError pv (PlainError e))\<rparr>)"
    let ?s = "s\<lparr>sw_actions := sw_actions s @ [RollbackError step], sw_checkpoint := Some ?c, sw_saves := sw_saves s + 1\<rparr>"
    have "statuses ?c = set_status step StepRollbackFailed (statuses c)" by (rule statuses_update) simp_all
    moreover have "rollback_loop pv (step # steps) (c, b) s = rollback_loop pv steps (?c, True)
      ?s"
      using Some Cons.prems(1) by (simp add: prog_bind_run prog_catch_def rollback_def now_def save_run)
    ultimately show ?thesis by (intro exI [of _ ?c] exI [of _ "RollbackError step"] exI [of _ ?s]) simp
  qed
  then obtain c1 a s1 where a: "a = RolledBack step \<or> a = RollbackError step" "sw_actions s1 = sw_actions s @ [a]"
    "statuses c1 = set_status step (if a = RolledBack step then StepRolledBack else StepRollbackFailed) (statuses c)"
    "rollback_loop pv (step # steps) (c, b) s = rollback_loop pv steps (c1, b \<or> a \<noteq> RolledBack step) s1" by blast
  from Cons.IH [OF Cons.prems(1), of c1 "b \<or> a \<noteq> RolledBack step" s1] Cons.prems(2) obtain c' undo s' where
    u: "rollback_loop pv steps (c1, b \<or> a \<noteq> RolledBack step) s1 =
        (Inr (c', (b \<or> a \<noteq> RolledBack step) \<or> \<not> list_all (\<lambda>a. a = RolledBack (undone a)) undo), s')"
      "map undone undo = steps" "list_all (\<lambda>a. a = RolledBack (undone a) \<or> a = RollbackError (undone a)) undo"
      "sw_actions s' = sw_actions s1 @ undo"
      "statuses c' = map (\<lambda>(m, st). (m, if m \<in> set steps then undo_status undo m else st)) (statuses c1)" by auto
  have n: "step \<notin> set steps" using Cons.prems(2) by simp
  then have "RolledBack step \<notin> set undo" using u(2) by force
  then have "statuses c' = map (\<lambda>(m, st). (m, if m \<in> set (step # steps) then undo_status (a # undo) m else st)) (statuses c)"
    using a(1) n unfolding u(5) a(3) set_status_def by (auto simp: undo_status_def)
  with a u show ?case by (intro exI [of _ c'] exI [of _ "a # undo"] exI [of _ s']) auto
qed

text \<open>
  A list of undoing actions for the steps \<open>steps\<close>, in that order, each of which was tried.
\<close>

definition undoes :: "setup_action list \<Rightarrow> provisioning_step list \<Rightarrow> bool" where
  "undoes undo steps \<longleftrightarrow> map undone undo = steps \<and>
     list_all (\<lambda>a. a = RolledBack (undone a) \<or> a = RollbackError (undone a)) undo"

text \<open>The end of a run whose step after \<open>before\<close> failed.\<close>

definition rolled_back ::
  "provisioning_step list \<Rightarrow> provisioning_step \<Rightarrow> provisioning_step list \<Rightarrow> setup_action list \<Rightarrow> checkpoint \<Rightarrow> bool" where
  "rolled_back before step later undo c \<longleftrightarrow> undoes undo (rev before) \<and>
     ck_status c = (if list_all (\<lambda>a. a = RolledBack (undone a)) undo then CkFailed else CkRollbackFailed) \<and>
     statuses c = map (\<lambda>m. (m, undo_status undo m)) before @ (step, StepFailed) # map (\<lambda>m. (m, StepPending)) later"

lemma completed_steps_statuses: "completed_steps c = map fst (filter (\<lambda>(m, st). st = StepCompleted) (statuses c))"
  by (simp add: completed_steps_def statuses_def filter_map o_def)

lemma rollback_order: "STEPS = before @ later \<Longrightarrow> rollbackOrderForCompletedSteps before = rev before"
proof -
  assume s: "STEPS = before @ later"
  have "set before \<inter> set later = {}" using distinct_STEPS unfolding s by simp
  then have "filter (\<lambda>x. x \<in> set before) later = []" by (auto simp: filter_empty_conv)
  then show ?thesis by (simp add: rollbackOrderForCompletedSteps_def s rev_filter [symmetric])
qed

lemma step_failed_run:
  assumes pv: "saves_work pv" and S: "STEPS = before @ step # later"
    and st: "statuses c = map (\<lambda>m. (m, StepCompleted)) before @ (step, v) # map (\<lambda>m. (m, StepPending)) later"
  obtains message c' undo s' where "step_failed pv step c e s = (Inl (ProvisioningError message c'), s')"
    and "rolled_back before step later undo c'" and "sw_actions s' = sw_actions s @ undo" and "sw_checkpoint s' = Some c'"
proof -
  let ?m = "safeProvisioningError pv e"
  let ?c = "(updateStep c step None None (\<lambda>s. s\<lparr>ss_status := StepFailed, ss_error := Some ?m\<rparr>))\<lparr>ck_status := CkFailed, ck_error := Some ?m\<rparr>"
  have d: "step \<notin> set before" "step \<notin> set later" "distinct before" "set before \<inter> set later = {}"
    using distinct_STEPS unfolding S by auto
  have "statuses (updateStep c step None None (\<lambda>s. s\<lparr>ss_status := StepFailed, ss_error := Some ?m\<rparr>)) = set_status step StepFailed (statuses c)"
    by (rule statuses_update) simp_all
  then have s1: "statuses ?c = map (\<lambda>m. (m, StepCompleted)) before @ (step, StepFailed) # map (\<lambda>m. (m, StepPending)) later"
    using d(1,2) by (auto simp: st set_status_def)
  then have "completed_steps ?c = before" by (simp add: completed_steps_statuses filter_map o_def)
  then have o: "rollbackOrderForCompletedSteps (completed_steps ?c) = rev before" using rollback_order [OF S] by simp
  let ?s = "s\<lparr>sw_checkpoint := Some ?c, sw_saves := sw_saves s + 1\<rparr>"
  from rollback_loop_run [OF pv, of "rev before" ?c False ?s] d(3) obtain c' undo s' where
    l: "rollback_loop pv (rev before) (?c, False) ?s = (Inr (c', \<not> list_all (\<lambda>a. a = RolledBack (undone a)) undo), s')"
    and u: "undoes undo (rev before)" and a: "sw_actions s' = sw_actions s @ undo"
    and s2: "statuses c' = map (\<lambda>(m, st). (m, if m \<in> set before then undo_status undo m else st)) (statuses ?c)"
    by (auto simp: undoes_def)
  let ?c' = "c'\<lparr>ck_status := (if list_all (\<lambda>a. a = RolledBack (undone a)) undo then CkFailed else CkRollbackFailed),
    ck_updatedAt := pv_now pv (sw_saves s')\<rparr>"
  let ?s' = "s'\<lparr>sw_checkpoint := Some ?c', sw_saves := sw_saves s' + 1\<rparr>"
  have "statuses c' = map (\<lambda>m. (m, undo_status undo m)) before @ (step, StepFailed) # map (\<lambda>m. (m, StepPending)) later"
    unfolding s2 s1 using d by auto
  then have r: "rolled_back before step later undo ?c'" using u by (simp add: rolled_back_def)
  have "rollbackCompletedProvisioning pv ?c ?s = (Inr ?c', ?s')"
    unfolding rollbackCompletedProvisioning_def o using l
    by (simp add: prog_bind_run now_def Let_def save_run [OF pv])
  then have "step_failed pv step c e s = (Inl (ProvisioningError (if ck_status ?c' = CkRollbackFailed
      then ''Provisioning failed and one or more rollback actions failed''
      else ''Provisioning failed and completed work was rolled back'') ?c'), ?s')"
    by (simp add: step_failed_def prog_bind_run Let_def save_run [OF pv])
  then show ?thesis by (rule that) (use r a in simp_all)
qed

definition setup_outcome ::
  "provisioning_step list \<Rightarrow> provisioning_step list \<Rightarrow> setup_action list \<Rightarrow> provisioning_error + checkpoint \<Rightarrow> setup_world \<Rightarrow> bool" where
  "setup_outcome before steps acts r s' \<longleftrightarrow> (case r of
     Inr c' \<Rightarrow> statuses c' = map (\<lambda>m. (m, StepCompleted)) (before @ steps) \<and> sw_actions s' = acts @ map Executed steps
   | Inl e \<Rightarrow> \<exists>message c' more step later undo. e = ProvisioningError message c' \<and> steps = more @ step # later \<and>
       rolled_back (before @ more) step later undo c' \<and> sw_actions s' = acts @ map Executed more @ undo \<and>
       sw_checkpoint s' = Some c')"

lemma setup_outcome_Cons:
  "setup_outcome (before @ [step]) steps (acts @ [Executed step]) r s' \<Longrightarrow> setup_outcome before (step # steps) acts r s'"
proof (cases r)
  case (Inl e)
  assume "setup_outcome (before @ [step]) steps (acts @ [Executed step]) r s'"
  with Inl obtain message c' more st later undo where
    "e = ProvisioningError message c'" "step # steps = (step # more) @ st # later"
    "rolled_back (before @ step # more) st later undo c'"
    "sw_actions s' = acts @ map Executed (step # more) @ undo" "sw_checkpoint s' = Some c'"
    by (auto simp: setup_outcome_def)
  then show ?thesis unfolding setup_outcome_def Inl sum.case by blast
qed (simp add: setup_outcome_def)

lemma run_steps_run:
  "saves_work pv \<Longrightarrow> STEPS = before @ steps \<Longrightarrow>
   statuses c = map (\<lambda>m. (m, StepCompleted)) before @ map (\<lambda>m. (m, StepPending)) steps \<Longrightarrow>
   setup_outcome before steps (sw_actions s) (fst (run_steps pv steps c s)) (snd (run_steps pv steps c s))"
proof (induction steps arbitrary: before c s)
  case Nil
  then show ?case by (simp add: setup_outcome_def)
next
  case (Cons step steps)
  note pv = Cons.prems(1) and S = Cons.prems(2)
  have d: "step \<notin> set before" "step \<notin> set steps" using distinct_STEPS unfolding S by auto
  let ?t = "pv_now pv (sw_saves s)"
  let ?c = "updateStep c step None (Some ?t) (\<lambda>s. s\<lparr>ss_status := StepRunning, ss_startedAt := Some ?t\<rparr>)"
  let ?s = "s\<lparr>sw_checkpoint := Some ?c, sw_saves := sw_saves s + 1\<rparr>"
  have "statuses ?c = set_status step StepRunning (statuses c)" by (rule statuses_update) simp_all
  then have s1: "statuses ?c = map (\<lambda>m. (m, StepCompleted)) before @ (step, StepRunning) # map (\<lambda>m. (m, StepPending)) steps"
    using d by (auto simp: Cons.prems(3) set_status_def)
  show ?case
  proof (cases "pv_execute pv step ?c")
    case (Inl e)
    obtain message c' undo s' where f: "step_failed pv step ?c (PlainError e) ?s = (Inl (ProvisioningError message c'), s')"
      "rolled_back before step steps undo c'" "sw_actions s' = sw_actions ?s @ undo" "sw_checkpoint s' = Some c'"
      using step_failed_run [OF pv S s1] by metis
    have run: "run_steps pv (step # steps) c s = step_failed pv step ?c (PlainError e) ?s"
      using Inl by (simp add: prog_bind_run now_def Let_def save_run [OF pv] prog_catch_def execute_def)
    have "step # steps = [] @ step # steps" by simp
    with f show ?thesis unfolding run setup_outcome_def
      by (simp del: append_Nil) (metis append_Nil append_Nil2 list.map(1))
  next
    case (Inr result)
    let ?s1 = "?s\<lparr>sw_actions := sw_actions s @ [Executed step]\<rparr>"
    let ?t1 = "pv_now pv (sw_saves s + 1)"
    let ?c1 = "complete_step step result ?t1 ?c"
    let ?s2 = "?s1\<lparr>sw_checkpoint := Some ?c1, sw_saves := sw_saves s + 2\<rparr>"
    have "statuses ?c1 = set_status step StepCompleted (statuses ?c)" unfolding complete_step_def by (rule statuses_update) simp_all
    then have s2: "statuses ?c1 = map (\<lambda>m. (m, StepCompleted)) (before @ [step]) @ map (\<lambda>m. (m, StepPending)) steps"
      using d by (auto simp: s1 set_status_def)
    have run: "run_steps pv (step # steps) c s = run_steps pv steps ?c1 ?s2"
      using Inr by (simp add: prog_bind_run now_def Let_def save_run [OF pv] prog_catch_def execute_def)
    have "STEPS = (before @ [step]) @ steps" using S by simp
    from Cons.IH [OF pv this s2, of ?s2] show ?thesis unfolding run by (intro setup_outcome_Cons) simp
  qed
qed

lemma provision_runs:
  assumes "saves_work pv" and "buildBrandwellProvisioningPlan input = Inr plan"
    and "case sw_checkpoint s of None \<Rightarrow> True | Some c \<Rightarrow> ck_status c \<notin> {CkComplete, CkRunning}"
    and "provisionBrandwellWorkspace pv input s = (r, s')"
  shows "provision_from_start pv (fst plan) (snd plan) s = (r, s')"
  using assms(2-4) by (auto simp: provisionBrandwellWorkspace_def prog_bind_run split: option.splits prod.splits)


text \<open>A workspace is set up once: after a successful setup every further request for the same
  customer, whatever its runner does, answers the stored checkpoint and changes nothing.\<close>

theorem provisioning_is_idempotent:
  assumes "provisionBrandwellWorkspace pv input s = (Inr c, s')"
  shows "provisionBrandwellWorkspace pv' input s' = (Inr c, s')"
proof -
  from assms obtain plan where plan: "buildBrandwellProvisioningPlan input = Inr plan"
    by (auto simp: provisionBrandwellWorkspace_def split: sum.splits)
  have "sw_checkpoint s' = Some c \<and> ck_status c = CkComplete"
  proof (cases "provision_from_start pv (fst plan) (snd plan) s = (Inr c, s')")
    case True
    then show ?thesis
      by (auto simp: provision_from_start_def prog_bind_run now_def Let_def save_def split: prod.splits sum.splits option.splits)
  next
    case False
    with assms plan show ?thesis
      by (auto simp: provisionBrandwellWorkspace_def prog_bind_run split: prod.splits option.splits if_splits)
  qed
  with plan show ?thesis by (simp add: provisionBrandwellWorkspace_def prog_bind_run split: prod.split)
qed

section \<open>Witnesses\<close>

definition sample_setup_input :: provisioning_input where
  "sample_setup_input = \<lparr>pi_customerId = '' c1 '', pi_primaryUserId = ''u1'', pi_companyName = ''Acme'', pi_contactName = ''Ada'',
     pi_contactEmail = ''A@acme'', pi_plan = [], pi_timezone = ''UTC''\<rparr>"

definition sample_provisioner :: "(provisioning_step \<Rightarrow> bool) \<Rightarrow> (nat \<Rightarrow> bool) \<Rightarrow> provisioner" where
  "sample_provisioner bad badSave = \<lparr>pv_execute = (\<lambda>st _. if bad st then Inl (Thrown ''down'') else Inr None),
     pv_rollback = (\<lambda>st _. if st = StepServiceIdentity then Some (Thrown ''stuck'') else None),
     pv_save_fails = (\<lambda>i. if badSave i then Some (Thrown ''disk'') else None), pv_now = int, pv_runId = ''r1'',
     pv_message = (\<lambda>_. ''down'')\<rparr>"

definition no_setup :: setup_world where
  "no_setup = \<lparr>sw_checkpoint = None, sw_actions = [], sw_saves = 0\<rparr>"

definition sample_setup :: "provisioner \<Rightarrow> (provisioning_error + checkpoint) \<times> setup_world" where
  "sample_setup pv = provisionBrandwellWorkspace pv sample_setup_input no_setup"

lemma sample_plan: "\<exists>plan. buildBrandwellProvisioningPlan sample_setup_input = Inr plan"
proof -
  have "\<not> isl (buildBrandwellProvisioningPlan sample_setup_input)" by code_simp
  then show ?thesis by (metis sum.collapse(2))
qed


lemma run_steps_succeeds:
  "saves_work pv \<Longrightarrow> (\<And>st c. \<exists>x. pv_execute pv st c = Inr x) \<Longrightarrow> \<exists>c' s'. run_steps pv steps c s = (Inr c', s')"
proof (induction steps arbitrary: c s)
  case (Cons step steps)
  let ?c = "updateStep c step None (Some (pv_now pv (sw_saves s)))
    (\<lambda>u. u\<lparr>ss_status := StepRunning, ss_startedAt := Some (pv_now pv (sw_saves s))\<rparr>)"
  obtain x where "pv_execute pv step ?c = Inr x" using Cons.prems(2) by blast
  with Cons show ?case
    by (simp add: prog_bind_run now_def Let_def save_run prog_catch_def execute_def)
qed simp

theorem provisioning_is_idempotent_witness:
  "snd (provisionBrandwellWorkspace (sample_provisioner (\<lambda>_. True) (\<lambda>_. True)) sample_setup_input
     (snd (sample_setup (sample_provisioner (\<lambda>_. False) (\<lambda>_. False))))) =
   snd (sample_setup (sample_provisioner (\<lambda>_. False) (\<lambda>_. False)))"
proof -
  let ?pv = "sample_provisioner (\<lambda>_. False) (\<lambda>_. False)"
  obtain key cleaned where plan: "buildBrandwellProvisioningPlan sample_setup_input = Inr (key, cleaned)" using sample_plan by auto
  have w: "saves_work ?pv" by (simp add: saves_work_def sample_provisioner_def)
  let ?c = "start_checkpoint ?pv key cleaned (pv_now ?pv (sw_saves no_setup))"
  have "\<exists>x. pv_execute ?pv st c = Inr x" for st c by (simp add: sample_provisioner_def)
  from run_steps_succeeds [OF w this] obtain c' s' where
    run: "run_steps ?pv STEPS ?c (no_setup\<lparr>sw_checkpoint := Some ?c, sw_saves := sw_saves no_setup + 1\<rparr>) = (Inr c', s')" by blast
  have "sw_checkpoint no_setup = None" by (simp add: no_setup_def)
  then have "sample_setup ?pv = provision_from_start ?pv key cleaned no_setup"
    by (simp add: sample_setup_def provisionBrandwellWorkspace_def plan prog_bind_run)
  moreover have "\<exists>c. fst (provision_from_start ?pv key cleaned no_setup) = Inr c"
    using run by (simp add: provision_from_start_def prog_bind_run now_def Let_def save_run [OF w])
  ultimately obtain c where "fst (sample_setup ?pv) = Inr c" by auto
  then have "provisionBrandwellWorkspace ?pv sample_setup_input no_setup = (Inr c, snd (sample_setup ?pv))"
    by (simp add: sample_setup_def prod_eq_iff)
  from provisioning_is_idempotent [OF this, of "sample_provisioner (\<lambda>_. True) (\<lambda>_. True)"] show ?thesis by simp
qed

text \<open>
  Where saving fails: a step whose completion cannot be saved was executed, but the error path marks
  it as failed, so the rollback passes it by; and a failure to save the start of a step ends the
  run without a rollback and leaves the stored checkpoint running, which refuses every later run.
\<close>

lemma unsaved_step_is_not_undone:
  "step \<notin> set (rollbackOrderForCompletedSteps (completed_steps
     (updateStep (complete_step step result t c) step None None (\<lambda>s. s\<lparr>ss_status := StepFailed, ss_error := Some message\<rparr>))))"
proof -
  let ?c = "updateStep (complete_step step result t c) step None None (\<lambda>s. s\<lparr>ss_status := StepFailed, ss_error := Some message\<rparr>)"
  have "statuses ?c = set_status step StepFailed (statuses (complete_step step result t c))" by (rule statuses_update) simp_all
  then show ?thesis by (auto simp: rollbackOrderForCompletedSteps_def completed_steps_statuses set_status_def)
qed

lemma unsaved_start_stays_running:
  assumes "pv_save_fails pv (sw_saves s) = Some e"
  shows "run_steps pv (step # steps) c' s = (Inl (PlainError e), s\<lparr>sw_saves := sw_saves s + 1\<rparr>)"
  using assms by (simp add: prog_bind_run now_def Let_def save_def)

end
