(* ===== verification/NetworkAddress.thy ===== *)
theory NetworkAddress
  imports Store JsonText "HOL-Library.Word"
begin

text \<open>
  Which network addresses are private or link-local, and the lookup of a host name that checks
  what it hands out (packages/adapters/src/network-address.ts). \<open>isIP\<close> is the predicate of the
  standard library (node:net). A \<open>bigint\<close> is a natural number, a 32 bit number a word.
\<close>

unbundle bit_operations_syntax

section \<open>\<open>isIP\<close>\<close>

definition is_hex :: "char \<Rightarrow> bool" where
  "is_hex c \<longleftrightarrow> radix_digit 16 c \<noteq> None"

definition is_segment :: "string \<Rightarrow> bool" where
  "is_segment s \<longleftrightarrow> s \<noteq> [] \<and> length s \<le> 4 \<and> list_all is_hex s"

definition is_octet :: "string \<Rightarrow> bool" where
  "is_octet s \<longleftrightarrow> s \<noteq> [] \<and> list_all is_digit s \<and> digits_val s < 256 \<and> s = nat_string (digits_val s)"

definition is_quad :: "string \<Rightarrow> bool" where
  "is_quad s \<longleftrightarrow> length (js_split CHR ''.'' s) = 4 \<and> list_all is_octet (js_split CHR ''.'' s)"

text \<open>The groups of a colon-separated text; its last field may be a dotted address.\<close>

fun field_count :: "string list \<Rightarrow> nat option" where
  "field_count [] = Some 0"
| "field_count [f] = (if is_quad f then Some 2 else if is_segment f then Some 1 else None)"
| "field_count (f # fs) = (if is_segment f then map_option Suc (field_count fs) else None)"

text \<open>A text at its first double colon.\<close>

fun cut_double :: "string \<Rightarrow> string \<times> string option" where
  "cut_double [] = ([], None)"
| "cut_double (c # cs) =
     (if c = CHR '':'' \<and> cs \<noteq> [] \<and> hd cs = CHR '':'' then ([], Some (tl cs))
      else (c # fst (cut_double cs), snd (cut_double cs)))"

definition colon_fields :: "string \<Rightarrow> string list" where
  "colon_fields s = (if s = [] then [] else js_split CHR '':'' s)"

definition ip6_body :: "string \<Rightarrow> bool" where
  "ip6_body v = (case cut_double v of
     (_, None) \<Rightarrow> field_count (colon_fields v) = Some 8
   | (l, Some r) \<Rightarrow> list_all is_segment (colon_fields l) \<and>
       (case field_count (colon_fields r) of None \<Rightarrow> False | Some n \<Rightarrow> length (colon_fields l) + n \<le> 7))"

definition zone_char :: "char \<Rightarrow> bool" where
  "zone_char c \<longleftrightarrow> is_digit c \<or> (let n = of_char c :: nat in 65 \<le> n \<and> n \<le> 90 \<or> 97 \<le> n \<and> n \<le> 122) \<or> c \<in> set ''-.:''"

definition is_ip6 :: "string \<Rightarrow> bool" where
  "is_ip6 v \<longleftrightarrow> ip6_body (takeWhile (\<lambda>c. c \<noteq> CHR ''%'') v) \<and>
     (case dropWhile (\<lambda>c. c \<noteq> CHR ''%'') v of [] \<Rightarrow> True | _ # z \<Rightarrow> z \<noteq> [] \<and> list_all zone_char z)"

definition isIP :: "string \<Rightarrow> nat" where
  "isIP v = (if is_quad v then 4 else if is_ip6 v then 6 else 0)"

section \<open>Parsing\<close>

text \<open>\<open>toString(16)\<close>\<close>

fun hex_string :: "nat \<Rightarrow> string" where
  "hex_string n = (if n < 16 then [hex_digit n] else hex_string (n div 16) @ [hex_digit (n mod 16)])"

declare hex_string.simps [simp del]

definition quad_octets :: "string \<Rightarrow> nat list" where
  "quad_octets s = map digits_val (js_split CHR ''.'' s)"

definition replaceIpv4Tail :: "string \<Rightarrow> string \<Rightarrow> string option" where
  "replaceIpv4Tail v tail =
     (if isIP tail \<noteq> 4 then None
      else case quad_octets tail of
        [a, b, c, d] \<Rightarrow> Some (take (length v - length tail) v @ hex_string (push_bit 8 a OR b) @ '':'' @ hex_string (push_bit 8 c OR d))
      | _ \<Rightarrow> None)"

text \<open>\<open>BigInt\<close> of a hexadecimal numeral; \<open>None\<close> is its error.\<close>

fun group_value :: "nat \<Rightarrow> string list \<Rightarrow> nat option" where
  "group_value acc [] = Some acc"
| "group_value acc (g # gs) = (case radix_val 16 0 (if g = [] then ''0'' else g) of
     None \<Rightarrow> None | Some n \<Rightarrow> group_value (push_bit 16 acc OR n) gs)"

definition normalize_tail :: "string \<Rightarrow> string option" where
  "normalize_tail v = (let dottedTail = last (js_split CHR '':'' v) in
     if CHR ''.'' \<in> set dottedTail then replaceIpv4Tail v dottedTail else Some v)"

definition expand_groups :: "string \<Rightarrow> string \<Rightarrow> string list option" where
  "expand_groups v normalized = (let
     leftValue = fst (cut_double normalized);
     rightValue = (case snd (cut_double normalized) of None \<Rightarrow> [] | Some r \<Rightarrow> fst (cut_double r));
     left = colon_fields leftValue;
     right = colon_fields rightValue;
     missing = 8 - int (length left) - int (length right) in
     if snd (cut_double v) = None \<and> missing \<noteq> 0 then None
     else let groups = left @ replicate (nat missing) ''0'' @ right in
       if length groups \<noteq> 8 then None else Some groups)"

definition parseIpv6 :: "string \<Rightarrow> nat option" where
  "parseIpv6 v =
     (if isIP v \<noteq> 6 then None
      else case normalize_tail v of None \<Rightarrow> None | Some n \<Rightarrow>
        if n = [] then None else case expand_groups v n of None \<Rightarrow> None | Some groups \<Rightarrow> group_value 0 groups)"

section \<open>Classification\<close>

definition strip_brackets :: "string \<Rightarrow> string" where
  "strip_brackets s = (let t = (if s \<noteq> [] \<and> hd s = CHR ''['' then tl s else s) in
     if t \<noteq> [] \<and> last t = CHR '']'' then butlast t else t)"

definition mapped_ipv4 :: "string \<Rightarrow> string option" where
  "mapped_ipv4 v = (let parts = js_split CHR ''.'' (drop 7 v) in
     if take 7 v = ''::ffff:'' \<and> length parts = 4 \<and> list_all (\<lambda>p. p \<noteq> [] \<and> list_all is_digit p) parts
     then Some (drop 7 v) else None)"

definition ipv4_text :: "string \<Rightarrow> string option" where
  "ipv4_text v = (case mapped_ipv4 v of Some m \<Rightarrow> Some m | None \<Rightarrow> if isIP v = 4 then Some v else None)"

definition private_octets :: "nat \<Rightarrow> nat \<Rightarrow> bool" where
  "private_octets a b \<longleftrightarrow>
     a = 0 \<or> a = 10 \<or> a = 127 \<or> (a = 169 \<and> b = 254) \<or> (a = 172 \<and> b \<ge> 16 \<and> b \<le> 31) \<or> (a = 192 \<and> b = 168) \<or>
     (a = 100 \<and> b \<ge> 64 \<and> b \<le> 127) \<or> (a = 198 \<and> (b = 18 \<or> b = 19)) \<or> a \<ge> 224"

definition isPrivateIpv4Number :: "32 word \<Rightarrow> bool" where
  "isPrivateIpv4Number v = (let a = drop_bit 24 v AND 0xff; b = drop_bit 16 v AND 0xff in
     a = 0 \<or> a = 10 \<or> a = 127 \<or> (a = 169 \<and> b = 254) \<or> (a = 172 \<and> b \<ge> 16 \<and> b \<le> 31) \<or> (a = 192 \<and> b = 168) \<or>
     (a = 100 \<and> b \<ge> 64 \<and> b \<le> 127) \<or> (a = 198 \<and> (b = 18 \<or> b = 19)) \<or> a \<ge> 224)"

definition low_word :: "nat \<Rightarrow> 32 word" where
  "low_word n = word_of_nat (n AND 0xffffffff)"

definition private_ipv6 :: "nat \<Rightarrow> bool" where
  "private_ipv6 n =
     (if n = 0 \<or> n = 1 then True
      else if drop_bit 120 n = 0xff then True
      else if drop_bit 118 n = 0x3fa \<or> drop_bit 118 n = 0x3fb then True
      else if drop_bit 120 n AND 0xfe = 0xfc then True
      else if drop_bit 32 n = 0xffff then isPrivateIpv4Number (low_word n)
      else if drop_bit 32 n = 0 then True
      else False)"

definition isPrivateAddress :: "string \<Rightarrow> bool" where
  "isPrivateAddress address = (let v = strip_brackets (js_lower address) in
     case ipv4_text v of
       Some t \<Rightarrow> (case quad_octets t of a # b # _ \<Rightarrow> private_octets a b | _ \<Rightarrow> False)
     | None \<Rightarrow> (case parseIpv6 v of None \<Rightarrow> True | Some n \<Rightarrow> private_ipv6 n))"

definition link_local_ipv6 :: "nat \<Rightarrow> bool" where
  "link_local_ipv6 n =
     (if drop_bit 32 n = 0xffff \<or> drop_bit 32 n = 0
      then drop_bit 24 (low_word n) AND 0xff = 169 \<and> drop_bit 16 (low_word n) AND 0xff = 254
      else drop_bit 118 n = 0x3fa)"

definition isLinkLocalAddress :: "string \<Rightarrow> bool" where
  "isLinkLocalAddress address = (let v = strip_brackets (js_lower address) in
     case ipv4_text v of
       Some t \<Rightarrow> (case quad_octets t of a # b # _ \<Rightarrow> a = 169 \<and> b = 254 | _ \<Rightarrow> False)
     | None \<Rightarrow> (case parseIpv6 v of None \<Rightarrow> False | Some n \<Rightarrow> link_local_ipv6 n))"

section \<open>The checked lookup\<close>

record resolved_address =
  ra_address :: string
  ra_family :: nat

type_synonym resolver = "string \<Rightarrow> db_error + resolved_address list"

text \<open>What the lookup hands to the caller: all addresses, or one with its family.\<close>

datatype lookup_answer = AllAddresses "resolved_address list" | OneAddress string nat

text \<open>The options: \<open>all\<close>, and \<open>family\<close> where it is a number.\<close>

type_synonym lookup = "string \<Rightarrow> bool \<Rightarrow> nat option \<Rightarrow> db_error + lookup_answer"

definition requested_family :: "nat option \<Rightarrow> nat" where
  "requested_family family = (case family of None \<Rightarrow> 0 | Some f \<Rightarrow> f)"

definition createAddressCheckedLookup :: "resolver \<Rightarrow> (resolved_address list \<Rightarrow> db_error + unit) \<Rightarrow> lookup" where
  "createAddressCheckedLookup resolve validate = (\<lambda>hostname all family. case resolve hostname of
     Inl e \<Rightarrow> Inl e
   | Inr addresses \<Rightarrow> (case validate addresses of
       Inl e \<Rightarrow> Inl e
     | Inr _ \<Rightarrow>
         if all then Inr (AllAddresses addresses)
         else (let f = requested_family family;
                   selected = (case find (\<lambda>entry. f = 0 \<or> ra_family entry = f) addresses of
                     Some entry \<Rightarrow> Some entry
                   | None \<Rightarrow> (case addresses of [] \<Rightarrow> None | entry # _ \<Rightarrow> Some entry))
               in case selected of
                 None \<Rightarrow> Inl (Thrown ''Endpoint did not resolve to an address'')
               | Some entry \<Rightarrow> Inr (OneAddress (ra_address entry) (ra_family entry)))))"

fun handed_out :: "lookup_answer \<Rightarrow> string list" where
  "handed_out (AllAddresses addresses) = map ra_address addresses"
| "handed_out (OneAddress address _) = [address]"

lemma checked_lookup_validates:
  assumes "createAddressCheckedLookup resolve validate hostname all family = Inr answer"
  shows "\<exists>addresses. resolve hostname = Inr addresses \<and> validate addresses = Inr () \<and>
    set (handed_out answer) \<subseteq> ra_address ` set addresses"
  using assms by (auto simp: createAddressCheckedLookup_def Let_def split: sum.splits if_splits option.splits list.splits dest!: find_SomeD)

section \<open>Reference: spellings and blocks\<close>

text \<open>
  The written forms of an address (RFC 4291, section 2.2): a dotted quad, eight groups, or groups
  with one run of zeros elided, where a dotted quad may stand for the last two groups.
\<close>

datatype ip = IPv4 nat | IPv6 nat

definition quad_text :: "nat list \<Rightarrow> string" where
  "quad_text ks = js_join ''.'' (map nat_string ks)"

definition quad_value :: "nat \<Rightarrow> nat \<Rightarrow> nat \<Rightarrow> nat \<Rightarrow> nat" where
  "quad_value a b c d = ((a * 256 + b) * 256 + c) * 256 + d"

definition address_value :: "nat list \<Rightarrow> nat" where
  "address_value ns = foldl (\<lambda>v n. v * 65536 + n) 0 ns"

definition segment :: "string \<Rightarrow> nat \<Rightarrow> bool" where
  "segment g n \<longleftrightarrow> is_segment g \<and> radix_val 16 0 g = Some n"

inductive groups :: "string list \<Rightarrow> nat list \<Rightarrow> bool" where
  none: "groups [] []"
| group: "segment f n \<Longrightarrow> groups fs ns \<Longrightarrow> groups (f # fs) (n # ns)"
| quad: "list_all (\<lambda>k. k < 256) [a, b, c, d] \<Longrightarrow> groups [quad_text [a, b, c, d]] [a * 256 + b, c * 256 + d]"

inductive spells6 :: "string \<Rightarrow> nat list \<Rightarrow> bool" where
  whole: "groups fs ns \<Longrightarrow> length ns = 8 \<Longrightarrow> spells6 (js_join '':'' fs) ns"
| elided: "list_all2 segment ls ns \<Longrightarrow> groups rs ms \<Longrightarrow> length ns + length ms \<le> 7 \<Longrightarrow>
    spells6 (js_join '':'' ls @ ''::'' @ js_join '':'' rs) (ns @ replicate (8 - length ns - length ms) 0 @ ms)"

inductive spells :: "string \<Rightarrow> ip \<Rightarrow> bool" where
  ipv4: "list_all (\<lambda>k. k < 256) [a, b, c, d] \<Longrightarrow> spells (quad_text [a, b, c, d]) (IPv4 (quad_value a b c d))"
| ipv6: "spells6 t ns \<Longrightarrow> spells t (IPv6 (address_value ns))"

text \<open>A block is a network and the length of its prefix.\<close>

definition in_block :: "nat \<Rightarrow> nat \<Rightarrow> nat \<times> nat \<Rightarrow> bool" where
  "in_block width x block \<longleftrightarrow> x div 2 ^ (width - snd block) = fst block div 2 ^ (width - snd block)"

definition private_ipv4_blocks :: "(nat \<times> nat) list" where
  "private_ipv4_blocks =
     [(quad_value 0 0 0 0, 8), (quad_value 10 0 0 0, 8), (quad_value 127 0 0 0, 8), (quad_value 169 254 0 0, 16),
      (quad_value 172 16 0 0, 12), (quad_value 192 168 0 0, 16), (quad_value 100 64 0 0, 10),
      (quad_value 198 18 0 0, 15), (quad_value 224 0 0 0, 3)]"

definition mapped_block :: "nat \<times> nat \<Rightarrow> nat \<times> nat" where
  "mapped_block block = (0xffff * 2 ^ 32 + fst block, 96 + snd block)"

definition private_ipv6_blocks :: "(nat \<times> nat) list" where
  "private_ipv6_blocks =
     [(0, 96), (0xff00 * 2 ^ 112, 8), (0xfe80 * 2 ^ 112, 10), (0xfec0 * 2 ^ 112, 10), (0xfc00 * 2 ^ 112, 7)]
     @ map mapped_block private_ipv4_blocks"

fun private_ip :: "ip \<Rightarrow> bool" where
  "private_ip (IPv4 n) \<longleftrightarrow> list_ex (in_block 32 n) private_ipv4_blocks"
| "private_ip (IPv6 n) \<longleftrightarrow> list_ex (in_block 128 n) private_ipv6_blocks"

definition link_local_block :: "nat \<times> nat" where
  "link_local_block = (quad_value 169 254 0 0, 16)"

fun link_local_ip :: "ip \<Rightarrow> bool" where
  "link_local_ip (IPv4 n) \<longleftrightarrow> in_block 32 n link_local_block"
| "link_local_ip (IPv6 n) \<longleftrightarrow> in_block 128 n (0xfe80 * 2 ^ 112, 10) \<or>
     in_block 128 n (mapped_block link_local_block) \<or> n < 2 ^ 32 \<and> in_block 32 n link_local_block"

section \<open>Blocks\<close>

lemma two_digits: "(r :: nat) < b \<Longrightarrow> s < b \<Longrightarrow> a * b + r = c * b + s \<longleftrightarrow> a = c \<and> r = s"
proof
  assume "r < b" "s < b" and e: "a * b + r = c * b + s"
  then have "b \<noteq> 0" by simp
  with \<open>r < b\<close> \<open>s < b\<close> have "(a * b + r) div b = a" "(c * b + s) div b = c" by simp_all
  with e show "a = c \<and> r = s" by simp
qed simp

lemma div_range: "0 < k \<Longrightarrow> (b :: nat) div k = c \<longleftrightarrow> c * k \<le> b \<and> b < Suc c * k"
  using less_eq_div_iff_mult_less_eq [of k c b] div_less_iff_less_mult [of k b "Suc c"] by (auto simp: less_Suc_eq_le)

lemma split_octet:
  assumes "k * m = 256" and "c < m"
  shows "(w :: nat) div k = a * m + c \<longleftrightarrow> w div 256 = a \<and> w mod 256 div k = c"
proof -
  have k: "0 < k" using assms(1) by (cases k) auto
  have "w = w mod 256 + (w div 256 * m) * k" using assms(1) by (metis mod_div_decomp add.commute mult.assoc mult.commute)
  then have "w div k = (w mod 256 + (w div 256 * m) * k) div k" by simp
  also have "\<dots> = w div 256 * m + w mod 256 div k" using k by simp
  finally have e: "w div k = w div 256 * m + w mod 256 div k" .
  have "w mod 256 div k < m" using assms(1) by (simp add: less_mult_imp_div_less mult.commute)
  then show ?thesis unfolding e using assms(2) by (rule two_digits)
qed

lemma in_mapped_block:
  assumes "net < 2 ^ 32" "len \<le> 32"
  shows "in_block 128 n (mapped_block (net, len)) \<longleftrightarrow> n div 2 ^ 32 = 0xffff \<and> in_block 32 (n mod 2 ^ 32) (net, len)"
proof -
  let ?k = "32 - len"
  have p: "(2 :: nat) ^ 32 = 2 ^ len * 2 ^ ?k" using assms(2) by (simp flip: power_add)
  have d: "(q * 2 ^ 32 + r) div 2 ^ ?k = q * 2 ^ len + r div 2 ^ ?k" for q r :: nat
  proof -
    have "q * 2 ^ 32 + r = r + (q * 2 ^ len) * 2 ^ ?k" unfolding p by (simp only: ac_simps)
    then have "(q * 2 ^ 32 + r) div 2 ^ ?k = (r + (q * 2 ^ len) * 2 ^ ?k) div 2 ^ ?k" by (rule arg_cong)
    also have "\<dots> = q * 2 ^ len + r div 2 ^ ?k" by (rule div_mult_self1) simp
    finally show ?thesis .
  qed
  have b: "r div 2 ^ ?k < 2 ^ len" if "r < 2 ^ 32" for r :: nat
    using that unfolding p by (simp add: less_mult_imp_div_less)
  have n: "n = (n div 2 ^ 32) * 2 ^ 32 + n mod 2 ^ 32" by simp
  have "n div 2 ^ ?k = (n div 2 ^ 32) * 2 ^ len + n mod 2 ^ 32 div 2 ^ ?k" by (subst n, subst d) (rule refl)
  moreover have "(0xffff * 2 ^ 32 + net) div 2 ^ ?k = 0xffff * 2 ^ len + net div 2 ^ ?k" by (rule d)
  moreover have "n mod 2 ^ 32 div 2 ^ ?k < 2 ^ len" "net div 2 ^ ?k < 2 ^ len" using b assms(1) by simp_all
  moreover have "128 - (96 + len) = ?k" by simp
  ultimately show ?thesis by (simp add: in_block_def mapped_block_def two_digits del: mult_numeral_left)
qed

lemma private_ipv4_blocks_octets:
  assumes "n < 2 ^ 32"
  shows "list_ex (in_block 32 n) private_ipv4_blocks \<longleftrightarrow> private_octets (n div 2 ^ 24) (n div 2 ^ 16 mod 256)"
proof -
  define w where "w = n div 2 ^ 16"
  have w: "w < 65536" using assms by (simp add: w_def div_less_iff_less_mult)
  have d: "n div 2 ^ 24 = w div 256" "n div 2 ^ 29 = w div 8192" "n div 2 ^ 20 = w div 16" "n div 2 ^ 22 = w div 64" "n div 2 ^ 17 = w div 2"
    by (simp_all add: w_def div_mult2_eq [symmetric])
  have "list_ex (in_block 32 n) private_ipv4_blocks \<longleftrightarrow> w div 256 = 0 \<or> w div 256 = 10 \<or> w div 256 = 127 \<or> w = 169 * 256 + 254 \<or>
      w div 16 = 172 * 16 + 1 \<or> w = 192 * 256 + 168 \<or> w div 64 = 100 * 4 + 1 \<or> w div 2 = 198 * 128 + 9 \<or> w div 8192 = 7"
    by (simp add: private_ipv4_blocks_def in_block_def quad_value_def d [simplified] w_def [symmetric, simplified])
  also have "\<dots> \<longleftrightarrow> private_octets (w div 256) (w mod 256)"
  proof -
    have "w div 1 = 169 * 256 + 254 \<longleftrightarrow> w div 256 = 169 \<and> w mod 256 div 1 = 254" by (rule split_octet) simp_all
    moreover have "w div 16 = 172 * 16 + 1 \<longleftrightarrow> w div 256 = 172 \<and> w mod 256 div 16 = 1" by (rule split_octet) simp_all
    moreover have "w div 1 = 192 * 256 + 168 \<longleftrightarrow> w div 256 = 192 \<and> w mod 256 div 1 = 168" by (rule split_octet) simp_all
    moreover have "w div 64 = 100 * 4 + 1 \<longleftrightarrow> w div 256 = 100 \<and> w mod 256 div 64 = 1" by (rule split_octet) simp_all
    moreover have "w div 2 = 198 * 128 + 9 \<longleftrightarrow> w div 256 = 198 \<and> w mod 256 div 2 = 9" by (rule split_octet) simp_all
    moreover have "b div 16 = 1 \<longleftrightarrow> 16 \<le> b \<and> b \<le> 31" "b div 64 = 1 \<longleftrightarrow> 64 \<le> b \<and> b \<le> 127" "b div 2 = 9 \<longleftrightarrow> b = 18 \<or> b = 19" for b :: nat
      by (auto simp: div_range)
    moreover have "w div 8192 = 7 \<longleftrightarrow> w div 256 \<ge> 224"
    proof -
      define a where "a = w div 256"
      have "a < 256" "w div 8192 = a div 32" using w by (simp_all add: a_def div_less_iff_less_mult div_mult2_eq [symmetric])
      then have "a div 32 = 7 \<longleftrightarrow> 224 \<le> a" by (auto simp: div_range)
      with \<open>w div 8192 = a div 32\<close> show ?thesis unfolding a_def [symmetric] by simp
    qed
    ultimately show ?thesis unfolding private_octets_def by simp
  qed
  finally show ?thesis by (simp add: d(1) [simplified] flip: w_def [simplified])
qed

lemma word_octet: "unat (drop_bit k v AND 0xff :: 32 word) = unat v div 2 ^ k mod 256"
proof -
  have "(0xff :: 32 word) = mask 8" by (simp add: mask_eq_exp_minus_1)
  then have "unat (drop_bit k v AND 0xff) = take_bit 8 (drop_bit k (unat v))"
    by (simp only: take_bit_eq_mask [symmetric] unsigned_take_bit_eq unat_drop_bit_eq)
  then show ?thesis by (simp add: drop_bit_eq_div take_bit_eq_mod)
qed

lemma unat_low_word: "unat (low_word n) = n mod 2 ^ 32"
proof -
  have "(0xffffffff :: nat) = mask 32" by (simp add: mask_eq_exp_minus_1)
  then show ?thesis unfolding low_word_def by (simp only: take_bit_eq_mask [symmetric] unat_of_nat take_bit_eq_mod) simp
qed

lemma isPrivateIpv4Number_octets:
  "isPrivateIpv4Number v \<longleftrightarrow> private_octets (unat v div 2 ^ 24) (unat v div 2 ^ 16 mod 256)"
proof -
  have "unat v < 2 ^ 32" using unsigned_less [of v] by simp
  then have "unat v div 2 ^ 24 mod 256 = unat v div 2 ^ 24" by (simp add: div_less_iff_less_mult)
  then have "unat (drop_bit 24 v AND 0xff) = unat v div 2 ^ 24" using word_octet [of 24 v] by simp
  then show ?thesis
    by (simp add: isPrivateIpv4Number_def private_octets_def Let_def word_unat_eq_iff word_le_nat_alt word_octet)
qed

lemma unique_local_bits: "(x AND 0xfe = (0xfc :: nat)) \<longleftrightarrow> x div 2 mod 128 = 126"
proof -
  have "(0xfe :: nat) = push_bit 1 (mask 7)" by (simp add: mask_eq_exp_minus_1)
  moreover have "x AND push_bit n (mask m) = push_bit n (take_bit m (drop_bit n x))" for n m
    by (rule bit_eqI) (auto simp: bit_simps)
  ultimately have "x AND 0xfe = x div 2 mod 128 * 2"
    by (simp only: drop_bit_eq_div take_bit_eq_mod push_bit_eq_mult) simp
  then show ?thesis by auto
qed

lemma private_ipv4_nets: "list_all (\<lambda>(net, len). net < 2 ^ 32 \<and> len \<le> 32) private_ipv4_blocks"
  by (simp add: private_ipv4_blocks_def quad_value_def)

lemma mapped_blocks:
  "list_ex (in_block 128 n) (map mapped_block private_ipv4_blocks) \<longleftrightarrow>
     n div 2 ^ 32 = 0xffff \<and> list_ex (in_block 32 (n mod 2 ^ 32)) private_ipv4_blocks"
proof -
  have "in_block 128 n (mapped_block b) \<longleftrightarrow> n div 2 ^ 32 = 0xffff \<and> in_block 32 (n mod 2 ^ 32) b"
    if "b \<in> set private_ipv4_blocks" for b
    using that private_ipv4_nets in_mapped_block [of "fst b" "snd b" n] by (auto simp: list_all_iff)
  then show ?thesis by (auto simp: list_ex_iff)
qed

lemma private_ipv6_blocks:
  assumes "n < 2 ^ 128"
  shows "private_ipv6 n \<longleftrightarrow> list_ex (in_block 128 n) private_ipv6_blocks"
proof -
  have m: "isPrivateIpv4Number (low_word n) \<longleftrightarrow> list_ex (in_block 32 (n mod 2 ^ 32)) private_ipv4_blocks"
    by (subst private_ipv4_blocks_octets) (simp_all add: isPrivateIpv4Number_octets unat_low_word)
  define u where "u = n div 2 ^ 118"
  have d: "n div 2 ^ 120 = u div 4" "n div 2 ^ 121 = u div 8" by (simp_all add: u_def div_mult2_eq [symmetric])
  have "u < 1024" using assms by (simp add: u_def div_less_iff_less_mult)
  then have "u div 8 < 128" by (simp add: div_less_iff_less_mult)
  then have "u div 4 div 2 mod 128 = u div 8" by (simp add: div_mult2_eq [symmetric])
  then have ula: "(drop_bit 120 n AND 0xfe = 0xfc) \<longleftrightarrow> u div 8 = 126"
    unfolding unique_local_bits drop_bit_eq_div d by simp
  have low: "n div 2 ^ 32 = 0" if "n = 0 \<or> n = 1" using that by auto
  have "list_ex (in_block 128 n) private_ipv6_blocks \<longleftrightarrow> n div 2 ^ 32 = 0 \<or> u div 4 = 0xff \<or> u = 0x3fa \<or> u = 0x3fb \<or> u div 8 = 126 \<or>
      n div 2 ^ 32 = 0xffff \<and> list_ex (in_block 32 (n mod 2 ^ 32)) private_ipv4_blocks"
    unfolding private_ipv6_blocks_def list_ex_append mapped_blocks
    by (simp add: in_block_def d [simplified] u_def [symmetric, simplified])
  then show ?thesis
    using low unfolding private_ipv6_def ula m unfolding drop_bit_eq_div d u_def [symmetric] by auto
qed

lemma link_local_word:
  "drop_bit 24 v AND 0xff = (169 :: 32 word) \<and> drop_bit 16 v AND 0xff = 254 \<longleftrightarrow> in_block 32 (unat v) link_local_block"
proof -
  have v: "unat v < 2 ^ 32" using unsigned_less [of v] by simp
  then have "unat v div 2 ^ 24 mod 256 = unat v div 2 ^ 16 div 256" by (simp add: div_less_iff_less_mult div_mult2_eq [symmetric])
  moreover have "in_block 32 (unat v) link_local_block \<longleftrightarrow> unat v div 2 ^ 16 div 1 = 169 * 256 + 254"
    by (simp add: in_block_def link_local_block_def quad_value_def)
  ultimately show ?thesis using split_octet [of 1 256 254 "unat v div 2 ^ 16" 169]
    by (simp add: word_unat_eq_iff word_octet)
qed

lemma link_local_ipv6_blocks: "link_local_ipv6 n \<longleftrightarrow> link_local_ip (IPv6 n)"
proof -
  have net: "fst link_local_block < 2 ^ 32" "snd link_local_block \<le> 32" by (simp_all add: link_local_block_def quad_value_def)
  have m: "in_block 128 n (mapped_block link_local_block) \<longleftrightarrow> n div 2 ^ 32 = 0xffff \<and> in_block 32 (n mod 2 ^ 32) link_local_block"
    using in_mapped_block [OF net, of n] by simp
  have z: "n div 2 ^ 32 = 0 \<longleftrightarrow> n < 2 ^ 32" by (simp add: div_eq_0_iff)
  have f: "in_block 128 n (0xfe80 * 2 ^ 112, 10) \<longleftrightarrow> n div 2 ^ 118 = 0x3fa" by (simp add: in_block_def)
  have h: "n div 2 ^ 118 = n div 2 ^ 32 div 2 ^ 86" by (simp add: div_mult2_eq [symmetric])
  have w: "drop_bit 24 (low_word n) AND 0xff = 169 \<and> drop_bit 16 (low_word n) AND 0xff = 254 \<longleftrightarrow>
      in_block 32 (n mod 2 ^ 32) link_local_block"
    unfolding link_local_word unat_low_word ..
  show ?thesis
    unfolding link_local_ipv6_def w link_local_ip.simps m f unfolding drop_bit_eq_div z [symmetric]
    by (cases "n div 2 ^ 32 = 0 \<or> n div 2 ^ 32 = 0xffff") (auto simp: h z simp del: div_eq_0_iff)
qed

section \<open>Parsing a spelling\<close>

lemma js_split_join: "xs \<noteq> [] \<Longrightarrow> list_all (\<lambda>x. d \<notin> set x) xs \<Longrightarrow> js_split d (js_join [d] xs) = xs"
proof (induction "[d]" xs rule: js_join.induct)
  case (3 x y zs)
  then show ?case by (simp add: js_split_append_sep)
qed (auto simp: js_split_id)

definition plain :: "string \<Rightarrow> bool" where
  "plain f \<longleftrightarrow> f \<noteq> [] \<and> CHR '':'' \<notin> set f"

lemma plainD: "plain f \<Longrightarrow> \<exists>c cs. f = c # cs \<and> c \<noteq> CHR '':'' \<and> CHR '':'' \<notin> set cs"
  by (cases f) (auto simp: plain_def)

lemma fields_join: "list_all plain fs \<Longrightarrow> colon_fields (js_join '':'' fs) = fs"
proof (cases fs)
  case (Cons f r)
  assume p: "list_all plain fs"
  then have "js_join '':'' fs \<noteq> []" using Cons by (cases r) (auto simp: plain_def)
  with p Cons show ?thesis by (simp add: colon_fields_def js_split_join plain_def list_all_iff)
qed (simp add: colon_fields_def)

lemma cut_double_word: "CHR '':'' \<notin> set w \<Longrightarrow> cut_double (w @ s) = (w @ fst (cut_double s), snd (cut_double s))"
  by (induction w) auto

lemma cut_double_sep: "plain f \<Longrightarrow> cut_double ('':'' @ f @ s) = ('':'' @ fst (cut_double (f @ s)), snd (cut_double (f @ s)))"
  by (auto dest!: plainD)

lemma cut_double_join:
  "list_all plain fs \<Longrightarrow> cut_double (js_join '':'' fs) = (js_join '':'' fs, None)"
  "list_all plain fs \<Longrightarrow> cut_double (js_join '':'' fs @ ''::'' @ r) = (js_join '':'' fs, Some r)"
proof (induction "'':''" fs rule: js_join.induct)
  case (2 x)
  {
    case 1
    then show ?case using cut_double_word [of x "[]"] by (simp add: plain_def)
  next
    case 2
    then show ?case using cut_double_word [of x "''::'' @ r"] by (simp add: plain_def)
  }
next
  case (3 x y zs)
  have j: "\<exists>u. js_join '':'' (y # zs) = y @ u" by (cases zs) auto
  {
    case 1
    with j 3(1) cut_double_sep [of y] show ?case by (auto simp: plain_def cut_double_word simp del: cut_double.simps)
  next
    case 2
    with j 3(2) cut_double_sep [of y] show ?case by (auto simp: plain_def cut_double_word simp del: cut_double.simps)
  }
qed simp_all

lemma hex_digit_value: "d < 16 \<Longrightarrow> radix_digit 16 (hex_digit d) = Some d"
  by (auto simp: radix_digit_def hex_digit_def Let_def)

lemma hex_digit_hex: "d < 16 \<Longrightarrow> is_hex (hex_digit d)"
  by (simp add: is_hex_def hex_digit_value)

lemma radix_val_snoc: "radix_val b acc (s @ [c]) =
  (case radix_val b acc s of None \<Rightarrow> None | Some n \<Rightarrow> radix_val b n [c])"
  by (induction b acc s rule: radix_val.induct) (auto split: option.splits)

lemma radix_val_bound: "radix_val 16 acc s = Some n \<Longrightarrow> n < (acc + 1) * 16 ^ length s"
proof (induction "16 :: nat" acc s rule: radix_val.induct)
  case (2 acc c cs)
  then obtain d where d: "radix_digit 16 c = Some d" "radix_val 16 (16 * acc + d) cs = Some n" by (auto split: option.splits)
  then have "d < 16" by (auto simp: radix_digit_def Let_def split: option.splits if_splits)
  then have "(16 * acc + d + 1) * 16 ^ length cs \<le> (16 * acc + 16) * 16 ^ length cs" by (intro mult_right_mono) simp_all
  with 2(1) [OF d] have "n < (16 * acc + 16) * 16 ^ length cs" by (rule less_le_trans)
  then show ?case by (simp add: algebra_simps)
qed simp

lemma hex_string_value: "radix_val 16 0 (hex_string n) = Some n"
proof (induction n rule: hex_string.induct)
  case (1 n)
  then show ?case by (subst hex_string.simps) (simp add: radix_val_snoc hex_digit_value)
qed

lemma hex_string_digits: "list_all is_hex (hex_string n)"
proof (induction n rule: hex_string.induct)
  case (1 n)
  then show ?case by (subst hex_string.simps) (simp add: hex_digit_hex)
qed

lemma hex_string_not_Nil: "hex_string n \<noteq> []"
  by (subst hex_string.simps) simp

lemma hex_string_length: "n < 16 ^ Suc k \<Longrightarrow> length (hex_string n) \<le> Suc k"
proof (induction k arbitrary: n)
  case 0
  then show ?case by (subst hex_string.simps) simp
next
  case (Suc k)
  then have "n div 16 < 16 ^ Suc k" by (simp add: div_less_iff_less_mult)
  from Suc.IH [OF this] show ?case by (subst hex_string.simps) simp
qed

lemma hex_string_segment: "n < 65536 \<Longrightarrow> segment (hex_string n) n"
  using hex_string_length [of n 3] hex_string_digits [of n] hex_string_value [of n] hex_string_not_Nil [of n]
  by (auto simp: segment_def is_segment_def)

lemma is_hex_char: "is_hex c \<Longrightarrow> c \<noteq> CHR '':'' \<and> c \<noteq> CHR ''.'' \<and> c \<noteq> CHR ''%'' \<and> c \<noteq> CHR ''['' \<and> c \<noteq> CHR '']''"
  by (auto simp: is_hex_def radix_digit_def)

lemma segment_chars:
  assumes "segment f n"
  shows "plain f" "CHR ''.'' \<notin> set f" "CHR ''%'' \<notin> set f" "n < 65536"
proof -
  from assms have s: "f \<noteq> []" "length f \<le> 4" "list_all is_hex f" "radix_val 16 0 f = Some n"
    by (auto simp: segment_def is_segment_def)
  then show "plain f" "CHR ''.'' \<notin> set f" "CHR ''%'' \<notin> set f"
    by (auto simp: plain_def list_all_iff dest: is_hex_char)
  have "n < 16 ^ length f" using radix_val_bound [OF s(4)] by simp
  also have "\<dots> \<le> 16 ^ 4" using s(2) by (intro power_increasing) simp_all
  finally show "n < 65536" by simp
qed

lemma quad_text_split: "js_split CHR ''.'' (quad_text [a, b, c, d]) = map nat_string [a, b, c, d]"
proof -
  have "CHR ''.'' \<notin> set (nat_string n)" for n using nat_string_digits [of n] by (auto simp: is_digit_def)
  then show ?thesis unfolding quad_text_def by (intro js_split_join) simp_all
qed

lemma quad_text_chars: "c \<in> set (quad_text ks) \<Longrightarrow> is_digit c \<or> c = CHR ''.''"
proof (induction ks rule: induct_list012)
  case (3 x y zs)
  then show ?case using nat_string_digits by (auto simp: quad_text_def)
qed (use nat_string_digits in \<open>auto simp: quad_text_def\<close>)

lemma quad_text_plain:
  "plain (quad_text [a, b, c, d])" "CHR ''%'' \<notin> set (quad_text [a, b, c, d])" "CHR ''.'' \<in> set (quad_text [a, b, c, d])"
proof -
  have "CHR '':'' \<notin> set (quad_text [a, b, c, d])" "CHR ''%'' \<notin> set (quad_text [a, b, c, d])"
    by (auto dest!: quad_text_chars simp: is_digit_def)
  moreover show "CHR ''.'' \<in> set (quad_text [a, b, c, d])" by (simp add: quad_text_def)
  ultimately show "plain (quad_text [a, b, c, d])" "CHR ''%'' \<notin> set (quad_text [a, b, c, d])"
    by (auto simp: plain_def quad_text_def)
qed

lemma quad_text_is_quad:
  assumes "list_all (\<lambda>k. k < 256) [a, b, c, d]"
  shows "is_quad (quad_text [a, b, c, d])" "isIP (quad_text [a, b, c, d]) = 4" "quad_octets (quad_text [a, b, c, d]) = [a, b, c, d]"
  using assms nat_string_digits by (simp_all add: is_quad_def isIP_def quad_octets_def quad_text_split is_octet_def list_all_iff)

lemma quad_has_dot: "is_quad f \<Longrightarrow> CHR ''.'' \<in> set f"
  by (rule ccontr) (simp add: is_quad_def js_split_id)

lemma append_OR:
  assumes "n < 2 ^ k"
  shows "push_bit k acc OR n = acc * 2 ^ k + (n :: nat)"
proof -
  have "n = take_bit k n" using take_bit_nat_eq_self [OF assms] by (rule sym)
  then have low: "j < k" if "bit n j" for j using that by (metis bit_take_bit_iff)
  have "push_bit k acc AND n = 0" by (rule bit_eqI) (auto simp: bit_simps dest: low)
  then show ?thesis by (metis disjunctive_add_eq_or push_bit_eq_mult)
qed

lemma group_value_segments:
  "list_all2 segment gs ns \<Longrightarrow> group_value acc gs = Some (foldl (\<lambda>v n. v * 65536 + n) acc ns)"
proof (induction gs ns arbitrary: acc rule: list_all2_induct)
  case (Cons g gs n ns)
  have "g \<noteq> []" "radix_val 16 0 g = Some n" using Cons(1) by (auto simp: segment_def is_segment_def)
  then show ?case using Cons(3) append_OR [of n 16 acc] segment_chars(4) [OF Cons(1)] by simp
qed simp

lemma field_count_last: "is_segment f \<Longrightarrow> \<not> is_quad f"
  using quad_has_dot is_hex_char by (auto simp: is_segment_def list_all_iff)

lemma groups_count: "groups fs ns \<Longrightarrow> field_count fs = Some (length ns) \<and> list_all plain fs"
proof (induction rule: groups.induct)
  case (group f n fs ns)
  then have "is_segment f" by (simp add: segment_def)
  with group.IH segment_chars(1) [OF group(1)] field_count_last show ?case by (cases fs) (auto elim: groups.cases)
qed (simp_all add: quad_text_is_quad quad_text_plain)

lemma groups_no_zone: "groups fs ns \<Longrightarrow> CHR ''%'' \<notin> set (js_join '':'' fs)"
proof (induction rule: groups.induct)
  case (group f n fs ns)
  then show ?case using segment_chars(3) by (cases fs) auto
qed (simp_all add: quad_text_plain)

lemma segments_groups: "list_all2 segment fs ns \<Longrightarrow> groups fs ns"
  by (induction rule: list_all2_induct) (auto intro: groups.intros)

text \<open>The groups of a text whose dotted tail has been rewritten.\<close>

definition tail_of :: "string list \<Rightarrow> string" where
  "tail_of fs = concat (map (\<lambda>f. f @ '':'') fs)"

lemma join_snoc: "js_join '':'' (gs @ [f]) = tail_of gs @ f"
proof (induction gs)
  case (Cons g gs)
  then show ?case by (cases gs) (simp_all add: tail_of_def)
qed (simp add: tail_of_def)

lemma tail_of_colon: "tail_of gs = [] \<or> last (tail_of gs) = CHR '':''"
  by (induction gs rule: rev_induct) (simp_all add: tail_of_def)

lemma groups_cases:
  assumes "groups fs ns"
  shows "list_all2 segment fs ns \<or> (\<exists>gs ms a b c d. fs = gs @ [quad_text [a, b, c, d]] \<and> list_all2 segment gs ms \<and>
    ns = ms @ [a * 256 + b, c * 256 + d] \<and> list_all (\<lambda>k. k < 256) [a, b, c, d])"
  using assms
proof (induction rule: groups.induct)
  case (group f n fs ns)
  from group.IH show ?case
  proof
    assume "list_all2 segment fs ns"
    with group.hyps(1) show ?thesis by simp
  next
    assume "\<exists>gs ms a b c d. fs = gs @ [quad_text [a, b, c, d]] \<and> list_all2 segment gs ms \<and>
      ns = ms @ [a * 256 + b, c * 256 + d] \<and> list_all (\<lambda>k. k < 256) [a, b, c, d]"
    then obtain gs ms a b c d where "fs = gs @ [quad_text [a, b, c, d]]" "list_all2 segment gs ms"
      "ns = ms @ [a * 256 + b, c * 256 + d]" "list_all (\<lambda>k. k < 256) [a, b, c, d]" by blast
    with group.hyps(1) have "f # fs = (f # gs) @ [quad_text [a, b, c, d]] \<and> list_all2 segment (f # gs) (n # ms) \<and>
      n # ns = (n # ms) @ [a * 256 + b, c * 256 + d] \<and> list_all (\<lambda>k. k < 256) [a, b, c, d]" by simp
    then show ?thesis by blast
  qed
next
  case (quad a b c d)
  then have "[quad_text [a, b, c, d]] = [] @ [quad_text [a, b, c, d]] \<and> list_all2 segment [] [] \<and>
      [a * 256 + b, c * 256 + d] = [] @ [a * 256 + b, c * 256 + d] \<and> list_all (\<lambda>k. k < 256) [a, b, c, d]" by simp
  then show ?case by blast
qed simp

lemma last_field: "P = [] \<or> last P = CHR '':'' \<Longrightarrow> CHR '':'' \<notin> set f \<Longrightarrow> last (js_split CHR '':'' (P @ f)) = f"
proof (cases P rule: rev_cases)
  case (snoc P' c)
  assume "P = [] \<or> last P = CHR '':''" "CHR '':'' \<notin> set f"
  then show ?thesis using snoc by (simp add: js_split_append js_split_id)
qed (simp add: js_split_id)

lemma octets_OR: "b < 256 \<Longrightarrow> push_bit 8 a OR b = a * 256 + (b :: nat)"
  using append_OR [of b 8 a] by simp

lemma normalize_groups:
  assumes "groups fs ns" and P: "P = [] \<or> last P = CHR '':''"
  shows "\<exists>gs. normalize_tail (P @ js_join '':'' fs) = Some (P @ js_join '':'' gs) \<and> list_all2 segment gs ns"
  using groups_cases [OF assms(1)]
proof
  assume s: "list_all2 segment fs ns"
  have "normalize_tail (P @ js_join '':'' fs) = Some (P @ js_join '':'' fs)"
  proof (cases fs rule: rev_cases)
    case Nil
    then show ?thesis using last_field [OF P, of "[]"] by (simp add: normalize_tail_def)
  next
    case (snoc gs f)
    with s obtain n where f: "segment f n" by (auto simp: list_all2_append1 list_all2_Cons1)
    have "P @ tail_of gs = [] \<or> last (P @ tail_of gs) = CHR '':''" using P tail_of_colon [of gs] by (auto simp: last_append)
    from last_field [OF this, of f] segment_chars(1,2) [OF f] show ?thesis
      by (simp add: snoc join_snoc normalize_tail_def plain_def)
  qed
  with s show ?thesis by blast
next
  assume "\<exists>gs ms a b c d. fs = gs @ [quad_text [a, b, c, d]] \<and> list_all2 segment gs ms \<and>
    ns = ms @ [a * 256 + b, c * 256 + d] \<and> list_all (\<lambda>k. k < 256) [a, b, c, d]"
  then obtain gs ms a b c d where q: "fs = gs @ [quad_text [a, b, c, d]]" "list_all2 segment gs ms"
    "ns = ms @ [a * 256 + b, c * 256 + d]" "list_all (\<lambda>k. k < 256) [a, b, c, d]" by blast
  let ?gs = "gs @ [hex_string (a * 256 + b), hex_string (c * 256 + d)]"
  have "P @ tail_of gs = [] \<or> last (P @ tail_of gs) = CHR '':''" using P tail_of_colon [of gs] by (auto simp: last_append)
  from last_field [OF this, of "quad_text [a, b, c, d]"] quad_text_plain [of a b c d]
  have "last (js_split CHR '':'' (P @ js_join '':'' fs)) = quad_text [a, b, c, d]" by (simp add: q(1) join_snoc plain_def)
  then have "normalize_tail (P @ js_join '':'' fs) = Some (P @ js_join '':'' ?gs)"
    using q(4) quad_text_is_quad [OF q(4)] quad_text_plain(3) [of a b c d] join_snoc [of "gs @ [hex_string (a * 256 + b)]"]
    by (simp add: normalize_tail_def replaceIpv4Tail_def q(1) join_snoc octets_OR tail_of_def)
  moreover have "list_all2 segment ?gs ns" using q(2-4) by (simp add: list_all2_appendI hex_string_segment)
  ultimately show ?thesis by blast
qed

lemma js_join_set: "c \<in> set (js_join sep xs) \<Longrightarrow> c \<in> set sep \<or> (\<exists>x \<in> set xs. c \<in> set x)"
  by (induction sep xs rule: js_join.induct) auto

lemma quad_chars: "is_quad s \<Longrightarrow> c \<in> set s \<Longrightarrow> is_digit c \<or> c = CHR ''.''"
  using js_join_set [of c "''.''" "js_split CHR ''.'' s"] js_join_split [of "CHR ''.''" s]
  by (auto simp: is_quad_def is_octet_def list_all_iff)

lemma quad_not_ip6: "is_quad t \<Longrightarrow> \<not> ip6_body t"
proof -
  assume q: "is_quad t"
  then have c: "CHR '':'' \<notin> set t" by (auto dest!: quad_chars simp: is_digit_def)
  moreover have "t \<noteq> []" using q by (auto simp: is_quad_def)
  moreover have "cut_double t = (t, None)" using cut_double_word [OF c, of "[]"] by simp
  ultimately show ?thesis using q by (simp add: ip6_body_def colon_fields_def js_split_id)
qed

lemma isIP_6:
  assumes "ip6_body t" "CHR ''%'' \<notin> set t"
  shows "isIP t = 6"
proof -
  have b: "takeWhile (\<lambda>c. c \<noteq> CHR ''%'') t = t" using assms(2) by (auto simp: takeWhile_eq_all_conv)
  have z: "dropWhile (\<lambda>c. c \<noteq> CHR ''%'') t = []" using assms(2) by auto
  have "is_ip6 t" unfolding is_ip6_def b z using assms(1) by (simp only: list.case simp_thms)
  moreover have "\<not> is_quad t" using assms(1) quad_not_ip6 by blast
  ultimately show ?thesis by (simp only: isIP_def if_True if_False)
qed

lemma segments_plain: "list_all2 segment fs ns \<Longrightarrow> list_all plain fs"
  using groups_count segments_groups by blast

lemma zero_segment: "segment ''0'' 0"
  by (simp add: segment_def is_segment_def is_hex_def radix_digit_def Let_def)

text \<open>A spelling of an address is parsed to its value.\<close>

lemma spells6_parse:
  assumes "spells6 t ns"
  shows "isIP t = 6" and "parseIpv6 t = Some (address_value ns)" and "CHR ''%'' \<notin> set t"
proof -
  have "ip6_body t \<and> CHR ''%'' \<notin> set t \<and>
    (\<exists>n gs. normalize_tail t = Some n \<and> n \<noteq> [] \<and> expand_groups t n = Some gs \<and> list_all2 segment gs ns)"
    using assms
  proof cases
    case (whole fs)
    note c = groups_count [OF whole(2)]
    have cut: "cut_double t = (t, None)" using c whole(1) by (simp add: cut_double_join)
    have "ip6_body t" unfolding ip6_body_def cut using c whole(1,3) by (simp add: fields_join)
    moreover obtain gs where gs: "normalize_tail t = Some (js_join '':'' gs)" "list_all2 segment gs ns"
      using normalize_groups [OF whole(2), of "[]"] whole(1) by auto
    moreover from this have "js_join '':'' gs \<noteq> []"
      using whole(3) segments_plain [OF gs(2)] fields_join [of gs] by (auto simp: colon_fields_def)
    moreover have "expand_groups t (js_join '':'' gs) = Some gs"
      using segments_plain [OF gs(2)] list_all2_lengthD [OF gs(2)] whole(3)
      by (simp add: expand_groups_def cut cut_double_join fields_join, simp add: colon_fields_def)
    ultimately show ?thesis using groups_no_zone [OF whole(2)] whole(1) by blast
  next
    case (elided ls ns' rs ms)
    note c = groups_count [OF elided(4)]
    note p = segments_plain [OF elided(3)]
    have cut: "cut_double t = (js_join '':'' ls, Some (js_join '':'' rs))" unfolding elided(1) by (rule cut_double_join(2) [OF p])
    have len: "length ls = length ns'" using elided(3) by (rule list_all2_lengthD)
    have "list_all is_segment ls" using elided(3) by (auto simp: list_all2_conv_all_nth list_all_length segment_def)
    then have "ip6_body t" unfolding ip6_body_def cut using c p elided(5) len by (simp add: fields_join)
    moreover obtain gs where gs: "normalize_tail t = Some (js_join '':'' ls @ ''::'' @ js_join '':'' gs)" "list_all2 segment gs ms"
      using normalize_groups [OF elided(4), of "js_join '':'' ls @ ''::''"] elided(1) by auto
    moreover have "expand_groups t (js_join '':'' ls @ ''::'' @ js_join '':'' gs) =
        Some (ls @ replicate (8 - length ns' - length ms) ''0'' @ gs)"
    proof -
      note g = segments_plain [OF gs(2)] list_all2_lengthD [OF gs(2)]
      have "nat (8 - int (length ls) - int (length gs)) = 8 - length ns' - length ms" using len g(2) by simp
      then show ?thesis unfolding expand_groups_def cut cut_double_join(2) [OF p] fst_conv snd_conv option.case
          cut_double_join(1) [OF g(1)] fields_join [OF p] fields_join [OF g(1)] Let_def
        using len g(2) elided(5) by simp
    qed
    moreover have "list_all2 segment (ls @ replicate (8 - length ns' - length ms) ''0'' @ gs) ns"
      unfolding elided(2) using elided(3) gs(2) zero_segment by (intro list_all2_appendI) (simp_all add: list_all2_conv_all_nth)
    moreover have "CHR ''%'' \<notin> set t"
      using groups_no_zone [OF elided(4)] groups_no_zone [OF segments_groups [OF elided(3)]] by (simp add: elided(1))
    ultimately show ?thesis by blast
  qed
  then obtain n gs where b: "ip6_body t" "CHR ''%'' \<notin> set t" "normalize_tail t = Some n" "n \<noteq> []"
    "expand_groups t n = Some gs" "list_all2 segment gs ns" by blast
  show "isIP t = 6" by (rule isIP_6 [OF b(1,2)])
  then show "parseIpv6 t = Some (address_value ns)"
    using b(3-5) group_value_segments [OF b(6), of 0] by (simp add: parseIpv6_def address_value_def)
  show "CHR ''%'' \<notin> set t" by (rule b(2))
qed

section \<open>Every spelling of an address gets the verdict of its blocks\<close>

lemma lower_hex: "radix_digit 16 (js_lower_char c) = Some d" if "radix_digit 16 c = Some d"
  using that by (auto simp: radix_digit_def js_lower_char_def Let_def split: if_splits option.splits)

lemma lower_radix: "radix_val 16 acc s = Some n \<Longrightarrow> radix_val 16 acc (js_lower s) = Some n"
  by (induction "16 :: nat" acc s rule: radix_val.induct) (auto simp: js_lower_def lower_hex split: option.splits)

lemma lower_segment: "segment f n \<Longrightarrow> segment (js_lower f) n"
  using lower_radix [of 0 f n] lower_hex
  by (fastforce simp: segment_def is_segment_def js_lower_def list_all_iff is_hex_def)

lemma lower_quad: "js_lower (quad_text ks) = quad_text ks"
  unfolding js_lower_def by (rule map_idI) (auto dest!: quad_text_chars simp: js_lower_char_def is_digit_def Let_def)

lemma lower_join: "js_lower (js_join '':'' fs) = js_join '':'' (map js_lower fs)"
  by (induction "'':''" fs rule: js_join.induct) (auto simp: js_lower_def js_lower_char_def)

lemma lower_groups: "groups fs ns \<Longrightarrow> groups (map js_lower fs) ns"
  by (induction rule: groups.induct) (auto intro: groups.intros simp: lower_quad lower_segment)

lemma lower_spells6: "spells6 t ns \<Longrightarrow> spells6 (js_lower t) ns"
proof (induction rule: spells6.induct)
  case (whole fs ns)
  then show ?case using spells6.whole [OF lower_groups] by (simp add: lower_join)
next
  case (elided ls ns rs ms)
  have "list_all2 segment (map js_lower ls) ns" using elided(1) by (auto simp: list_all2_conv_all_nth lower_segment)
  from spells6.elided [OF this lower_groups [OF elided(2)] elided(3)] show ?case
    by (simp add: lower_join [symmetric]) (simp add: js_lower_def js_lower_char_def)
qed

lemma digit_is_hex: "is_digit c \<Longrightarrow> is_hex c"
  by (auto simp: is_digit_def is_hex_def radix_digit_def Let_def)

lemma groups_chars: "groups fs ns \<Longrightarrow> c \<in> set (js_join '':'' fs) \<Longrightarrow> is_hex c \<or> c \<in> set '':.''"
proof (induction rule: groups.induct)
  case (group f n fs ns)
  then show ?case by (cases fs) (auto simp: segment_def is_segment_def list_all_iff)
qed (auto dest!: quad_text_chars digit_is_hex)

lemma spells6_chars: "spells6 t ns \<Longrightarrow> c \<in> set t \<Longrightarrow> is_hex c \<or> c \<in> set '':.''"
proof (induction rule: spells6.induct)
  case (elided ls ns rs ms)
  then show ?case using groups_chars [OF elided(2)] groups_chars [OF segments_groups [OF elided(1)]] by auto
qed (rule groups_chars)

lemma strip_none: "(\<And>c. c \<in> set t \<Longrightarrow> c \<noteq> CHR ''['' \<and> c \<noteq> CHR '']'') \<Longrightarrow> strip_brackets t = t"
  using hd_in_set [of t] last_in_set [of t] by (auto simp: strip_brackets_def Let_def)

lemma strip_some: "strip_brackets (''['' @ t @ '']'') = t"
  by (simp add: strip_brackets_def)

lemma spells6_strip: "spells6 t ns \<Longrightarrow> strip_brackets t = t"
  by (intro strip_none) (auto dest!: spells6_chars dest: is_hex_char)

lemma groups_range: "groups fs ns \<Longrightarrow> list_all (\<lambda>n. n < 65536) ns"
  by (induction rule: groups.induct) (auto dest: segment_chars(4))

lemma spells6_range: "spells6 t ns \<Longrightarrow> length ns = 8 \<and> list_all (\<lambda>n. n < 65536) ns"
proof (induction rule: spells6.induct)
  case (whole fs ns)
  then show ?case using groups_range by blast
next
  case (elided ls ns rs ms)
  then show ?case using groups_range [OF segments_groups [OF elided(1)]] groups_range [OF elided(2)]
    by (auto simp: list_all_iff)
qed

lemma address_value_range:
  assumes "spells6 t ns"
  shows "address_value ns < 2 ^ 128"
proof -
  have "foldl (\<lambda>v n. v * 65536 + n) v ms < (v + 1) * 65536 ^ length ms" if "list_all (\<lambda>n. n < 65536) ms" for v :: nat and ms
    using that
  proof (induction ms arbitrary: v)
    case (Cons m ms)
    then have "foldl (\<lambda>v n. v * 65536 + n) (v * 65536 + m) ms < (v * 65536 + m + 1) * 65536 ^ length ms" by simp
    also have "\<dots> \<le> (v * 65536 + 65536) * 65536 ^ length ms" using Cons.prems by (intro mult_right_mono) simp_all
    finally show ?case by (simp add: algebra_simps)
  qed simp
  from this [of ns 0] spells6_range [OF assms] show ?thesis by (simp add: address_value_def)
qed

lemma quad_value_parts:
  assumes "list_all (\<lambda>k. k < 256) [a, b, c, d]"
  shows "quad_value a b c d < 2 ^ 32" "quad_value a b c d div 2 ^ 24 = a" "quad_value a b c d div 2 ^ 16 mod 256 = b"
proof -
  have lt: "a < 256" "b < 256" "c < 256" "d < 256" using assms by simp_all
  then show "quad_value a b c d < 2 ^ 32" by (simp add: quad_value_def)
  have w: "quad_value a b c d div 2 ^ 16 = a * 256 + b" using lt by (auto simp: quad_value_def div_range)
  with lt(2) show "quad_value a b c d div 2 ^ 16 mod 256 = b" by simp
  have "quad_value a b c d div 2 ^ 24 = quad_value a b c d div 2 ^ 16 div 256" by (simp add: div_mult2_eq [symmetric])
  with w lt(2) show "quad_value a b c d div 2 ^ 24 = a" by simp
qed

lemma quad_mapped: "(r :: nat) < m \<Longrightarrow> (k * m + r) div m = k" "(r :: nat) < m \<Longrightarrow> (k * m + r) mod m = r"
  by simp_all

lemma private_mapped:
  assumes "list_all (\<lambda>k. k < 256) [a, b, c, d]"
  shows "private_ipv6 (0xffff * 2 ^ 32 + quad_value a b c d) \<longleftrightarrow> private_octets a b"
    and "link_local_ipv6 (0xffff * 2 ^ 32 + quad_value a b c d) \<longleftrightarrow> a = 169 \<and> b = 254"
proof -
  let ?n = "0xffff * 2 ^ 32 + quad_value a b c d"
  note p = quad_value_parts [OF assms]
  note h = quad_mapped [OF p(1)]
  have u: "?n div 2 ^ 118 = 0" "?n div 2 ^ 120 = 0" using p(1) by simp_all
  have o: "isPrivateIpv4Number (low_word ?n) \<longleftrightarrow> private_octets a b"
    unfolding isPrivateIpv4Number_octets unat_low_word h(2) p(2,3) ..
  have z: "\<not> (?n = 0 \<or> ?n = 1)" by simp
  show "private_ipv6 ?n \<longleftrightarrow> private_octets a b"
    unfolding private_ipv6_def o drop_bit_eq_div h(1) u using z by simp
  have w: "quad_value a b c d div 2 ^ 16 = a * 256 + b \<and> b < 256"
    using p(2,3) assms div_mult_mod_eq [of "quad_value a b c d div 2 ^ 16" 256] by (simp add: div_mult2_eq [symmetric])
  have "link_local_ipv6 ?n \<longleftrightarrow> in_block 32 (quad_value a b c d) link_local_block"
    unfolding link_local_ipv6_def drop_bit_eq_div [where 'a = nat] h(1) using link_local_word [of "low_word ?n"]
    by (simp only: unat_low_word h(2)) simp
  also have "\<dots> \<longleftrightarrow> a * 256 + b = 169 * 256 + 254"
    using w by (simp add: in_block_def link_local_block_def quad_value_def)
  also have "\<dots> \<longleftrightarrow> a = 169 \<and> b = 254" using w by (intro two_digits) simp_all
  finally show "link_local_ipv6 ?n \<longleftrightarrow> a = 169 \<and> b = 254" .
qed

lemma mapped_spelling:
  assumes "spells6 t ns" and "mapped_ipv4 t = Some q"
  shows "\<exists>a b c d. list_all (\<lambda>k. k < 256) [a, b, c, d] \<and> quad_octets q = [a, b, c, d] \<and>
    address_value ns = 0xffff * 2 ^ 32 + quad_value a b c d"
proof -
  have "take 7 t = ''::ffff:''" "q = drop 7 t" and parts: "length (js_split CHR ''.'' q) = 4"
    "list_all (\<lambda>p. p \<noteq> [] \<and> list_all is_digit p) (js_split CHR ''.'' q)"
    using assms(2) by (auto simp: mapped_ipv4_def Let_def split: if_splits)
  then have t: "t = ''::ffff:'' @ q" using append_take_drop_id [of 7 t] by metis
  have qc: "is_digit c \<or> c = CHR ''.''" if "c \<in> set q" for c
    using js_join_set [of c "''.''" "js_split CHR ''.'' q"] that parts(2) js_join_split [of "CHR ''.''" q]
    by (auto simp: list_all_iff)
  then have colon: "CHR '':'' \<notin> set q" using qc [of "CHR '':''"] by (auto simp: is_digit_def)
  have dot: "CHR ''.'' \<in> set q" using parts(1) by (rule_tac ccontr) (simp add: js_split_id)
  have cut: "cut_double t = ([], Some (''ffff:'' @ q))" by (simp add: t)
  from assms(1) show ?thesis
  proof cases
    case (whole fs)
    then show ?thesis using cut groups_count [OF whole(2)] by (simp add: cut_double_join)
  next
    case (elided ls ns' rs ms)
    have e: "js_join '':'' ls = []" "js_join '':'' rs = ''ffff:'' @ q"
      using cut cut_double_join(2) [OF segments_plain [OF elided(3)]] unfolding elided(1) by simp_all
    have ls: "ls = []" using e(1) fields_join [OF segments_plain [OF elided(3)]] by (simp add: colon_fields_def)
    have "rs = colon_fields (js_join '':'' rs)" using groups_count [OF elided(4)] fields_join by simp
    also have "\<dots> = [''ffff'', q]" unfolding e(2) using colon by (simp add: colon_fields_def js_split_id)
    finally have rs: "rs = [''ffff'', q]" .
    have f: "n = 0xffff" if "segment ''ffff'' n" for n using that by (simp add: segment_def radix_digit_def)
    have nq: "\<not> segment q n" for n using dot segment_chars(2) by blast
    obtain a b c d where d: "q = quad_text [a, b, c, d]" "ms = [0xffff, a * 256 + b, c * 256 + d]"
      "list_all (\<lambda>k. k < 256) [a, b, c, d]"
    proof -
      from elided(4) obtain m where m: "ms = 0xffff # m" "groups [q] m"
        unfolding rs by (cases rule: groups.cases) (auto dest: f)
      from m(2) nq show ?thesis
        by (cases rule: groups.cases) (auto intro: that simp: m(1))
    qed
    have "address_value ns = 0xffff * 2 ^ 32 + quad_value a b c d"
    proof -
      have "foldl (\<lambda>v n. v * 65536 + n) (0 :: nat) (replicate k 0) = 0" for k by (induction k) simp_all
      moreover have "ns' = []" using elided(3) by (simp add: ls)
      ultimately show ?thesis using elided(2) d(2) by (simp add: address_value_def quad_value_def)
    qed
    then show ?thesis using d(1,3) quad_text_is_quad(3) [OF d(3)] by blast
  qed
qed

lemma quad_spelling:
  assumes "list_all (\<lambda>k. k < 256) [a, b, c, d]"
  shows "strip_brackets (js_lower (quad_text [a, b, c, d])) = quad_text [a, b, c, d]"
    and "ipv4_text (quad_text [a, b, c, d]) = Some (quad_text [a, b, c, d])"
proof -
  have "strip_brackets (quad_text [a, b, c, d]) = quad_text [a, b, c, d]"
    by (intro strip_none) (auto dest!: quad_text_chars simp: is_digit_def)
  then show "strip_brackets (js_lower (quad_text [a, b, c, d])) = quad_text [a, b, c, d]" by (simp add: lower_quad)
  have "take 7 (quad_text [a, b, c, d]) \<noteq> ''::ffff:''"
  proof
    assume "take 7 (quad_text [a, b, c, d]) = ''::ffff:''"
    then have "CHR '':'' \<in> set (take 7 (quad_text [a, b, c, d]))" by simp
    then show False using quad_text_plain(1) [of a b c d] by (auto simp: plain_def dest: in_set_takeD)
  qed
  then show "ipv4_text (quad_text [a, b, c, d]) = Some (quad_text [a, b, c, d])"
    using quad_text_is_quad(2) [OF assms] by (simp add: ipv4_text_def mapped_ipv4_def Let_def)
qed

text \<open>The verdicts on a text that, without brackets and in lower case, spells an address.\<close>

lemma spells6_verdict:
  assumes "spells6 t ns" and v: "strip_brackets (js_lower address) = t"
  shows "isPrivateAddress address \<longleftrightarrow> private_ip (IPv6 (address_value ns))"
    and "isLinkLocalAddress address \<longleftrightarrow> link_local_ip (IPv6 (address_value ns))"
proof -
  note p = spells6_parse [OF assms(1)]
  have priv: "private_ip (IPv6 (address_value ns)) \<longleftrightarrow> private_ipv6 (address_value ns)"
    using private_ipv6_blocks [OF address_value_range [OF assms(1)]] by simp
  have link: "link_local_ip (IPv6 (address_value ns)) \<longleftrightarrow> link_local_ipv6 (address_value ns)"
    by (rule link_local_ipv6_blocks [symmetric])
  show "isPrivateAddress address \<longleftrightarrow> private_ip (IPv6 (address_value ns))"
    "isLinkLocalAddress address \<longleftrightarrow> link_local_ip (IPv6 (address_value ns))"
  proof (atomize (full), cases "mapped_ipv4 t")
    case None
    then have "ipv4_text t = None" using p(1) by (simp add: ipv4_text_def)
    then show "(isPrivateAddress address \<longleftrightarrow> private_ip (IPv6 (address_value ns))) \<and>
      (isLinkLocalAddress address \<longleftrightarrow> link_local_ip (IPv6 (address_value ns)))"
      unfolding priv link by (simp add: isPrivateAddress_def isLinkLocalAddress_def v Let_def p(2))
  next
    case (Some q)
    from mapped_spelling [OF assms(1) Some] obtain a b c d where m: "list_all (\<lambda>k. k < 256) [a, b, c, d]"
      "quad_octets q = [a, b, c, d]" "address_value ns = 0xffff * 2 ^ 32 + quad_value a b c d" by blast
    have "ipv4_text t = Some q" using Some by (simp add: ipv4_text_def)
    then show "(isPrivateAddress address \<longleftrightarrow> private_ip (IPv6 (address_value ns))) \<and>
      (isLinkLocalAddress address \<longleftrightarrow> link_local_ip (IPv6 (address_value ns)))"
      unfolding priv link unfolding m(3) private_mapped [OF m(1)]
      by (simp add: isPrivateAddress_def isLinkLocalAddress_def v Let_def m(2))
  qed
qed

lemma quad_verdict:
  assumes "list_all (\<lambda>k. k < 256) [a, b, c, d]"
  shows "isPrivateAddress (quad_text [a, b, c, d]) \<longleftrightarrow> private_ip (IPv4 (quad_value a b c d))"
    and "isLinkLocalAddress (quad_text [a, b, c, d]) \<longleftrightarrow> link_local_ip (IPv4 (quad_value a b c d))"
proof -
  note s = quad_spelling [OF assms] and q = quad_text_is_quad(3) [OF assms] and p = quad_value_parts [OF assms]
  show "isPrivateAddress (quad_text [a, b, c, d]) \<longleftrightarrow> private_ip (IPv4 (quad_value a b c d))"
    using private_ipv4_blocks_octets [OF p(1)] unfolding p(2,3) by (simp add: isPrivateAddress_def s q)
  have "link_local_ipv6 (0xffff * 2 ^ 32 + quad_value a b c d) \<longleftrightarrow> link_local_ip (IPv4 (quad_value a b c d))"
  proof -
    have "in_block 128 (0xffff * 2 ^ 32 + quad_value a b c d) (mapped_block link_local_block) \<longleftrightarrow> in_block 32 (quad_value a b c d) link_local_block"
    proof -
      have b: "fst link_local_block < 2 ^ 32" "snd link_local_block \<le> 32" by (simp_all add: link_local_block_def quad_value_def)
      show ?thesis using in_mapped_block [OF b] unfolding prod.collapse by (simp only: quad_mapped [OF p(1)] simp_thms)
    qed
    moreover have "\<not> in_block 128 (0xffff * 2 ^ 32 + quad_value a b c d) (0xfe80 * 2 ^ 112, 10)"
      using p(1) by (simp add: in_block_def)
    ultimately show ?thesis unfolding link_local_ipv6_blocks by simp
  qed
  then show "isLinkLocalAddress (quad_text [a, b, c, d]) \<longleftrightarrow> link_local_ip (IPv4 (quad_value a b c d))"
    unfolding private_mapped(2) [OF assms] by (simp add: isLinkLocalAddress_def s q)
qed

lemma lower_spells: "spells text a \<Longrightarrow> spells (js_lower text) a"
  by (induction rule: spells.induct) (auto simp: lower_quad intro: spells.intros lower_spells6)

lemma spelling_verdict:
  assumes "spells text a" and "strip_brackets (js_lower address) = js_lower text"
  shows "isPrivateAddress address \<longleftrightarrow> private_ip a" and "isLinkLocalAddress address \<longleftrightarrow> link_local_ip a"
proof (atomize (full), use assms(1) in cases)
  case (ipv4 a' b c d)
  have "strip_brackets (js_lower address) = strip_brackets (js_lower text)"
    using assms(2) quad_spelling(1) [OF ipv4(3)] unfolding ipv4(1) by (simp add: lower_quad)
  then have "isPrivateAddress address = isPrivateAddress text" "isLinkLocalAddress address = isLinkLocalAddress text"
    by (simp_all add: isPrivateAddress_def isLinkLocalAddress_def)
  then show "(isPrivateAddress address \<longleftrightarrow> private_ip a) \<and> (isLinkLocalAddress address \<longleftrightarrow> link_local_ip a)"
    using quad_verdict [OF ipv4(3)] ipv4(1,2) by simp
next
  case (ipv6 ns)
  from spells6_verdict [OF lower_spells6 [OF ipv6(2)] assms(2)]
  show "(isPrivateAddress address \<longleftrightarrow> private_ip a) \<and> (isLinkLocalAddress address \<longleftrightarrow> link_local_ip a)"
    unfolding ipv6(1) by blast
qed

lemma spells_strip: "spells text a \<Longrightarrow> strip_brackets (js_lower text) = js_lower text"
proof (induction rule: spells.induct)
  case (ipv4 a b c d)
  then show ?case using quad_spelling(1) [OF ipv4] by (simp only: lower_quad)
qed (auto dest: lower_spells6 intro: spells6_strip)

lemma spells_private: "spells text a \<Longrightarrow> isPrivateAddress text \<longleftrightarrow> private_ip a"
  and spells_link_local: "spells text a \<Longrightarrow> isLinkLocalAddress text \<longleftrightarrow> link_local_ip a"
  using spelling_verdict spells_strip by blast+

text \<open>No spelling ends in a dot.\<close>

lemma groups_last: "groups fs ns \<Longrightarrow> fs \<noteq> [] \<Longrightarrow> js_join '':'' fs \<noteq> [] \<and> last (js_join '':'' fs) \<noteq> CHR ''.''"
proof (induction rule: groups.induct)
  case (group f n fs ns)
  have f: "f \<noteq> []" using segment_chars(1) [OF group(1)] by (simp add: plain_def)
  then have "last f \<noteq> CHR ''.''" using segment_chars(2) [OF group(1)] last_in_set [of f] by metis
  with f group.IH show ?case by (cases fs) auto
next
  case (quad a b c d)
  have "last (quad_text [a, b, c, d]) = last (nat_string d)" by (simp add: quad_text_def)
  moreover have "is_digit (last (nat_string d))" using nat_string_digits [of d] by simp
  ultimately have "last (quad_text [a, b, c, d]) \<noteq> CHR ''.''" by (auto simp: is_digit_def)
  then show ?case by (simp add: quad_text_def)
qed simp

lemma spells6_last: "spells6 t ns \<Longrightarrow> last t \<noteq> CHR ''.''"
proof (induction rule: spells6.induct)
  case (whole fs ns)
  then have "fs \<noteq> []" by (auto elim: groups.cases)
  then show ?case using groups_last [OF whole(1)] by blast
next
  case (elided ls ns rs ms)
  then show ?case using groups_last [OF elided(2)] by (cases "rs = []") auto
qed

lemma spells_isIP: "spells text a \<Longrightarrow> isIP text = 4 \<or> isIP text = 6"
  by (cases rule: spells.cases) (auto simp: quad_text_is_quad spells6_parse)

text \<open>A link-local address lies in a private block.\<close>

lemma link_local_private: "link_local_ip a \<Longrightarrow> private_ip a"
  by (cases a) (auto simp: private_ipv6_blocks_def private_ipv4_blocks_def link_local_block_def in_block_def div_eq_0_iff)

text \<open>C38. The verdict on an address depends on the address alone: every spelling of it (a dotted
  quad; eight groups in either case; groups with zeros elided at any place; with a dotted tail; each
  with or without brackets) is private exactly if the address lies in one of the blocks of the
  table of private networks, and link-local exactly if it lies in a link-local block.\<close>

theorem address_verdicts:
  assumes "spells text a" and "written \<in> {text, ''['' @ text @ '']''}"
  shows "(isPrivateAddress written \<longleftrightarrow> private_ip a) \<and> (isLinkLocalAddress written \<longleftrightarrow> link_local_ip a)"
proof -
  have "strip_brackets (js_lower (''['' @ text @ '']'')) = js_lower text"
    using strip_some [of "js_lower text"] by (simp add: js_lower_def js_lower_char_def)
  with assms(2) spells_strip [OF assms(1)] have "strip_brackets (js_lower written) = js_lower text" by auto
  from spelling_verdict [OF assms(1) this] show ?thesis by blast
qed

text \<open>The address of a cloud's metadata service, written as a mapped address with a dotted tail.\<close>

lemma sample_spelling: "spells ''::FFFF:169.254.169.254'' (IPv6 (address_value [0, 0, 0, 0, 0, 0xffff, 169 * 256 + 254, 169 * 256 + 254]))"
proof -
  have "groups [''FFFF'', quad_text [169, 254, 169, 254]] [0xffff, 169 * 256 + 254, 169 * 256 + 254]"
    by (intro groups.intros) (simp_all add: segment_def is_segment_def is_hex_def radix_digit_def)
  from spells.ipv6 [OF spells6.elided [where ls = "[]" and ns = "[]", OF _ this]]
  have "spells (js_join '':'' [] @ ''::'' @ js_join '':'' [''FFFF'', quad_text [169, 254, 169, 254]])
    (IPv6 (address_value (replicate 5 0 @ [0xffff, 169 * 256 + 254, 169 * 256 + 254])))" by simp
  moreover have "quad_text [169, 254, 169, 254] = ''169.254.169.254''" by code_simp
  moreover have "replicate 5 (0 :: nat) = [0, 0, 0, 0, 0]" by (simp add: numeral_eq_Suc)
  ultimately show ?thesis by simp
qed

theorem address_verdicts_witness:
  "isPrivateAddress ''[::FFFF:169.254.169.254]'' \<and> isLinkLocalAddress ''[::FFFF:169.254.169.254]''"
proof -
  let ?a = "IPv6 (address_value [0, 0, 0, 0, 0, 0xffff, 169 * 256 + 254, 169 * 256 + 254])"
  have "link_local_ip ?a"
    by (simp add: address_value_def in_block_def mapped_block_def link_local_block_def quad_value_def)
  with link_local_private [of ?a] address_verdicts [OF sample_spelling, of "''[::FFFF:169.254.169.254]''"]
  show ?thesis by simp
qed

end
