(* ===== verification/RemoteAccess.thy ===== *)
theory RemoteAccess
  imports NetworkAddress
begin

text \<open>
  Where the server lets itself be sent: the URL and the addresses of a remote connector
  (packages/adapters/src/remote-mcp.ts) and of a model server of the user's own
  (packages/adapters/src/openai-compatible-url.ts and pi-openai-compatible-provider.ts). The URL
  parser, the resolver and \<open>fetch\<close> belong to the platform and are parameters; \<open>fetch\<close> gets the
  lookup it resolves names with, unless the host is an address.
\<close>

record web_url =
  u_protocol :: string
  u_username :: string
  u_password :: string
  u_hash :: string
  u_hostname :: string
  u_pathname :: string
  u_origin :: string

text \<open>\<open>new URL\<close>; \<open>None\<close> is its error.\<close>

type_synonym url_parser = "string \<Rightarrow> web_url option"

definition ends_with :: "string \<Rightarrow> string \<Rightarrow> bool" where
  "ends_with suffix s \<longleftrightarrow> take (length suffix) (rev s) = rev suffix"

definition drop_dot :: "string \<Rightarrow> string" where
  "drop_dot s = (if s \<noteq> [] \<and> last s = CHR ''.'' then butlast s else s)"

section \<open>Remote connectors\<close>

definition isPrivateHostname :: "string \<Rightarrow> bool" where
  "isPrivateHostname hostname = (let normalized = drop_dot (js_lower hostname) in
     normalized = ''localhost'' \<or> ends_with ''.localhost'' normalized \<or> ends_with ''.local'' normalized \<or>
     ends_with ''.internal'' normalized \<or> normalized = ''metadata.google.internal'' \<or>
     (isIP normalized \<noteq> 0 \<and> isPrivateAddress normalized))"

definition assertPublicAddresses :: "resolved_address list \<Rightarrow> db_error + unit" where
  "assertPublicAddresses addresses =
     (if length addresses = 0 \<or> list_ex (\<lambda>entry. isPrivateAddress (ra_address entry)) addresses
      then Inl (Thrown ''Connector URL resolves to a private address'') else Inr ())"

definition assertSafeRemoteUrl :: "url_parser \<Rightarrow> resolver \<Rightarrow> string \<Rightarrow> db_error + web_url" where
  "assertSafeRemoteUrl parse resolve text = (case parse text of
     None \<Rightarrow> Inl (Thrown ''Connector URL is invalid'')
   | Some url \<Rightarrow>
       if u_protocol url \<noteq> ''https:'' then Inl (Thrown ''Connector URL must use HTTPS'')
       else if u_username url \<noteq> [] \<or> u_password url \<noteq> [] then Inl (Thrown ''Connector URL must not contain credentials'')
       else if u_hash url \<noteq> [] then Inl (Thrown ''Connector URL must not contain a fragment'')
       else (let hostname = strip_brackets (u_hostname url) in
         if isPrivateHostname hostname then Inl (Thrown ''Connector URL targets a private host'')
         else case resolve hostname of
           Inl e \<Rightarrow> Inl e
         | Inr addresses \<Rightarrow> (case assertPublicAddresses addresses of Inl e \<Rightarrow> Inl e | Inr _ \<Rightarrow> Inr url)))"

definition createSafeLookup :: "resolver \<Rightarrow> lookup" where
  "createSafeLookup resolve = createAddressCheckedLookup resolve assertPublicAddresses"

text \<open>The input of a fetch, the platform's \<open>fetch\<close> and the status it answers.\<close>

datatype fetch_input = UrlInput string | RequestInput string

type_synonym fetcher = "web_url \<Rightarrow> lookup \<Rightarrow> db_error + nat"

text \<open>A name is resolved when the URL is checked and again when \<open>fetch\<close> connects: \<open>resolve 0\<close> and \<open>resolve 1\<close>.\<close>

definition createSafeRemoteFetch :: "url_parser \<Rightarrow> fetcher \<Rightarrow> (nat \<Rightarrow> resolver) \<Rightarrow> fetch_input \<Rightarrow> db_error + nat" where
  "createSafeRemoteFetch parse baseFetch resolve input = (case input of
     RequestInput _ \<Rightarrow> Inl (Thrown ''Connector fetch requires a URL, not a Request'')
   | UrlInput text \<Rightarrow> (case assertSafeRemoteUrl parse (resolve 0) text of
       Inl e \<Rightarrow> Inl e
     | Inr url \<Rightarrow> (case baseFetch url (createSafeLookup (resolve 1)) of
         Inl e \<Rightarrow> Inl e
       | Inr status \<Rightarrow> if status \<ge> 300 \<and> status < 400 then Inl (Thrown ''Connector redirects are not allowed'') else Inr status)))"

section \<open>The tools of a connector\<close>

definition MAX_MCP_TOOLS :: nat where "MAX_MCP_TOOLS = 250"
definition MAX_MCP_PAGES :: nat where "MAX_MCP_PAGES = 20"
definition MAX_RESULT_BYTES :: nat where "MAX_RESULT_BYTES = 1000000"

text \<open>A page of the client's \<open>listTools\<close>: tools, and the cursor of the next page.\<close>

type_synonym 'tool tool_pages = "string option \<Rightarrow> db_error + 'tool list \<times> string option"

fun list_tools :: "nat \<Rightarrow> 'tool tool_pages \<Rightarrow> string option \<Rightarrow> 'tool list \<Rightarrow> db_error + 'tool list" where
  "list_tools 0 listTools cursor tools = Inr tools"
| "list_tools (Suc pages) listTools cursor tools =
     (if length tools < MAX_MCP_TOOLS
      then (case listTools cursor of
        Inl e \<Rightarrow> Inl e
      | Inr (new, nextCursor) \<Rightarrow> (let tools' = tools @ take (MAX_MCP_TOOLS - length tools) new in
          case nextCursor of
            None \<Rightarrow> Inr tools'
          | Some c \<Rightarrow> if c = [] then Inr tools' else list_tools pages listTools (Some c) tools'))
      else Inr tools)"

definition listRemoteMcpTools :: "'tool tool_pages \<Rightarrow> db_error + 'tool list" where
  "listRemoteMcpTools listTools = list_tools MAX_MCP_PAGES listTools None []"

definition limitPayload :: "json \<Rightarrow> json" where
  "limitPayload result = (let serialized = json_stringify result in
     if length serialized \<le> MAX_RESULT_BYTES then result
     else JObj [(''truncated'', JBool True), (''content'', JStr (take MAX_RESULT_BYTES serialized))])"

section \<open>Model servers\<close>

definition METADATA_HOSTS :: "string list" where
  "METADATA_HOSTS = [''metadata.google.internal'', ''metadata.goog'', ''169.254.169.254'']"

definition drop_slashes :: "string \<Rightarrow> string" where
  "drop_slashes s = rev (dropWhile (\<lambda>c. c = CHR ''/'') (rev s))"

text \<open>The path every base URL ends in.\<close>

definition api_path :: "string \<Rightarrow> string" where
  "api_path pathname = (let path = drop_slashes pathname in
     if ends_with ''/v1'' path then path else if path \<noteq> [] then path @ ''/v1'' else ''/v1'')"

definition normalizeOpenAiCompatibleBaseUrl :: "url_parser \<Rightarrow> string \<Rightarrow> db_error + string" where
  "normalizeOpenAiCompatibleBaseUrl parse raw = (case parse (js_trim raw) of
     None \<Rightarrow> Inl (Thrown ''Base URL must be an absolute HTTP(S) URL'')
   | Some url \<Rightarrow>
       if u_protocol url \<noteq> ''http:'' \<and> u_protocol url \<noteq> ''https:'' then Inl (Thrown ''Base URL must use http or https'')
       else if u_username url \<noteq> [] \<or> u_password url \<noteq> [] then Inl (Thrown ''Base URL must not contain credentials'')
       else Inr (u_origin url @ api_path (u_pathname url)))"

definition normalizeHostname :: "string \<Rightarrow> string" where
  "normalizeHostname hostname = drop_dot (strip_brackets (js_lower hostname))"

definition isPrivateOpenAiCompatibleHostname :: "string \<Rightarrow> bool" where
  "isPrivateOpenAiCompatibleHostname hostname = (let normalized = normalizeHostname hostname in
     if normalized = ''localhost'' \<or> ends_with ''.localhost'' normalized \<or> normalized = ''host.docker.internal'' then True
     else if normalized \<in> set METADATA_HOSTS then False
     else if isIP normalized = 4 \<or> isIP normalized = 6 then isPrivateAddress normalized
     else False)"

definition isBlockedHostname :: "string \<Rightarrow> bool" where
  "isBlockedHostname hostname = (let normalized = normalizeHostname hostname in
     normalized \<in> set METADATA_HOSTS \<or> (isIP normalized \<noteq> 0 \<and> isLinkLocalAddress normalized))"

text \<open>\<open>allowPublic\<close> is the option or the variable of the environment.\<close>

definition assertAllowedOpenAiCompatibleRequestUrl :: "url_parser \<Rightarrow> bool \<Rightarrow> string \<Rightarrow> db_error + web_url" where
  "assertAllowedOpenAiCompatibleRequestUrl parse allowPublic raw = (case parse raw of
     None \<Rightarrow> Inl (Thrown ''Model server URL must be an absolute HTTP(S) URL'')
   | Some url \<Rightarrow>
       if u_protocol url \<noteq> ''http:'' \<and> u_protocol url \<noteq> ''https:'' then Inl (Thrown ''Model server URL must use http or https'')
       else if u_username url \<noteq> [] \<or> u_password url \<noteq> [] then Inl (Thrown ''Model server URL must not contain credentials'')
       else (let hostname = normalizeHostname (u_hostname url) in
         if isBlockedHostname hostname then Inl (Thrown ''Base URL targets a blocked metadata or link-local host'')
         else if isPrivateOpenAiCompatibleHostname hostname then Inr url
         else if \<not> allowPublic then Inl (Thrown ''Public model endpoints are blocked. Set RAKAZO_OPENAI_COMPAT_ALLOW_PUBLIC=1 to allow them.'')
         else Inr url))"

definition assertAllowedOpenAiCompatibleUrl :: "url_parser \<Rightarrow> bool \<Rightarrow> string \<Rightarrow> db_error + web_url" where
  "assertAllowedOpenAiCompatibleUrl parse allowPublic raw = (case normalizeOpenAiCompatibleBaseUrl parse raw of
     Inl e \<Rightarrow> Inl e | Inr normalized \<Rightarrow> assertAllowedOpenAiCompatibleRequestUrl parse allowPublic normalized)"

definition validate_model_server :: "bool \<Rightarrow> resolved_address list \<Rightarrow> db_error + unit" where
  "validate_model_server privateHostname addresses =
     (if length addresses = 0 then Inl (Thrown ''Model server did not resolve to an address'')
      else if privateHostname
      then (if list_ex (\<lambda>entry. isIP (ra_address entry) = 0 \<or> \<not> isPrivateAddress (ra_address entry) \<or>
                  isLinkLocalAddress (ra_address entry)) addresses
            then Inl (Thrown ''Local model server hostname resolved outside the private network'') else Inr ())
      else if list_ex (\<lambda>entry. isPrivateAddress (ra_address entry)) addresses
      then Inl (Thrown ''Public model server hostname resolved to a private address'') else Inr ())"

definition createOpenAiCompatibleLookup :: "web_url \<Rightarrow> resolver \<Rightarrow> lookup" where
  "createOpenAiCompatibleLookup url resolve =
     (let hostname = strip_brackets (u_hostname url) in
      createAddressCheckedLookup resolve (validate_model_server (isPrivateOpenAiCompatibleHostname hostname)))"

text \<open>The fetch of a model server: a host that is an address needs no lookup. A redirect is an error of \<open>fetch\<close>.\<close>

type_synonym model_fetcher = "web_url \<Rightarrow> lookup option \<Rightarrow> db_error + nat"

definition createOpenAiCompatibleFetch :: "url_parser \<Rightarrow> bool \<Rightarrow> model_fetcher \<Rightarrow> resolver \<Rightarrow> string \<Rightarrow> db_error + nat" where
  "createOpenAiCompatibleFetch parse allowPublic baseFetch resolve rawUrl =
     (case assertAllowedOpenAiCompatibleRequestUrl parse allowPublic rawUrl of
        Inl e \<Rightarrow> Inl e
      | Inr url \<Rightarrow> baseFetch url
          (if isIP (strip_brackets (u_hostname url)) = 0 then Some (createOpenAiCompatibleLookup url resolve) else None))"

section \<open>What can be reached\<close>

text \<open>A text that is no address of a private network, or only ones that are in one and not link-local.\<close>

definition public_text :: "string \<Rightarrow> bool" where
  "public_text s \<longleftrightarrow> (\<forall>a. spells s a \<longrightarrow> \<not> private_ip a)"

definition local_text :: "string \<Rightarrow> bool" where
  "local_text s \<longleftrightarrow> (\<forall>a. spells s a \<longrightarrow> private_ip a \<and> \<not> link_local_ip a)"

definition hands_out :: "(string \<Rightarrow> bool) \<Rightarrow> lookup \<Rightarrow> bool" where
  "hands_out P l \<longleftrightarrow> (\<forall>hostname all family answer. l hostname all family = Inr answer \<longrightarrow> list_all P (handed_out answer))"

lemma checked_lookup_hands_out:
  assumes "\<And>addresses x. validate addresses = Inr () \<Longrightarrow> x \<in> set addresses \<Longrightarrow> P (ra_address x)"
  shows "hands_out P (createAddressCheckedLookup resolve validate)"
  unfolding hands_out_def
proof (intro allI impI)
  fix hostname all family answer
  assume "createAddressCheckedLookup resolve validate hostname all family = Inr answer"
  from checked_lookup_validates [OF this] assms show "list_all P (handed_out answer)"
    by (fastforce simp: list_all_iff)
qed

lemma public_address: "\<not> isPrivateAddress s \<Longrightarrow> public_text s"
  unfolding public_text_def using spells_private by blast

lemma safe_lookup_public: "hands_out public_text (createSafeLookup resolve)"
  unfolding createSafeLookup_def
  by (rule checked_lookup_hands_out) (auto simp: assertPublicAddresses_def list_ex_iff intro: public_address split: if_splits)

lemma spells_no_dot:
  assumes "spells s a"
  shows "drop_dot s = s"
  using assms
proof (cases rule: spells.cases)
  case (ipv4 a b c d)
  have "last s = last (nat_string d)" by (simp add: ipv4(1) quad_text_def)
  then have "is_digit (last s)" using nat_string_digits [of d] by simp
  then show ?thesis by (auto simp: drop_dot_def is_digit_def)
next
  case (ipv6 ns)
  then show ?thesis using spells6_last by (auto simp: drop_dot_def)
qed

lemma public_hostname: "\<not> isPrivateHostname hostname \<Longrightarrow> public_text hostname"
  unfolding public_text_def
proof (intro allI impI)
  fix a assume h: "\<not> isPrivateHostname hostname" and "spells hostname a"
  then have l: "spells (js_lower hostname) a" by (simp add: lower_spells)
  with h show "\<not> private_ip a"
    using spells_isIP [OF l] spells_private [OF l] by (auto simp: isPrivateHostname_def Let_def spells_no_dot [OF l])
qed

text \<open>The requests the fetch of a connector is allowed to make.\<close>

definition public_request :: "web_url \<Rightarrow> lookup \<Rightarrow> bool" where
  "public_request url l \<longleftrightarrow> u_protocol url = ''https:'' \<and> public_text (strip_brackets (u_hostname url)) \<and> hands_out public_text l"

lemma safe_url_public:
  assumes "assertSafeRemoteUrl parse resolve text = Inr url"
  shows "public_request url (createSafeLookup later)"
  using assms safe_lookup_public public_hostname
  by (auto simp: assertSafeRemoteUrl_def public_request_def Let_def split: option.splits if_splits sum.splits)

text \<open>C39. A connector reaches public addresses only: whatever URL it is given and whatever its name
  resolves to, now and when the connection is made, what happens at requests to a private address, or with a lookup that could hand one
  out, makes no difference to its answer.\<close>

theorem connector_stays_public:
  assumes "\<And>url l. public_request url l \<Longrightarrow> baseFetch url l = otherFetch url l"
  shows "createSafeRemoteFetch parse baseFetch resolve input = createSafeRemoteFetch parse otherFetch resolve input"
  using assms safe_url_public by (auto simp: createSafeRemoteFetch_def split: fetch_input.split sum.split)

text \<open>
  The requests the fetch of a model server is allowed to make. The host is checked after two
  normalizations and its lookup is chosen after one: on a host that still ends in a dot or a
  bracket after the first they disagree, and the lookup is the one for public servers.
\<close>

definition plain_host :: "string \<Rightarrow> bool" where
  "plain_host host \<longleftrightarrow> strip_brackets host = host \<and> strip_brackets (drop_dot host) = drop_dot host \<and>
     drop_dot (drop_dot host) = drop_dot host"

definition allowed_request :: "bool \<Rightarrow> web_url \<Rightarrow> lookup option \<Rightarrow> bool" where
  "allowed_request allowPublic url l \<longleftrightarrow> (let host = strip_brackets (u_hostname url) in
     (\<forall>a. spells host a \<longrightarrow> \<not> link_local_ip a \<and> (allowPublic \<or> private_ip a)) \<and>
     (case l of None \<Rightarrow> isIP host \<noteq> 0
      | Some l \<Rightarrow> hands_out local_text l \<or> (allowPublic \<or> \<not> plain_host host) \<and> hands_out public_text l))"

lemma local_address: "isPrivateAddress s \<Longrightarrow> \<not> isLinkLocalAddress s \<Longrightarrow> local_text s"
  unfolding local_text_def using spells_private spells_link_local by blast

lemma model_server_lookup:
  "hands_out (if isPrivateOpenAiCompatibleHostname (strip_brackets (u_hostname url)) then local_text else public_text)
     (createOpenAiCompatibleLookup url resolve)"
  unfolding createOpenAiCompatibleLookup_def Let_def
  by (rule checked_lookup_hands_out)
    (auto simp: validate_model_server_def list_ex_iff intro: local_address public_address split: if_splits)

lemma js_lower_idem: "js_lower (js_lower s) = js_lower s"
proof -
  have "js_lower_char (js_lower_char c) = js_lower_char c" for c
    by (cases "(65 \<le> (of_char c :: nat) \<and> (of_char c :: nat) \<le> 90) \<or> (192 \<le> (of_char c :: nat) \<and> (of_char c :: nat) \<le> 222 \<and> (of_char c :: nat) \<noteq> 215)")
      (auto simp: js_lower_char_def Let_def)
  then show ?thesis by (simp add: js_lower_def)
qed

lemma lower_low: "(of_char (js_lower_char c) :: nat) < 97 \<Longrightarrow> js_lower_char c = c"
  by (auto simp: js_lower_char_def Let_def split: if_splits)

lemma lower_punctuation:
  "js_lower_char c = CHR ''['' \<longleftrightarrow> c = CHR ''[''" "js_lower_char c = CHR '']'' \<longleftrightarrow> c = CHR '']''" "js_lower_char c = CHR ''.'' \<longleftrightarrow> c = CHR ''.''"
  using lower_low [of c] by (auto, auto simp: js_lower_char_def)

lemma lower_strip: "js_lower (strip_brackets s) = strip_brackets (js_lower s)"
  by (auto simp: strip_brackets_def js_lower_def Let_def hd_map last_map lower_punctuation map_tl [symmetric] map_butlast [symmetric])

lemma lower_drop_dot: "js_lower (drop_dot s) = drop_dot (js_lower s)"
  by (auto simp: drop_dot_def js_lower_def last_map lower_punctuation map_butlast [symmetric])

lemma spells_normalize: "spells s a \<Longrightarrow> normalizeHostname s = js_lower s"
  using spells_strip spells_no_dot [OF lower_spells] by (simp add: normalizeHostname_def)

lemma spells_end: "spells s a \<Longrightarrow> s \<noteq> [] \<and> (is_hex (last s) \<or> last s \<in> set '':.'')"
proof (induction rule: spells.induct)
  case (ipv4 a b c d)
  have "quad_text [a, b, c, d] \<noteq> []" by (simp add: quad_text_def)
  then show ?case using quad_text_chars [OF last_in_set] digit_is_hex by fastforce
next
  case (ipv6 t ns)
  have "t \<noteq> []" using spells6_parse(1) [OF ipv6] by (auto simp: isIP_def is_ip6_def ip6_body_def colon_fields_def is_quad_def split: if_splits)
  then show ?case using spells6_chars [OF ipv6 last_in_set] by blast
qed

lemma spells_not_named:
  assumes "spells s a"
  shows "s \<noteq> ''localhost''" "s \<noteq> ''host.docker.internal''" "\<not> ends_with ''.localhost'' s"
proof -
  have e: "s \<noteq> []" "last s \<noteq> CHR ''t''" "last s \<noteq> CHR ''l''"
    using spells_end [OF assms] by (auto simp: is_hex_def radix_digit_def)
  then show "s \<noteq> ''localhost''" "s \<noteq> ''host.docker.internal''" by auto
  show "\<not> ends_with ''.localhost'' s" using e(1,2) by (cases s rule: rev_cases) (auto simp: ends_with_def)
qed

lemma allowed_literal:
  assumes "assertAllowedOpenAiCompatibleRequestUrl parse allowPublic raw = Inr url"
    and "spells (strip_brackets (u_hostname url)) a"
  shows "\<not> link_local_ip a \<and> (allowPublic \<or> private_ip a)"
proof -
  let ?h = "js_lower (strip_brackets (u_hostname url))"
  have l: "spells ?h a" using assms(2) by (rule lower_spells)
  have n: "normalizeHostname (u_hostname url) = ?h"
    using spells_no_dot [OF l] by (simp add: normalizeHostname_def lower_strip)
  have n2: "normalizeHostname ?h = ?h" using spells_normalize [OF l] by (simp add: js_lower_idem)
  have "\<not> isBlockedHostname ?h" "isPrivateOpenAiCompatibleHostname ?h \<or> allowPublic"
    using assms(1) by (auto simp: assertAllowedOpenAiCompatibleRequestUrl_def n Let_def split: option.splits if_splits)
  then show ?thesis
    using spells_isIP [OF l] spells_private [OF l] spells_link_local [OF l] spells_not_named [OF l]
    by (auto simp: isBlockedHostname_def isPrivateOpenAiCompatibleHostname_def Let_def n2 split: if_splits)
qed

lemma allowed_name:
  assumes "assertAllowedOpenAiCompatibleRequestUrl parse allowPublic raw = Inr url"
    and "plain_host (strip_brackets (u_hostname url))"
  shows "isPrivateOpenAiCompatibleHostname (strip_brackets (u_hostname url)) \<or> allowPublic"
proof -
  let ?h = "strip_brackets (u_hostname url)"
  have p: "strip_brackets ?h = ?h" "strip_brackets (drop_dot ?h) = drop_dot ?h" "drop_dot (drop_dot ?h) = drop_dot ?h"
    using assms(2) by (simp_all add: plain_host_def)
  have n: "normalizeHostname (u_hostname url) = js_lower (drop_dot ?h)"
    by (simp add: normalizeHostname_def lower_strip [symmetric] lower_drop_dot)
  have "normalizeHostname ?h = js_lower (drop_dot ?h)"
    by (simp add: normalizeHostname_def lower_strip [symmetric] lower_drop_dot p(1))
  moreover have "normalizeHostname (js_lower (drop_dot ?h)) = js_lower (drop_dot ?h)"
    by (simp add: normalizeHostname_def js_lower_idem lower_strip [symmetric] lower_drop_dot [symmetric] p(2,3))
  ultimately have "isPrivateOpenAiCompatibleHostname (normalizeHostname (u_hostname url)) = isPrivateOpenAiCompatibleHostname ?h"
    by (simp add: isPrivateOpenAiCompatibleHostname_def n)
  then show ?thesis
    using assms(1) by (auto simp: assertAllowedOpenAiCompatibleRequestUrl_def Let_def split: option.splits if_splits)
qed

lemma allowed_url_request:
  assumes "assertAllowedOpenAiCompatibleRequestUrl parse allowPublic raw = Inr url"
  shows "allowed_request allowPublic url
    (if isIP (strip_brackets (u_hostname url)) = 0 then Some (createOpenAiCompatibleLookup url resolve) else None)"
  using allowed_literal [OF assms] allowed_name [OF assms] model_server_lookup [of url resolve]
  by (auto simp: allowed_request_def Let_def split: if_splits)


section \<open>The tools of a connector are bounded\<close>

lemma list_tools_bound: "list_tools pages listTools cursor tools = Inr result \<Longrightarrow> length tools \<le> MAX_MCP_TOOLS \<Longrightarrow>
  length result \<le> MAX_MCP_TOOLS \<and> take (length tools) result = tools"
proof (induction pages listTools cursor tools rule: list_tools.induct)
  case (2 pages listTools cursor tools)
  show ?case
  proof (cases "length tools < MAX_MCP_TOOLS")
    case True
    then obtain new next_cursor where p: "listTools cursor = Inr (new, next_cursor)"
      using 2(2) by (auto split: sum.splits)
    let ?t = "tools @ take (MAX_MCP_TOOLS - length tools) new"
    have len: "length ?t \<le> MAX_MCP_TOOLS" using True by simp
    show ?thesis
    proof (cases "next_cursor = None \<or> next_cursor = Some []")
      case True
      with p 2(2) \<open>length tools < MAX_MCP_TOOLS\<close> have "result = ?t" by (auto simp: Let_def)
      with len show ?thesis by simp
    next
      case False
      then obtain c where c: "next_cursor = Some c" "c \<noteq> []" by auto
      with p 2(2) \<open>length tools < MAX_MCP_TOOLS\<close> have "list_tools pages listTools (Some c) ?t = Inr result" by (auto simp: Let_def)
      from 2(1) [OF \<open>length tools < MAX_MCP_TOOLS\<close> p refl refl c(1) c(2) this len]
      have "length result \<le> MAX_MCP_TOOLS" "take (length ?t) result = ?t" by blast+
      moreover from this(2) have "take (length tools) result = tools"
        by (metis append_eq_conv_conj append_take_drop_id append_assoc)
      ultimately show ?thesis by simp
    qed
  qed (use 2 in simp)
qed simp

section \<open>Samples\<close>

definition sample_web_url :: "string \<Rightarrow> web_url" where
  "sample_web_url hostname = \<lparr>u_protocol = ''https:'', u_username = [], u_password = [], u_hash = [],
     u_hostname = hostname, u_pathname = ''/'', u_origin = ''https://'' @ hostname\<rparr>"

lemma private_sample: "spells ''10.0.0.1'' (IPv4 (quad_value 10 0 0 1))" "private_ip (IPv4 (quad_value 10 0 0 1))"
proof -
  have "quad_text [10, 0, 0, 1] = ''10.0.0.1''" by code_simp
  then show "spells ''10.0.0.1'' (IPv4 (quad_value 10 0 0 1))" using spells.ipv4 [of 10 0 0 1] by simp
  show "private_ip (IPv4 (quad_value 10 0 0 1))" by (simp add: private_ipv4_blocks_def in_block_def quad_value_def)
qed

text \<open>A fetch that would answer from the private network, and a name that moves there after the check.\<close>

definition leaky_fetch :: fetcher where
  "leaky_fetch url l = (case l (u_hostname url) False None of
     Inr (OneAddress address family) \<Rightarrow> if address = ''10.0.0.1'' then Inr 200 else Inl (Thrown ''unreachable'')
   | _ \<Rightarrow> Inl (Thrown ''unreachable''))"

definition rebound :: "nat \<Rightarrow> resolver" where
  "rebound n hostname = Inr [\<lparr>ra_address = (if n = 0 then ''8.8.8.8'' else ''10.0.0.1''), ra_family = 4\<rparr>]"

theorem connector_stays_public_witness:
  "createSafeRemoteFetch (\<lambda>text. Some (sample_web_url text)) leaky_fetch rebound (UrlInput ''tools.example'') =
   createSafeRemoteFetch (\<lambda>text. Some (sample_web_url text)) (\<lambda>url l. Inl (Thrown ''unreachable'')) rebound (UrlInput ''tools.example'')"
proof (rule connector_stays_public)
  fix url l assume "public_request url l"
  then have "l (u_hostname url) False None \<noteq> Inr (OneAddress ''10.0.0.1'' family)" for family
    using private_sample by (fastforce simp: public_request_def hands_out_def public_text_def)
  then show "leaky_fetch url l = Inl (Thrown ''unreachable'')"
    by (auto simp: leaky_fetch_def split: sum.split lookup_answer.split)
qed

text \<open>The same with the address itself as the host of a model server, and public hosts switched off.\<close>

definition leaky_model_fetch :: model_fetcher where
  "leaky_model_fetch url l = (if u_hostname url = ''8.8.8.8'' then Inr 200 else Inl (Thrown ''unreachable''))"

lemma public_sample: "spells ''8.8.8.8'' (IPv4 (quad_value 8 8 8 8))" "\<not> private_ip (IPv4 (quad_value 8 8 8 8))"
proof -
  have "quad_text [8, 8, 8, 8] = ''8.8.8.8''" by code_simp
  then show "spells ''8.8.8.8'' (IPv4 (quad_value 8 8 8 8))" using spells.ipv4 [of 8 8 8 8] by simp
  show "\<not> private_ip (IPv4 (quad_value 8 8 8 8))" by (simp add: private_ipv4_blocks_def in_block_def quad_value_def)
qed


text \<open>
  The resolver of the platform answers a link-local address of IPv6 with its zone. A zoned text has
  no value for the parser, so it counts as private and as not link-local: the lookup of a local
  model server accepts it.
\<close>

lemma group_value_bad: "radix_val 16 0 g = None \<Longrightarrow> g \<noteq> [] \<Longrightarrow> group_value acc (gs @ [g]) = None"
  by (induction acc gs rule: group_value.induct) (auto split: option.splits)

lemma zoned_no_value: "parseIpv6 ''fe80::1%eth0'' = None" "isIP ''fe80::1%eth0'' = 6"
proof -
  let ?z = "''fe80::1%eth0''"
  have quad: "\<not> is_quad ?z" by (simp add: is_quad_def)
  have hex: "is_segment ''fe80''" "is_segment ''1''" by (simp_all add: is_segment_def is_hex_def radix_digit_def)
  then have "is_ip6 ?z"
    using field_count_last [of "''1''"]
    by (simp add: is_ip6_def ip6_body_def colon_fields_def zone_char_def is_digit_def Let_def)
  with quad show "isIP ?z = 6" by (simp add: isIP_def)
  moreover have "normalize_tail ?z = Some ?z" by (simp add: normalize_tail_def)
  moreover have "expand_groups ?z ?z = Some ((''fe80'' # replicate 6 ''0'') @ [''1%eth0''])"
    by (simp add: expand_groups_def colon_fields_def Let_def)
  moreover have "radix_val 16 0 ''1%eth0'' = None" by (simp add: radix_digit_def)
  ultimately show "parseIpv6 ?z = None" using group_value_bad by (simp add: parseIpv6_def del: group_value.simps append_Cons)
qed

lemma zoned_address_passes:
  "isPrivateAddress ''fe80::1%eth0''" "\<not> isLinkLocalAddress ''fe80::1%eth0''"
  "validate_model_server True [\<lparr>ra_address = ''fe80::1%eth0'', ra_family = 6\<rparr>] = Inr ()"
proof -
  have v: "strip_brackets (js_lower ''fe80::1%eth0'') = ''fe80::1%eth0''" "mapped_ipv4 ''fe80::1%eth0'' = None"
    by (simp_all add: strip_brackets_def js_lower_def js_lower_char_def mapped_ipv4_def)
  then show "isPrivateAddress ''fe80::1%eth0''" "\<not> isLinkLocalAddress ''fe80::1%eth0''"
    by (simp_all add: isPrivateAddress_def isLinkLocalAddress_def ipv4_text_def zoned_no_value Let_def)
  then show "validate_model_server True [\<lparr>ra_address = ''fe80::1%eth0'', ra_family = 6\<rparr>] = Inr ()"
    by (simp add: validate_model_server_def zoned_no_value)
qed

end
