(* ===== verification/BotArchive.thy ===== *)
theory BotArchive
  imports ComputerProvision Routines Samples
begin

text \<open>
  Bots that bots create and put away (packages/adapters/src/child-bots.ts): the run that starts a
  created bot, the choice of a bot to archive, and the archive itself. Creating the bot's row,
  destroying a bot, and the column \<open>pinned\<close> are not modelled: the rows of the bots a bot created
  are an argument. \<open>archiveBot_archives\<close> says what an archive leaves of its bot.
\<close>

section \<open>The run of a created bot\<close>

record spawn_input =
  si_workspaceId :: string
  si_userId :: string
  si_botId :: string
  si_threadId :: string
  si_sourceRunId :: string
  si_spawnKey :: string
  si_prompt :: string

record spawn_ids =
  sw_message :: string
  sw_task :: string
  sw_run :: string

definition spawn_nonce :: "spawn_input \<Rightarrow> string" where
  "spawn_nonce input = ''spawn:'' @ si_spawnKey input"

definition spawned_run :: "spawn_input \<Rightarrow> run \<Rightarrow> bool" where
  "spawned_run input r \<longleftrightarrow> r_workspaceId r = si_workspaceId input \<and> r_clientNonce r = Some (spawn_nonce input)"

definition spawn_run_row :: "time \<Rightarrow> spawn_ids \<Rightarrow> spawn_input \<Rightarrow> run" where
  "spawn_run_row now ids input = \<lparr>r_id = sw_run ids, r_workspaceId = si_workspaceId input, r_botId = si_botId input,
     r_threadId = si_threadId input, r_taskId = sw_task ids, r_userId = si_userId input, r_serviceIdentityId = None,
     r_status = Queued, r_trigger = TrigSpawn, r_error = None, r_leaseOwner = None, r_leaseFence = 0,
     r_leaseExpiresAt = None, r_checkpoint = None, r_clientNonce = Some (spawn_nonce input), r_sourceMessageId = None,
     r_routineId = None, r_startedAt = None, r_completedAt = None, r_createdAt = now, r_updatedAt = now\<rparr>"

definition spawn_tx :: "time \<Rightarrow> spawn_ids \<Rightarrow> spawn_input \<Rightarrow> run dbtx" where
  "spawn_tx now ids input =
     tx_bind (createThreadMessageInTransaction now (sw_message ids)
       \<lparr>mi_threadId = si_threadId input, mi_role = RoleUser, mi_blocks = [TextBlock (si_prompt input)], mi_botId = None,
        mi_replyToMessageId = None, mi_runId = Some (si_sourceRunId input), mi_clientNonce = None\<rparr>) (\<lambda>_.
     tx_bind (task_create \<lparr>t_id = sw_task ids, t_workspaceId = si_workspaceId input, t_botId = si_botId input,
       t_threadId = si_threadId input, t_userId = si_userId input, t_prompt = si_prompt input, t_status = Queued,
       t_updatedAt = now\<rparr>) (\<lambda>_.
     run_create (spawn_run_row now ids input)))"

definition ensureSpawnRun :: "(nat \<Rightarrow> db \<Rightarrow> db) \<Rightarrow> time \<Rightarrow> spawn_ids \<Rightarrow> spawn_input \<Rightarrow> run dbprog" where
  "ensureSpawnRun env now ids input =
     prog_bind (prog_gets (\<lambda>s. find (spawned_run input) (db_runs s))) (\<lambda>existing. case existing of
       Some r \<Rightarrow> prog_return r
     | None \<Rightarrow>
         prog_bind (prog_env (env 0)) (\<lambda>_.
         prog_catch (prog_tx (spawn_tx now ids input)) (\<lambda>error.
           prog_bind (prog_env (env 1)) (\<lambda>_.
           prog_bind (prog_gets (\<lambda>s. find (spawned_run input) (db_runs s))) (\<lambda>winner. case winner of
             Some r \<Rightarrow> prog_return r
           | None \<Rightarrow> prog_throw error)))))"

section \<open>The bot to archive\<close>

record spawned_bot =
  sb_id :: string
  sb_name :: string

definition confirmSpawnedBotName :: "string \<Rightarrow> string \<Rightarrow> string + unit" where
  "confirmSpawnedBotName confirmName botName =
     (if confirmName \<noteq> botName
      then Inl ''confirm_name must exactly match the bot's name. Refusing to archive.'' else Inr ())"

text \<open>The target \<open>archiveSpawnedBot\<close> hands to \<open>archiveBot\<close>, or its refusal.\<close>

definition archive_target :: "spawned_bot list \<Rightarrow> string \<Rightarrow> string \<Rightarrow> string option \<Rightarrow> string + spawned_bot" where
  "archive_target spawned spawnedByBotId confirm botId = (let confirmName = js_trim confirm in
     if confirmName = [] then Inl ''confirm_name is required. Refusing to archive.''
     else let given = truthy botId;
              matches = filter (\<lambda>b. if given then sb_id b = the botId else sb_name b = confirmName) spawned in
       if given \<and> matches = [] then Inl ''That bot was not created by this bot. Refusing to archive.''
       else if \<not> given \<and> matches = []
       then Inl (''This bot did not create a bot named '' @ [CHR 0x22] @ confirmName @ [CHR 0x22] @ ''. Refusing to archive.'')
       else if \<not> given \<and> length matches > 1
       then Inl (''More than one bot is named '' @ [CHR 0x22] @ confirmName @ [CHR 0x22] @ ''. Pass bot_id as well as confirm_name.'')
       else let target = hd matches in
         case confirmSpawnedBotName confirmName (sb_name target) of
           Inl e \<Rightarrow> Inl e
         | Inr _ \<Rightarrow> if sb_id target = spawnedByBotId then Inl ''A bot cannot archive itself with archive_bot.'' else Inr target)"

section \<open>Archiving\<close>

definition releasedComputerLease :: "computer \<Rightarrow> computer" where
  "releasedComputerLease c = c\<lparr>c_controlHolder := HolderNone, c_controlLeaseId := None, c_controlLeaseExpiresAt := None,
     c_controlBotId := None, c_controlRunId := None, c_executionRunId := None, c_executionBotId := None,
     c_executionLeaseExpiresAt := None\<rparr>"

definition bot_computer :: "string \<Rightarrow> computer \<Rightarrow> bool" where
  "bot_computer botId c \<longleftrightarrow> c_controlBotId c = Some botId \<or> c_executionBotId c = Some botId"

definition archive_tx :: "time \<Rightarrow> bot \<Rightarrow> string list \<Rightarrow> computer option \<Rightarrow> unit dbtx" where
  "archive_tx now b runIds dedicated =
     tx_bind (run_updateMany now (\<lambda>r. r_id r \<in> set runIds) (\<lambda>r. r\<lparr>r_status := Cancelled, r_completedAt := Some now\<rparr>)) (\<lambda>_.
     tx_bind (find_many db_runs (\<lambda>r. r_id r \<in> set runIds)) (\<lambda>runs.
     tx_bind (task_updateMany now (\<lambda>t. t_id t \<in> r_taskId ` set runs) (\<lambda>t. t\<lparr>t_status := Cancelled\<rparr>)) (\<lambda>_.
     tx_bind (update_many db_routines db_routines_update (\<lambda>r. rt_botId r = b_id b)
       (\<lambda>r. r\<lparr>rt_active := False, rt_nextRunAt := None\<rparr>)) (\<lambda>_.
     tx_bind (lease_deleteMany (\<lambda>l. l_botId l = b_id b)) (\<lambda>_.
     tx_bind (computer_updateMany now (bot_computer (b_id b)) releasedComputerLease) (\<lambda>_.
     tx_bind (case dedicated of None \<Rightarrow> tx_return 0
       | Some d \<Rightarrow> computer_updateMany now (\<lambda>c. c_id c = c_id d \<and> c_state c \<noteq> CompRunning) (\<lambda>c. c\<lparr>c_state := Stopped\<rparr>)) (\<lambda>_.
     tx_bind (bot_update now (\<lambda>r. b_id r = b_id b)
       (\<lambda>r. r\<lparr>b_archivedAt := Some (case b_archivedAt b of None \<Rightarrow> now | Some t \<Rightarrow> t)\<rparr>)) (\<lambda>_.
     tx_return ()))))))))"

definition releaseTeamComputerScreen :: "sandbox \<Rightarrow> bot \<Rightarrow> string option \<Rightarrow> unit dbprog" where
  "releaseTeamComputerScreen sb b dedicatedId =
     (if \<not> truthy (b_computerId b) \<or> b_computerId b = dedicatedId then prog_return ()
      else prog_bind (prog_gets (\<lambda>s. find (\<lambda>c. Some (c_id c) = b_computerId b) (db_computers s))) (\<lambda>computer.
        case computer of None \<Rightarrow> prog_return ()
        | Some c \<Rightarrow> if \<not> truthy (c_providerRef c) then prog_return ()
            else prog_bind (prog_lift (toComputerRef c)) (\<lambda>ref. ignore_error (call sb (CallReleaseScreen ref)))))"

definition archive_stop :: "sandbox \<Rightarrow> (nat \<Rightarrow> db \<Rightarrow> db) \<Rightarrow> time \<Rightarrow> computer \<Rightarrow> unit dbprog" where
  "archive_stop sb env now current =
     prog_bind (prog_lift (toComputerRef current)) (\<lambda>ref.
     prog_bind (checkpointAndRecordComputerWorkspace sb (env 7) now (c_id current) (c_homeKey current) ref) (\<lambda>_.
     prog_bind (call sb (CallStop ref)) (\<lambda>_.
     prog_bind (prog_env (env 8)) (\<lambda>_.
     prog_bind (prog_tx (computer_updateMany now (\<lambda>c. c_id c = c_id current \<and> c_state c = CompRunning
         \<and> c_providerRef c = c_providerRef current) (\<lambda>c. c\<lparr>c_state := Stopped\<rparr>))) (\<lambda>_.
     prog_return ())))))"

definition archive_dedicated :: "sandbox \<Rightarrow> (nat \<Rightarrow> db \<Rightarrow> db) \<Rightarrow> time \<Rightarrow> computer option \<Rightarrow> unit dbprog" where
  "archive_dedicated sb env now dedicated = (case dedicated of None \<Rightarrow> prog_return ()
   | Some d \<Rightarrow> prog_bind (prog_gets (\<lambda>s. find (\<lambda>c. c_id c = c_id d) (db_computers s))) (\<lambda>current.
       case current of None \<Rightarrow> prog_return ()
       | Some c \<Rightarrow> if truthy (c_providerRef c) \<and> c_state c = CompRunning
           then prog_bind (prog_env (env 6)) (\<lambda>_. archive_stop sb env now c) else prog_return ()))"

text \<open>The jobs are cancelled one after the other, whatever becomes of each.\<close>

fun cancel_keys :: "(string \<Rightarrow> bool) \<Rightarrow> string list \<Rightarrow> unit dbprog" where
  "cancel_keys fails [] = prog_return ()"
| "cancel_keys fails (k # ks) = prog_bind (ignore_error (job_cancel (fails k) k)) (\<lambda>_. cancel_keys fails ks)"

definition active_run_of :: "string \<Rightarrow> run \<Rightarrow> bool" where
  "active_run_of botId r \<longleftrightarrow> r_botId r = botId \<and> r_status r \<in> set ACTIVE_RUN_STATUSES"

text \<open>What follows the transaction of an archive.\<close>

definition archive_settle :: "sandbox \<Rightarrow> (nat \<Rightarrow> db \<Rightarrow> db) \<Rightarrow> (string \<Rightarrow> bool) \<Rightarrow> time \<Rightarrow> bot \<Rightarrow> computer option \<Rightarrow>
    run list \<Rightarrow> routine list \<Rightarrow> unit dbprog" where
  "archive_settle sb env fails now b dedicated activeRuns activeRoutines =
     prog_bind (prog_env (env 3)) (\<lambda>_.
     prog_bind (cancel_keys fails (map (\<lambda>r. runJobKey (r_id r)) activeRuns @ map (\<lambda>r. routineJobKey (rt_id r)) activeRoutines)) (\<lambda>_.
     prog_bind (prog_env (env 4)) (\<lambda>_.
     prog_bind (releaseTeamComputerScreen sb b (map_option c_id dedicated)) (\<lambda>_.
     prog_bind (prog_env (env 5)) (\<lambda>_.
     archive_dedicated sb env now dedicated)))))"

definition archiveBot :: "sandbox \<Rightarrow> (nat \<Rightarrow> db \<Rightarrow> db) \<Rightarrow> (string \<Rightarrow> bool) \<Rightarrow> (nat \<Rightarrow> time) \<Rightarrow> bot \<Rightarrow> unit dbprog" where
  "archiveBot sb env fails clock b =
     prog_bind (prog_lift (computerScopeKey Dedicated (b_workspaceId b) (Some (b_id b)))) (\<lambda>scopeKey.
     prog_bind (prog_gets (\<lambda>s. find (\<lambda>c. c_scopeKey c = scopeKey) (db_computers s))) (\<lambda>dedicated.
     prog_bind (prog_env (env 0)) (\<lambda>_.
     prog_bind (prog_gets (\<lambda>s. filter (active_run_of (b_id b)) (db_runs s))) (\<lambda>activeRuns.
     prog_bind (prog_env (env 1)) (\<lambda>_.
     prog_bind (prog_gets (\<lambda>s. filter (\<lambda>r. rt_botId r = b_id b \<and> rt_active r) (db_routines s))) (\<lambda>activeRoutines.
     prog_bind (prog_env (env 2)) (\<lambda>_.
     prog_bind (prog_tx (archive_tx (clock 0) b (map r_id activeRuns) dedicated)) (\<lambda>_.
     archive_settle sb env fails (clock 1) b dedicated activeRuns activeRoutines))))))))"

section \<open>A created bot is started once\<close>

lemma spawn_tx_run:
  assumes "spawn_tx now ids input s = Inr (r, s')"
  shows "r = spawn_run_row now ids input \<and> r \<in> set (db_runs s')"
  using assms by (auto simp: spawn_tx_def tx_bind_Inr create_row_Inr)

lemma ensureSpawnRun_stored:
  assumes "ensureSpawnRun env now ids input s = (Inr r, s')"
  shows "r \<in> set (db_runs s') \<and> spawned_run input r"
  using assms
  by (auto simp: ensureSpawnRun_def prog_bind_run prog_catch_def prog_tx_def commit_def spawn_run_row_def spawned_run_def
      dest!: spawn_tx_run find_SomeD split: option.splits sum.splits prod.splits)

text \<open>Starting a created bot again starts nothing: once the call has answered a run, another call
  with the same key, at any later time at which that run is still stored, answers a stored run of
  the key and changes nothing.\<close>

theorem spawn_starts_one_run:
  assumes "ensureSpawnRun env now ids input s = (Inr r, s1)"
    and "\<exists>q \<in> set (db_runs s2). r_id q = r_id r \<and> spawned_run input q"
    and "\<forall>p \<in> set (db_runs s2). \<forall>q \<in> set (db_runs s2). spawned_run input p \<longrightarrow> spawned_run input q \<longrightarrow> r_id p = r_id q"
  shows "spawned_run input r \<and> (\<exists>q. ensureSpawnRun env' now' ids' input s2 = (Inr q, s2) \<and> r_id q = r_id r)"
proof -
  obtain q where q: "find (spawned_run input) (db_runs s2) = Some q"
    using assms(2) by (cases "find (spawned_run input) (db_runs s2)") (auto simp: find_None_iff)
  then have "r_id q = r_id r" using assms(2,3) by (metis find_SomeD)
  with q show ?thesis using ensureSpawnRun_stored [OF assms(1)] by (simp add: ensureSpawnRun_def prog_bind_run)
qed

section \<open>What is archived\<close>

lemma archive_target_sound:
  assumes "archive_target spawned own confirm botId = Inr target"
  shows "target \<in> set spawned \<and> sb_name target = js_trim confirm \<and> sb_id target \<noteq> own \<and>
    (truthy botId \<longrightarrow> sb_id target = the botId) \<and>
    (\<not> truthy botId \<longrightarrow> filter (\<lambda>b. sb_name b = js_trim confirm) spawned = [target])"
proof (cases "truthy botId")
  case True
  let ?m = "filter (\<lambda>b. sb_id b = the botId) spawned"
  have m: "?m \<noteq> []" "target = hd ?m" "sb_name target = js_trim confirm" "sb_id target \<noteq> own"
    using assms True by (auto simp: archive_target_def confirmSpawnedBotName_def Let_def split: if_splits)
  then have "target \<in> set ?m" using hd_in_set by metis
  then show ?thesis using m(3,4) True by simp
next
  case False
  let ?m = "filter (\<lambda>b. sb_name b = js_trim confirm) spawned"
  have m: "?m \<noteq> []" "target = hd ?m" "sb_id target \<noteq> own" "length ?m \<le> 1"
    using assms False by (auto simp: archive_target_def confirmSpawnedBotName_def Let_def split: if_splits)
  then have one: "?m = [target]" by (cases ?m) auto
  have "target \<in> set ?m" unfolding one by simp
  then have "target \<in> set spawned" "sb_name target = js_trim confirm" by (simp_all only: set_filter mem_Collect_eq)
  then show ?thesis using m(3) one False by simp
qed

text \<open>What holds of the database once the transaction of an archive is through.\<close>

definition archived :: "string \<Rightarrow> db \<Rightarrow> bool" where
  "archived botId s \<longleftrightarrow>
     \<not> list_ex (active_run_of botId) (db_runs s) \<and>
     \<not> list_ex (\<lambda>r. rt_botId r = botId \<and> (rt_active r \<or> rt_nextRunAt r \<noteq> None)) (db_routines s) \<and>
     \<not> list_ex (\<lambda>l. l_botId l = botId) (db_leases s) \<and>
     \<not> list_ex (bot_computer botId) (db_computers s) \<and>
     list_all (\<lambda>q. b_id q = botId \<longrightarrow> b_archivedAt q \<noteq> None) (db_bots s)"

lemma archive_tx_frame:
  assumes "archive_tx now b runIds dedicated s = Inr (u, s')"
  shows "db_runs s' = updateMany (\<lambda>r. r_id r \<in> set runIds)
      (\<lambda>r. (r\<lparr>r_status := Cancelled, r_completedAt := Some now\<rparr>)\<lparr>r_updatedAt := now\<rparr>) (db_runs s)"
    and "db_routines s' = updateMany (\<lambda>r. rt_botId r = b_id b) (\<lambda>r. r\<lparr>rt_active := False, rt_nextRunAt := None\<rparr>) (db_routines s)"
    and "db_leases s' = deleteMany (\<lambda>l. l_botId l = b_id b) (db_leases s)"
    and "\<exists>p f. db_computers s' = updateMany p (\<lambda>c. (c\<lparr>c_state := Stopped\<rparr>)\<lparr>c_updatedAt := now\<rparr>)
      (updateMany (bot_computer (b_id b)) f (db_computers s)) \<and> (\<forall>c. \<not> bot_computer (b_id b) (f c)) \<and>
      (\<forall>c. c_id (f c) = c_id c)"
    and "db_bots s' = updateMany (\<lambda>r. b_id r = b_id b) (\<lambda>r. (r\<lparr>b_archivedAt := Some (case b_archivedAt b of None \<Rightarrow> now | Some t \<Rightarrow> t)\<rparr>)\<lparr>b_updatedAt := now\<rparr>) (db_bots s)"
proof -
  have n: "updateMany (\<lambda>c. False) f cs = cs" for f and cs :: "computer list" by (simp add: updateMany_none)
  show "db_runs s' = updateMany (\<lambda>r. r_id r \<in> set runIds)
      (\<lambda>r. (r\<lparr>r_status := Cancelled, r_completedAt := Some now\<rparr>)\<lparr>r_updatedAt := now\<rparr>) (db_runs s)"
    "db_routines s' = updateMany (\<lambda>r. rt_botId r = b_id b) (\<lambda>r. r\<lparr>rt_active := False, rt_nextRunAt := None\<rparr>) (db_routines s)"
    "db_leases s' = deleteMany (\<lambda>l. l_botId l = b_id b) (db_leases s)"
    "db_bots s' = updateMany (\<lambda>r. b_id r = b_id b) (\<lambda>r. (r\<lparr>b_archivedAt := Some (case b_archivedAt b of None \<Rightarrow> now | Some t \<Rightarrow> t)\<rparr>)\<lparr>b_updatedAt := now\<rparr>) (db_bots s)"
    using assms by (auto simp: archive_tx_def tx_bind_Inr update_one_Inr split: option.splits)
  have f: "\<not> bot_computer (b_id b) (releasedComputerLease c\<lparr>c_updatedAt := now\<rparr>)" "c_id (releasedComputerLease c\<lparr>c_updatedAt := now\<rparr>) = c_id c" for c
    by (simp_all add: bot_computer_def releasedComputerLease_def)
  have "\<exists>p. db_computers s' = updateMany p (\<lambda>c. (c\<lparr>c_state := Stopped\<rparr>)\<lparr>c_updatedAt := now\<rparr>)
      (updateMany (bot_computer (b_id b)) (\<lambda>c. releasedComputerLease c\<lparr>c_updatedAt := now\<rparr>) (db_computers s))"
  proof (cases dedicated)
    case None
    with assms show ?thesis
      by (intro exI [of _ "\<lambda>_. False"]) (auto simp: archive_tx_def tx_bind_Inr update_one_Inr n)
  next
    case (Some d)
    with assms show ?thesis
      by (intro exI [of _ "\<lambda>c. c_id c = c_id d \<and> c_state c \<noteq> CompRunning"]) (auto simp: archive_tx_def tx_bind_Inr update_one_Inr)
  qed
  with f show "\<exists>p f. db_computers s' = updateMany p (\<lambda>c. (c\<lparr>c_state := Stopped\<rparr>)\<lparr>c_updatedAt := now\<rparr>)
      (updateMany (bot_computer (b_id b)) f (db_computers s)) \<and> (\<forall>c. \<not> bot_computer (b_id b) (f c)) \<and>
      (\<forall>c. c_id (f c) = c_id c)"
    by (elim exE, intro exI conjI) auto
qed

lemma archive_tx_archived:
  assumes "archive_tx now b runIds dedicated s = Inr (u, s')"
    and cover: "\<And>r. r \<in> set (db_runs s) \<Longrightarrow> active_run_of (b_id b) r \<Longrightarrow> r_id r \<in> set runIds"
  shows "archived (b_id b) s'"
proof -
  note f = archive_tx_frame [OF assms(1)]
  have "\<not> list_ex (active_run_of (b_id b)) (db_runs s')"
    unfolding f(1) using cover by (auto simp: updateMany_def list_ex_iff active_run_of_def ACTIVE_RUN_STATUSES_def)
  moreover have "\<not> list_ex (\<lambda>r. rt_botId r = b_id b \<and> (rt_active r \<or> rt_nextRunAt r \<noteq> None)) (db_routines s')"
    unfolding f(2) by (auto simp: updateMany_def list_ex_iff)
  moreover have "\<not> list_ex (\<lambda>l. l_botId l = b_id b) (db_leases s')"
    unfolding f(3) by (auto simp: deleteMany_def list_ex_iff)
  moreover have "\<not> list_ex (bot_computer (b_id b)) (db_computers s')"
  proof -
    obtain p g where c: "db_computers s' = updateMany p (\<lambda>c. (c\<lparr>c_state := Stopped\<rparr>)\<lparr>c_updatedAt := now\<rparr>)
      (updateMany (bot_computer (b_id b)) g (db_computers s))" "\<And>c. \<not> bot_computer (b_id b) (g c)"
      using f(4) by blast
    have free: "\<not> list_ex (bot_computer (b_id b)) (updateMany (bot_computer (b_id b)) g (db_computers s))"
      using c(2) by (auto simp: updateMany_def list_ex_iff)
    have "\<not> list_ex (bot_computer (b_id b)) (updateMany p (\<lambda>c. (c\<lparr>c_state := Stopped\<rparr>)\<lparr>c_updatedAt := now\<rparr>) cs)"
      if "\<not> list_ex (bot_computer (b_id b)) cs" for cs
      using that by (auto simp: updateMany_def list_ex_iff bot_computer_def)
    from this [OF free] show ?thesis unfolding c(1) .
  qed
  moreover have "list_all (\<lambda>q. b_id q = b_id b \<longrightarrow> b_archivedAt q \<noteq> None) (db_bots s')"
    unfolding f(5) by (auto simp: updateMany_def list_all_iff)
  ultimately show ?thesis by (simp add: archived_def)
qed

text \<open>
  The runs to cancel are read before the transaction and cancelled by their identifiers alone: one
  that has been finished in between is cancelled again.
\<close>

lemma archive_overwrites_finished:
  assumes "archive_tx now b runIds dedicated s = Inr (u, s')" and "r \<in> set (db_runs s)" and "r_id r \<in> set runIds"
  shows "\<exists>r' \<in> set (db_runs s'). r_id r' = r_id r \<and> r_status r' = Cancelled \<and> r_leaseOwner r' = r_leaseOwner r"
proof -
  let ?f = "\<lambda>r. (r\<lparr>r_status := Cancelled, r_completedAt := Some now\<rparr>)\<lparr>r_updatedAt := now\<rparr>"
  have "?f r \<in> set (db_runs s')"
    unfolding archive_tx_frame(1) [OF assms(1)] updateMany_def using assms(2,3) by force
  then show ?thesis by (rule rev_bexI) simp
qed

section \<open>Nothing of an archived bot goes on\<close>

text \<open>What follows the transaction changes, of the database, only the state and the home of the bot's own computer.\<close>

definition rest_frame :: "db \<Rightarrow> db \<Rightarrow> bool" where
  "rest_frame s s' \<longleftrightarrow> db_runs s' = db_runs s \<and> db_routines s' = db_routines s \<and> db_leases s' = db_leases s \<and> db_bots s' = db_bots s \<and>
     map (\<lambda>c. (c_id c, c_scopeKey c, c_controlBotId c, c_executionBotId c)) (db_computers s') =
     map (\<lambda>c. (c_id c, c_scopeKey c, c_controlBotId c, c_executionBotId c)) (db_computers s)"

interpretation rest_frame: state_preorder rest_frame
  by unfold_locales (auto simp: rest_frame_def)

lemma bot_computer_core:
  assumes "map (\<lambda>c. (c_id c, c_scopeKey c, c_controlBotId c, c_executionBotId c)) cs' =
     map (\<lambda>c. (c_id c, c_scopeKey c, c_controlBotId c, c_executionBotId c)) cs"
  shows "list_ex (bot_computer i) cs' = list_ex (bot_computer i) cs"
  using assms by (induction cs' cs rule: list_induct2') (auto simp: bot_computer_def)

lemma rest_frame_archived: "rest_frame s s' \<Longrightarrow> archived i s \<Longrightarrow> archived i s'"
  using bot_computer_core [of "db_computers s'" "db_computers s" i] by (simp add: rest_frame_def archived_def)


named_theorems rest_rules

lemmas [rest_rules] = rest_frame.rel_rules rest_frame.prel_rules

lemma rest_computers [rest_rules]:
  assumes "\<And>c. (c_id (f c), c_scopeKey (f c), c_controlBotId (f c), c_executionBotId (f c)) =
    (c_id c, c_scopeKey c, c_controlBotId c, c_executionBotId c)"
  shows "tx_rel rest_frame (update_many db_computers db_computers_update p f)"
  using assms by (auto intro!: tx_relI simp: rest_frame_def map_updateMany)

lemma rest_calls [rest_rules]:
  "prog_rel rest_frame (log_call c)" "prog_rel rest_frame (job_cancel fail k)"
  by (auto simp: prog_rel_def log_call_def job_cancel_def rest_frame_def)

lemma rest_lift [rest_rules]: "prog_rel rest_frame (prog_lift r)"
  unfolding prog_lift_def by (cases r) (auto intro!: rest_rules)

lemma rest_env [rest_rules]: "(\<And>s. rest_frame s (env s)) \<Longrightarrow> prog_rel rest_frame (prog_env env)"
  by (simp add: prog_rel_def)

lemma rest_ignore [rest_rules]: "prog_rel rest_frame m \<Longrightarrow> prog_rel rest_frame (ignore_error m)"
  unfolding ignore_error_def by (intro rest_rules)

lemma rest_call [rest_rules]: "prog_rel rest_frame (call sb c)"
  unfolding call_def by (intro rest_rules)

lemma rest_cancel_keys [rest_rules]: "prog_rel rest_frame (cancel_keys fails ks)"
proof (induction ks)
  case (Cons k ks)
  show ?case unfolding cancel_keys.simps by (intro rest_rules Cons.IH)
qed (simp only: cancel_keys.simps rest_rules)

lemma rest_screen [rest_rules]: "prog_rel rest_frame (releaseTeamComputerScreen sb b d)"
  unfolding releaseTeamComputerScreen_def by (intro rest_rules)

lemma rest_dedicated [rest_rules]:
  assumes "\<And>i s. 3 \<le> i \<Longrightarrow> rest_frame s (env i s)"
  shows "prog_rel rest_frame (archive_dedicated sb env now dedicated)"
  unfolding archive_dedicated_def archive_stop_def checkpointAndRecordComputerWorkspace_def checkpointComputerWorkspace_def
  by (intro rest_rules assms) simp_all

definition no_new_run :: "string \<Rightarrow> db \<Rightarrow> db \<Rightarrow> bool" where
  "no_new_run i s s' \<longleftrightarrow> r_id ` set (filter (active_run_of i) (db_runs s')) \<subseteq> r_id ` set (filter (active_run_of i) (db_runs s))"

lemma rest_settle [rest_rules]:
  assumes "\<And>i s. 3 \<le> i \<Longrightarrow> rest_frame s (env i s)"
  shows "prog_rel rest_frame (archive_settle sb env fails now b dedicated rs qs)"
  unfolding archive_settle_def by (intro rest_rules assms) simp_all

text \<open>However the calls to the computer and to the queue end, even in an error: a bot whose archive
  got through its transaction has no active run, no routine due, no lease and no hold on a
  computer, provided no run of the bot began between the two.\<close>

theorem archiveBot_archives:
  assumes started: "no_new_run (b_id b) (env 0 s) (env 2 (env 1 (env 0 s)))"
    and rest: "\<And>i s. 3 \<le> i \<Longrightarrow> rest_frame s (env i s)"
    and run: "archiveBot sb env fails clock b s = (result, s')"
  shows "archived (b_id b) s' \<or> (\<exists>e. result = Inl e \<and> s' \<in> {s, env 2 (env 1 (env 0 s))})"
proof -
  let ?s1 = "env 0 s" let ?s2 = "env 2 (env 1 ?s1)"
  let ?ids = "map r_id (filter (active_run_of (b_id b)) (db_runs ?s1))"
  have cover: "r_id r \<in> set ?ids" if "r \<in> set (db_runs ?s2)" "active_run_of (b_id b) r" for r
    using started that by (auto simp: no_new_run_def)
  show ?thesis
  proof (cases "computerScopeKey Dedicated (b_workspaceId b) (Some (b_id b))")
    case (Inl e)
    with run show ?thesis by (auto simp: archiveBot_def prog_bind_run prog_lift_def)
  next
    case (Inr key)
    let ?d = "find (\<lambda>c. c_scopeKey c = key) (db_computers s)"
    show ?thesis
    proof (cases "archive_tx (clock 0) b ?ids ?d ?s2")
      case (Inl e)
      with run \<open>computerScopeKey _ _ _ = Inr key\<close> show ?thesis
        by (auto simp: archiveBot_def prog_bind_run prog_lift_def prog_tx_run)
    next
      case (Inr v)
      then obtain u t where tx: "archive_tx (clock 0) b ?ids ?d ?s2 = Inr (u, t)" by (cases v) auto
      have "\<exists>rs qs. archive_settle sb env fails (clock 1) b ?d rs qs t = (result, s')"
        using run tx \<open>computerScopeKey _ _ _ = Inr key\<close>
        by (simp add: archiveBot_def prog_bind_run prog_lift_def prog_tx_run del: One_nat_def) (intro exI, assumption)
      then obtain rs qs where "archive_settle sb env fails (clock 1) b ?d rs qs t = (result, s')" by (elim exE)
      from prog_relD [OF rest_settle this] rest have "rest_frame t s'" by simp
      then show ?thesis using rest_frame_archived archive_tx_archived [OF tx cover] by blast
    qed
  qed
qed

end
