(* ===== verification/Spec2Isabelle.thy ===== *)
theory Spec2Isabelle
  imports ThreadGuarantees EffectGate ComputerLease WorkspacePaths LiveProjection Redactor MessagePages EffectKey GroupMentions BotDelivery ComputerGuarantees Lifecycle ThreadFollow WorkspaceCancellation Compaction Provisioning RemoteAccess BotArchive
begin

text \<open>
  This development models the server core of the repository: bots with chat threads, runs that
  workers execute for them under leases, the computers those runs use, the routines that start
  them, and the managed product around it. File names are relative to src/packages unless they
  say otherwise.

  \<^bold>\<open>The program.\<close> A user's message (or an answer, a routine, another bot, a hand-over in a group)
  is a handler call that writes a message, a task and a queued run in one database transaction
  and publishes a job. A worker that gets the job claims the run by a lease with a fence number,
  prepares a session (model, computer, history) and consumes the events of the agent: text and
  tool calls become events of the thread, tool calls with an external effect pass the approval
  gate, and the session ends by finishing, pausing or requeueing the run. Clients follow the
  events of a thread and fold them into messages. A reconciler republishes what was lost. Old
  messages are compacted into a summary. The managed side decides which model a workspace may
  use, sets a customer's workspace up and takes it down.

  \<^bold>\<open>State.\<close> \<open>Store.db\<close> is the database: one list of rows per model of db/prisma/schema.prisma that
  a modelled handler touches, with the columns it reads or writes; \<open>Brandwell.managed\<close> adds
  the tables of the managed side. A handler that is one transaction is a \<open>tx\<close> (a function from
  the state to an error or a result with the new state, so an error rolls back); a handler of
  several statements is a \<open>prog\<close> (the state survives an error). Where a handler is not one
  transaction, the argument \<open>env\<close> is what other clients do to the database between its
  statements: a theorem that leaves \<open>env\<close> free, or bounds it only by what every other handler
  does, covers every interleaving at the granularity of the database's own statements. New
  identifiers, clocks, and the answers of what is outside the program (agent, sandbox provider,
  queue, calendar, digest, summarizer, operations of a customer's setup) are arguments.
  Errors are values: every \<open>throw\<close>, failed constraint and early return is a branch.

  \<^bold>\<open>Strings\<close> are lists of UTF-16 code units below 256; a regular expression of the source is a
  matcher written out on them, and where the source uses Unicode classes they are restricted to
  that range. Numbers that count (sequence numbers, fences, times in milliseconds) are \<open>nat\<close> or
  \<open>int\<close>, as the code keeps them far below \<open>2 ^ 53\<close>; nothing in the modelled code relies on
  wrap-around of them. A 32 bit \<open>number\<close> that is shifted and masked is a word, a \<open>bigint\<close> a \<open>nat\<close>.

  \<^bold>\<open>Theories.\<close>

  \<^item> \<open>Prelude\<close>, \<open>JsString\<close>, \<open>JsonText\<close>, \<open>Tables\<close>, \<open>Triples\<close>, \<open>Samples\<close>: the two monads with their rules,
    the laws of keyed tables, strings and JSON as JavaScript has them, the calls on a
    table (\<open>create\<close>, \<open>update\<close>, \<open>updateMany\<close>, \<open>deleteMany\<close> with the constraints of the schema), weakest
    preconditions for programs of several steps, and the rows the witnesses share.
  \<^item> \<open>Contracts\<close>, \<open>RunState\<close>, \<open>BackgroundJobs\<close>, \<open>Store\<close>: contracts/src/events.ts and ids.ts,
    core/src/run-state.ts and screen-lease.ts, adapter-kit/src/background-jobs.ts, the schema.
  \<^item> \<open>Messages\<close>, \<open>ThreadEvents\<close>, \<open>ThreadGuarantees\<close>, \<open>RunHistory\<close>: db/src/messages.ts and db/src/events.ts,
    every transaction of them (send, clear, answer, finalize, pause, resume, renew), what each does on
    every branch, that a stale worker writes nothing, that an answer is taken once, and the contract
    \<open>db_step\<close> of the rows of runs and effects that every handler keeps. The two logs of a thread
    are instances of the locale \<open>thread_log\<close>: numbers are unique and below the counter.
  \<^item> \<open>ActionApproval\<close>, \<open>EffectKey\<close>, \<open>EffectGate\<close>: core/src/action-approval.ts, answerable-ask.ts and
    approval-effect-key.ts, adapters/src/approval-effect.ts, run-secret.ts and the gate in
    executor.ts: an effect is claimed once and runs only when nobody has to be asked or the
    answer was yes.
  \<^item> \<open>RunExecutor\<close>, \<open>RunSession\<close>, \<open>RunGuarantees\<close>, \<open>SessionGuarantees\<close>, \<open>RunLiveness\<close>:
    adapters/src/executor.ts, the life of a run under its worker: claim, heartbeat, the loop over
    the agent's events, completion, failure, requeue. The lease of a run is an instance of the
    locale \<open>fenced_lease\<close> of \<open>LeaseContract\<close>: a superseded handle can neither renew nor release.
    However a session ends, its run is finished, paused or handed on.
  \<^item> \<open>Routines\<close>, \<open>Cron\<close>, \<open>JobReconciler\<close>: \<open>wakeRoutine\<close>, core/src/cron.ts and
    adapters/src/job-reconciler.ts: a routine fires once per due time, presets survive the
    editor, a stalled run is published again. The three scans are instances of the locale \<open>scan\<close>.
  \<^item> \<open>ComputerLease\<close>, \<open>ComputerSleep\<close>, \<open>ComputerProvision\<close>, \<open>ComputerGuarantees\<close>, \<open>WorkspacePaths\<close>:
    computer-lifecycle.ts, computer-control.ts, computer-idle.ts, computer-workspace.ts,
    managed-computer-lifecycle.ts and computer-support.ts of adapters/src: computers never stay
    between two states, never sleep under a lease and leave no orphaned sandbox; no path of a
    bot leaves its workspace.
  \<^item> \<open>BotArchive\<close>: adapters/src/child-bots.ts: a created bot is started once, a bot archives only
    bots it created, and an archived bot has no active run, no routine due and no lease.
  \<^item> \<open>LiveProjection\<close>, \<open>Redactor\<close>, \<open>MessagePages\<close>, \<open>ThreadFollow\<close>: core/src/events.ts,
    message-pages.ts and \<open>followThreadEvents\<close> of db/src/events.ts, the reader's side: the
    projection shows the log, the streaming redactor equals the batch one, a follower yields the
    log without a gap and never sleeps on an unread event.
  \<^item> \<open>GroupMentions\<close>, \<open>BotMessages\<close>, \<open>BotDelivery\<close>: core/src/group-mentions.ts and bot-messages.ts,
    adapters/src/bot-messages.ts and group-handoff.ts: chains of deliveries are bounded.
  \<^item> \<open>Lifecycle\<close>: all handlers that change runs, called in any order and interleaved at every statement;
    \<open>reaches\<close> is its reachability relation. Rows stay consistent, finished runs stay finished, no
    run is stranded, nothing appears behind a reader.
  \<^item> \<open>Compaction\<close>: adapters/src/history-compaction.ts: a summary covers exactly the messages up
    to the cursor, a clear beats a compaction, the backlog drains, a run sees no gap.
  \<^item> \<open>Brandwell\<close>, \<open>ManagedModels\<close>, \<open>WorkspaceCancellation\<close>, \<open>Provisioning\<close>: brandwell/src/model-routing.ts,
    runtime-model-resolver.ts, cancellation.ts, prisma-cancellation.ts and provisioning.ts: a
    managed run is entitled, each stage of a cancellation is worked by one worker and resumes
    after a failure, a cancelled workspace never runs, a setup is whole or undone.
  \<^item> \<open>NetworkAddress\<close>, \<open>RemoteAccess\<close>: adapters/src/network-address.ts, remote-mcp.ts, openai-compatible-url.ts
    and the fetch of pi-openai-compatible-provider.ts: every spelling of an address gets the verdict
    of its block in the tables of private networks (\<open>spells\<close> and \<open>in_block\<close> are the reference), and no
    request of a connector or model server leaves the networks it is allowed.

  \<^bold>\<open>Bounds.\<close> Loops over data are structural recursions or have a measure, so every definition is
  total. Loops that wait (\<open>followThreadEvents\<close>, the waits for a computer) are step relations or take
  the source's own number of attempts. The agent's events of a session are a list, as long as it
  may be: a session ends when they end. The batch sizes and windows (\<open>EVENT_BATCH_SIZE\<close>,
  \<open>HISTORY_WINDOW_SIZE\<close>, \<open>COMPACTION_BATCH_SIZE\<close>, the page of the reconciler) are the source's.

  \<^bold>\<open>Not modelled.\<close> The web, mobile and desktop clients and the HTTP routers of src/apps (their
  database handlers in db/src are); the tools a session applies, the assembly of prompts and
  the scripted runtime of executor.ts; the providers of sandboxes, models, voices, connectors and
  memory, which call services outside the repository and enter as parameters; the operations of
  prisma-provisioning.ts, prisma-sidekicks.ts and prisma-alerting.ts, which are calls to such
  services and single writes; timers, logging, push notifications and telemetry. A zod schema is
  modelled where its answer decides what a handler does; the database's isolation is
  that of one transaction at a time.
\<close>

end
